(* ===== verification/Bolt_Prelude.thy ===== *)
theory Bolt_Prelude
  imports Main "HOL-Library.Word" "HOL-Library.Monad_Syntax" "HOL-Library.Char_ord"
    "HOL-Library.List_Lexorder"
begin

unbundle bit_operations_syntax

text \<open>
  Shared vocabulary of the development: the machine integers of the C++ sources as words, byte
  strings, the \<open>require\<close> guard that turns a failed condition of a \<open>||\<close> chain into a failed
  computation, the big-endian integer codecs that \<open>src/src/protocol/protocol.cpp\<close> and
  \<open>src/src/storage/partition_log.cpp\<close> both define, and the collections of facts that the component
  theories feed to the simplifier.
\<close>

section \<open>Machine integers, bytes and strings\<close>

type_synonym u8 = "8 word"
type_synonym u16 = "16 word"
type_synonym u32 = "32 word"
type_synonym u64 = "64 word"
type_synonym bytes = "8 word list"

named_theorems wire_simps \<open>characterisations of the payload readers by the bytes they consume\<close>
named_theorems bolt_defs \<open>unfoldings of the plain message encoders and decoders\<close>

text \<open>The C++ code reads a \<open>std::string\<close> and a byte vector as the same memory.\<close>

definition byte_of_char :: "char \<Rightarrow> u8" where
  "byte_of_char c = of_nat (of_char c)"

definition char_of_byte :: "u8 \<Rightarrow> char" where
  "char_of_byte b = char_of (unat b)"

abbreviation bytes_of_string :: "string \<Rightarrow> bytes" where
  "bytes_of_string s \<equiv> map byte_of_char s"

abbreviation string_of_bytes :: "bytes \<Rightarrow> string" where
  "string_of_bytes bs \<equiv> map char_of_byte bs"

lemma of_char_less_256: "(of_char c :: nat) < 256"
  by (metis nat_of_char_less_256)

lemma unat_byte_of_char: "unat (byte_of_char c) = of_char c"
proof -
  have "unat (of_nat (of_char c) :: u8) = of_char c"
    using of_char_less_256 [of c] by (simp add: unsigned_of_nat take_bit_eq_mod)
  then show ?thesis by (simp add: byte_of_char_def)
qed

lemma char_of_byte_of_char [simp]: "char_of_byte (byte_of_char c) = c"
  by (simp add: char_of_byte_def unat_byte_of_char)

lemma byte_of_char_of_byte [simp]: "byte_of_char (char_of_byte b) = b"
proof -
  have "unat b < 256" using unsigned_less [of b] by simp
  then have "unat (byte_of_char (char_of_byte b)) = unat b"
    by (simp add: unat_byte_of_char char_of_byte_def)
  then show ?thesis by (rule unsigned_word_eqI)
qed

lemma string_bytes_inverse [simp]:
  "string_of_bytes (bytes_of_string s) = s" "bytes_of_string (string_of_bytes bs) = bs"
  by (simp_all add: comp_def)

lemma byte_of_char_comp [simp]:
  "char_of_byte \<circ> byte_of_char = id" "byte_of_char \<circ> char_of_byte = id"
  by (simp_all add: fun_eq_iff)

text \<open>A guard in the option monad: a false condition of the source's short-circuit chain fails.\<close>

definition require :: "bool \<Rightarrow> unit option" where
  "require b = (if b then Some () else None)"

lemma require_eq_Some [simp]: "(require b = Some u) \<longleftrightarrow> b"
  by (simp add: require_def)

lemma require_bind_eq_Some [simp]: "(require b \<bind> f = Some x) \<longleftrightarrow> b \<and> f () = Some x"
  by (simp add: require_def)

lemma require_eq_None [simp]: "(require b = None) \<longleftrightarrow> \<not> b"
  by (simp add: require_def)

section \<open>Big-endian integers\<close>

definition write_u16 :: "u16 \<Rightarrow> bytes" where
  "write_u16 value = [ucast (drop_bit 8 value AND 0xFF), ucast (value AND 0xFF)]"

definition write_u32 :: "u32 \<Rightarrow> bytes" where
  "write_u32 value =
     [ucast (drop_bit 24 value AND 0xFF), ucast (drop_bit 16 value AND 0xFF),
      ucast (drop_bit 8 value AND 0xFF), ucast (value AND 0xFF)]"

definition write_u64 :: "u64 \<Rightarrow> bytes" where
  "write_u64 value =
     map (\<lambda>shift. ucast (drop_bit shift value AND 0xFF)) [56, 48, 40, 32, 24, 16, 8, 0]"

definition read_u16_be :: "bytes \<Rightarrow> nat \<Rightarrow> u16" where
  "read_u16_be bs offset = push_bit 8 (ucast (bs ! offset)) OR ucast (bs ! (offset + 1))"

definition read_u32_be :: "bytes \<Rightarrow> nat \<Rightarrow> u32" where
  "read_u32_be bs offset =
     push_bit 24 (ucast (bs ! offset)) OR push_bit 16 (ucast (bs ! (offset + 1))) OR
     push_bit 8 (ucast (bs ! (offset + 2))) OR ucast (bs ! (offset + 3))"

definition read_u64_be :: "bytes \<Rightarrow> nat \<Rightarrow> u64" where
  "read_u64_be bs offset =
     fold (\<lambda>index value. push_bit 8 value OR ucast (bs ! (offset + index))) [0..<8] 0"

lemma length_write [simp]:
  "length (write_u16 a) = 2" "length (write_u32 b) = 4" "length (write_u64 c) = 8"
  by (simp_all add: write_u16_def write_u32_def write_u64_def)


lemma bit_byte_mask: "bit (0xFF :: int) n \<longleftrightarrow> n < 8"
proof -
  have "(0xFF :: int) = mask 8" by (simp add: mask_eq_exp_minus_1)
  then show ?thesis by (simp only: bit_mask_iff) simp
qed

lemma read_u64_be_unfold:
  "read_u64_be bs k =
     push_bit 56 (ucast (bs ! k)) OR push_bit 48 (ucast (bs ! Suc k)) OR
     push_bit 40 (ucast (bs ! Suc (Suc k))) OR push_bit 32 (ucast (bs ! Suc (Suc (Suc k)))) OR
     push_bit 24 (ucast (bs ! Suc (Suc (Suc (Suc k))))) OR
     push_bit 16 (ucast (bs ! Suc (Suc (Suc (Suc (Suc k)))))) OR
     push_bit 8 (ucast (bs ! Suc (Suc (Suc (Suc (Suc (Suc k))))))) OR
     ucast (bs ! Suc (Suc (Suc (Suc (Suc (Suc (Suc k)))))))"
  by (simp add: read_u64_be_def upt_rec push_bit_or or.assoc)

lemma byte_split_index: "n < m + 8 \<Longrightarrow> n < m \<or> (\<exists>r < 8. n = m + r)" for n :: nat
  by presburger

lemma read_write_u16: "read_u16_be (write_u16 v) 0 = v"
proof (rule bit_word_eqI)
  fix n assume "n < LENGTH(16)"
  then consider "n < 8" | r where "n = 8 + r" "r < 8"
    using byte_split_index [of n 8] by auto
  then show "bit (read_u16_be (write_u16 v) 0) n = bit v n"
    by cases (simp_all add: read_u16_be_def write_u16_def bit_simps bit_byte_mask)
qed

lemma read_write_u32: "read_u32_be (write_u32 v) 0 = v"
proof (rule bit_word_eqI)
  fix n assume "n < LENGTH(32)"
  then consider "n < 8" | r where "n = 8 + r" "r < 8" | r where "n = 16 + r" "r < 8"
    | r where "n = 24 + r" "r < 8"
    using byte_split_index [of n 24] byte_split_index [of n 16] byte_split_index [of n 8] by auto
  then show "bit (read_u32_be (write_u32 v) 0) n = bit v n"
    by cases (simp_all add: read_u32_be_def write_u32_def bit_simps bit_byte_mask)
qed

lemma read_write_u64: "read_u64_be (write_u64 v) 0 = v"
proof (rule bit_word_eqI)
  fix n assume "n < LENGTH(64)"
  then consider "n < 8" | r where "n = 8 + r" "r < 8" | r where "n = 16 + r" "r < 8"
    | r where "n = 24 + r" "r < 8" | r where "n = 32 + r" "r < 8" | r where "n = 40 + r" "r < 8"
    | r where "n = 48 + r" "r < 8" | r where "n = 56 + r" "r < 8"
    using byte_split_index [of n 56] byte_split_index [of n 48] byte_split_index [of n 40]
      byte_split_index [of n 32] byte_split_index [of n 24] byte_split_index [of n 16]
      byte_split_index [of n 8] by auto
  then show "bit (read_u64_be (write_u64 v) 0) n = bit v n"
    by cases (simp_all add: read_u64_be_unfold write_u64_def bit_simps bit_byte_mask)
qed

lemma write_read_u16: "write_u16 (read_u16_be [a, b] 0) = [a, b]"
  by (simp add: read_u16_be_def write_u16_def)
    (intro conjI bit_word_eqI; simp add: bit_simps bit_byte_mask; auto dest: bit_imp_le_length)

lemma write_read_u32: "write_u32 (read_u32_be [a, b, c, d] 0) = [a, b, c, d]"
  by (simp add: read_u32_be_def write_u32_def)
    (intro conjI bit_word_eqI; simp add: bit_simps bit_byte_mask; auto dest: bit_imp_le_length)

lemma write_read_u64:
  "write_u64 (read_u64_be [a, b, c, d, e, f, g, h] 0) = [a, b, c, d, e, f, g, h]"
  by (simp add: read_u64_be_unfold write_u64_def)
    (intro conjI bit_word_eqI; simp add: bit_simps bit_byte_mask; auto dest: bit_imp_le_length)

text \<open>
  Reading at an offset is the inverse of writing, in both directions: the value read is \<open>v\<close>
  exactly when the bytes at that offset are the encoding of \<open>v\<close>.
\<close>

lemma take_window:
  assumes "k + n \<le> length bs"
  shows "take n (drop k bs) = map (\<lambda>i. bs ! (k + i)) [0..<n]"
  using assms by (intro nth_equalityI) auto

lemma read_u16_window: "k + 2 \<le> length bs \<Longrightarrow> read_u16_be bs k = read_u16_be (take 2 (drop k bs)) 0"
  by (simp add: take_window read_u16_be_def)

lemma read_u32_window: "k + 4 \<le> length bs \<Longrightarrow> read_u32_be bs k = read_u32_be (take 4 (drop k bs)) 0"
  by (simp add: take_window read_u32_be_def)

lemma read_u64_window: "k + 8 \<le> length bs \<Longrightarrow> read_u64_be bs k = read_u64_be (take 8 (drop k bs)) 0"
  by (simp add: take_window read_u64_be_unfold)

lemma read_u16_be_iff:
  assumes "k + 2 \<le> length bs"
  shows "read_u16_be bs k = v \<longleftrightarrow> take 2 (drop k bs) = write_u16 v"
proof -
  have "take 2 (drop k bs) = [bs ! k, bs ! (k + 1)]"
    using assms by (simp add: take_window upt_rec)
  then show ?thesis
    using read_u16_window [OF assms] write_read_u16 read_write_u16 by metis
qed

lemma read_u32_be_iff:
  assumes "k + 4 \<le> length bs"
  shows "read_u32_be bs k = v \<longleftrightarrow> take 4 (drop k bs) = write_u32 v"
proof -
  have "take 4 (drop k bs) = [bs ! k, bs ! (k + 1), bs ! (k + 2), bs ! (k + 3)]"
    using assms by (simp add: take_window upt_rec eval_nat_numeral)
  then show ?thesis
    using read_u32_window [OF assms] write_read_u32 read_write_u32 by metis
qed

lemma read_u64_be_iff:
  assumes "k + 8 \<le> length bs"
  shows "read_u64_be bs k = v \<longleftrightarrow> take 8 (drop k bs) = write_u64 v"
proof -
  have "take 8 (drop k bs) = [bs ! k, bs ! (k + 1), bs ! (k + 2), bs ! (k + 3),
      bs ! (k + 4), bs ! (k + 5), bs ! (k + 6), bs ! (k + 7)]"
    using assms by (simp add: take_window upt_rec eval_nat_numeral)
  then show ?thesis
    using read_u64_window [OF assms] write_read_u64 read_write_u64 by metis
qed

lemma write_inject [simp]:
  "write_u16 a = write_u16 a' \<longleftrightarrow> a = a'"
  "write_u32 b = write_u32 b' \<longleftrightarrow> b = b'"
  "write_u64 c = write_u64 c' \<longleftrightarrow> c = c'"
  by (metis read_write_u16, metis read_write_u32, metis read_write_u64)

text \<open>Reading back a field of a concatenation of encoded fields.\<close>

lemma read_u16_append [simp]: "length pre = k \<Longrightarrow> read_u16_be (pre @ write_u16 v @ post) k = v"
  by (subst read_u16_be_iff) auto

lemma read_u32_append [simp]: "length pre = k \<Longrightarrow> read_u32_be (pre @ write_u32 v @ post) k = v"
  by (subst read_u32_be_iff) auto

lemma read_u64_append [simp]: "length pre = k \<Longrightarrow> read_u64_be (pre @ write_u64 v @ post) k = v"
  by (subst read_u64_be_iff) auto

lemma xor_cancel [simp]:
  "a XOR b = a XOR c \<longleftrightarrow> b = c" "b XOR a = c XOR a \<longleftrightarrow> b = c" for a b c :: "'a::len word"
  by (auto simp: bit_eq_iff bit_xor_iff)

section \<open>Runs\<close>

text \<open>Running a sequence of operations, and what they acknowledge on the way.\<close>

fun run_steps :: "('op \<Rightarrow> 's \<Rightarrow> 's) \<Rightarrow> 'op list \<Rightarrow> 's \<Rightarrow> 's" where
  "run_steps step [] s = s"
| "run_steps step (op # ops) s = run_steps step ops (step op s)"

fun run_rooms :: "('op \<Rightarrow> 's \<Rightarrow> bool) \<Rightarrow> ('op \<Rightarrow> 's \<Rightarrow> 's) \<Rightarrow> 'op list \<Rightarrow> 's \<Rightarrow> bool" where
  "run_rooms room step [] s = True"
| "run_rooms room step (op # ops) s \<longleftrightarrow> room op s \<and> run_rooms room step ops (step op s)"

fun run_outputs :: "('op \<Rightarrow> 's \<Rightarrow> 's) \<Rightarrow> ('op \<Rightarrow> 's \<Rightarrow> 'v list) \<Rightarrow> 'op list \<Rightarrow> 's \<Rightarrow> 'v list" where
  "run_outputs step out [] s = []"
| "run_outputs step out (op # ops) s = out op s @ run_outputs step out ops (step op s)"

section \<open>Results\<close>

lemma case_option_Inr [simp]:
  "(case x of None \<Rightarrow> Inl e | Some y \<Rightarrow> f y) = Inr m \<longleftrightarrow> (\<exists>y. x = Some y \<and> f y = Inr m)"
  by (cases x) simp_all

lemma if_Inl_eq_Inr [simp]: "(if b then Inl e else r) = Inr m \<longleftrightarrow> \<not> b \<and> r = Inr m"
  by simp

text \<open>A length written as a 32-bit integer and read back.\<close>

lemma unat_of_nat_u32 [simp]: "n < 2 ^ 32 \<Longrightarrow> unat (of_nat n :: u32) = n"
  by (simp add: unsigned_of_nat take_bit_eq_mod)

lemma unat_u32_less: "unat (w :: u32) < 2 ^ 32"
  using unsigned_less [of w] by simp

lemma unat_add_of_nat: "unat x + k < 2 ^ 64 \<Longrightarrow> unat (x + of_nat k) = unat x + k" for x :: u64
  by (simp add: unat_word_ariths unsigned_of_nat take_bit_eq_mod)

end
