(* ===== verification/Bolt_Wire.thy ===== *)
theory Bolt_Wire
  imports Bolt_Prelude
begin

text \<open>
  The payload layer of \<open>src/src/protocol/protocol.cpp\<close>: the length-prefixed writers, the bounds-checked
  \<open>PayloadReader\<close>, and the interface \<open>codec\<close> that every field, record and repeated field of a payload
  implements. The interface law is two-sided: a reader succeeds with value \<open>x\<close> exactly when the
  unread bytes start with the encoding of \<open>x\<close>. Round trips, canonicity of the encoding and the law
  for repeated fields are proved once inside the locale.
\<close>

section \<open>Error codes and decode results\<close>

text \<open>
  \<open>ErrorCode\<close> is a C++ enum with underlying type \<open>uint32_t\<close>: a cast from the wire can produce a value
  that no enumerator names, which is \<open>OtherErrorCode\<close>.
\<close>

datatype ErrorCode =
    InvalidMagic | UnsupportedVersion | InvalidLength | CrcMismatch | MalformedPayload
  | UnsupportedRequest | NotImplemented | InternalError | ReservedFlags | Unauthorized
  | UnknownTopic | TopicConflict | InvalidPartition | InvalidGroup | InvalidOffset | Overloaded
  | RebalanceRequired | StaleMember | OffsetOutOfRange | GroupActive | UnsupportedCodec
  | InvalidBatch | OtherErrorCode u32

fun error_code_value :: "ErrorCode \<Rightarrow> u32" where
  "error_code_value InvalidMagic = 1"
| "error_code_value UnsupportedVersion = 2"
| "error_code_value InvalidLength = 3"
| "error_code_value CrcMismatch = 4"
| "error_code_value MalformedPayload = 5"
| "error_code_value UnsupportedRequest = 6"
| "error_code_value NotImplemented = 7"
| "error_code_value InternalError = 8"
| "error_code_value ReservedFlags = 9"
| "error_code_value Unauthorized = 10"
| "error_code_value UnknownTopic = 11"
| "error_code_value TopicConflict = 12"
| "error_code_value InvalidPartition = 13"
| "error_code_value InvalidGroup = 14"
| "error_code_value InvalidOffset = 15"
| "error_code_value Overloaded = 16"
| "error_code_value RebalanceRequired = 17"
| "error_code_value StaleMember = 18"
| "error_code_value OffsetOutOfRange = 19"
| "error_code_value GroupActive = 20"
| "error_code_value UnsupportedCodec = 21"
| "error_code_value InvalidBatch = 22"
| "error_code_value (OtherErrorCode w) = w"

definition error_code_enumerators :: "ErrorCode list" where
  "error_code_enumerators =
     [InvalidMagic, UnsupportedVersion, InvalidLength, CrcMismatch, MalformedPayload,
      UnsupportedRequest, NotImplemented, InternalError, ReservedFlags, Unauthorized, UnknownTopic,
      TopicConflict, InvalidPartition, InvalidGroup, InvalidOffset, Overloaded, RebalanceRequired,
      StaleMember, OffsetOutOfRange, GroupActive, UnsupportedCodec, InvalidBatch]"

text \<open>\<open>static_cast<ErrorCode>(w)\<close>.\<close>

definition error_code_cast :: "u32 \<Rightarrow> ErrorCode" where
  "error_code_cast w =
     (case find (\<lambda>c. error_code_value c = w) error_code_enumerators of
        Some c \<Rightarrow> c | None \<Rightarrow> OtherErrorCode w)"

lemma error_code_value_cast [simp]: "error_code_value (error_code_cast w) = w"
  by (auto simp: error_code_cast_def find_Some_iff split: option.splits)

text \<open>The representable values: an enumerator, or a number that no enumerator has.\<close>

definition error_code_ok :: "ErrorCode \<Rightarrow> bool" where
  "error_code_ok c \<longleftrightarrow> error_code_cast (error_code_value c) = c"

fun error_code_name :: "ErrorCode \<Rightarrow> string" where
  "error_code_name InvalidMagic = ''invalid_magic''"
| "error_code_name UnsupportedVersion = ''unsupported_version''"
| "error_code_name InvalidLength = ''invalid_length''"
| "error_code_name CrcMismatch = ''crc_mismatch''"
| "error_code_name MalformedPayload = ''malformed_payload''"
| "error_code_name UnsupportedRequest = ''unsupported_request''"
| "error_code_name NotImplemented = ''not_implemented''"
| "error_code_name InternalError = ''internal_error''"
| "error_code_name ReservedFlags = ''reserved_flags''"
| "error_code_name Unauthorized = ''unauthorized''"
| "error_code_name UnknownTopic = ''unknown_topic''"
| "error_code_name TopicConflict = ''topic_conflict''"
| "error_code_name InvalidPartition = ''invalid_partition''"
| "error_code_name InvalidGroup = ''invalid_group''"
| "error_code_name InvalidOffset = ''invalid_offset''"
| "error_code_name Overloaded = ''overloaded''"
| "error_code_name RebalanceRequired = ''rebalance_required''"
| "error_code_name StaleMember = ''stale_member''"
| "error_code_name OffsetOutOfRange = ''offset_out_of_range''"
| "error_code_name GroupActive = ''group_active''"
| "error_code_name UnsupportedCodec = ''unsupported_codec''"
| "error_code_name InvalidBatch = ''invalid_batch''"
| "error_code_name (OtherErrorCode _) = ''unknown_error''"

definition is_retryable_error :: "ErrorCode \<Rightarrow> bool" where
  "is_retryable_error error_code \<longleftrightarrow> error_code = Overloaded \<or> error_code = RebalanceRequired"

text \<open>
  A \<open>DecodeResult\<close> and its out-parameter: \<open>Inl\<close> carries the error code and message of
  \<open>error_result\<close>, \<open>Inr\<close> the value that the out-parameter holds when \<open>ok\<close> is set.
\<close>

type_synonym 'a decode_result = "(ErrorCode \<times> string) + 'a"

section \<open>Writers\<close>

definition write_bytes :: "bytes \<Rightarrow> bytes" where
  "write_bytes value = write_u32 (of_nat (length value)) @ value"

definition write_string :: "string \<Rightarrow> bytes" where
  "write_string value = write_u32 (of_nat (length value)) @ bytes_of_string value"

definition write_bool :: "bool \<Rightarrow> bytes" where
  "write_bool value = write_u32 (if value then 1 else 0)"

lemma length_write_bytes [simp]: "length (write_bytes b) = 4 + length b"
  by (simp add: write_bytes_def)

lemma length_write_string [simp]: "length (write_string s) = 4 + length s"
  by (simp add: write_string_def)

lemma length_write_bool [simp]: "length (write_bool b) = 4"
  by (simp add: write_bool_def)

section \<open>The payload reader\<close>

record PayloadReader =
  reader_bytes :: bytes
  reader_offset :: nat

definition payload_reader :: "bytes \<Rightarrow> PayloadReader" where
  "payload_reader bs = \<lparr>reader_bytes = bs, reader_offset = 0\<rparr>"

definition remaining :: "PayloadReader \<Rightarrow> nat" where
  "remaining r = length (reader_bytes r) - reader_offset r"

definition reader_done :: "PayloadReader \<Rightarrow> bool" where
  "reader_done r \<longleftrightarrow> reader_offset r = length (reader_bytes r)"

definition read_u16 :: "PayloadReader \<Rightarrow> (u16 \<times> PayloadReader) option" where
  "read_u16 r =
     (if remaining r < 2 then None
      else Some (read_u16_be (reader_bytes r) (reader_offset r), r\<lparr>reader_offset := reader_offset r + 2\<rparr>))"

definition read_u32 :: "PayloadReader \<Rightarrow> (u32 \<times> PayloadReader) option" where
  "read_u32 r =
     (if remaining r < 4 then None
      else Some (read_u32_be (reader_bytes r) (reader_offset r), r\<lparr>reader_offset := reader_offset r + 4\<rparr>))"

definition read_u64 :: "PayloadReader \<Rightarrow> (u64 \<times> PayloadReader) option" where
  "read_u64 r =
     (if remaining r < 8 then None
      else Some (read_u64_be (reader_bytes r) (reader_offset r), r\<lparr>reader_offset := reader_offset r + 8\<rparr>))"

definition read_bytes :: "PayloadReader \<Rightarrow> (bytes \<times> PayloadReader) option" where
  "read_bytes r = do {
     (size, r) \<leftarrow> read_u32 r;
     require (\<not> remaining r < unat size);
     Some (take (unat size) (drop (reader_offset r) (reader_bytes r)), r\<lparr>reader_offset := reader_offset r + unat size\<rparr>)}"

definition read_string :: "PayloadReader \<Rightarrow> (string \<times> PayloadReader) option" where
  "read_string r = do {
     (size, r) \<leftarrow> read_u32 r;
     require (\<not> remaining r < unat size);
     Some (string_of_bytes (take (unat size) (drop (reader_offset r) (reader_bytes r))),
           r\<lparr>reader_offset := reader_offset r + unat size\<rparr>)}"

definition read_bool :: "PayloadReader \<Rightarrow> (bool \<times> PayloadReader) option" where
  "read_bool r = do {
     (encoded, r) \<leftarrow> read_u32 r;
     require (\<not> encoded > 1);
     Some (encoded = 1, r)}"

text \<open>The \<open>for\<close> loops that read a count-prefixed sequence of elements.\<close>

primrec read_many ::
  "nat \<Rightarrow> (PayloadReader \<Rightarrow> ('a \<times> PayloadReader) option) \<Rightarrow> PayloadReader \<Rightarrow>
   ('a list \<times> PayloadReader) option" where
  "read_many 0 rd r = Some ([], r)"
| "read_many (Suc n) rd r = do {
     (x, r) \<leftarrow> rd r;
     (xs, r) \<leftarrow> read_many n rd r;
     Some (x # xs, r)}"

section \<open>What a reader consumes\<close>

definition consumes :: "PayloadReader \<Rightarrow> bytes \<Rightarrow> PayloadReader \<Rightarrow> bool" where
  "consumes r bs r' \<longleftrightarrow>
     take (length bs) (drop (reader_offset r) (reader_bytes r)) = bs \<and>
     r' = r\<lparr>reader_offset := reader_offset r + length bs\<rparr>"

definition leaves :: "PayloadReader \<Rightarrow> bytes \<Rightarrow> bool" where
  "leaves r bs \<longleftrightarrow> reader_offset r \<le> length (reader_bytes r) \<and> drop (reader_offset r) (reader_bytes r) = bs"

lemma reader_done_leaves: "reader_done r \<longleftrightarrow> leaves r []"
  by (auto simp: reader_done_def leaves_def)

lemma payload_reader_leaves [simp]: "leaves (payload_reader p) bs \<longleftrightarrow> p = bs"
  by (simp add: leaves_def payload_reader_def)

lemma consumes_bound:
  assumes "consumes r bs r'" "bs \<noteq> []"
  shows "reader_offset r + length bs \<le> length (reader_bytes r)"
proof -
  have "length (take (length bs) (drop (reader_offset r) (reader_bytes r))) = length bs"
    using assms(1) by (simp only: consumes_def)
  then have "length bs \<le> length (reader_bytes r) - reader_offset r" by simp
  moreover have "0 < length bs" using assms(2) by simp
  ultimately show ?thesis by linarith
qed

lemma take_append_iff:
  "take (length (a @ b)) xs = a @ b \<longleftrightarrow>
   take (length a) xs = a \<and> take (length b) (drop (length a) xs) = b"
proof
  assume *: "take (length (a @ b)) xs = a @ b"
  have "take (length a) (take (length (a @ b)) xs) = a"
    "drop (length a) (take (length (a @ b)) xs) = b"
    unfolding * by simp_all
  then show "take (length a) xs = a \<and> take (length b) (drop (length a) xs) = b"
    by (simp add: min_def drop_take)
next
  assume "take (length a) xs = a \<and> take (length b) (drop (length a) xs) = b"
  then show "take (length (a @ b)) xs = a @ b"
    by (simp add: take_add)
qed

lemma ex_consumes_leaves [simp]:
  "(\<exists>r'. consumes r a r' \<and> leaves r' b) \<longleftrightarrow> leaves r (a @ b)"
proof -
  let ?u = "drop (reader_offset r) (reader_bytes r)"
  have "(\<exists>r'. consumes r a r' \<and> leaves r' b) \<longleftrightarrow>
      reader_offset r + length a \<le> length (reader_bytes r) \<and> take (length a) ?u = a \<and> drop (length a) ?u = b"
    by (auto simp: consumes_def leaves_def add.commute)
  also have "\<dots> \<longleftrightarrow> reader_offset r + length a \<le> length (reader_bytes r) \<and> ?u = a @ b"
    by (metis append_eq_conv_conj)
  also have "\<dots> \<longleftrightarrow> leaves r (a @ b)"
    by (auto simp: leaves_def dest: arg_cong [of ?u _ length])
  finally show ?thesis .
qed

lemma ex_consumes_consumes [simp]:
  "(\<exists>r'. consumes r a r' \<and> consumes r' b r'') \<longleftrightarrow> consumes r (a @ b) r''"
  using take_append_iff [of a b "drop (reader_offset r) (reader_bytes r)"]
  by (auto simp: consumes_def add.commute add.left_commute)

text \<open>
  The same law under the side conditions that the decoders accumulate, in the shape in which the
  simplifier meets them.
\<close>

lemma ex_consumes_leaves_conj [simp]:
  "(\<exists>r'. consumes r a r' \<and> leaves r' b \<and> Q) \<longleftrightarrow> leaves r (a @ b) \<and> Q"
  "(\<exists>r'. consumes r a r' \<and> P \<and> leaves r' b) \<longleftrightarrow> leaves r (a @ b) \<and> P"
  "(\<exists>r'. consumes r a r' \<and> P \<and> leaves r' b \<and> Q) \<longleftrightarrow> leaves r (a @ b) \<and> P \<and> Q"
  "(\<exists>r'. consumes r a r' \<and> P \<and> P' \<and> leaves r' b) \<longleftrightarrow> leaves r (a @ b) \<and> P \<and> P'"
  "(\<exists>r'. consumes r a r' \<and> P \<and> P' \<and> leaves r' b \<and> Q) \<longleftrightarrow> leaves r (a @ b) \<and> P \<and> P' \<and> Q"
  "(\<exists>r'. consumes r a r' \<and> P \<and> P' \<and> P'' \<and> leaves r' b) \<longleftrightarrow> leaves r (a @ b) \<and> P \<and> P' \<and> P''"
  "(\<exists>r'. consumes r a r' \<and> P \<and> P' \<and> P'' \<and> leaves r' b \<and> Q) \<longleftrightarrow>
     leaves r (a @ b) \<and> P \<and> P' \<and> P'' \<and> Q"
  using ex_consumes_leaves [of r a b] by blast+

lemma ex_consumes_ex_leaves [simp]:
  "(\<exists>r'. consumes r a r' \<and> (\<exists>x. leaves r' (f x) \<and> P x)) \<longleftrightarrow> (\<exists>x. leaves r (a @ f x) \<and> P x)"
  "(\<exists>r'. consumes r a r' \<and> Q \<and> (\<exists>x. leaves r' (f x) \<and> P x)) \<longleftrightarrow>
     (\<exists>x. leaves r (a @ f x) \<and> Q \<and> P x)"
  using ex_consumes_leaves [of r a] by metis+

lemma ex_consumes_consumes_conj [simp]:
  "(\<exists>r'. consumes r a r' \<and> consumes r' b r'' \<and> Q) \<longleftrightarrow> consumes r (a @ b) r'' \<and> Q"
  "(\<exists>r'. consumes r a r' \<and> P \<and> consumes r' b r'') \<longleftrightarrow> consumes r (a @ b) r'' \<and> P"
  "(\<exists>r'. consumes r a r' \<and> P \<and> consumes r' b r'' \<and> Q) \<longleftrightarrow> consumes r (a @ b) r'' \<and> P \<and> Q"
  "(\<exists>r'. consumes r a r' \<and> P \<and> P' \<and> consumes r' b r'') \<longleftrightarrow> consumes r (a @ b) r'' \<and> P \<and> P'"
  "(\<exists>r'. consumes r a r' \<and> P \<and> P' \<and> consumes r' b r'' \<and> Q) \<longleftrightarrow>
     consumes r (a @ b) r'' \<and> P \<and> P' \<and> Q"
  "(\<exists>r'. consumes r a r' \<and> P \<and> P' \<and> P'' \<and> consumes r' b r'') \<longleftrightarrow>
     consumes r (a @ b) r'' \<and> P \<and> P' \<and> P''"
  "(\<exists>r'. consumes r a r' \<and> P \<and> P' \<and> P'' \<and> consumes r' b r'' \<and> Q) \<longleftrightarrow>
     consumes r (a @ b) r'' \<and> P \<and> P' \<and> P'' \<and> Q"
  using ex_consumes_consumes [of r a b r''] by blast+

lemma consumes_Nil [simp]: "consumes r [] r' \<longleftrightarrow> r' = r"
  by (auto simp: consumes_def)

text \<open>The primitive readers, by the bytes they consume.\<close>

lemma read_u16_iff [wire_simps]: "read_u16 r = Some (v, r') \<longleftrightarrow> consumes r (write_u16 v) r'"
proof (cases "remaining r < 2")
  case True
  then show ?thesis
    using consumes_bound [of r "write_u16 v" r']
    by (auto simp: read_u16_def remaining_def simp flip: length_0_conv)
next
  case False
  then have "reader_offset r + 2 \<le> length (reader_bytes r)"
    by (simp add: remaining_def)
  then show ?thesis
    using False read_u16_be_iff [of "reader_offset r" "reader_bytes r" v]
    by (auto simp: read_u16_def consumes_def)
qed

lemma read_u32_iff [wire_simps]: "read_u32 r = Some (v, r') \<longleftrightarrow> consumes r (write_u32 v) r'"
proof (cases "remaining r < 4")
  case True
  then show ?thesis
    using consumes_bound [of r "write_u32 v" r']
    by (auto simp: read_u32_def remaining_def simp flip: length_0_conv)
next
  case False
  then have "reader_offset r + 4 \<le> length (reader_bytes r)"
    by (simp add: remaining_def)
  then show ?thesis
    using False read_u32_be_iff [of "reader_offset r" "reader_bytes r" v]
    by (auto simp: read_u32_def consumes_def)
qed

lemma read_u64_iff [wire_simps]: "read_u64 r = Some (v, r') \<longleftrightarrow> consumes r (write_u64 v) r'"
proof (cases "remaining r < 8")
  case True
  then show ?thesis
    using consumes_bound [of r "write_u64 v" r']
    by (auto simp: read_u64_def remaining_def simp flip: length_0_conv)
next
  case False
  then have "reader_offset r + 8 \<le> length (reader_bytes r)"
    by (simp add: remaining_def)
  then show ?thesis
    using False read_u64_be_iff [of "reader_offset r" "reader_bytes r" v]
    by (auto simp: read_u64_def consumes_def)
qed

lemma sized_window_iff:
  "(\<exists>size r1. consumes r (write_u32 size) r1 \<and> \<not> remaining r1 < unat size \<and>
      take (unat size) (drop (reader_offset r1) (reader_bytes r1)) = bs \<and>
      r' = r1\<lparr>reader_offset := reader_offset r1 + unat size\<rparr>)
   \<longleftrightarrow> length bs < 2 ^ 32 \<and> consumes r (write_u32 (of_nat (length bs)) @ bs) r'"
  (is "?L \<longleftrightarrow> ?R")
proof
  assume ?L
  then obtain size r1 where *: "consumes r (write_u32 size) r1" "\<not> remaining r1 < unat size"
      "take (unat size) (drop (reader_offset r1) (reader_bytes r1)) = bs"
      "r' = r1\<lparr>reader_offset := reader_offset r1 + unat size\<rparr>" by blast
  then have len: "length bs = unat size" by (auto simp: remaining_def)
  have "consumes r1 bs r'"
    using * len by (auto simp: consumes_def)
  then show ?R
    using *(1) len unat_u32_less [of size] by (auto simp flip: ex_consumes_consumes)
next
  assume ?R
  then obtain r1 where "consumes r (write_u32 (of_nat (length bs))) r1" "consumes r1 bs r'"
    and "length bs < 2 ^ 32"
    by (auto simp flip: ex_consumes_consumes)
  then show ?L
    using consumes_bound [of r1 bs r']
    by (intro exI [of _ "of_nat (length bs)"] exI [of _ r1])
      (cases "bs = []"; auto simp: consumes_def remaining_def)
qed

lemma read_bytes_iff [wire_simps]:
  "read_bytes r = Some (v, r') \<longleftrightarrow> consumes r (write_bytes v) r' \<and> length v < 2 ^ 32"
  unfolding write_bytes_def conj_commute [of _ "length v < 2 ^ 32"] sized_window_iff [symmetric]
  by (auto simp: read_bytes_def bind_eq_Some_conv read_u32_iff)

lemma read_string_iff [wire_simps]:
  "read_string r = Some (v, r') \<longleftrightarrow> consumes r (write_string v) r' \<and> length v < 2 ^ 32"
proof -
  have "read_string r = Some (v, r') \<longleftrightarrow> read_bytes r = Some (bytes_of_string v, r')"
    by (auto simp: read_bytes_def read_string_def bind_eq_Some_conv)
  then show ?thesis
    by (simp add: read_bytes_iff write_bytes_def write_string_def)
qed

lemma read_bool_iff [wire_simps]: "read_bool r = Some (v, r') \<longleftrightarrow> consumes r (write_bool v) r'"
proof -
  have "encoded = 0 \<or> encoded = 1" if "encoded \<le> 1" for encoded :: u32
    using that by (metis word_coorder.extremum_uniqueI word_le_less_eq word_less_1 linorder_not_less)
  then show ?thesis
    by (auto simp: read_bool_def bind_eq_Some_conv read_u32_iff write_bool_def not_less)
qed

section \<open>The codec interface\<close>

text \<open>
  \<open>enc\<close> writes one value, \<open>dec\<close> reads one value off a reader, \<open>wf\<close> says which values the format can
  hold (a length prefix has 32 bits).
\<close>

locale codec =
  fixes enc :: "'a \<Rightarrow> bytes"
    and dec :: "PayloadReader \<Rightarrow> ('a \<times> PayloadReader) option"
    and wf :: "'a \<Rightarrow> bool"
  assumes dec_iff: "dec r = Some (x, r') \<longleftrightarrow> consumes r (enc x) r' \<and> wf x"
begin

lemma enc_inject:
  assumes wf: "wf x" "wf y" and eq: "enc x @ s = enc y @ t"
  shows "x = y \<and> s = t"
proof -
  have dec: "\<exists>r'. dec (payload_reader (enc z @ u)) = Some (z, r')" if "wf z" for z u
    using that by (simp add: dec_iff consumes_def payload_reader_def)
  have "x = y"
    using dec [OF wf(1), of s] dec [OF wf(2), of t] eq by auto
  with eq show ?thesis by simp
qed

lemma read_many_iff:
  "read_many n dec r = Some (xs, r') \<longleftrightarrow>
     consumes r (concat (map enc xs)) r' \<and> length xs = n \<and> (\<forall>x \<in> set xs. wf x)"
proof (induction n arbitrary: r xs)
  case 0
  then show ?case by auto
next
  case (Suc n)
  show ?case
  proof (cases xs)
    case Nil
    then show ?thesis by (auto simp: bind_eq_Some_conv)
  next
    case (Cons y ys)
    have "read_many (Suc n) dec r = Some (xs, r') \<longleftrightarrow>
        (\<exists>r1. dec r = Some (y, r1) \<and> read_many n dec r1 = Some (ys, r'))"
      by (auto simp: Cons bind_eq_Some_conv)
    also have "\<dots> \<longleftrightarrow> wf y \<and> length ys = n \<and> (\<forall>x \<in> set ys. wf x) \<and>
        (\<exists>r1. consumes r (enc y) r1 \<and> consumes r1 (concat (map enc ys)) r')"
      unfolding dec_iff Suc.IH by blast
    finally show ?thesis by (simp add: Cons) blast
  qed
qed

lemma roundtrip: "wf x \<Longrightarrow> \<exists>r. dec (payload_reader (enc x)) = Some (x, r) \<and> reader_done r"
  by (auto simp: dec_iff consumes_def payload_reader_def reader_done_def)

end

interpretation u16: codec write_u16 read_u16 "\<lambda>_. True"
  by unfold_locales (simp add: read_u16_iff)

interpretation u32: codec write_u32 read_u32 "\<lambda>_. True"
  by unfold_locales (simp add: read_u32_iff)

interpretation u64: codec write_u64 read_u64 "\<lambda>_. True"
  by unfold_locales (simp add: read_u64_iff)

interpretation str: codec write_string read_string "\<lambda>s. length s < 2 ^ 32"
  by unfold_locales (rule read_string_iff)

interpretation blob: codec write_bytes read_bytes "\<lambda>b. length b < 2 ^ 32"
  by unfold_locales (rule read_bytes_iff)

interpretation flag: codec write_bool read_bool "\<lambda>_. True"
  by unfold_locales (simp add: read_bool_iff)

section \<open>The message interface\<close>

text \<open>
  A complete payload: \<open>encode\<close> produces it, \<open>decode\<close> accepts it or reports an error code with a message.
  \<open>valid\<close> is what the decoder requires of the value beyond its shape (non-empty names, positive
  counts) together with the width of the length prefixes.
\<close>

locale message_roundtrip =
  fixes encode :: "'a \<Rightarrow> bytes"
    and decode :: "bytes \<Rightarrow> 'a decode_result"
    and valid :: "'a \<Rightarrow> bool"
  assumes decode_encode: "valid m \<Longrightarrow> decode (encode m) = Inr m"
begin

lemma encode_inject: "valid m \<Longrightarrow> valid m' \<Longrightarrow> encode m = encode m' \<Longrightarrow> m = m'"
  by (metis decode_encode sum.inject(2))

end

text \<open>
  Most payloads have a canonical encoding: what is accepted is exactly what the encoder produces for
  a valid value.
\<close>

locale message =
  fixes encode :: "'a \<Rightarrow> bytes"
    and decode :: "bytes \<Rightarrow> 'a decode_result"
    and valid :: "'a \<Rightarrow> bool"
  assumes decode_iff: "decode p = Inr m \<longleftrightarrow> valid m \<and> p = encode m"
begin

lemma encode_decode: "decode p = Inr m \<Longrightarrow> encode m = p"
  by (simp add: decode_iff)

lemma decode_valid: "decode p = Inr m \<Longrightarrow> valid m"
  by (simp add: decode_iff)

lemma rejects_noncanonical: "p \<notin> encode ` {m. valid m} \<Longrightarrow> \<exists>e. decode p = Inl e"
  by (cases "decode p") (auto simp: decode_iff)

end

sublocale message \<subseteq> message_roundtrip
  by unfold_locales (simp add: decode_iff)

lemma length_eq_unat: "length xs = unat n \<longleftrightarrow> length xs < 2 ^ 32 \<and> n = of_nat (length xs)"
  for n :: u32
  using unat_u32_less by (auto simp: word_of_nat_eq_iff)

lemmas decoder_simps = bind_eq_Some_conv reader_done_leaves length_eq_unat u16.read_many_iff

end
