(* ===== verification/Bolt_Compression.thy ===== *)
theory Bolt_Compression
  imports Bolt_Prelude
begin

text \<open>
  \<open>src/include/boltstream/compression/compression.h\<close> and \<open>src/src/compression/compression.cpp\<close>. The zstd
  library is a parameter: the two entry points that the source calls, each returning the library's
  error name or the produced bytes. \<open>zstd_roundtrip\<close> names the documented behaviour of the library that
  the round-trip properties rely on.
\<close>

section \<open>Codecs\<close>

text \<open>\<open>Codec\<close> has underlying type \<open>uint8_t\<close>; a cast truncates to eight bits.\<close>

datatype Codec = Codec_None | Codec_Zstd | OtherCodec u8

fun codec_value :: "Codec \<Rightarrow> u8" where
  "codec_value Codec_None = 0"
| "codec_value Codec_Zstd = 1"
| "codec_value (OtherCodec w) = w"

definition codec_of_u8 :: "u8 \<Rightarrow> Codec" where
  "codec_of_u8 w = (if w = 0 then Codec_None else if w = 1 then Codec_Zstd else OtherCodec w)"

text \<open>\<open>static_cast<Codec>(w)\<close> of a 16-bit wire value.\<close>

definition codec_cast :: "u16 \<Rightarrow> Codec" where
  "codec_cast w = codec_of_u8 (ucast w)"

text \<open>\<open>static_cast<uint16_t>(codec)\<close>.\<close>

definition codec_wire :: "Codec \<Rightarrow> u16" where
  "codec_wire c = ucast (codec_value c)"

definition kNoneMask :: u32 where "kNoneMask = push_bit (unat (codec_value Codec_None)) 1"
definition kZstdMask :: u32 where "kZstdMask = push_bit (unat (codec_value Codec_Zstd)) 1"
definition kSupportedCodecMask :: u32 where "kSupportedCodecMask = kNoneMask OR kZstdMask"

fun codec_name :: "Codec \<Rightarrow> string" where
  "codec_name Codec_None = ''none''"
| "codec_name Codec_Zstd = ''zstd''"
| "codec_name (OtherCodec _) = ''unknown''"

definition is_supported :: "Codec \<Rightarrow> bool" where
  "is_supported c \<longleftrightarrow> c = Codec_None \<or> c = Codec_Zstd"

lemma codec_cast_wire [simp]: "is_supported c \<Longrightarrow> codec_cast (codec_wire c) = c"
  by (auto simp: is_supported_def codec_cast_def codec_of_u8_def codec_wire_def)

section \<open>Compression and decompression\<close>

record zstd =
  ZSTD_compress :: "bytes \<Rightarrow> int \<Rightarrow> string + bytes"
  ZSTD_decompress :: "bytes \<Rightarrow> nat \<Rightarrow> string + bytes"

definition zstd_roundtrip :: "zstd \<Rightarrow> bool" where
  "zstd_roundtrip z \<longleftrightarrow>
     (\<forall>input level output. ZSTD_compress z input level = Inr output \<longrightarrow>
        ZSTD_decompress z output (length input) = Inr input)"

definition compress :: "zstd \<Rightarrow> Codec \<Rightarrow> bytes \<Rightarrow> int \<Rightarrow> string + bytes" where
  "compress z c input zstd_level =
     (if c = Codec_None then Inr input
      else if c \<noteq> Codec_Zstd then Inl ''unsupported compression codec''
      else case ZSTD_compress z input zstd_level of
             Inl name \<Rightarrow> Inl (''zstd compression failed: '' @ name)
           | Inr output \<Rightarrow> Inr output)"

definition decompress :: "zstd \<Rightarrow> Codec \<Rightarrow> bytes \<Rightarrow> nat \<Rightarrow> nat \<Rightarrow> string + bytes" where
  "decompress z c input expected_size maximum_size =
     (if expected_size > maximum_size then Inl ''uncompressed batch exceeds configured limit''
      else if c = Codec_None then
        (if length input \<noteq> expected_size then Inl ''uncompressed batch size mismatch'' else Inr input)
      else if c \<noteq> Codec_Zstd then Inl ''unsupported compression codec''
      else case ZSTD_decompress z input expected_size of
             Inl name \<Rightarrow> Inl (''zstd decompression failed: '' @ name)
           | Inr output \<Rightarrow>
               if length output \<noteq> expected_size then Inl ''decompressed batch size mismatch''
               else Inr output)"

lemma decompress_bounds:
  assumes "decompress z c input expected maximum = Inr output"
  shows "length output = expected" "expected \<le> maximum" "is_supported c"
  using assms by (auto simp: decompress_def is_supported_def split: if_splits sum.splits)

lemma decompress_compress:
  assumes "zstd_roundtrip z" "compress z c input level = Inr output" "length input \<le> maximum"
  shows "decompress z c output (length input) maximum = Inr input"
  using assms by (auto simp: decompress_def compress_def zstd_roundtrip_def split: if_splits sum.splits)

text \<open>A library that stores its input: it satisfies the documented behaviour.\<close>

definition zstd_stored :: zstd where
  "zstd_stored =
     \<lparr>ZSTD_compress = (\<lambda>input _. Inr input),
      ZSTD_decompress = (\<lambda>input capacity.
        if length input \<le> capacity then Inr input else Inl ''Destination buffer is too small'')\<rparr>"

lemma zstd_stored_roundtrip: "zstd_roundtrip zstd_stored"
  by (simp add: zstd_roundtrip_def zstd_stored_def)

section \<open>Properties\<close>

text \<open>
  \<open>decompress\<close> succeeds exactly when the declared size is within the configured limit and either
  the bytes are stored and have that size, or they are zstd bytes that the library expands to that
  size; the result is then those bytes, so it never exceeds the limit.
\<close>

lemma decompress_exact:
  "decompress z c input expected maximum = Inr output \<longleftrightarrow>
     expected \<le> maximum \<and> length output = expected \<and>
     (c = Codec_None \<and> output = input \<or>
      c = Codec_Zstd \<and> ZSTD_decompress z input expected = Inr output)"
  by (auto simp: decompress_def split: sum.splits)

end
