(* ===== verification/Bolt_Frame.thy ===== *)
theory Bolt_Frame
  imports Bolt_Wire
begin

text \<open>
  The frame layer of \<open>src/src/protocol/protocol.cpp\<close>: frame types, the CRC-32 routine, and the 32-byte
  CRC-protected frame header. Shown here: the checksum detects every change confined to four
  consecutive bytes, a frame decodes exactly to what was encoded, and a header with one changed byte
  is never accepted.
\<close>

section \<open>Frame types\<close>

datatype FrameType =
    ErrorResponse | HealthRequest | HealthResponse | MetadataRequest | MetadataResponse
  | ProduceRequest | ProduceResponse | FetchRequest | FetchResponse | OffsetCommitRequest
  | OffsetCommitResponse | AuthRequest | AuthResponse | CreateTopicRequest
  | CreateTopicResponse | JoinGroupRequest | JoinGroupResponse | SyncGroupRequest
  | SyncGroupResponse | HeartbeatRequest | HeartbeatResponse | LeaveGroupRequest
  | LeaveGroupResponse | GroupOffsetCommitRequest | GroupOffsetCommitResponse
  | ListTopicsRequest | ListTopicsResponse | DescribeTopicRequest | DescribeTopicResponse
  | DeleteTopicRequest | DeleteTopicResponse | RunRetentionRequest | RunRetentionResponse
  | DescribeGroupRequest | DescribeGroupResponse | ResetGroupOffsetRequest
  | ResetGroupOffsetResponse | ProduceBatchRequest | ProduceBatchResponse | OtherFrameType u16

fun frame_type_value :: "FrameType \<Rightarrow> u16" where
  "frame_type_value ErrorResponse = 1"
| "frame_type_value HealthRequest = 2"
| "frame_type_value HealthResponse = 3"
| "frame_type_value MetadataRequest = 4"
| "frame_type_value MetadataResponse = 5"
| "frame_type_value ProduceRequest = 6"
| "frame_type_value ProduceResponse = 7"
| "frame_type_value FetchRequest = 8"
| "frame_type_value FetchResponse = 9"
| "frame_type_value OffsetCommitRequest = 10"
| "frame_type_value OffsetCommitResponse = 11"
| "frame_type_value AuthRequest = 12"
| "frame_type_value AuthResponse = 13"
| "frame_type_value CreateTopicRequest = 14"
| "frame_type_value CreateTopicResponse = 15"
| "frame_type_value JoinGroupRequest = 16"
| "frame_type_value JoinGroupResponse = 17"
| "frame_type_value SyncGroupRequest = 18"
| "frame_type_value SyncGroupResponse = 19"
| "frame_type_value HeartbeatRequest = 20"
| "frame_type_value HeartbeatResponse = 21"
| "frame_type_value LeaveGroupRequest = 22"
| "frame_type_value LeaveGroupResponse = 23"
| "frame_type_value GroupOffsetCommitRequest = 24"
| "frame_type_value GroupOffsetCommitResponse = 25"
| "frame_type_value ListTopicsRequest = 26"
| "frame_type_value ListTopicsResponse = 27"
| "frame_type_value DescribeTopicRequest = 28"
| "frame_type_value DescribeTopicResponse = 29"
| "frame_type_value DeleteTopicRequest = 30"
| "frame_type_value DeleteTopicResponse = 31"
| "frame_type_value RunRetentionRequest = 32"
| "frame_type_value RunRetentionResponse = 33"
| "frame_type_value DescribeGroupRequest = 34"
| "frame_type_value DescribeGroupResponse = 35"
| "frame_type_value ResetGroupOffsetRequest = 36"
| "frame_type_value ResetGroupOffsetResponse = 37"
| "frame_type_value ProduceBatchRequest = 38"
| "frame_type_value ProduceBatchResponse = 39"
| "frame_type_value (OtherFrameType w) = w"

definition frame_type_enumerators :: "FrameType list" where
  "frame_type_enumerators =
     [ErrorResponse, HealthRequest, HealthResponse, MetadataRequest, MetadataResponse,
      ProduceRequest, ProduceResponse, FetchRequest, FetchResponse, OffsetCommitRequest,
      OffsetCommitResponse, AuthRequest, AuthResponse, CreateTopicRequest,
      CreateTopicResponse, JoinGroupRequest, JoinGroupResponse, SyncGroupRequest,
      SyncGroupResponse, HeartbeatRequest, HeartbeatResponse, LeaveGroupRequest,
      LeaveGroupResponse, GroupOffsetCommitRequest, GroupOffsetCommitResponse,
      ListTopicsRequest, ListTopicsResponse, DescribeTopicRequest, DescribeTopicResponse,
      DeleteTopicRequest, DeleteTopicResponse, RunRetentionRequest, RunRetentionResponse,
      DescribeGroupRequest, DescribeGroupResponse, ResetGroupOffsetRequest,
      ResetGroupOffsetResponse, ProduceBatchRequest, ProduceBatchResponse]"

text \<open>\<open>static_cast<FrameType>(w)\<close>: any 16-bit value is representable.\<close>

definition frame_type_cast :: "u16 \<Rightarrow> FrameType" where
  "frame_type_cast w =
     (case find (\<lambda>t. frame_type_value t = w) frame_type_enumerators of
        Some t \<Rightarrow> t | None \<Rightarrow> OtherFrameType w)"

lemma frame_type_value_cast [simp]: "frame_type_value (frame_type_cast w) = w"
  by (auto simp: frame_type_cast_def find_Some_iff split: option.splits)

definition frame_type_ok :: "FrameType \<Rightarrow> bool" where
  "frame_type_ok t \<longleftrightarrow> frame_type_cast (frame_type_value t) = t"

fun frame_type_name :: "FrameType \<Rightarrow> string" where
  "frame_type_name ErrorResponse = ''error_response''"
| "frame_type_name HealthRequest = ''health_request''"
| "frame_type_name HealthResponse = ''health_response''"
| "frame_type_name MetadataRequest = ''metadata_request''"
| "frame_type_name MetadataResponse = ''metadata_response''"
| "frame_type_name ProduceRequest = ''produce_request''"
| "frame_type_name ProduceResponse = ''produce_response''"
| "frame_type_name FetchRequest = ''fetch_request''"
| "frame_type_name FetchResponse = ''fetch_response''"
| "frame_type_name OffsetCommitRequest = ''offset_commit_request''"
| "frame_type_name OffsetCommitResponse = ''offset_commit_response''"
| "frame_type_name AuthRequest = ''auth_request''"
| "frame_type_name AuthResponse = ''auth_response''"
| "frame_type_name CreateTopicRequest = ''create_topic_request''"
| "frame_type_name CreateTopicResponse = ''create_topic_response''"
| "frame_type_name JoinGroupRequest = ''join_group_request''"
| "frame_type_name JoinGroupResponse = ''join_group_response''"
| "frame_type_name SyncGroupRequest = ''sync_group_request''"
| "frame_type_name SyncGroupResponse = ''sync_group_response''"
| "frame_type_name HeartbeatRequest = ''heartbeat_request''"
| "frame_type_name HeartbeatResponse = ''heartbeat_response''"
| "frame_type_name LeaveGroupRequest = ''leave_group_request''"
| "frame_type_name LeaveGroupResponse = ''leave_group_response''"
| "frame_type_name GroupOffsetCommitRequest = ''group_offset_commit_request''"
| "frame_type_name GroupOffsetCommitResponse = ''group_offset_commit_response''"
| "frame_type_name ListTopicsRequest = ''list_topics_request''"
| "frame_type_name ListTopicsResponse = ''list_topics_response''"
| "frame_type_name DescribeTopicRequest = ''describe_topic_request''"
| "frame_type_name DescribeTopicResponse = ''describe_topic_response''"
| "frame_type_name DeleteTopicRequest = ''delete_topic_request''"
| "frame_type_name DeleteTopicResponse = ''delete_topic_response''"
| "frame_type_name RunRetentionRequest = ''run_retention_request''"
| "frame_type_name RunRetentionResponse = ''run_retention_response''"
| "frame_type_name DescribeGroupRequest = ''describe_group_request''"
| "frame_type_name DescribeGroupResponse = ''describe_group_response''"
| "frame_type_name ResetGroupOffsetRequest = ''reset_group_offset_request''"
| "frame_type_name ResetGroupOffsetResponse = ''reset_group_offset_response''"
| "frame_type_name ProduceBatchRequest = ''produce_batch_request''"
| "frame_type_name ProduceBatchResponse = ''produce_batch_response''"
| "frame_type_name (OtherFrameType _) = ''unknown''"

fun is_request_type :: "FrameType \<Rightarrow> bool" where
  "is_request_type HealthRequest = True"
| "is_request_type MetadataRequest = True"
| "is_request_type ProduceRequest = True"
| "is_request_type FetchRequest = True"
| "is_request_type OffsetCommitRequest = True"
| "is_request_type AuthRequest = True"
| "is_request_type CreateTopicRequest = True"
| "is_request_type JoinGroupRequest = True"
| "is_request_type SyncGroupRequest = True"
| "is_request_type HeartbeatRequest = True"
| "is_request_type LeaveGroupRequest = True"
| "is_request_type GroupOffsetCommitRequest = True"
| "is_request_type ListTopicsRequest = True"
| "is_request_type DescribeTopicRequest = True"
| "is_request_type DeleteTopicRequest = True"
| "is_request_type RunRetentionRequest = True"
| "is_request_type DescribeGroupRequest = True"
| "is_request_type ResetGroupOffsetRequest = True"
| "is_request_type ProduceBatchRequest = True"
| "is_request_type _ = False"

section \<open>CRC-32\<close>

text \<open>The body of the inner loop: one bit of the reflected polynomial division.\<close>

definition crc32_bit :: "u32 \<Rightarrow> u32" where
  "crc32_bit crc = (let mask = 0 - (crc AND 1) in drop_bit 1 crc XOR (0xEDB88320 AND mask))"

definition crc32_byte :: "u32 \<Rightarrow> u8 \<Rightarrow> u32" where
  "crc32_byte crc byte = (crc32_bit ^^ 8) (crc XOR ucast byte)"

definition crc32 :: "bytes \<Rightarrow> u32" where
  "crc32 bs = NOT (foldl crc32_byte 0xFFFFFFFF bs)"

lemma and_one_cases: "crc AND 1 = (if bit crc 0 then 1 else 0)" for crc :: u32
  by (rule bit_word_eqI) (auto simp: bit_simps, metis gr0I)

lemma crc32_bit_cases:
  "crc32_bit crc = (if bit crc 0 then drop_bit 1 crc XOR 0xEDB88320 else drop_bit 1 crc)"
  by (simp add: crc32_bit_def and_one_cases)

lemma crc32_bit_xor: "crc32_bit (a XOR b) = crc32_bit a XOR crc32_bit b"
  by (auto simp: crc32_bit_cases bit_xor_iff drop_bit_xor xor.assoc xor.commute xor.left_commute
      simp del: drop_bit_Suc)

lemma crc32_bit_top: "bit (crc32_bit a) 31 \<longleftrightarrow> bit a 0"
  by (auto simp: crc32_bit_cases bit_simps dest: bit_imp_le_length)

lemma crc32_bit_eq_0: "crc32_bit a = 0 \<Longrightarrow> a = 0"
proof (rule bit_word_eqI)
  fix n assume a: "crc32_bit a = 0" and n: "n < LENGTH(32)"
  have low: "\<not> bit a 0" using crc32_bit_top [of a] a by simp
  then have "drop_bit 1 a = 0" using a by (simp add: crc32_bit_cases)
  then have "\<not> bit (drop_bit 1 a) m" for m by simp
  then have "\<not> bit a (Suc m)" for m by (simp add: bit_drop_bit_eq)
  with low show "bit a n = bit 0 n" by (cases n) auto
qed

lemma crc32_bits_xor: "(crc32_bit ^^ n) (a XOR b) = (crc32_bit ^^ n) a XOR (crc32_bit ^^ n) b"
  by (induction n) (simp_all add: crc32_bit_xor)

lemma crc32_bits_eq_0: "(crc32_bit ^^ n) a = 0 \<Longrightarrow> a = 0"
  by (induction n) (auto dest: crc32_bit_eq_0)

lemma crc32_bits_inject: "(crc32_bit ^^ n) a = (crc32_bit ^^ n) b \<longleftrightarrow> a = b"
proof
  assume "(crc32_bit ^^ n) a = (crc32_bit ^^ n) b"
  then have "(crc32_bit ^^ n) (a XOR b) = 0" by (simp add: crc32_bits_xor)
  then have "a XOR b = 0" by (rule crc32_bits_eq_0)
  then show "a = b" by (metis xor.right_neutral xor_self_eq xor.assoc)
qed simp

text \<open>
  Feeding \<open>k\<close> bytes is \<open>8k\<close> division steps applied to the state with the bytes, packed
  little-endian, added at the start: the reason a burst of up to 32 bits is always seen.
\<close>

primrec pack_le :: "bytes \<Rightarrow> u32" where
  "pack_le [] = 0"
| "pack_le (b # bs) = ucast b XOR push_bit 8 (pack_le bs)"

lemma bit_pack_le:
  "bit (pack_le bs) n \<longleftrightarrow> n < 32 \<and> n div 8 < length bs \<and> bit (bs ! (n div 8)) (n mod 8)"
proof (induction bs arbitrary: n)
  case Nil
  then show ?case by simp
next
  case (Cons b bs)
  show ?case
  proof (cases "n < 8")
    case True
    then show ?thesis by (auto simp: bit_simps)
  next
    case False
    then obtain m where m: "n = m + 8" by (metis add.commute le_Suc_ex not_less)
    have "\<not> bit b (m + 8)" using bit_imp_le_length [of b "m + 8"] by auto
    then have "bit (pack_le (b # bs)) n \<longleftrightarrow> m + 8 < 32 \<and> bit (pack_le bs) m"
      by (simp add: m bit_simps)
    moreover have "(m + 8) div 8 = Suc (m div 8)" by simp
    ultimately show ?thesis by (simp only: Cons.IH m) auto
  qed
qed

lemma pack_le_inject:
  assumes "length u = length v" "length u \<le> 4" "pack_le u = pack_le v"
  shows "u = v"
proof (rule nth_equalityI [OF assms(1)])
  fix i assume i: "i < length u"
  show "u ! i = v ! i"
  proof (rule bit_word_eqI)
    fix n assume "n < LENGTH(8)"
    then have n: "n < 8" by simp
    then have "(8 * i + n) div 8 = i" "(8 * i + n) mod 8 = n" "8 * i + n < 32"
      using i assms(2) by auto
    then show "bit (u ! i) n = bit (v ! i) n"
      using assms(1,3) i bit_pack_le [of u "8 * i + n"] bit_pack_le [of v "8 * i + n"] by simp
  qed
qed

lemma pack_le_snoc: "pack_le (bs @ [b]) = pack_le bs XOR push_bit (8 * length bs) (ucast b)"
  by (induction bs) (simp_all add: push_bit_xor xor.assoc)

lemma crc32_bits_shift:
  "n + k \<le> 32 \<Longrightarrow> (\<And>m. bit w m \<Longrightarrow> m < k) \<Longrightarrow> (crc32_bit ^^ n) (push_bit n w) = w"
proof (induction n)
  case (Suc n)
  have top: "bit w (m - n) \<Longrightarrow> n \<le> m \<Longrightarrow> m < 31" for m
    using Suc.prems(1) Suc.prems(2) [of "m - n"] by simp
  have "crc32_bit (push_bit (Suc n) w) = drop_bit 1 (push_bit (Suc n) w)"
    by (simp add: crc32_bit_cases bit_push_bit_iff del: push_bit_Suc)
  also have "\<dots> = push_bit n w"
    using top by (intro bit_word_eqI) (auto simp: bit_simps simp del: push_bit_Suc)
  finally show ?case
    using Suc by (simp only: funpow_Suc_right comp_apply)
qed simp

lemma foldl_crc32_byte:
  "length bs \<le> 4 \<Longrightarrow>
   foldl crc32_byte crc bs = (crc32_bit ^^ (8 * length bs)) (crc XOR pack_le bs)"
proof (induction bs rule: rev_induct)
  case (snoc b bs)
  let ?k = "8 * length bs"
  have "(crc32_bit ^^ ?k) (push_bit ?k (ucast b)) = (ucast b :: u32)"
    using snoc.prems by (intro crc32_bits_shift [where k = 8]) (auto simp: bit_simps dest: bit_imp_le_length)
  then have shift: "(crc32_bit ^^ ?k) (crc XOR pack_le bs) XOR ucast b =
      (crc32_bit ^^ ?k) (crc XOR pack_le bs XOR push_bit ?k (ucast b))"
    by (simp add: crc32_bits_xor xor.assoc)
  have "foldl crc32_byte crc (bs @ [b]) = crc32_byte (foldl crc32_byte crc bs) b"
    by simp
  also have "\<dots> = (crc32_bit ^^ 8) ((crc32_bit ^^ ?k) (crc XOR pack_le bs) XOR ucast b)"
    using snoc by (subst crc32_byte_def) simp
  also have "\<dots> = (crc32_bit ^^ 8) ((crc32_bit ^^ ?k) (crc XOR pack_le bs XOR push_bit ?k (ucast b)))"
    by (simp only: shift)
  also have "\<dots> = (crc32_bit ^^ (8 + ?k)) (crc XOR pack_le (bs @ [b]))"
    by (simp only: pack_le_snoc funpow_add comp_apply xor.assoc)
  finally show ?case by (simp add: add.commute)
qed simp

lemma foldl_crc32_byte_inject: "foldl crc32_byte a bs = foldl crc32_byte b bs \<longleftrightarrow> a = b"
  by (induction bs arbitrary: a b) (simp_all add: crc32_byte_def crc32_bits_inject)

lemma crc32_burst:
  assumes "length u = length v" "length u \<le> 4"
  shows "crc32 (pre @ u @ post) = crc32 (pre @ v @ post) \<longleftrightarrow> u = v"
proof -
  have "crc32 (pre @ u @ post) = crc32 (pre @ v @ post) \<longleftrightarrow>
      foldl crc32_byte (foldl crc32_byte 0xFFFFFFFF pre) u =
      foldl crc32_byte (foldl crc32_byte 0xFFFFFFFF pre) v"
    by (simp add: crc32_def foldl_crc32_byte_inject)
  also have "\<dots> \<longleftrightarrow> pack_le u = pack_le v"
    using assms by (simp add: foldl_crc32_byte crc32_bits_inject)
  also have "\<dots> \<longleftrightarrow> u = v"
    using pack_le_inject [OF assms] by auto
  finally show ?thesis .
qed

lemma crc32_update:
  assumes "i < length xs" "b \<noteq> xs ! i"
  shows "crc32 (xs[i := b]) \<noteq> crc32 xs"
proof -
  have "xs[i := b] = take i xs @ [b] @ drop (Suc i) xs"
    and "take i xs @ [xs ! i] @ drop (Suc i) xs = xs"
    using assms(1) by (simp_all add: upd_conv_take_nth_drop flip: id_take_nth_drop)
  then show ?thesis
    using crc32_burst [of "[b]" "[xs ! i]" "take i xs" "drop (Suc i) xs"] assms(2)
    by (simp only:) simp
qed

section \<open>Frame header\<close>

definition kMagic :: u32 where "kMagic = 0x42535452"
definition kProtocolVersion :: u16 where "kProtocolVersion = 5"
definition kMinimumProtocolVersion :: u16 where "kMinimumProtocolVersion = 4"
definition kFrameHeaderBytes :: u32 where "kFrameHeaderBytes = 32"
definition kDefaultMaxFrameBytes :: u32 where "kDefaultMaxFrameBytes = 1024 * 1024"
definition kHeaderCrcOffset :: nat where "kHeaderCrcOffset = 28"

record FrameHeader =
  magic :: u32
  version :: u16
  frame_type :: FrameType
  header_bytes :: u32
  payload_bytes :: u32
  correlation_id :: u64
  flags :: u32
  header_crc32 :: u32

definition default_FrameHeader :: FrameHeader where
  "default_FrameHeader =
     \<lparr>magic = kMagic, version = kProtocolVersion, frame_type = ErrorResponse,
      header_bytes = kFrameHeaderBytes, payload_bytes = 0, correlation_id = 0, flags = 0,
      header_crc32 = 0\<rparr>"

record Frame =
  header :: FrameHeader
  payload :: bytes

text \<open>
  \<open>HeaderDecodeResult\<close> keeps the parsed header next to the error, because the session answers an
  invalid header with the correlation id it parsed.
\<close>

record HeaderDecodeResult =
  ok :: bool
  error :: ErrorCode
  message_text :: string
  decoded_header :: FrameHeader

text \<open>The 28 bytes that the header checksum covers.\<close>

definition frame_header_prefix :: "u16 \<Rightarrow> FrameType \<Rightarrow> u64 \<Rightarrow> nat \<Rightarrow> u32 \<Rightarrow> bytes" where
  "frame_header_prefix ver ft cid payload_size fl =
     write_u32 kMagic @ write_u16 ver @ write_u16 (frame_type_value ft) @
     write_u32 kFrameHeaderBytes @ write_u32 (of_nat payload_size) @ write_u64 cid @ write_u32 fl"

definition encode_frame :: "u16 \<Rightarrow> FrameType \<Rightarrow> u64 \<Rightarrow> bytes \<Rightarrow> u32 \<Rightarrow> bytes" where
  "encode_frame ver ft cid pl fl =
     (let out = frame_header_prefix ver ft cid (length pl) fl
      in out @ write_u32 (crc32 out) @ pl)"

text \<open>The overload without a version argument.\<close>

definition encode_frame_current :: "FrameType \<Rightarrow> u64 \<Rightarrow> bytes \<Rightarrow> u32 \<Rightarrow> bytes" where
  "encode_frame_current ft cid pl fl = encode_frame kProtocolVersion ft cid pl fl"

definition read_header_fields :: "bytes \<Rightarrow> FrameHeader" where
  "read_header_fields bs =
     \<lparr>magic = read_u32_be bs 0, version = read_u16_be bs 4,
      frame_type = frame_type_cast (read_u16_be bs 6), header_bytes = read_u32_be bs 8,
      payload_bytes = read_u32_be bs 12, correlation_id = read_u64_be bs 16,
      flags = read_u32_be bs 24, header_crc32 = read_u32_be bs 28\<rparr>"

definition decode_header :: "bytes \<Rightarrow> u32 \<Rightarrow> HeaderDecodeResult" where
  "decode_header bs max_frame_bytes =
     (let fail = (\<lambda>e m h. \<lparr>ok = False, error = e, message_text = m, decoded_header = h\<rparr>) in
      if length bs < unat kFrameHeaderBytes
      then fail InvalidLength ''truncated frame header'' default_FrameHeader
      else let h = read_header_fields bs in
      if magic h \<noteq> kMagic then fail InvalidMagic ''invalid frame magic'' h
      else if version h < kMinimumProtocolVersion \<or> version h > kProtocolVersion
      then fail UnsupportedVersion ''unsupported protocol version'' h
      else if header_bytes h \<noteq> kFrameHeaderBytes
      then fail InvalidLength ''unsupported frame header length'' h
      else if max_frame_bytes < kFrameHeaderBytes \<or>
              payload_bytes h > max_frame_bytes - kFrameHeaderBytes
      then fail InvalidLength ''frame exceeds configured maximum'' h
      else if flags h \<noteq> 0 then fail ReservedFlags ''reserved frame flags are not supported'' h
      else if crc32 (take kHeaderCrcOffset bs) \<noteq> header_crc32 h
      then fail CrcMismatch ''frame header crc mismatch'' h
      else \<lparr>ok = True, error = MalformedPayload, message_text = '''', decoded_header = h\<rparr>)"

definition decode_frame :: "bytes \<Rightarrow> u32 \<Rightarrow> Frame decode_result" where
  "decode_frame bs max_frame_bytes =
     (let h = decode_header bs max_frame_bytes in
      if \<not> ok h then Inl (error h, message_text h)
      else let expected_size = unat kFrameHeaderBytes + unat (payload_bytes (decoded_header h)) in
      if length bs \<noteq> expected_size
      then Inl (InvalidLength,
                if length bs < expected_size then ''truncated frame payload''
                else ''frame contains trailing bytes'')
      else Inr \<lparr>header = decoded_header h, payload = drop (unat kFrameHeaderBytes) bs\<rparr>)"

lemmas frame_constants = kMagic_def kProtocolVersion_def kMinimumProtocolVersion_def
  kFrameHeaderBytes_def kHeaderCrcOffset_def

lemma length_frame_header_prefix [simp]: "length (frame_header_prefix v t c n f) = 28"
  by (simp add: frame_header_prefix_def)

lemma length_encode_frame [simp]: "length (encode_frame v t c p f) = 32 + length p"
  by (simp add: encode_frame_def Let_def)

text \<open>The accepted headers: every check of \<open>decode_header\<close> as one condition.\<close>

lemma decode_header_ok:
  "ok (decode_header bs mx) \<longleftrightarrow>
     32 \<le> length bs \<and> magic (read_header_fields bs) = kMagic \<and>
     version (read_header_fields bs) \<in> {4, 5} \<and>
     header_bytes (read_header_fields bs) = kFrameHeaderBytes \<and>
     32 + unat (payload_bytes (read_header_fields bs)) \<le> unat mx \<and>
     flags (read_header_fields bs) = 0 \<and>
     crc32 (take 28 bs) = header_crc32 (read_header_fields bs)"
proof -
  let ?h = "read_header_fields bs"
  have ver: "\<not> (version ?h < 4 \<or> version ?h > 5) \<longleftrightarrow> version ?h \<in> {4, 5}"
    by (auto simp: not_less) unat_arith
  have mx: "\<not> (mx < 32 \<or> payload_bytes ?h > mx - 32) \<longleftrightarrow> 32 + unat (payload_bytes ?h) \<le> unat mx"
    by unat_arith
  show ?thesis
    using ver mx by (auto simp: decode_header_def Let_def frame_constants not_less)
qed

lemma decode_header_fields:
  "32 \<le> length bs \<Longrightarrow> decoded_header (decode_header bs mx) = read_header_fields bs"
  by (auto simp: decode_header_def Let_def frame_constants)

text \<open>Any 32 bytes are the encoding of the header fields read from them.\<close>

lemma header_bytes_of_fields:
  assumes "32 \<le> length bs"
  defines "h \<equiv> read_header_fields bs"
  shows "take 28 bs =
     write_u32 (magic h) @ write_u16 (version h) @ write_u16 (frame_type_value (frame_type h)) @
     write_u32 (header_bytes h) @ write_u32 (payload_bytes h) @ write_u64 (correlation_id h) @
     write_u32 (flags h)" (is "_ = ?w")
    and "take 4 (drop 28 bs) = write_u32 (header_crc32 h)"
proof -
  have 16: "write_u16 (read_u16_be bs k) = take 2 (drop k bs)" if "k + 2 \<le> 32" for k
    using that assms(1) by (simp flip: read_u16_be_iff [THEN iffD1, OF _ refl])
  have 32: "write_u32 (read_u32_be bs k) = take 4 (drop k bs)" if "k + 4 \<le> 32" for k
    using that assms(1) by (simp flip: read_u32_be_iff [THEN iffD1, OF _ refl])
  have 64: "write_u64 (read_u64_be bs k) = take 8 (drop k bs)" if "k + 8 \<le> 32" for k
    using that assms(1) by (simp flip: read_u64_be_iff [THEN iffD1, OF _ refl])
  have join: "take m (drop k bs) @ take n (drop (k + m) bs) = take (m + n) (drop k bs)" for k m n
    by (simp add: take_add add.commute)
  have "?w = take 4 (drop 0 bs) @ take 2 (drop 4 bs) @ take 2 (drop 6 bs) @ take 4 (drop 8 bs) @
      take 4 (drop 12 bs) @ take 8 (drop 16 bs) @ take 4 (drop 24 bs)"
    by (simp add: h_def read_header_fields_def 16 32 64)
  also have "\<dots> = take 28 bs"
    using join [of 8 16 4] join [of 4 12 12] join [of 4 8 16] join [of 2 6 20] join [of 2 4 22]
      join [of 4 0 24] by simp
  finally show "take 28 bs = ?w" ..
  show "take 4 (drop 28 bs) = write_u32 (header_crc32 h)"
    by (simp add: h_def read_header_fields_def 32)
qed

lemma read_header_fields_encode [simp]:
  "read_header_fields (encode_frame v t c p f) =
     \<lparr>magic = kMagic, version = v, frame_type = frame_type_cast (frame_type_value t),
      header_bytes = kFrameHeaderBytes, payload_bytes = of_nat (length p), correlation_id = c,
      flags = f, header_crc32 = crc32 (frame_header_prefix v t c (length p) f)\<rparr>"
proof -
  have "read_u16_be (encode_frame v t c p f) 6 = frame_type_value t"
    by (simp add: read_u16_be_iff) (simp add: encode_frame_def Let_def frame_header_prefix_def)
  then show ?thesis
    by (simp add: read_header_fields_def)
      (simp add: read_u16_be_iff read_u32_be_iff read_u64_be_iff encode_frame_def Let_def
        frame_header_prefix_def)
qed

lemma take_encode_frame [simp]:
  "take 28 (encode_frame v t c p f) = frame_header_prefix v t c (length p) f"
  "drop 32 (encode_frame v t c p f) = p"
  by (simp_all add: encode_frame_def Let_def)

text \<open>The values that a frame on the wire can carry under a configured maximum frame size.\<close>

definition frame_valid :: "u32 \<Rightarrow> Frame \<Rightarrow> bool" where
  "frame_valid mx f \<longleftrightarrow>
     version (header f) \<in> {4, 5} \<and> 32 + length (payload f) \<le> unat mx \<and>
     header f =
       \<lparr>magic = kMagic, version = version (header f),
        frame_type = frame_type_cast (frame_type_value (frame_type (header f))),
        header_bytes = kFrameHeaderBytes, payload_bytes = of_nat (length (payload f)),
        correlation_id = correlation_id (header f), flags = 0,
        header_crc32 = crc32 (frame_header_prefix (version (header f)) (frame_type (header f))
          (correlation_id (header f)) (length (payload f)) 0)\<rparr>"

abbreviation encode_frame_of :: "Frame \<Rightarrow> bytes" where
  "encode_frame_of f \<equiv>
     encode_frame (version (header f)) (frame_type (header f)) (correlation_id (header f))
       (payload f) 0"

lemma decode_header_encode_ok:
  assumes "v \<in> {4, 5}" "32 + length p \<le> unat mx" 
  shows "ok (decode_header (encode_frame v t c p 0) mx)"
proof -
  have "length p < 2 ^ 32" using assms(2) unat_u32_less [of mx] by simp
  then show ?thesis
    using assms by (simp add: decode_header_ok)
qed

lemma frame_of_ok_header:
  assumes "ok (decode_header bs mx)"
    and "length bs = 32 + unat (payload_bytes (read_header_fields bs))"
  shows "frame_valid mx \<lparr>header = read_header_fields bs, payload = drop 32 bs\<rparr>"
    and "bs = encode_frame_of \<lparr>header = read_header_fields bs, payload = drop 32 bs\<rparr>"
proof -
  let ?h = "read_header_fields bs"
  have h: "32 \<le> length bs" "magic ?h = kMagic" "version ?h \<in> {4, 5}"
      "header_bytes ?h = kFrameHeaderBytes" "32 + unat (payload_bytes ?h) \<le> unat mx"
      "flags ?h = 0" "crc32 (take 28 bs) = header_crc32 ?h"
    using assms(1) by (auto simp: decode_header_ok)
  have len: "of_nat (length bs - 32) = payload_bytes ?h"
    using assms(2) by simp
  have pre: "take 28 bs =
      frame_header_prefix (version ?h) (frame_type ?h) (correlation_id ?h) (length bs - 32) 0"
    using header_bytes_of_fields(1) [OF h(1)] h len by (simp add: frame_header_prefix_def)
  have cast: "frame_type_cast (frame_type_value (frame_type ?h)) = frame_type ?h"
    by (simp add: read_header_fields_def)
  have crc: "crc32 (frame_header_prefix (version ?h) (frame_type ?h) (correlation_id ?h)
      (length bs - 32) 0) = header_crc32 ?h"
    using h(7) pre by simp
  show "frame_valid mx \<lparr>header = ?h, payload = drop 32 bs\<rparr>"
    unfolding frame_valid_def
  proof (intro conjI)
    show "header \<lparr>header = ?h, payload = drop 32 bs\<rparr> = \<lparr>magic = kMagic,
        version = version (header \<lparr>header = ?h, payload = drop 32 bs\<rparr>),
        frame_type = frame_type_cast
          (frame_type_value (frame_type (header \<lparr>header = ?h, payload = drop 32 bs\<rparr>))),
        header_bytes = kFrameHeaderBytes,
        payload_bytes = of_nat (length (payload \<lparr>header = ?h, payload = drop 32 bs\<rparr>)),
        correlation_id = correlation_id (header \<lparr>header = ?h, payload = drop 32 bs\<rparr>), flags = 0,
        header_crc32 = crc32 (frame_header_prefix
          (version (header \<lparr>header = ?h, payload = drop 32 bs\<rparr>))
          (frame_type (header \<lparr>header = ?h, payload = drop 32 bs\<rparr>))
          (correlation_id (header \<lparr>header = ?h, payload = drop 32 bs\<rparr>))
          (length (payload \<lparr>header = ?h, payload = drop 32 bs\<rparr>)) 0)\<rparr>"
      by (rule FrameHeader.equality) (simp_all add: h cast crc len)
  qed (use h assms(2) in simp_all)
  have "bs = take 28 bs @ take 4 (drop 28 bs) @ drop 32 bs"
    using append_take_drop_id [of 4 "drop 28 bs"] by simp
  then show "bs = encode_frame_of \<lparr>header = ?h, payload = drop 32 bs\<rparr>"
    using pre crc header_bytes_of_fields(2) [OF h(1)] by (simp add: encode_frame_def Let_def)
qed

lemma decode_frame_iff:
  "decode_frame bs mx = Inr f \<longleftrightarrow> frame_valid mx f \<and> bs = encode_frame_of f"
proof
  assume dec: "decode_frame bs mx = Inr f"
  then have ok: "ok (decode_header bs mx)"
    by (auto simp: decode_frame_def Let_def split: if_splits)
  then have "32 \<le> length bs" by (simp add: decode_header_ok)
  then have "length bs = 32 + unat (payload_bytes (read_header_fields bs))"
    and f: "f = \<lparr>header = read_header_fields bs, payload = drop 32 bs\<rparr>"
    using dec ok
    by (auto simp: decode_frame_def Let_def decode_header_fields frame_constants split: if_splits)
  then show "frame_valid mx f \<and> bs = encode_frame_of f"
    using frame_of_ok_header [OF ok] by simp
next
  assume *: "frame_valid mx f \<and> bs = encode_frame_of f"
  then have v: "version (header f) \<in> {4, 5}" "32 + length (payload f) \<le> unat mx"
    and h: "header f = read_header_fields bs"
    by (auto simp: frame_valid_def)
  have len: "length (payload f) < 2 ^ 32" using v(2) unat_u32_less [of mx] by simp
  have ok: "ok (decode_header bs mx)" and bs: "drop 32 bs = payload f"
    "length bs = 32 + length (payload f)"
    using * decode_header_encode_ok [OF v] by simp_all
  have hdr: "decoded_header (decode_header bs mx) = header f"
    using h bs(2) by (simp add: decode_header_fields)
  have "payload_bytes (header f) = of_nat (length (payload f))"
    using * unfolding frame_valid_def by (metis FrameHeader.select_convs(5))
  with ok bs hdr len show "decode_frame bs mx = Inr f"
    by (simp add: decode_frame_def kFrameHeaderBytes_def)
qed

section \<open>Properties of frames\<close>

text \<open>
  C25: the frame codec is exact. A byte string is accepted as the frame \<open>f\<close> under a maximum frame size
  exactly when \<open>f\<close> is a frame that the format can carry within that size and the bytes are the ones
  that \<open>encode_frame\<close> produces for it: encoding round-trips, and no other bytes are accepted.
\<close>

theorem decode_frame_exact:
  "decode_frame bs mx = Inr f \<longleftrightarrow> frame_valid mx f \<and> bs = encode_frame_of f"
  by (rule decode_frame_iff)

text \<open>
  The checksum used for frame headers, log records and offset commits detects every corruption
  confined to four consecutive bytes: the checksums of two byte strings that differ only in a window
  of at most four bytes are different.
\<close>

theorem crc32_detects_burst:
  assumes "length u = length v" "length u \<le> 4" "u \<noteq> v"
  shows "crc32 (pre @ u @ post) \<noteq> crc32 (pre @ v @ post)"
  using crc32_burst [OF assms(1,2)] assms(3) by simp

theorem crc32_detects_burst_witness:
  "crc32 ([1, 2] @ [3, 4, 5, 6] @ [7]) \<noteq> crc32 ([1, 2] @ [3, 4, 5, 0x86] @ [7])"
  by (rule crc32_detects_burst) simp_all

text \<open>
  C26: a frame header in which any single one of the 32 bytes was changed is rejected, whatever the
  configured maximum frame size.
\<close>

theorem corrupt_header_rejected:
  assumes "ok (decode_header bs mx)" "i < 32" "b \<noteq> bs ! i"
  shows "\<not> ok (decode_header (bs[i := b]) mx')"
proof
  assume ok': "ok (decode_header (bs[i := b]) mx')"
  have len: "32 \<le> length bs" using assms(1) by (simp add: decode_header_ok)
  have crc: "write_u32 (crc32 (take 28 bs)) = take 4 (drop 28 bs)"
    "write_u32 (crc32 (take 28 (bs[i := b]))) = take 4 (drop 28 (bs[i := b]))"
    using assms(1) ok' header_bytes_of_fields(2) [OF len]
      header_bytes_of_fields(2) [of "bs[i := b]"] len by (auto simp: decode_header_ok)
  show False
  proof (cases "i < 28")
    case True
    then have "crc32 (take 28 (bs[i := b])) \<noteq> crc32 (take 28 bs)"
      using crc32_update [of i "take 28 bs" b] assms(3) len by (simp add: take_update_swap)
    moreover have "take 4 (drop 28 (bs[i := b])) = take 4 (drop 28 bs)"
      using True by simp
    ultimately show False using crc write_inject(2) by metis
  next
    case False
    then have "take 28 (bs[i := b]) = take 28 bs" by simp
    then have "take 4 (drop 28 (bs[i := b])) = take 4 (drop 28 bs)" using crc by simp
    then have "take 4 (drop 28 (bs[i := b])) ! (i - 28) = take 4 (drop 28 bs) ! (i - 28)"
      by simp
    then show False using False assms(2,3) len by simp
  qed
qed

theorem corrupt_header_rejected_witness:
  "\<not> ok (decode_header ((encode_frame 5 HealthRequest 7 [] 0)[20 := 0xFF]) 1048576)"
proof (rule corrupt_header_rejected [where mx = 64])
  show "ok (decode_header (encode_frame 5 HealthRequest 7 [] 0) 64)"
    by (rule decode_header_encode_ok) simp_all
  show "(0xFF :: u8) \<noteq> encode_frame 5 HealthRequest 7 [] 0 ! 20"
    by (simp add: encode_frame_def Let_def frame_header_prefix_def write_u64_def nth_append)
qed simp

end
