(* ===== verification/Bolt_Messages.thy ===== *)
theory Bolt_Messages
  imports Bolt_Wire Bolt_Compression Bolt_Frame
begin

text \<open>
  The request and response payloads of the data path (\<open>src/include/boltstream/protocol/protocol.h\<close>,
  \<open>src/src/protocol/protocol.cpp\<close>): errors, health, authentication, topic creation, produce, fetch and
  offset commits. Every payload whose encoding is canonical is an interpretation of the \<open>message\<close>
  interface. \<open>valid_*\<close> collects what the decoder demands of the decoded value together with the width
  of the length prefixes.
\<close>

lemma error_code_cast_eq [wire_simps]:
  "error_code_cast w = c \<longleftrightarrow> w = error_code_value c \<and> error_code_ok c"
  by (auto simp: error_code_ok_def)

section \<open>Errors, health and authentication\<close>

record ErrorResponse =
  code :: ErrorCode
  error_message :: string

definition encode_error_response :: "ErrorCode \<Rightarrow> string \<Rightarrow> bytes" where [bolt_defs]:
  "encode_error_response code' message' =
     write_u32 (error_code_value code') @ write_string message'"

definition decode_error_response :: "bytes \<Rightarrow> ErrorResponse decode_result" where [bolt_defs]:
  "decode_error_response p =
     (case do {
        (code, r) \<leftarrow> read_u32 (payload_reader p);
        (message, r) \<leftarrow> read_string r;
        require (reader_done r);
        Some (ErrorResponse.make (error_code_cast code) message)}
      of None \<Rightarrow> Inl (MalformedPayload, ''malformed error response payload'')
       | Some response \<Rightarrow> Inr response)"

definition valid_error_response :: "ErrorResponse \<Rightarrow> bool" where [bolt_defs]:
  "valid_error_response response \<longleftrightarrow>
     error_code_ok (code response) \<and> length (error_message response) < 2 ^ 32"

interpretation error_response: message "\<lambda>m. encode_error_response (code m) (error_message m)"
  decode_error_response valid_error_response
  by (unfold_locales, rename_tac p m, case_tac m)
    (simp add: bolt_defs ErrorResponse.make_def decoder_simps wire_simps, blast?)

record HealthResponse =
  status :: string
  detail :: string

definition encode_health_response :: "string \<Rightarrow> string \<Rightarrow> bytes" where [bolt_defs]:
  "encode_health_response status' detail' =
     write_string status' @ write_string detail'"

definition decode_health_response :: "bytes \<Rightarrow> HealthResponse decode_result" where [bolt_defs]:
  "decode_health_response p =
     (case do {
        (status, r) \<leftarrow> read_string (payload_reader p);
        (detail, r) \<leftarrow> read_string r;
        require (reader_done r);
        Some (HealthResponse.make status detail)}
      of None \<Rightarrow> Inl (MalformedPayload, ''malformed health response payload'')
       | Some response \<Rightarrow> Inr response)"

definition valid_health_response :: "HealthResponse \<Rightarrow> bool" where [bolt_defs]:
  "valid_health_response response \<longleftrightarrow>
     length (HealthResponse.status response) < 2 ^ 32 \<and>
     length (HealthResponse.detail response) < 2 ^ 32"

interpretation health_response: message
  "\<lambda>m. encode_health_response (HealthResponse.status m) (HealthResponse.detail m)"
  decode_health_response valid_health_response
  by (unfold_locales, rename_tac p m, case_tac m)
    (simp add: bolt_defs HealthResponse.make_def decoder_simps wire_simps, blast?)

record AuthRequest =
  token :: string

definition encode_auth_request :: "string \<Rightarrow> bytes" where [bolt_defs]:
  "encode_auth_request token' =
     write_string token'"

definition decode_auth_request :: "bytes \<Rightarrow> AuthRequest decode_result" where [bolt_defs]:
  "decode_auth_request p =
     (case do {
        (token, r) \<leftarrow> read_string (payload_reader p);
        require (reader_done r);
        Some (AuthRequest.make token)}
      of None \<Rightarrow> Inl (MalformedPayload, ''malformed auth request payload'')
       | Some request \<Rightarrow>
          if AuthRequest.token request = []
          then Inl (MalformedPayload, ''auth token must not be empty'')
          else Inr request)"

definition valid_auth_request :: "AuthRequest \<Rightarrow> bool" where [bolt_defs]:
  "valid_auth_request request \<longleftrightarrow>
     length (AuthRequest.token request) < 2 ^ 32 \<and> AuthRequest.token request \<noteq> []"

interpretation auth_request: message "\<lambda>m. encode_auth_request (AuthRequest.token m)"
  decode_auth_request valid_auth_request
  by (unfold_locales, rename_tac p m, case_tac m)
    (simp add: bolt_defs AuthRequest.make_def decoder_simps wire_simps, blast?)

record AuthResponse =
  status :: string

definition encode_auth_response :: "string \<Rightarrow> bytes" where [bolt_defs]:
  "encode_auth_response status' =
     write_string status'"

definition decode_auth_response :: "bytes \<Rightarrow> AuthResponse decode_result" where [bolt_defs]:
  "decode_auth_response p =
     (case do {
        (status, r) \<leftarrow> read_string (payload_reader p);
        require (reader_done r);
        Some (AuthResponse.make status)}
      of None \<Rightarrow> Inl (MalformedPayload, ''malformed auth response payload'')
       | Some response \<Rightarrow> Inr response)"

definition valid_auth_response :: "AuthResponse \<Rightarrow> bool" where [bolt_defs]:
  "valid_auth_response response \<longleftrightarrow>
     length (AuthResponse.status response) < 2 ^ 32"

interpretation auth_response: message "\<lambda>m. encode_auth_response (AuthResponse.status m)"
  decode_auth_response valid_auth_response
  by (unfold_locales, rename_tac p m, case_tac m)
    (simp add: bolt_defs AuthResponse.make_def decoder_simps wire_simps, blast?)

section \<open>Topic creation and single-record produce\<close>

record CreateTopicRequest =
  topic :: string
  partition_count :: u16

definition encode_create_topic_request :: "string \<Rightarrow> u16 \<Rightarrow> bytes" where [bolt_defs]:
  "encode_create_topic_request topic' partition_count' =
     write_string topic' @ write_u16 partition_count'"

definition decode_create_topic_request :: "bytes \<Rightarrow> CreateTopicRequest decode_result" where [bolt_defs]:
  "decode_create_topic_request p =
     (case do {
        (topic, r) \<leftarrow> read_string (payload_reader p);
        (partition_count, r) \<leftarrow> read_u16 r;
        require (reader_done r);
        Some (CreateTopicRequest.make topic partition_count)}
      of None \<Rightarrow> Inl (MalformedPayload, ''malformed create-topic request payload'')
       | Some request \<Rightarrow>
          if CreateTopicRequest.topic request = []
          then Inl (MalformedPayload, ''create-topic topic must not be empty'')
          else if CreateTopicRequest.partition_count request = 0
          then Inl (MalformedPayload, ''create-topic partition count must be greater than zero'')
          else Inr request)"

definition valid_create_topic_request :: "CreateTopicRequest \<Rightarrow> bool" where [bolt_defs]:
  "valid_create_topic_request request \<longleftrightarrow>
     length (CreateTopicRequest.topic request) < 2 ^ 32 \<and>
     CreateTopicRequest.topic request \<noteq> [] \<and>
     CreateTopicRequest.partition_count request \<noteq> 0"

interpretation create_topic_request: message
  "\<lambda>m. encode_create_topic_request (CreateTopicRequest.topic m) (CreateTopicRequest.partition_count m)"
  decode_create_topic_request valid_create_topic_request
  by (unfold_locales, rename_tac p m, case_tac m)
    (simp add: bolt_defs CreateTopicRequest.make_def decoder_simps wire_simps, blast?)

record CreateTopicResponse =
  topic :: string
  partition_count :: u16
  status :: string

definition encode_create_topic_response :: "CreateTopicResponse \<Rightarrow> bytes" where [bolt_defs]:
  "encode_create_topic_response response =
     write_string (CreateTopicResponse.topic response) @
     write_u16 (CreateTopicResponse.partition_count response) @
     write_string (CreateTopicResponse.status response)"

definition decode_create_topic_response :: "bytes \<Rightarrow> CreateTopicResponse decode_result" where [bolt_defs]:
  "decode_create_topic_response p =
     (case do {
        (topic, r) \<leftarrow> read_string (payload_reader p);
        (partition_count, r) \<leftarrow> read_u16 r;
        (status, r) \<leftarrow> read_string r;
        require (reader_done r);
        Some (CreateTopicResponse.make topic partition_count status)}
      of None \<Rightarrow> Inl (MalformedPayload, ''malformed create-topic response payload'')
       | Some response \<Rightarrow> Inr response)"

definition valid_create_topic_response :: "CreateTopicResponse \<Rightarrow> bool" where [bolt_defs]:
  "valid_create_topic_response response \<longleftrightarrow>
     length (CreateTopicResponse.topic response) < 2 ^ 32 \<and>
     length (CreateTopicResponse.status response) < 2 ^ 32"

interpretation create_topic_response: message encode_create_topic_response
  decode_create_topic_response valid_create_topic_response
  by (unfold_locales, rename_tac p m, case_tac m)
    (simp add: bolt_defs CreateTopicResponse.make_def decoder_simps wire_simps, blast?)

record ProduceRequest =
  topic :: string
  key :: bytes
  message :: bytes

definition encode_produce_request :: "string \<Rightarrow> bytes \<Rightarrow> bytes \<Rightarrow> bytes" where [bolt_defs]:
  "encode_produce_request topic' key' message' =
     write_string topic' @ write_bytes key' @ write_bytes message'"

definition decode_produce_request :: "bytes \<Rightarrow> ProduceRequest decode_result" where [bolt_defs]:
  "decode_produce_request p =
     (case do {
        (topic, r) \<leftarrow> read_string (payload_reader p);
        (key, r) \<leftarrow> read_bytes r;
        (message, r) \<leftarrow> read_bytes r;
        require (reader_done r);
        Some (ProduceRequest.make topic key message)}
      of None \<Rightarrow> Inl (MalformedPayload, ''malformed produce request payload'')
       | Some request \<Rightarrow>
          if ProduceRequest.topic request = []
          then Inl (MalformedPayload, ''produce topic must not be empty'')
          else if ProduceRequest.message request = []
          then Inl (MalformedPayload, ''produce message must not be empty'')
          else Inr request)"

definition valid_produce_request :: "ProduceRequest \<Rightarrow> bool" where [bolt_defs]:
  "valid_produce_request request \<longleftrightarrow>
     length (ProduceRequest.topic request) < 2 ^ 32 \<and>
     length (ProduceRequest.key request) < 2 ^ 32 \<and>
     length (ProduceRequest.message request) < 2 ^ 32 \<and>
     ProduceRequest.topic request \<noteq> [] \<and> ProduceRequest.message request \<noteq> []"

interpretation produce_request: message
  "\<lambda>m. encode_produce_request (ProduceRequest.topic m) (ProduceRequest.key m) (ProduceRequest.message m)"
  decode_produce_request valid_produce_request
  by (unfold_locales, rename_tac p m, case_tac m)
    (simp add: bolt_defs ProduceRequest.make_def decoder_simps wire_simps, blast?)

definition validate_produce_request :: "bytes \<Rightarrow> unit decode_result" where
  "validate_produce_request p = map_sum id (\<lambda>_. ()) (decode_produce_request p)"

record ProduceResponse =
  topic :: string
  partition :: u16
  offset :: u64
  next_offset :: u64
  encoded_byte_size :: u32

definition encode_produce_response :: "ProduceResponse \<Rightarrow> bytes" where [bolt_defs]:
  "encode_produce_response response =
     write_string (ProduceResponse.topic response) @
     write_u16 (ProduceResponse.partition response) @
     write_u64 (ProduceResponse.offset response) @
     write_u64 (ProduceResponse.next_offset response) @
     write_u32 (ProduceResponse.encoded_byte_size response)"

definition decode_produce_response :: "bytes \<Rightarrow> ProduceResponse decode_result" where [bolt_defs]:
  "decode_produce_response p =
     (case do {
        (topic, r) \<leftarrow> read_string (payload_reader p);
        (partition, r) \<leftarrow> read_u16 r;
        (offset, r) \<leftarrow> read_u64 r;
        (next_offset, r) \<leftarrow> read_u64 r;
        (encoded_byte_size, r) \<leftarrow> read_u32 r;
        require (reader_done r);
        Some (ProduceResponse.make topic partition offset next_offset encoded_byte_size)}
      of None \<Rightarrow> Inl (MalformedPayload, ''malformed produce response payload'')
       | Some response \<Rightarrow> Inr response)"

definition valid_produce_response :: "ProduceResponse \<Rightarrow> bool" where [bolt_defs]:
  "valid_produce_response response \<longleftrightarrow>
     length (ProduceResponse.topic response) < 2 ^ 32"

interpretation produce_response: message encode_produce_response decode_produce_response
  valid_produce_response
  by (unfold_locales, rename_tac p m, case_tac m)
    (simp add: bolt_defs ProduceResponse.make_def decoder_simps wire_simps, blast?)

section \<open>Offset commits\<close>

record OffsetCommitRequest =
  group :: string
  topic :: string
  partition :: u16
  next_offset :: u64

definition encode_offset_commit_request :: "OffsetCommitRequest \<Rightarrow> bytes" where [bolt_defs]:
  "encode_offset_commit_request request =
     write_string (OffsetCommitRequest.group request) @
     write_string (OffsetCommitRequest.topic request) @
     write_u16 (OffsetCommitRequest.partition request) @
     write_u64 (OffsetCommitRequest.next_offset request)"

definition decode_offset_commit_request :: "bytes \<Rightarrow> OffsetCommitRequest decode_result" where [bolt_defs]:
  "decode_offset_commit_request p =
     (case do {
        (grp, r) \<leftarrow> read_string (payload_reader p);
        (topic, r) \<leftarrow> read_string r;
        (partition, r) \<leftarrow> read_u16 r;
        (next_offset, r) \<leftarrow> read_u64 r;
        require (reader_done r);
        Some (OffsetCommitRequest.make grp topic partition next_offset)}
      of None \<Rightarrow> Inl (MalformedPayload, ''malformed offset-commit request payload'')
       | Some request \<Rightarrow>
          if OffsetCommitRequest.group request = []
          then Inl (MalformedPayload, ''offset-commit group must not be empty'')
          else if OffsetCommitRequest.topic request = []
          then Inl (MalformedPayload, ''offset-commit topic must not be empty'')
          else Inr request)"

definition valid_offset_commit_request :: "OffsetCommitRequest \<Rightarrow> bool" where [bolt_defs]:
  "valid_offset_commit_request request \<longleftrightarrow>
     length (OffsetCommitRequest.group request) < 2 ^ 32 \<and>
     length (OffsetCommitRequest.topic request) < 2 ^ 32 \<and>
     OffsetCommitRequest.group request \<noteq> [] \<and>
     OffsetCommitRequest.topic request \<noteq> []"

interpretation offset_commit_request: message encode_offset_commit_request
  decode_offset_commit_request valid_offset_commit_request
  by (unfold_locales, rename_tac p m, case_tac m)
    (simp add: bolt_defs OffsetCommitRequest.make_def decoder_simps wire_simps, blast?)

record OffsetCommitResponse =
  group :: string
  topic :: string
  partition :: u16
  next_offset :: u64

definition encode_offset_commit_response :: "OffsetCommitResponse \<Rightarrow> bytes" where [bolt_defs]:
  "encode_offset_commit_response response =
     write_string (OffsetCommitResponse.group response) @
     write_string (OffsetCommitResponse.topic response) @
     write_u16 (OffsetCommitResponse.partition response) @
     write_u64 (OffsetCommitResponse.next_offset response)"

definition decode_offset_commit_response :: "bytes \<Rightarrow> OffsetCommitResponse decode_result" where [bolt_defs]:
  "decode_offset_commit_response p =
     (case do {
        (grp, r) \<leftarrow> read_string (payload_reader p);
        (topic, r) \<leftarrow> read_string r;
        (partition, r) \<leftarrow> read_u16 r;
        (next_offset, r) \<leftarrow> read_u64 r;
        require (reader_done r);
        Some (OffsetCommitResponse.make grp topic partition next_offset)}
      of None \<Rightarrow> Inl (MalformedPayload, ''malformed offset-commit response payload'')
       | Some response \<Rightarrow> Inr response)"

definition valid_offset_commit_response :: "OffsetCommitResponse \<Rightarrow> bool" where [bolt_defs]:
  "valid_offset_commit_response response \<longleftrightarrow>
     length (OffsetCommitResponse.group response) < 2 ^ 32 \<and>
     length (OffsetCommitResponse.topic response) < 2 ^ 32"

interpretation offset_commit_response: message encode_offset_commit_response
  decode_offset_commit_response valid_offset_commit_response
  by (unfold_locales, rename_tac p m, case_tac m)
    (simp add: bolt_defs OffsetCommitResponse.make_def decoder_simps wire_simps, blast?)

section \<open>Batch produce\<close>

record BatchRecord =
  key :: bytes
  message :: bytes

definition write_batch_record :: "BatchRecord \<Rightarrow> bytes" where [bolt_defs]:
  "write_batch_record rec = write_bytes (BatchRecord.key rec) @ write_bytes (BatchRecord.message rec)"

text \<open>The body of the loop in \<open>decode_record_set\<close>.\<close>

definition read_batch_record :: "PayloadReader \<Rightarrow> (BatchRecord \<times> PayloadReader) option" where [bolt_defs]:
  "read_batch_record r = do {
     (key, r) \<leftarrow> read_bytes r;
     (message, r) \<leftarrow> read_bytes r;
     require (message \<noteq> []);
     Some (BatchRecord.make key message, r)}"

definition valid_batch_record :: "BatchRecord \<Rightarrow> bool" where [bolt_defs]:
  "valid_batch_record rec \<longleftrightarrow>
     length (BatchRecord.key rec) < 2 ^ 32 \<and> length (BatchRecord.message rec) < 2 ^ 32 \<and>
     BatchRecord.message rec \<noteq> []"

interpretation batch_record: codec write_batch_record read_batch_record valid_batch_record
  by (unfold_locales, rename_tac r m r', case_tac m)
    (simp add: bolt_defs BatchRecord.make_def decoder_simps wire_simps, blast?)

definition encode_record_set :: "BatchRecord list \<Rightarrow> bytes" where
  "encode_record_set records =
     write_u32 (of_nat (length records)) @ concat (map write_batch_record records)"

definition decode_record_set :: "bytes \<Rightarrow> u32 \<Rightarrow> BatchRecord list decode_result" where
  "decode_record_set p expected_count =
     (case read_u32 (payload_reader p) of
        None \<Rightarrow> Inl (InvalidBatch, ''record-set count mismatch'')
      | Some (count, r) \<Rightarrow>
          if count \<noteq> expected_count then Inl (InvalidBatch, ''record-set count mismatch'')
          else case read_many (unat count) read_batch_record r of
                 None \<Rightarrow> Inl (InvalidBatch, ''malformed record set'')
               | Some (records, r) \<Rightarrow>
                   if \<not> reader_done r then Inl (InvalidBatch, ''trailing record-set bytes'')
                   else Inr records)"

definition valid_record_set :: "u32 \<Rightarrow> BatchRecord list \<Rightarrow> bool" where
  "valid_record_set n records \<longleftrightarrow>
     length records = unat n \<and> (\<forall>rec \<in> set records. valid_batch_record rec)"

interpretation record_set: message encode_record_set "\<lambda>p. decode_record_set p n" "valid_record_set n"
  for n
proof
  fix p and recs :: "BatchRecord list"
  have "decode_record_set p n = Inr recs \<longleftrightarrow>
      (\<exists>r. read_u32 (payload_reader p) = Some (n, r) \<and>
         (\<exists>r'. read_many (unat n) read_batch_record r = Some (recs, r') \<and> reader_done r'))"
    by (auto simp: decode_record_set_def split: option.splits if_splits)
  then show "decode_record_set p n = Inr recs \<longleftrightarrow>
      valid_record_set n recs \<and> p = encode_record_set recs"
    by (auto simp: wire_simps batch_record.read_many_iff reader_done_leaves valid_record_set_def
        encode_record_set_def)
qed

record ProduceBatchRequest =
  topic :: string
  partition :: u16
  codec :: Codec
  record_count :: u32
  uncompressed_bytes :: u32
  encoded_records :: bytes

text \<open>The payload with a given 16-bit codec field.\<close>

definition produce_batch_bytes :: "u16 \<Rightarrow> ProduceBatchRequest \<Rightarrow> bytes" where [bolt_defs]:
  "produce_batch_bytes codec_field request =
     write_string (ProduceBatchRequest.topic request) @
     write_u16 (ProduceBatchRequest.partition request) @ write_u16 codec_field @
     write_u32 (ProduceBatchRequest.record_count request) @
     write_u32 (ProduceBatchRequest.uncompressed_bytes request) @
     write_bytes (ProduceBatchRequest.encoded_records request)"

definition encode_produce_batch_request :: "ProduceBatchRequest \<Rightarrow> bytes" where [bolt_defs]:
  "encode_produce_batch_request request =
     produce_batch_bytes (codec_wire (ProduceBatchRequest.codec request)) request"

definition decode_produce_batch_request :: "bytes \<Rightarrow> ProduceBatchRequest decode_result" where [bolt_defs]:
  "decode_produce_batch_request p =
     (case do {
        (topic, r) \<leftarrow> read_string (payload_reader p);
        (partition, r) \<leftarrow> read_u16 r;
        (codec, r) \<leftarrow> read_u16 r;
        (record_count, r) \<leftarrow> read_u32 r;
        (uncompressed_bytes, r) \<leftarrow> read_u32 r;
        (encoded_records, r) \<leftarrow> read_bytes r;
        require (reader_done r);
        Some (ProduceBatchRequest.make topic partition (codec_cast codec) record_count
          uncompressed_bytes encoded_records)}
      of None \<Rightarrow> Inl (MalformedPayload, ''malformed produce-batch request'')
       | Some request \<Rightarrow>
          if ProduceBatchRequest.topic request = [] \<or> ProduceBatchRequest.record_count request = 0 \<or>
             ProduceBatchRequest.uncompressed_bytes request = 0 \<or>
             ProduceBatchRequest.encoded_records request = []
          then Inl (InvalidBatch, ''produce batch must not be empty'')
          else if \<not> is_supported (ProduceBatchRequest.codec request)
          then Inl (UnsupportedCodec, ''unsupported compression codec'')
          else Inr request)"

definition valid_produce_batch_request :: "ProduceBatchRequest \<Rightarrow> bool" where [bolt_defs]:
  "valid_produce_batch_request request \<longleftrightarrow>
     length (ProduceBatchRequest.topic request) < 2 ^ 32 \<and>
     length (ProduceBatchRequest.encoded_records request) < 2 ^ 32 \<and>
     ProduceBatchRequest.topic request \<noteq> [] \<and> ProduceBatchRequest.record_count request \<noteq> 0 \<and>
     ProduceBatchRequest.uncompressed_bytes request \<noteq> 0 \<and>
     ProduceBatchRequest.encoded_records request \<noteq> [] \<and>
     is_supported (ProduceBatchRequest.codec request)"

text \<open>
  The decoder narrows the 16-bit codec field to the 8-bit enum before it checks it, so it accepts a
  request for every codec field with the right low byte.
\<close>

lemma decode_produce_batch_request_iff:
  "decode_produce_batch_request p = Inr m \<longleftrightarrow>
     valid_produce_batch_request m \<and>
     (\<exists>w. codec_cast w = ProduceBatchRequest.codec m \<and> p = produce_batch_bytes w m)"
  by (cases m) (simp add: bolt_defs ProduceBatchRequest.make_def decoder_simps wire_simps, blast)

interpretation produce_batch_request: message_roundtrip encode_produce_batch_request
  decode_produce_batch_request valid_produce_batch_request
  by unfold_locales
    (auto simp: decode_produce_batch_request_iff encode_produce_batch_request_def
      valid_produce_batch_request_def intro!: exI)

record ProduceBatchResponse =
  topic :: string
  partition :: u16
  base_offset :: u64
  next_offset :: u64
  record_count :: u32
  logical_bytes :: u32
  encoded_bytes :: u32
  stored_bytes :: u32

definition encode_produce_batch_response :: "ProduceBatchResponse \<Rightarrow> bytes" where [bolt_defs]:
  "encode_produce_batch_response response =
     write_string (ProduceBatchResponse.topic response) @
     write_u16 (ProduceBatchResponse.partition response) @
     write_u64 (ProduceBatchResponse.base_offset response) @
     write_u64 (ProduceBatchResponse.next_offset response) @
     write_u32 (ProduceBatchResponse.record_count response) @
     write_u32 (ProduceBatchResponse.logical_bytes response) @
     write_u32 (ProduceBatchResponse.encoded_bytes response) @
     write_u32 (ProduceBatchResponse.stored_bytes response)"

definition decode_produce_batch_response :: "bytes \<Rightarrow> ProduceBatchResponse decode_result" where [bolt_defs]:
  "decode_produce_batch_response p =
     (case do {
        (topic, r) \<leftarrow> read_string (payload_reader p);
        (partition, r) \<leftarrow> read_u16 r;
        (base_offset, r) \<leftarrow> read_u64 r;
        (next_offset, r) \<leftarrow> read_u64 r;
        (record_count, r) \<leftarrow> read_u32 r;
        (logical_bytes, r) \<leftarrow> read_u32 r;
        (encoded_bytes, r) \<leftarrow> read_u32 r;
        (stored_bytes, r) \<leftarrow> read_u32 r;
        require (reader_done r);
        Some (ProduceBatchResponse.make topic partition base_offset next_offset record_count
          logical_bytes encoded_bytes stored_bytes)}
      of None \<Rightarrow> Inl (MalformedPayload, ''malformed produce-batch response'')
       | Some response \<Rightarrow> Inr response)"

definition valid_produce_batch_response :: "ProduceBatchResponse \<Rightarrow> bool" where [bolt_defs]:
  "valid_produce_batch_response response \<longleftrightarrow>
     length (ProduceBatchResponse.topic response) < 2 ^ 32"

interpretation produce_batch_response: message encode_produce_batch_response
  decode_produce_batch_response valid_produce_batch_response
  by (unfold_locales, rename_tac p m, case_tac m)
    (simp add: bolt_defs ProduceBatchResponse.make_def decoder_simps wire_simps, blast?)

section \<open>Fetch\<close>

record FetchRequest =
  topic :: string
  partition :: u16
  from_selector :: string
  group :: string
  max_wait_ms :: u32

definition encode_fetch_request :: "string \<Rightarrow> u16 \<Rightarrow> string \<Rightarrow> string \<Rightarrow> u32 \<Rightarrow> bytes" where [bolt_defs]:
  "encode_fetch_request topic' partition' selector' grp' max_wait_ms' =
     write_string topic' @ write_u16 partition' @ write_string selector' @ write_string grp' @
     write_u32 max_wait_ms'"

definition decode_fetch_request :: "bytes \<Rightarrow> FetchRequest decode_result" where [bolt_defs]:
  "decode_fetch_request p =
     (case do {
        (topic, r) \<leftarrow> read_string (payload_reader p);
        (partition, r) \<leftarrow> read_u16 r;
        (selector, r) \<leftarrow> read_string r;
        (grp, r) \<leftarrow> read_string r;
        (max_wait_ms, r) \<leftarrow> read_u32 r;
        require (reader_done r);
        Some (FetchRequest.make topic partition selector grp max_wait_ms)}
      of None \<Rightarrow> Inl (MalformedPayload, ''malformed fetch request payload'')
       | Some request \<Rightarrow>
          if FetchRequest.topic request = []
          then Inl (MalformedPayload, ''fetch topic must not be empty'')
          else if FetchRequest.from_selector request = []
          then Inl (MalformedPayload, ''fetch offset selector must not be empty'')
          else Inr request)"

definition valid_fetch_request :: "FetchRequest \<Rightarrow> bool" where [bolt_defs]:
  "valid_fetch_request request \<longleftrightarrow>
     length (FetchRequest.topic request) < 2 ^ 32 \<and>
     length (FetchRequest.from_selector request) < 2 ^ 32 \<and>
     length (FetchRequest.group request) < 2 ^ 32 \<and>
     FetchRequest.topic request \<noteq> [] \<and> FetchRequest.from_selector request \<noteq> []"

interpretation fetch_request: message
  "\<lambda>m. encode_fetch_request (FetchRequest.topic m) (FetchRequest.partition m) (FetchRequest.from_selector m) (FetchRequest.group m) (FetchRequest.max_wait_ms m)"
  decode_fetch_request valid_fetch_request
  by (unfold_locales, rename_tac p m, case_tac m)
    (simp add: bolt_defs FetchRequest.make_def decoder_simps wire_simps, blast?)

definition validate_fetch_request :: "bytes \<Rightarrow> unit decode_result" where
  "validate_fetch_request p = map_sum id (\<lambda>_. ()) (decode_fetch_request p)"

definition kCompressedFetchMarker :: u32 where "kCompressedFetchMarker = 0x42544348"

record FetchRecord =
  offset :: u64
  timestamp_unix_ns :: u64
  key :: bytes
  message :: bytes
  encoded_byte_size :: u32

record FetchResponse =
  topic :: string
  partition :: u16
  from_offset :: u64
  next_offset :: u64
  records :: "FetchRecord list"

definition write_fetch_record :: "FetchRecord \<Rightarrow> bytes" where [bolt_defs]:
  "write_fetch_record rec =
     write_u64 (FetchRecord.offset rec) @ write_u64 (FetchRecord.timestamp_unix_ns rec) @
     write_bytes (FetchRecord.key rec) @ write_bytes (FetchRecord.message rec) @
     write_u32 (FetchRecord.encoded_byte_size rec)"

definition read_fetch_record :: "PayloadReader \<Rightarrow> (FetchRecord \<times> PayloadReader) option" where [bolt_defs]:
  "read_fetch_record r = do {
     (offset, r) \<leftarrow> read_u64 r;
     (timestamp_unix_ns, r) \<leftarrow> read_u64 r;
     (key, r) \<leftarrow> read_bytes r;
     (message, r) \<leftarrow> read_bytes r;
     (encoded_byte_size, r) \<leftarrow> read_u32 r;
     Some (FetchRecord.make offset timestamp_unix_ns key message encoded_byte_size, r)}"

definition valid_fetch_record :: "FetchRecord \<Rightarrow> bool" where [bolt_defs]:
  "valid_fetch_record rec \<longleftrightarrow>
     length (FetchRecord.key rec) < 2 ^ 32 \<and> length (FetchRecord.message rec) < 2 ^ 32"

interpretation fetch_record: codec write_fetch_record read_fetch_record valid_fetch_record
  by (unfold_locales, rename_tac r m r', case_tac m)
    (simp add: bolt_defs FetchRecord.make_def decoder_simps wire_simps, blast?)

definition encode_fetch_response :: "FetchResponse \<Rightarrow> bytes" where
  "encode_fetch_response response =
     write_string (FetchResponse.topic response) @ write_u16 (FetchResponse.partition response) @
     write_u64 (FetchResponse.from_offset response) @ write_u64 (FetchResponse.next_offset response) @
     write_u32 (of_nat (length (FetchResponse.records response))) @
     concat (map write_fetch_record (FetchResponse.records response))"

definition encode_compressed_fetch_response ::
  "string \<Rightarrow> u16 \<Rightarrow> u64 \<Rightarrow> u64 \<Rightarrow> u64 \<Rightarrow> Codec \<Rightarrow> u32 \<Rightarrow> u32 \<Rightarrow> bytes \<Rightarrow> bytes" where
  "encode_compressed_fetch_response topic' partition' from' next' timestamp' codec' count'
       uncompressed' encoded' =
     write_string topic' @ write_u16 partition' @ write_u64 from' @ write_u64 next' @
     write_u32 kCompressedFetchMarker @ write_u16 (codec_wire codec') @ write_u64 timestamp' @
     write_u32 count' @ write_u32 uncompressed' @ write_bytes encoded'"

text \<open>
  The compressed form of a fetch response, after the marker has been read: every record takes the
  batch timestamp, consecutive offsets from \<open>from_offset\<close>, and an equal share of the encoded size.
\<close>

definition expand_fetch_records ::
  "u64 \<Rightarrow> u64 \<Rightarrow> nat \<Rightarrow> BatchRecord list \<Rightarrow> FetchRecord list" where
  "expand_fetch_records from' timestamp' encoded_size batch =
     map (\<lambda>(i, rec). FetchRecord.make (from' + of_nat i) timestamp' (BatchRecord.key rec)
            (BatchRecord.message rec) (of_nat (encoded_size div length batch)))
       (enumerate 0 batch)"

definition decode_compressed_records ::
  "zstd \<Rightarrow> u64 \<Rightarrow> PayloadReader \<Rightarrow> FetchRecord list decode_result" where
  "decode_compressed_records z from' r =
     (case do {
        (codec_value, r) \<leftarrow> read_u16 r;
        (timestamp, r) \<leftarrow> read_u64 r;
        (count, r) \<leftarrow> read_u32 r;
        (uncompressed, r) \<leftarrow> read_u32 r;
        (encoded, r) \<leftarrow> read_bytes r;
        require (reader_done r);
        Some (codec_cast codec_value, timestamp, count, uncompressed, encoded)}
      of None \<Rightarrow> Inl (MalformedPayload, ''malformed compressed fetch response'')
       | Some (cdc, ts, count, uncompressed, encoded) \<Rightarrow>
          (case decompress z cdc encoded (unat uncompressed) (unat kDefaultMaxFrameBytes) of
             Inl what \<Rightarrow> Inl (InvalidBatch, what)
           | Inr raw \<Rightarrow>
              (case decode_record_set raw count of
                 Inl e \<Rightarrow> Inl e
               | Inr batch \<Rightarrow> Inr (expand_fetch_records from' ts (length encoded) batch))))"

definition read_fetch_header ::
  "PayloadReader \<Rightarrow> ((string \<times> u16 \<times> u64 \<times> u64 \<times> u32) \<times> PayloadReader) option" where
  "read_fetch_header r = do {
     (tp, r) \<leftarrow> read_string r;
     (part, r) \<leftarrow> read_u16 r;
     (from_off, r) \<leftarrow> read_u64 r;
     (next_off, r) \<leftarrow> read_u64 r;
     (count, r) \<leftarrow> read_u32 r;
     Some ((tp, part, from_off, next_off, count), r)}"

definition read_fetch_records :: "u32 \<Rightarrow> PayloadReader \<Rightarrow> FetchRecord list option" where
  "read_fetch_records count r = do {
     (recs, r) \<leftarrow> read_many (unat count) read_fetch_record r;
     require (reader_done r);
     Some recs}"

definition decode_fetch_response :: "zstd \<Rightarrow> bytes \<Rightarrow> FetchResponse decode_result" where
  "decode_fetch_response z p =
     (case read_fetch_header (payload_reader p) of
        None \<Rightarrow> Inl (MalformedPayload, ''malformed fetch response payload'')
      | Some ((tp, part, from_off, next_off, count), r) \<Rightarrow>
          if count = kCompressedFetchMarker
          then (case decode_compressed_records z from_off r of
                  Inl e \<Rightarrow> Inl e
                | Inr recs \<Rightarrow> Inr (FetchResponse.make tp part from_off next_off recs))
          else (case read_fetch_records count r of
                  None \<Rightarrow> Inl (MalformedPayload, ''malformed fetch response payload'')
                | Some recs \<Rightarrow> Inr (FetchResponse.make tp part from_off next_off recs)))"

definition valid_fetch_response :: "FetchResponse \<Rightarrow> bool" where
  "valid_fetch_response response \<longleftrightarrow>
     length (FetchResponse.topic response) < 2 ^ 32 \<and>
     length (FetchResponse.records response) < 2 ^ 32 \<and>
     length (FetchResponse.records response) \<noteq> unat kCompressedFetchMarker \<and>
     (\<forall>rec \<in> set (FetchResponse.records response). valid_fetch_record rec)"

lemma read_fetch_header_iff:
  "read_fetch_header r = Some ((tp, part, from_off, next_off, count), r') \<longleftrightarrow>
     consumes r (write_string tp @ write_u16 part @ write_u64 from_off @ write_u64 next_off @
       write_u32 count) r' \<and> length tp < 2 ^ 32"
  by (simp add: read_fetch_header_def decoder_simps wire_simps)

lemma read_fetch_records_iff:
  "read_fetch_records count r = Some recs \<longleftrightarrow>
     leaves r (concat (map write_fetch_record recs)) \<and> length recs = unat count \<and>
     (\<forall>rec \<in> set recs. valid_fetch_record rec)"
  by (simp add: read_fetch_records_def bind_eq_Some_conv reader_done_leaves
      fetch_record.read_many_iff)

interpretation fetch_response: message_roundtrip encode_fetch_response "decode_fetch_response z"
  valid_fetch_response for z
proof
  fix m :: FetchResponse assume valid: "valid_fetch_response m"
  obtain tp part from_off next_off recs where m:
    "m = \<lparr>FetchResponse.topic = tp, partition = part, from_offset = from_off,
          next_offset = next_off, records = recs\<rparr>" by (cases m)
  let ?count = "of_nat (length recs) :: u32"
  let ?hdr = "write_string tp @ write_u16 part @ write_u64 from_off @ write_u64 next_off @
      write_u32 ?count"
  have "\<exists>r'. consumes (payload_reader (encode_fetch_response m)) ?hdr r' \<and>
      leaves r' (concat (map write_fetch_record recs))"
    by (simp only: ex_consumes_leaves payload_reader_leaves) (simp add: m encode_fetch_response_def)
  then obtain r' where hdr: "consumes (payload_reader (encode_fetch_response m)) ?hdr r'"
    and "leaves r' (concat (map write_fetch_record recs))" by blast
  moreover have count: "unat ?count = length recs"
    using valid by (simp add: valid_fetch_response_def m)
  ultimately have "read_fetch_records ?count r' = Some recs"
    using valid by (simp add: read_fetch_records_iff valid_fetch_response_def m)
  moreover have r': "read_fetch_header (payload_reader (encode_fetch_response m)) =
      Some ((tp, part, from_off, next_off, ?count), r')"
    using hdr valid by (simp add: read_fetch_header_iff valid_fetch_response_def m)
  moreover have "?count \<noteq> kCompressedFetchMarker"
    using valid count by (metis FetchResponse.select_convs(5) m valid_fetch_response_def)
  ultimately show "decode_fetch_response z (encode_fetch_response m) = Inr m"
    by (simp add: decode_fetch_response_def r' m FetchResponse.make_def)
qed

text \<open>
  The pass-through response of a stored batch: the client sees the records of the batch, at
  consecutive offsets from the batch's base offset.
\<close>

lemma decode_compressed_fetch_response:
  assumes "length tp < 2 ^ 32" "length encoded < 2 ^ 32" "is_supported cdc"
    and "decompress z cdc encoded (unat uncompressed) (unat kDefaultMaxFrameBytes) = Inr raw"
    and "decode_record_set raw count = Inr batch"
  shows "decode_fetch_response z (encode_compressed_fetch_response tp part from_off next_off ts cdc
           count uncompressed encoded) =
         Inr (FetchResponse.make tp part from_off next_off
           (expand_fetch_records from_off ts (length encoded) batch))"
proof -
  let ?p = "encode_compressed_fetch_response tp part from_off next_off ts cdc count uncompressed encoded"
  let ?hdr = "write_string tp @ write_u16 part @ write_u64 from_off @ write_u64 next_off @
      write_u32 kCompressedFetchMarker"
  let ?tail = "write_u16 (codec_wire cdc) @ write_u64 ts @ write_u32 count @
      write_u32 uncompressed @ write_bytes encoded"
  have "\<exists>r'. consumes (payload_reader ?p) ?hdr r' \<and> leaves r' ?tail"
    by (simp only: ex_consumes_leaves payload_reader_leaves)
      (simp add: encode_compressed_fetch_response_def)
  then obtain r' where hdr: "consumes (payload_reader ?p) ?hdr r'" and tail: "leaves r' ?tail"
    by blast
  then have r': "read_fetch_header (payload_reader ?p) =
      Some ((tp, part, from_off, next_off, kCompressedFetchMarker), r')"
    using assms(1) by (simp add: read_fetch_header_iff)
  have "do {
        (codec_value, r) \<leftarrow> read_u16 r';
        (timestamp, r) \<leftarrow> read_u64 r;
        (count, r) \<leftarrow> read_u32 r;
        (uncompressed, r) \<leftarrow> read_u32 r;
        (encoded, r) \<leftarrow> read_bytes r;
        require (reader_done r);
        Some (codec_cast codec_value, timestamp, count, uncompressed, encoded)} =
      Some (cdc, ts, count, uncompressed, encoded)"
    using tail assms(2,3) by (simp add: decoder_simps wire_simps) (metis codec_cast_wire)
  then show ?thesis
    using assms(4,5) by (simp add: decode_fetch_response_def r' decode_compressed_records_def)
qed

section \<open>Metadata\<close>

record MetadataTopic =
  topic :: string
  partition :: u16
  next_offset :: u64

record MetadataResponse =
  supported_codecs :: u32
  negotiated_codecs :: u32
  topics :: "MetadataTopic list"

definition write_metadata_topic :: "MetadataTopic \<Rightarrow> bytes" where [bolt_defs]:
  "write_metadata_topic t =
     write_string (MetadataTopic.topic t) @ write_u16 (MetadataTopic.partition t) @
     write_u64 (MetadataTopic.next_offset t)"

definition read_metadata_topic :: "PayloadReader \<Rightarrow> (MetadataTopic \<times> PayloadReader) option" where [bolt_defs]:
  "read_metadata_topic r = do {
     (topic, r) \<leftarrow> read_string r;
     (partition, r) \<leftarrow> read_u16 r;
     (next_offset, r) \<leftarrow> read_u64 r;
     Some (MetadataTopic.make topic partition next_offset, r)}"

definition valid_metadata_topic :: "MetadataTopic \<Rightarrow> bool" where [bolt_defs]:
  "valid_metadata_topic t \<longleftrightarrow> length (MetadataTopic.topic t) < 2 ^ 32"

interpretation metadata_topic: codec write_metadata_topic read_metadata_topic valid_metadata_topic
  by (unfold_locales, rename_tac r m r', case_tac m)
    (simp add: bolt_defs MetadataTopic.make_def decoder_simps wire_simps, blast?)

definition encode_metadata_topics :: "MetadataTopic list \<Rightarrow> bytes" where
  "encode_metadata_topics ts = write_u32 (of_nat (length ts)) @ concat (map write_metadata_topic ts)"

definition encode_metadata_request :: "u32 \<Rightarrow> bytes" where [bolt_defs]:
  "encode_metadata_request supported = write_u32 supported"

definition decode_metadata_request :: "bytes \<Rightarrow> u32 decode_result" where [bolt_defs]:
  "decode_metadata_request p =
     (case do {
        (supported, r) \<leftarrow> read_u32 (payload_reader p);
        require (reader_done r);
        require (supported AND kNoneMask \<noteq> 0);
        Some supported}
      of None \<Rightarrow> Inl (MalformedPayload, ''malformed metadata capabilities'')
       | Some supported \<Rightarrow> Inr supported)"

interpretation metadata_request: message encode_metadata_request decode_metadata_request
  "\<lambda>supported. supported AND kNoneMask \<noteq> 0"
  by unfold_locales (simp add: bolt_defs decoder_simps wire_simps, blast?)

definition encode_metadata_response :: "MetadataResponse \<Rightarrow> u16 \<Rightarrow> bytes" where
  "encode_metadata_response response protocol_version =
     (if protocol_version = 4 then encode_metadata_topics (topics response)
      else write_u32 (supported_codecs response) @ write_u32 (negotiated_codecs response) @
           encode_metadata_topics (topics response))"

text \<open>The version guessed from the payload when the caller passes version 0.\<close>

definition looks_like_codec_mask :: "u32 \<Rightarrow> bool" where
  "looks_like_codec_mask w \<longleftrightarrow> w AND kNoneMask \<noteq> 0 \<and> w AND NOT kSupportedCodecMask = 0"

definition sniff_metadata_version :: "bytes \<Rightarrow> u16" where
  "sniff_metadata_version p =
     (if length p \<ge> 8 \<and> looks_like_codec_mask (read_u32_be p 0) \<and>
         looks_like_codec_mask (read_u32_be p 4)
      then 5 else 4)"

definition read_metadata_topics :: "PayloadReader \<Rightarrow> MetadataTopic list option" where
  "read_metadata_topics r = do {
     (topic_count, r) \<leftarrow> read_u32 r;
     (ts, r) \<leftarrow> read_many (unat topic_count) read_metadata_topic r;
     require (reader_done r);
     Some ts}"

definition decode_metadata_response :: "bytes \<Rightarrow> u16 \<Rightarrow> MetadataResponse decode_result" where
  "decode_metadata_response p protocol_version =
     (let ver = (if protocol_version = 0 then sniff_metadata_version p else protocol_version) in
      case (if ver \<ge> 5
            then do {
              (supported, r) \<leftarrow> read_u32 (payload_reader p);
              (negotiated, r) \<leftarrow> read_u32 r;
              Some (supported, negotiated, r)}
            else Some (kNoneMask, kNoneMask, payload_reader p))
      of None \<Rightarrow> Inl (MalformedPayload, ''malformed metadata capabilities'')
       | Some (supported, negotiated, r) \<Rightarrow>
          (case read_metadata_topics r
           of None \<Rightarrow> Inl (MalformedPayload, ''malformed metadata response payload'')
            | Some ts \<Rightarrow> Inr (MetadataResponse.make supported negotiated ts)))"

definition validate_empty_payload :: "bytes \<Rightarrow> unit decode_result" where
  "validate_empty_payload p =
     (if p \<noteq> [] then Inl (MalformedPayload, ''request payload must be empty'') else Inr ())"

definition valid_metadata_topics :: "MetadataTopic list \<Rightarrow> bool" where
  "valid_metadata_topics ts \<longleftrightarrow> length ts < 2 ^ 32 \<and> (\<forall>t \<in> set ts. valid_metadata_topic t)"

lemma read_metadata_topics_iff:
  "read_metadata_topics r = Some ts \<longleftrightarrow>
     leaves r (encode_metadata_topics ts) \<and> valid_metadata_topics ts"
  by (simp add: read_metadata_topics_def decoder_simps wire_simps metadata_topic.read_many_iff
      valid_metadata_topics_def encode_metadata_topics_def)

lemma decode_metadata_response_iff:
  "decode_metadata_response p 5 = Inr m \<longleftrightarrow>
     valid_metadata_topics (topics m) \<and> p = encode_metadata_response m 5"
  "decode_metadata_response p 4 = Inr m \<longleftrightarrow>
     valid_metadata_topics (topics m) \<and> supported_codecs m = kNoneMask \<and>
     negotiated_codecs m = kNoneMask \<and> p = encode_metadata_response m 4"
proof -
  have 5: "decode_metadata_response p 5 = Inr m \<longleftrightarrow>
      (\<exists>supported negotiated r r'. read_u32 (payload_reader p) = Some (supported, r') \<and>
         read_u32 r' = Some (negotiated, r) \<and>
         (\<exists>ts. leaves r (encode_metadata_topics ts) \<and> valid_metadata_topics ts \<and>
            m = MetadataResponse.make supported negotiated ts))"
    by (auto simp: decode_metadata_response_def Let_def bind_eq_Some_conv read_metadata_topics_iff)
  show "decode_metadata_response p 5 = Inr m \<longleftrightarrow>
     valid_metadata_topics (topics m) \<and> p = encode_metadata_response m 5"
    unfolding 5
    by (cases m) (simp add: MetadataResponse.make_def wire_simps encode_metadata_response_def, blast)
  show "decode_metadata_response p 4 = Inr m \<longleftrightarrow>
     valid_metadata_topics (topics m) \<and> supported_codecs m = kNoneMask \<and>
     negotiated_codecs m = kNoneMask \<and> p = encode_metadata_response m 4"
    by (cases m) (auto simp: decode_metadata_response_def MetadataResponse.make_def
        read_metadata_topics_iff encode_metadata_response_def)
qed

section \<open>Properties\<close>


text \<open>
  A record set round-trips. \<open>decode_record_set\<close> accepts a payload with an expected count exactly
  when the payload is the encoding of that many records with non-empty messages.
\<close>

lemma record_set_exact:
  "decode_record_set p n = Inr recs \<longleftrightarrow>
     valid_record_set n recs \<and> p = encode_record_set recs"
  by (rule record_set.decode_iff)

text \<open>
  What \<open>decode_produce_batch_request\<close> accepts. A batch request is accepted exactly for the
  payloads that carry a non-empty batch with a codec field whose low byte names a supported codec: the
  high byte of the field is ignored, so the encoding is not canonical.
\<close>

theorem produce_batch_request_exact:
  "decode_produce_batch_request p = Inr m \<longleftrightarrow>
     valid_produce_batch_request m \<and>
     (\<exists>w. ucast w = codec_value (ProduceBatchRequest.codec m) \<and> p = produce_batch_bytes w m)"
proof -
  have "codec_cast w = c \<longleftrightarrow> ucast w = codec_value c" if "is_supported c" for w c
    using that by (auto simp: codec_cast_def codec_of_u8_def is_supported_def)
  then show ?thesis
    by (auto simp: decode_produce_batch_request_iff valid_produce_batch_request_def)
qed

text \<open>
  A stored batch that the broker passes through undecoded reaches the client as the records that
  the producer put into it. For records compressed with either codec, the decoded response holds them
  at consecutive offsets from the batch's base offset, each with the batch timestamp.
\<close>

theorem compressed_fetch_roundtrip:
  assumes "zstd_roundtrip z" "is_supported cdc" "valid_record_set count batch"
    and "compress z cdc (encode_record_set batch) level = Inr encoded"
    and "length (encode_record_set batch) \<le> unat kDefaultMaxFrameBytes"
    and "length tp < 2 ^ 32" "length encoded < 2 ^ 32"
  shows "decode_fetch_response z (encode_compressed_fetch_response tp part from_off next_off ts cdc
           count (of_nat (length (encode_record_set batch))) encoded) =
         Inr (FetchResponse.make tp part from_off next_off
           (expand_fetch_records from_off ts (length encoded) batch))"
proof (rule decode_compressed_fetch_response)
  let ?n = "length (encode_record_set batch)"
  have "unat (of_nat ?n :: u32) = ?n"
    using assms(5) unat_u32_less [of kDefaultMaxFrameBytes] by (intro unat_of_nat_u32) linarith
  then show "decompress z cdc encoded (unat (of_nat ?n :: u32)) (unat kDefaultMaxFrameBytes) =
      Inr (encode_record_set batch)"
    using decompress_compress [OF assms(1,4,5)] by simp
qed (use assms record_set.decode_encode in auto)

theorem compressed_fetch_roundtrip_witness:
  "decode_fetch_response zstd_stored (encode_compressed_fetch_response ''t'' 0 7 9 99 Codec_Zstd
     2 (of_nat (length (encode_record_set [BatchRecord.make [] [1], BatchRecord.make [5] [2]])))
     (encode_record_set [BatchRecord.make [] [1], BatchRecord.make [5] [2]])) =
   Inr (FetchResponse.make ''t'' 0 7 9 (expand_fetch_records 7 99
     (length (encode_record_set [BatchRecord.make [] [1], BatchRecord.make [5] [2]]))
     [BatchRecord.make [] [1], BatchRecord.make [5] [2]]))"
  by (rule compressed_fetch_roundtrip [OF zstd_stored_roundtrip, where level = 3])
    (simp_all add: is_supported_def valid_record_set_def valid_batch_record_def BatchRecord.make_def
      compress_def zstd_stored_def encode_record_set_def write_batch_record_def
      kDefaultMaxFrameBytes_def)

text \<open>
  A metadata response round-trips at each protocol version that the caller names, and the
  version-5 decoder accepts nothing but encodings.
\<close>

lemma metadata_response_exact:
  "(decode_metadata_response p 5 = Inr m \<longleftrightarrow>
     valid_metadata_topics (topics m) \<and> p = encode_metadata_response m 5) \<and>
   (decode_metadata_response p 4 = Inr m \<longleftrightarrow>
     valid_metadata_topics (topics m) \<and> supported_codecs m = kNoneMask \<and>
     negotiated_codecs m = kNoneMask \<and> p = encode_metadata_response m 4)"
  by (intro conjI)
    (rule decode_metadata_response_iff)+

text \<open>
  Without a version the decoder guesses, and it can guess wrong. A version-4 response with one
  topic whose name has one character starts with two words that look like codec masks: decoded with
  its version it gives back the response, decoded without one it never does.
\<close>

theorem metadata_sniff_ambiguous:
  "let m = MetadataResponse.make kNoneMask kNoneMask [MetadataTopic.make [c] part next_off];
       p = encode_metadata_response m 4
   in decode_metadata_response p 4 = Inr m \<and> decode_metadata_response p 0 \<noteq> Inr m"
proof -
  define m where "m = MetadataResponse.make kNoneMask kNoneMask [MetadataTopic.make [c] part next_off]"
  let ?p = "encode_metadata_response m 4"
  let ?rest = "byte_of_char c # write_u16 part @ write_u64 next_off"
  have p: "?p = write_u32 1 @ write_u32 1 @ ?rest"
    by (simp add: m_def encode_metadata_response_def encode_metadata_topics_def write_string_def
        write_metadata_topic_def MetadataResponse.make_def MetadataTopic.make_def)
  have "read_u32_be ?p 0 = 1" "read_u32_be ?p 4 = 1"
    using read_u32_append [of "[]" 0 1 "write_u32 1 @ ?rest"]
      read_u32_append [of "write_u32 1" 4 1 ?rest] by (simp_all only: p) simp_all
  moreover have "looks_like_codec_mask 1" "8 \<le> length ?p"
    by (simp_all add: looks_like_codec_mask_def kNoneMask_def kSupportedCodecMask_def kZstdMask_def p)
  ultimately have "sniff_metadata_version ?p = 5"
    by (simp add: sniff_metadata_version_def)
  then have guess: "decode_metadata_response ?p 0 = decode_metadata_response ?p 5"
    by (simp add: decode_metadata_response_def Let_def)
  have "length ?p \<noteq> length (encode_metadata_response m 5)"
    by (simp add: encode_metadata_response_def)
  then have "decode_metadata_response ?p 0 \<noteq> Inr m"
    unfolding guess by (auto simp: decode_metadata_response_iff)
  moreover have "decode_metadata_response ?p 4 = Inr m"
    by (simp add: decode_metadata_response_iff m_def MetadataResponse.make_def MetadataTopic.make_def
        valid_metadata_topics_def valid_metadata_topic_def)
  ultimately show ?thesis by (simp add: m_def Let_def)
qed

end
