(* ===== verification/Bolt_Admin_Messages.thy ===== *)
theory Bolt_Admin_Messages
  imports Bolt_Messages
begin

text \<open>
  The payloads of the consumer-group protocol and of topic administration
  (\<open>src/include/boltstream/protocol/protocol.h\<close>, \<open>src/src/protocol/protocol.cpp\<close>): join, sync, heartbeat,
  leave and fenced commits; list, describe and delete topic; retention runs; group description and
  offset reset. All of them have canonical encodings and interpret the \<open>message\<close> interface; the repeated
  elements interpret \<open>codec\<close>.
\<close>

section \<open>Consumer groups\<close>

record JoinGroupRequest =
  group :: string
  topic :: string
  member_id :: string
  session_timeout_ms :: u32

definition encode_join_group_request :: "JoinGroupRequest \<Rightarrow> bytes" where [bolt_defs]:
  "encode_join_group_request request =
     write_string (JoinGroupRequest.group request) @
     write_string (JoinGroupRequest.topic request) @
     write_string (JoinGroupRequest.member_id request) @
     write_u32 (JoinGroupRequest.session_timeout_ms request)"

definition decode_join_group_request :: "bytes \<Rightarrow> JoinGroupRequest decode_result" where [bolt_defs]:
  "decode_join_group_request p =
     (case do {
        (grp, r) \<leftarrow> read_string (payload_reader p);
        (topic, r) \<leftarrow> read_string r;
        (member_id, r) \<leftarrow> read_string r;
        (session_timeout_ms, r) \<leftarrow> read_u32 r;
        require (reader_done r);
        Some (JoinGroupRequest.make grp topic member_id session_timeout_ms)}
      of None \<Rightarrow> Inl (MalformedPayload, ''malformed join-group request payload'')
       | Some request \<Rightarrow>
          if JoinGroupRequest.group request = []
          then Inl (MalformedPayload, ''join-group group must not be empty'')
          else if JoinGroupRequest.topic request = []
          then Inl (MalformedPayload, ''join-group topic must not be empty'')
          else if JoinGroupRequest.session_timeout_ms request = 0
          then Inl (MalformedPayload, ''join-group session timeout must be greater than zero'')
          else Inr request)"

definition valid_join_group_request :: "JoinGroupRequest \<Rightarrow> bool" where [bolt_defs]:
  "valid_join_group_request request \<longleftrightarrow>
     length (JoinGroupRequest.group request) < 2 ^ 32 \<and>
     length (JoinGroupRequest.topic request) < 2 ^ 32 \<and>
     length (JoinGroupRequest.member_id request) < 2 ^ 32 \<and>
     JoinGroupRequest.group request \<noteq> [] \<and>
     JoinGroupRequest.topic request \<noteq> [] \<and>
     JoinGroupRequest.session_timeout_ms request \<noteq> 0"

interpretation join_group_request: message encode_join_group_request decode_join_group_request
  valid_join_group_request
  by (unfold_locales, rename_tac p m, case_tac m)
    (simp add: bolt_defs JoinGroupRequest.make_def decoder_simps wire_simps, blast?)

record JoinGroupResponse =
  group :: string
  topic :: string
  member_id :: string
  generation_id :: u64

definition encode_join_group_response :: "JoinGroupResponse \<Rightarrow> bytes" where [bolt_defs]:
  "encode_join_group_response response =
     write_string (JoinGroupResponse.group response) @
     write_string (JoinGroupResponse.topic response) @
     write_string (JoinGroupResponse.member_id response) @
     write_u64 (JoinGroupResponse.generation_id response)"

definition decode_join_group_response :: "bytes \<Rightarrow> JoinGroupResponse decode_result" where [bolt_defs]:
  "decode_join_group_response p =
     (case do {
        (grp, r) \<leftarrow> read_string (payload_reader p);
        (topic, r) \<leftarrow> read_string r;
        (member_id, r) \<leftarrow> read_string r;
        (generation_id, r) \<leftarrow> read_u64 r;
        require (reader_done r);
        Some (JoinGroupResponse.make grp topic member_id generation_id)}
      of None \<Rightarrow> Inl (MalformedPayload, ''malformed join-group response payload'')
       | Some response \<Rightarrow> Inr response)"

definition valid_join_group_response :: "JoinGroupResponse \<Rightarrow> bool" where [bolt_defs]:
  "valid_join_group_response response \<longleftrightarrow>
     length (JoinGroupResponse.group response) < 2 ^ 32 \<and>
     length (JoinGroupResponse.topic response) < 2 ^ 32 \<and>
     length (JoinGroupResponse.member_id response) < 2 ^ 32"

interpretation join_group_response: message encode_join_group_response decode_join_group_response
  valid_join_group_response
  by (unfold_locales, rename_tac p m, case_tac m)
    (simp add: bolt_defs JoinGroupResponse.make_def decoder_simps wire_simps, blast?)

record SyncGroupRequest =
  group :: string
  topic :: string
  member_id :: string
  generation_id :: u64

definition encode_sync_group_request :: "SyncGroupRequest \<Rightarrow> bytes" where [bolt_defs]:
  "encode_sync_group_request request =
     write_string (SyncGroupRequest.group request) @
     write_string (SyncGroupRequest.topic request) @
     write_string (SyncGroupRequest.member_id request) @
     write_u64 (SyncGroupRequest.generation_id request)"

definition decode_sync_group_request :: "bytes \<Rightarrow> SyncGroupRequest decode_result" where [bolt_defs]:
  "decode_sync_group_request p =
     (case do {
        (grp, r) \<leftarrow> read_string (payload_reader p);
        (topic, r) \<leftarrow> read_string r;
        (member_id, r) \<leftarrow> read_string r;
        (generation_id, r) \<leftarrow> read_u64 r;
        require (reader_done r);
        Some (SyncGroupRequest.make grp topic member_id generation_id)}
      of None \<Rightarrow> Inl (MalformedPayload, ''malformed sync-group request payload'')
       | Some request \<Rightarrow>
          if SyncGroupRequest.group request = []
          then Inl (MalformedPayload, ''sync-group group must not be empty'')
          else if SyncGroupRequest.topic request = []
          then Inl (MalformedPayload, ''sync-group topic must not be empty'')
          else if SyncGroupRequest.member_id request = []
          then Inl (MalformedPayload, ''sync-group member id must not be empty'')
          else if SyncGroupRequest.generation_id request = 0
          then Inl (MalformedPayload, ''sync-group generation id must be greater than zero'')
          else Inr request)"

definition valid_sync_group_request :: "SyncGroupRequest \<Rightarrow> bool" where [bolt_defs]:
  "valid_sync_group_request request \<longleftrightarrow>
     length (SyncGroupRequest.group request) < 2 ^ 32 \<and>
     length (SyncGroupRequest.topic request) < 2 ^ 32 \<and>
     length (SyncGroupRequest.member_id request) < 2 ^ 32 \<and>
     SyncGroupRequest.group request \<noteq> [] \<and>
     SyncGroupRequest.topic request \<noteq> [] \<and>
     SyncGroupRequest.member_id request \<noteq> [] \<and>
     SyncGroupRequest.generation_id request \<noteq> 0"

interpretation sync_group_request: message encode_sync_group_request decode_sync_group_request
  valid_sync_group_request
  by (unfold_locales, rename_tac p m, case_tac m)
    (simp add: bolt_defs SyncGroupRequest.make_def decoder_simps wire_simps, blast?)

record SyncGroupResponse =
  group :: string
  topic :: string
  member_id :: string
  generation_id :: u64
  assignment :: "u16 list"

definition encode_sync_group_response :: "SyncGroupResponse \<Rightarrow> bytes" where [bolt_defs]:
  "encode_sync_group_response response =
     write_string (SyncGroupResponse.group response) @
     write_string (SyncGroupResponse.topic response) @
     write_string (SyncGroupResponse.member_id response) @
     write_u64 (SyncGroupResponse.generation_id response) @
     write_u32 (of_nat (length (SyncGroupResponse.assignment response))) @
     concat (map write_u16 (SyncGroupResponse.assignment response))"

definition decode_sync_group_response :: "bytes \<Rightarrow> SyncGroupResponse decode_result" where [bolt_defs]:
  "decode_sync_group_response p =
     (case do {
        (grp, r) \<leftarrow> read_string (payload_reader p);
        (topic, r) \<leftarrow> read_string r;
        (member_id, r) \<leftarrow> read_string r;
        (generation_id, r) \<leftarrow> read_u64 r;
        (count, r) \<leftarrow> read_u32 r;
        (items, r) \<leftarrow> read_many (unat count) read_u16 r;
        require (reader_done r);
        Some (SyncGroupResponse.make grp topic member_id generation_id items)}
      of None \<Rightarrow> Inl (MalformedPayload, ''malformed sync-group response payload'')
       | Some response \<Rightarrow> Inr response)"

definition valid_sync_group_response :: "SyncGroupResponse \<Rightarrow> bool" where [bolt_defs]:
  "valid_sync_group_response response \<longleftrightarrow>
     length (SyncGroupResponse.group response) < 2 ^ 32 \<and>
     length (SyncGroupResponse.topic response) < 2 ^ 32 \<and>
     length (SyncGroupResponse.member_id response) < 2 ^ 32 \<and>
     length (SyncGroupResponse.assignment response) < 2 ^ 32"

interpretation sync_group_response: message encode_sync_group_response decode_sync_group_response
  valid_sync_group_response
  by (unfold_locales, rename_tac p m, case_tac m)
    (simp add: bolt_defs SyncGroupResponse.make_def decoder_simps wire_simps u16.read_many_iff, blast?)

record HeartbeatRequest =
  group :: string
  topic :: string
  member_id :: string
  generation_id :: u64

definition encode_heartbeat_request :: "HeartbeatRequest \<Rightarrow> bytes" where [bolt_defs]:
  "encode_heartbeat_request request =
     write_string (HeartbeatRequest.group request) @
     write_string (HeartbeatRequest.topic request) @
     write_string (HeartbeatRequest.member_id request) @
     write_u64 (HeartbeatRequest.generation_id request)"

definition decode_heartbeat_request :: "bytes \<Rightarrow> HeartbeatRequest decode_result" where [bolt_defs]:
  "decode_heartbeat_request p =
     (case do {
        (grp, r) \<leftarrow> read_string (payload_reader p);
        (topic, r) \<leftarrow> read_string r;
        (member_id, r) \<leftarrow> read_string r;
        (generation_id, r) \<leftarrow> read_u64 r;
        require (reader_done r);
        Some (HeartbeatRequest.make grp topic member_id generation_id)}
      of None \<Rightarrow> Inl (MalformedPayload, ''malformed heartbeat request payload'')
       | Some request \<Rightarrow>
          if HeartbeatRequest.group request = []
          then Inl (MalformedPayload, ''heartbeat group must not be empty'')
          else if HeartbeatRequest.topic request = []
          then Inl (MalformedPayload, ''heartbeat topic must not be empty'')
          else if HeartbeatRequest.member_id request = []
          then Inl (MalformedPayload, ''heartbeat member id must not be empty'')
          else if HeartbeatRequest.generation_id request = 0
          then Inl (MalformedPayload, ''heartbeat generation id must be greater than zero'')
          else Inr request)"

definition valid_heartbeat_request :: "HeartbeatRequest \<Rightarrow> bool" where [bolt_defs]:
  "valid_heartbeat_request request \<longleftrightarrow>
     length (HeartbeatRequest.group request) < 2 ^ 32 \<and>
     length (HeartbeatRequest.topic request) < 2 ^ 32 \<and>
     length (HeartbeatRequest.member_id request) < 2 ^ 32 \<and>
     HeartbeatRequest.group request \<noteq> [] \<and>
     HeartbeatRequest.topic request \<noteq> [] \<and>
     HeartbeatRequest.member_id request \<noteq> [] \<and>
     HeartbeatRequest.generation_id request \<noteq> 0"

interpretation heartbeat_request: message encode_heartbeat_request decode_heartbeat_request
  valid_heartbeat_request
  by (unfold_locales, rename_tac p m, case_tac m)
    (simp add: bolt_defs HeartbeatRequest.make_def decoder_simps wire_simps, blast?)

record HeartbeatResponse =
  group :: string
  topic :: string
  member_id :: string
  generation_id :: u64
  status :: string

definition encode_heartbeat_response :: "HeartbeatResponse \<Rightarrow> bytes" where [bolt_defs]:
  "encode_heartbeat_response response =
     write_string (HeartbeatResponse.group response) @
     write_string (HeartbeatResponse.topic response) @
     write_string (HeartbeatResponse.member_id response) @
     write_u64 (HeartbeatResponse.generation_id response) @
     write_string (HeartbeatResponse.status response)"

definition decode_heartbeat_response :: "bytes \<Rightarrow> HeartbeatResponse decode_result" where [bolt_defs]:
  "decode_heartbeat_response p =
     (case do {
        (grp, r) \<leftarrow> read_string (payload_reader p);
        (topic, r) \<leftarrow> read_string r;
        (member_id, r) \<leftarrow> read_string r;
        (generation_id, r) \<leftarrow> read_u64 r;
        (status, r) \<leftarrow> read_string r;
        require (reader_done r);
        Some (HeartbeatResponse.make grp topic member_id generation_id status)}
      of None \<Rightarrow> Inl (MalformedPayload, ''malformed heartbeat response payload'')
       | Some response \<Rightarrow> Inr response)"

definition valid_heartbeat_response :: "HeartbeatResponse \<Rightarrow> bool" where [bolt_defs]:
  "valid_heartbeat_response response \<longleftrightarrow>
     length (HeartbeatResponse.group response) < 2 ^ 32 \<and>
     length (HeartbeatResponse.topic response) < 2 ^ 32 \<and>
     length (HeartbeatResponse.member_id response) < 2 ^ 32 \<and>
     length (HeartbeatResponse.status response) < 2 ^ 32"

interpretation heartbeat_response: message encode_heartbeat_response decode_heartbeat_response
  valid_heartbeat_response
  by (unfold_locales, rename_tac p m, case_tac m)
    (simp add: bolt_defs HeartbeatResponse.make_def decoder_simps wire_simps, blast?)

record LeaveGroupRequest =
  group :: string
  topic :: string
  member_id :: string
  generation_id :: u64

definition encode_leave_group_request :: "LeaveGroupRequest \<Rightarrow> bytes" where [bolt_defs]:
  "encode_leave_group_request request =
     write_string (LeaveGroupRequest.group request) @
     write_string (LeaveGroupRequest.topic request) @
     write_string (LeaveGroupRequest.member_id request) @
     write_u64 (LeaveGroupRequest.generation_id request)"

definition decode_leave_group_request :: "bytes \<Rightarrow> LeaveGroupRequest decode_result" where [bolt_defs]:
  "decode_leave_group_request p =
     (case do {
        (grp, r) \<leftarrow> read_string (payload_reader p);
        (topic, r) \<leftarrow> read_string r;
        (member_id, r) \<leftarrow> read_string r;
        (generation_id, r) \<leftarrow> read_u64 r;
        require (reader_done r);
        Some (LeaveGroupRequest.make grp topic member_id generation_id)}
      of None \<Rightarrow> Inl (MalformedPayload, ''malformed leave-group request payload'')
       | Some request \<Rightarrow>
          if LeaveGroupRequest.group request = []
          then Inl (MalformedPayload, ''leave-group group must not be empty'')
          else if LeaveGroupRequest.topic request = []
          then Inl (MalformedPayload, ''leave-group topic must not be empty'')
          else if LeaveGroupRequest.member_id request = []
          then Inl (MalformedPayload, ''leave-group member id must not be empty'')
          else if LeaveGroupRequest.generation_id request = 0
          then Inl (MalformedPayload, ''leave-group generation id must be greater than zero'')
          else Inr request)"

definition valid_leave_group_request :: "LeaveGroupRequest \<Rightarrow> bool" where [bolt_defs]:
  "valid_leave_group_request request \<longleftrightarrow>
     length (LeaveGroupRequest.group request) < 2 ^ 32 \<and>
     length (LeaveGroupRequest.topic request) < 2 ^ 32 \<and>
     length (LeaveGroupRequest.member_id request) < 2 ^ 32 \<and>
     LeaveGroupRequest.group request \<noteq> [] \<and>
     LeaveGroupRequest.topic request \<noteq> [] \<and>
     LeaveGroupRequest.member_id request \<noteq> [] \<and>
     LeaveGroupRequest.generation_id request \<noteq> 0"

interpretation leave_group_request: message encode_leave_group_request decode_leave_group_request
  valid_leave_group_request
  by (unfold_locales, rename_tac p m, case_tac m)
    (simp add: bolt_defs LeaveGroupRequest.make_def decoder_simps wire_simps, blast?)

record LeaveGroupResponse =
  group :: string
  topic :: string
  member_id :: string
  generation_id :: u64
  status :: string

definition encode_leave_group_response :: "LeaveGroupResponse \<Rightarrow> bytes" where [bolt_defs]:
  "encode_leave_group_response response =
     write_string (LeaveGroupResponse.group response) @
     write_string (LeaveGroupResponse.topic response) @
     write_string (LeaveGroupResponse.member_id response) @
     write_u64 (LeaveGroupResponse.generation_id response) @
     write_string (LeaveGroupResponse.status response)"

definition decode_leave_group_response :: "bytes \<Rightarrow> LeaveGroupResponse decode_result" where [bolt_defs]:
  "decode_leave_group_response p =
     (case do {
        (grp, r) \<leftarrow> read_string (payload_reader p);
        (topic, r) \<leftarrow> read_string r;
        (member_id, r) \<leftarrow> read_string r;
        (generation_id, r) \<leftarrow> read_u64 r;
        (status, r) \<leftarrow> read_string r;
        require (reader_done r);
        Some (LeaveGroupResponse.make grp topic member_id generation_id status)}
      of None \<Rightarrow> Inl (MalformedPayload, ''malformed leave-group response payload'')
       | Some response \<Rightarrow> Inr response)"

definition valid_leave_group_response :: "LeaveGroupResponse \<Rightarrow> bool" where [bolt_defs]:
  "valid_leave_group_response response \<longleftrightarrow>
     length (LeaveGroupResponse.group response) < 2 ^ 32 \<and>
     length (LeaveGroupResponse.topic response) < 2 ^ 32 \<and>
     length (LeaveGroupResponse.member_id response) < 2 ^ 32 \<and>
     length (LeaveGroupResponse.status response) < 2 ^ 32"

interpretation leave_group_response: message encode_leave_group_response
  decode_leave_group_response valid_leave_group_response
  by (unfold_locales, rename_tac p m, case_tac m)
    (simp add: bolt_defs LeaveGroupResponse.make_def decoder_simps wire_simps, blast?)

record GroupOffsetCommitRequest =
  group :: string
  topic :: string
  member_id :: string
  generation_id :: u64
  partition :: u16
  next_offset :: u64

definition encode_group_offset_commit_request :: "GroupOffsetCommitRequest \<Rightarrow> bytes" where [bolt_defs]:
  "encode_group_offset_commit_request request =
     write_string (GroupOffsetCommitRequest.group request) @
     write_string (GroupOffsetCommitRequest.topic request) @
     write_string (GroupOffsetCommitRequest.member_id request) @
     write_u64 (GroupOffsetCommitRequest.generation_id request) @
     write_u16 (GroupOffsetCommitRequest.partition request) @
     write_u64 (GroupOffsetCommitRequest.next_offset request)"

definition decode_group_offset_commit_request :: "bytes \<Rightarrow> GroupOffsetCommitRequest decode_result" where [bolt_defs]:
  "decode_group_offset_commit_request p =
     (case do {
        (grp, r) \<leftarrow> read_string (payload_reader p);
        (topic, r) \<leftarrow> read_string r;
        (member_id, r) \<leftarrow> read_string r;
        (generation_id, r) \<leftarrow> read_u64 r;
        (partition, r) \<leftarrow> read_u16 r;
        (next_offset, r) \<leftarrow> read_u64 r;
        require (reader_done r);
        Some (GroupOffsetCommitRequest.make grp topic member_id generation_id partition
          next_offset)}
      of None \<Rightarrow> Inl (MalformedPayload, ''malformed group-offset-commit request payload'')
       | Some request \<Rightarrow>
          if GroupOffsetCommitRequest.group request = []
          then Inl (MalformedPayload, ''group-offset-commit group must not be empty'')
          else if GroupOffsetCommitRequest.topic request = []
          then Inl (MalformedPayload, ''group-offset-commit topic must not be empty'')
          else if GroupOffsetCommitRequest.member_id request = []
          then Inl (MalformedPayload, ''group-offset-commit member id must not be empty'')
          else if GroupOffsetCommitRequest.generation_id request = 0
          then Inl (MalformedPayload, ''group-offset-commit generation id must be greater than zero'')
          else Inr request)"

definition valid_group_offset_commit_request :: "GroupOffsetCommitRequest \<Rightarrow> bool" where [bolt_defs]:
  "valid_group_offset_commit_request request \<longleftrightarrow>
     length (GroupOffsetCommitRequest.group request) < 2 ^ 32 \<and>
     length (GroupOffsetCommitRequest.topic request) < 2 ^ 32 \<and>
     length (GroupOffsetCommitRequest.member_id request) < 2 ^ 32 \<and>
     GroupOffsetCommitRequest.group request \<noteq> [] \<and>
     GroupOffsetCommitRequest.topic request \<noteq> [] \<and>
     GroupOffsetCommitRequest.member_id request \<noteq> [] \<and>
     GroupOffsetCommitRequest.generation_id request \<noteq> 0"

interpretation group_offset_commit_request: message encode_group_offset_commit_request
  decode_group_offset_commit_request valid_group_offset_commit_request
  by (unfold_locales, rename_tac p m, case_tac m)
    (simp add: bolt_defs GroupOffsetCommitRequest.make_def decoder_simps wire_simps, blast?)

record GroupOffsetCommitResponse =
  group :: string
  topic :: string
  member_id :: string
  generation_id :: u64
  partition :: u16
  next_offset :: u64

definition encode_group_offset_commit_response :: "GroupOffsetCommitResponse \<Rightarrow> bytes" where [bolt_defs]:
  "encode_group_offset_commit_response response =
     write_string (GroupOffsetCommitResponse.group response) @
     write_string (GroupOffsetCommitResponse.topic response) @
     write_string (GroupOffsetCommitResponse.member_id response) @
     write_u64 (GroupOffsetCommitResponse.generation_id response) @
     write_u16 (GroupOffsetCommitResponse.partition response) @
     write_u64 (GroupOffsetCommitResponse.next_offset response)"

definition decode_group_offset_commit_response :: "bytes \<Rightarrow> GroupOffsetCommitResponse decode_result" where [bolt_defs]:
  "decode_group_offset_commit_response p =
     (case do {
        (grp, r) \<leftarrow> read_string (payload_reader p);
        (topic, r) \<leftarrow> read_string r;
        (member_id, r) \<leftarrow> read_string r;
        (generation_id, r) \<leftarrow> read_u64 r;
        (partition, r) \<leftarrow> read_u16 r;
        (next_offset, r) \<leftarrow> read_u64 r;
        require (reader_done r);
        Some (GroupOffsetCommitResponse.make grp topic member_id generation_id partition
          next_offset)}
      of None \<Rightarrow> Inl (MalformedPayload, ''malformed group-offset-commit response payload'')
       | Some response \<Rightarrow> Inr response)"

definition valid_group_offset_commit_response :: "GroupOffsetCommitResponse \<Rightarrow> bool" where [bolt_defs]:
  "valid_group_offset_commit_response response \<longleftrightarrow>
     length (GroupOffsetCommitResponse.group response) < 2 ^ 32 \<and>
     length (GroupOffsetCommitResponse.topic response) < 2 ^ 32 \<and>
     length (GroupOffsetCommitResponse.member_id response) < 2 ^ 32"

interpretation group_offset_commit_response: message encode_group_offset_commit_response
  decode_group_offset_commit_response valid_group_offset_commit_response
  by (unfold_locales, rename_tac p m, case_tac m)
    (simp add: bolt_defs GroupOffsetCommitResponse.make_def decoder_simps wire_simps, blast?)

section \<open>Topic administration\<close>

record TopicPartitionDescription =
  partition :: u16
  earliest_offset :: u64
  next_offset :: u64
  segment_count :: u32
  log_bytes :: u64

definition write_topic_partition_description :: "TopicPartitionDescription \<Rightarrow> bytes" where [bolt_defs]:
  "write_topic_partition_description d =
     write_u16 (TopicPartitionDescription.partition d) @
     write_u64 (TopicPartitionDescription.earliest_offset d) @
     write_u64 (TopicPartitionDescription.next_offset d) @
     write_u32 (TopicPartitionDescription.segment_count d) @
     write_u64 (TopicPartitionDescription.log_bytes d)"

definition read_topic_partition_description :: "PayloadReader \<Rightarrow> (TopicPartitionDescription \<times> PayloadReader) option" where [bolt_defs]:
  "read_topic_partition_description r = do {
     (partition, r) \<leftarrow> read_u16 r;
     (earliest_offset, r) \<leftarrow> read_u64 r;
     (next_offset, r) \<leftarrow> read_u64 r;
     (segment_count, r) \<leftarrow> read_u32 r;
     (log_bytes, r) \<leftarrow> read_u64 r;
     Some (TopicPartitionDescription.make partition earliest_offset next_offset segment_count
       log_bytes, r)}"

interpretation topic_partition_description: codec write_topic_partition_description
  read_topic_partition_description "\<lambda>_. True"
  by (unfold_locales, rename_tac r m r', case_tac m)
    (simp add: bolt_defs TopicPartitionDescription.make_def decoder_simps wire_simps, blast?)

record TopicDescription =
  topic :: string
  partition_count :: u16
  log_bytes :: u64
  partitions :: "TopicPartitionDescription list"

definition write_topic_description :: "TopicDescription \<Rightarrow> bytes" where [bolt_defs]:
  "write_topic_description d =
     write_string (TopicDescription.topic d) @ write_u16 (TopicDescription.partition_count d) @
     write_u64 (TopicDescription.log_bytes d) @
     write_u32 (of_nat (length (TopicDescription.partitions d))) @
     concat (map write_topic_partition_description (TopicDescription.partitions d))"

definition read_topic_description :: "PayloadReader \<Rightarrow> (TopicDescription \<times> PayloadReader) option" where [bolt_defs]:
  "read_topic_description r = do {
     (topic, r) \<leftarrow> read_string r;
     (partition_count, r) \<leftarrow> read_u16 r;
     (log_bytes, r) \<leftarrow> read_u64 r;
     (count, r) \<leftarrow> read_u32 r;
     (items, r) \<leftarrow> read_many (unat count) read_topic_partition_description r;
     Some (TopicDescription.make topic partition_count log_bytes items, r)}"

definition valid_topic_description :: "TopicDescription \<Rightarrow> bool" where [bolt_defs]:
  "valid_topic_description d \<longleftrightarrow>
     length (TopicDescription.topic d) < 2 ^ 32 \<and> length (TopicDescription.partitions d) < 2 ^ 32"

interpretation topic_description: codec write_topic_description read_topic_description
  valid_topic_description
  by (unfold_locales, rename_tac r m r', case_tac m)
    (simp add: write_topic_description_def read_topic_description_def valid_topic_description_def
      TopicDescription.make_def decoder_simps wire_simps
      topic_partition_description.read_many_iff, blast?)

record ListTopicsResponse =
  topics :: "TopicDescription list"

definition encode_list_topics_response :: "ListTopicsResponse \<Rightarrow> bytes" where [bolt_defs]:
  "encode_list_topics_response response =
     write_u32 (of_nat (length (ListTopicsResponse.topics response))) @
     concat (map write_topic_description (ListTopicsResponse.topics response))"

definition decode_list_topics_response :: "bytes \<Rightarrow> ListTopicsResponse decode_result" where [bolt_defs]:
  "decode_list_topics_response p =
     (case do {
        (count, r) \<leftarrow> read_u32 (payload_reader p);
        (items, r) \<leftarrow> read_many (unat count) read_topic_description r;
        require (reader_done r);
        Some (ListTopicsResponse.make items)}
      of None \<Rightarrow> Inl (MalformedPayload, ''malformed list-topics response payload'')
       | Some response \<Rightarrow> Inr response)"

definition valid_list_topics_response :: "ListTopicsResponse \<Rightarrow> bool" where [bolt_defs]:
  "valid_list_topics_response response \<longleftrightarrow>
     length (ListTopicsResponse.topics response) < 2 ^ 32 \<and>
     (\<forall>x \<in> set (ListTopicsResponse.topics response). valid_topic_description x)"

interpretation list_topics_response: message encode_list_topics_response
  decode_list_topics_response valid_list_topics_response
  by (unfold_locales, rename_tac p m, case_tac m)
    (simp add: encode_list_topics_response_def decode_list_topics_response_def
      valid_list_topics_response_def ListTopicsResponse.make_def decoder_simps wire_simps topic_description.read_many_iff, blast?)

record DescribeTopicRequest =
  topic :: string

definition encode_describe_topic_request :: "DescribeTopicRequest \<Rightarrow> bytes" where [bolt_defs]:
  "encode_describe_topic_request request =
     write_string (DescribeTopicRequest.topic request)"

definition decode_describe_topic_request :: "bytes \<Rightarrow> DescribeTopicRequest decode_result" where [bolt_defs]:
  "decode_describe_topic_request p =
     (case do {
        (topic, r) \<leftarrow> read_string (payload_reader p);
        require (reader_done r);
        Some (DescribeTopicRequest.make topic)}
      of None \<Rightarrow> Inl (MalformedPayload, ''malformed describe-topic request payload'')
       | Some request \<Rightarrow>
          if DescribeTopicRequest.topic request = []
          then Inl (MalformedPayload, ''describe-topic topic must not be empty'')
          else Inr request)"

definition valid_describe_topic_request :: "DescribeTopicRequest \<Rightarrow> bool" where [bolt_defs]:
  "valid_describe_topic_request request \<longleftrightarrow>
     length (DescribeTopicRequest.topic request) < 2 ^ 32 \<and>
     DescribeTopicRequest.topic request \<noteq> []"

interpretation describe_topic_request: message encode_describe_topic_request
  decode_describe_topic_request valid_describe_topic_request
  by (unfold_locales, rename_tac p m, case_tac m)
    (simp add: bolt_defs DescribeTopicRequest.make_def decoder_simps wire_simps, blast?)

record DescribeTopicResponse =
  topic :: TopicDescription

definition encode_describe_topic_response :: "DescribeTopicResponse \<Rightarrow> bytes" where
  "encode_describe_topic_response response =
     write_topic_description (DescribeTopicResponse.topic response)"

definition decode_describe_topic_response :: "bytes \<Rightarrow> DescribeTopicResponse decode_result" where
  "decode_describe_topic_response p =
     (case do {
        (topic, r) \<leftarrow> read_topic_description (payload_reader p);
        require (reader_done r);
        Some (DescribeTopicResponse.make topic)}
      of None \<Rightarrow> Inl (MalformedPayload, ''malformed describe-topic response payload'')
       | Some response \<Rightarrow> Inr response)"

definition valid_describe_topic_response :: "DescribeTopicResponse \<Rightarrow> bool" where
  "valid_describe_topic_response response \<longleftrightarrow>
     valid_topic_description (DescribeTopicResponse.topic response)"

interpretation describe_topic_response: message encode_describe_topic_response
  decode_describe_topic_response valid_describe_topic_response
  by (unfold_locales, rename_tac p m, case_tac m)
    (simp add: encode_describe_topic_response_def decode_describe_topic_response_def
      valid_describe_topic_response_def DescribeTopicResponse.make_def decoder_simps
      topic_description.dec_iff, blast?)

record DeleteTopicRequest =
  topic :: string

definition encode_delete_topic_request :: "DeleteTopicRequest \<Rightarrow> bytes" where [bolt_defs]:
  "encode_delete_topic_request request =
     write_string (DeleteTopicRequest.topic request)"

definition decode_delete_topic_request :: "bytes \<Rightarrow> DeleteTopicRequest decode_result" where [bolt_defs]:
  "decode_delete_topic_request p =
     (case do {
        (topic, r) \<leftarrow> read_string (payload_reader p);
        require (reader_done r);
        Some (DeleteTopicRequest.make topic)}
      of None \<Rightarrow> Inl (MalformedPayload, ''malformed delete-topic request payload'')
       | Some request \<Rightarrow>
          if DeleteTopicRequest.topic request = []
          then Inl (MalformedPayload, ''delete-topic topic must not be empty'')
          else Inr request)"

definition valid_delete_topic_request :: "DeleteTopicRequest \<Rightarrow> bool" where [bolt_defs]:
  "valid_delete_topic_request request \<longleftrightarrow>
     length (DeleteTopicRequest.topic request) < 2 ^ 32 \<and>
     DeleteTopicRequest.topic request \<noteq> []"

interpretation delete_topic_request: message encode_delete_topic_request
  decode_delete_topic_request valid_delete_topic_request
  by (unfold_locales, rename_tac p m, case_tac m)
    (simp add: bolt_defs DeleteTopicRequest.make_def decoder_simps wire_simps, blast?)

record DeleteTopicResponse =
  topic :: string
  status :: string
  partitions_deleted :: u16
  segments_deleted :: u32
  bytes_deleted :: u64
  offsets_removed :: u32

definition encode_delete_topic_response :: "DeleteTopicResponse \<Rightarrow> bytes" where [bolt_defs]:
  "encode_delete_topic_response response =
     write_string (DeleteTopicResponse.topic response) @
     write_string (DeleteTopicResponse.status response) @
     write_u16 (DeleteTopicResponse.partitions_deleted response) @
     write_u32 (DeleteTopicResponse.segments_deleted response) @
     write_u64 (DeleteTopicResponse.bytes_deleted response) @
     write_u32 (DeleteTopicResponse.offsets_removed response)"

definition decode_delete_topic_response :: "bytes \<Rightarrow> DeleteTopicResponse decode_result" where [bolt_defs]:
  "decode_delete_topic_response p =
     (case do {
        (topic, r) \<leftarrow> read_string (payload_reader p);
        (status, r) \<leftarrow> read_string r;
        (partitions_deleted, r) \<leftarrow> read_u16 r;
        (segments_deleted, r) \<leftarrow> read_u32 r;
        (bytes_deleted, r) \<leftarrow> read_u64 r;
        (offsets_removed, r) \<leftarrow> read_u32 r;
        require (reader_done r);
        Some (DeleteTopicResponse.make topic status partitions_deleted segments_deleted
          bytes_deleted offsets_removed)}
      of None \<Rightarrow> Inl (MalformedPayload, ''malformed delete-topic response payload'')
       | Some response \<Rightarrow> Inr response)"

definition valid_delete_topic_response :: "DeleteTopicResponse \<Rightarrow> bool" where [bolt_defs]:
  "valid_delete_topic_response response \<longleftrightarrow>
     length (DeleteTopicResponse.topic response) < 2 ^ 32 \<and>
     length (DeleteTopicResponse.status response) < 2 ^ 32"

interpretation delete_topic_response: message encode_delete_topic_response
  decode_delete_topic_response valid_delete_topic_response
  by (unfold_locales, rename_tac p m, case_tac m)
    (simp add: bolt_defs DeleteTopicResponse.make_def decoder_simps wire_simps, blast?)

section \<open>Retention runs\<close>

record RunRetentionRequest =
  topic :: string

definition encode_run_retention_request :: "RunRetentionRequest \<Rightarrow> bytes" where [bolt_defs]:
  "encode_run_retention_request request =
     write_string (RunRetentionRequest.topic request)"

definition decode_run_retention_request :: "bytes \<Rightarrow> RunRetentionRequest decode_result" where [bolt_defs]:
  "decode_run_retention_request p =
     (case do {
        (topic, r) \<leftarrow> read_string (payload_reader p);
        require (reader_done r);
        Some (RunRetentionRequest.make topic)}
      of None \<Rightarrow> Inl (MalformedPayload, ''malformed run-retention request payload'')
       | Some request \<Rightarrow> Inr request)"

definition valid_run_retention_request :: "RunRetentionRequest \<Rightarrow> bool" where [bolt_defs]:
  "valid_run_retention_request request \<longleftrightarrow>
     length (RunRetentionRequest.topic request) < 2 ^ 32"

interpretation run_retention_request: message encode_run_retention_request
  decode_run_retention_request valid_run_retention_request
  by (unfold_locales, rename_tac p m, case_tac m)
    (simp add: bolt_defs RunRetentionRequest.make_def decoder_simps wire_simps, blast?)

record RetentionPartitionResult =
  topic :: string
  partition :: u16
  segments_deleted :: u32
  bytes_deleted :: u64
  earliest_offset :: u64
  next_offset :: u64

definition write_retention_partition_result :: "RetentionPartitionResult \<Rightarrow> bytes" where [bolt_defs]:
  "write_retention_partition_result d =
     write_string (RetentionPartitionResult.topic d) @
     write_u16 (RetentionPartitionResult.partition d) @
     write_u32 (RetentionPartitionResult.segments_deleted d) @
     write_u64 (RetentionPartitionResult.bytes_deleted d) @
     write_u64 (RetentionPartitionResult.earliest_offset d) @
     write_u64 (RetentionPartitionResult.next_offset d)"

definition read_retention_partition_result :: "PayloadReader \<Rightarrow> (RetentionPartitionResult \<times> PayloadReader) option" where [bolt_defs]:
  "read_retention_partition_result r = do {
     (topic, r) \<leftarrow> read_string r;
     (partition, r) \<leftarrow> read_u16 r;
     (segments_deleted, r) \<leftarrow> read_u32 r;
     (bytes_deleted, r) \<leftarrow> read_u64 r;
     (earliest_offset, r) \<leftarrow> read_u64 r;
     (next_offset, r) \<leftarrow> read_u64 r;
     Some (RetentionPartitionResult.make topic partition segments_deleted bytes_deleted
       earliest_offset next_offset, r)}"

definition valid_retention_partition_result :: "RetentionPartitionResult \<Rightarrow> bool" where [bolt_defs]:
  "valid_retention_partition_result d \<longleftrightarrow> length (RetentionPartitionResult.topic d) < 2 ^ 32"

interpretation retention_partition_result: codec write_retention_partition_result
  read_retention_partition_result valid_retention_partition_result
  by (unfold_locales, rename_tac r m r', case_tac m)
    (simp add: bolt_defs RetentionPartitionResult.make_def decoder_simps wire_simps, blast?)

record RunRetentionResponse =
  topic :: string
  topics_scanned :: u32
  partitions_scanned :: u32
  segments_deleted :: u32
  bytes_deleted :: u64
  partitions :: "RetentionPartitionResult list"

definition encode_run_retention_response :: "RunRetentionResponse \<Rightarrow> bytes" where [bolt_defs]:
  "encode_run_retention_response response =
     write_string (RunRetentionResponse.topic response) @
     write_u32 (RunRetentionResponse.topics_scanned response) @
     write_u32 (RunRetentionResponse.partitions_scanned response) @
     write_u32 (RunRetentionResponse.segments_deleted response) @
     write_u64 (RunRetentionResponse.bytes_deleted response) @
     write_u32 (of_nat (length (RunRetentionResponse.partitions response))) @
     concat (map write_retention_partition_result (RunRetentionResponse.partitions response))"

definition decode_run_retention_response :: "bytes \<Rightarrow> RunRetentionResponse decode_result" where [bolt_defs]:
  "decode_run_retention_response p =
     (case do {
        (topic, r) \<leftarrow> read_string (payload_reader p);
        (topics_scanned, r) \<leftarrow> read_u32 r;
        (partitions_scanned, r) \<leftarrow> read_u32 r;
        (segments_deleted, r) \<leftarrow> read_u32 r;
        (bytes_deleted, r) \<leftarrow> read_u64 r;
        (count, r) \<leftarrow> read_u32 r;
        (items, r) \<leftarrow> read_many (unat count) read_retention_partition_result r;
        require (reader_done r);
        Some (RunRetentionResponse.make topic topics_scanned partitions_scanned segments_deleted
          bytes_deleted items)}
      of None \<Rightarrow> Inl (MalformedPayload, ''malformed run-retention response payload'')
       | Some response \<Rightarrow> Inr response)"

definition valid_run_retention_response :: "RunRetentionResponse \<Rightarrow> bool" where [bolt_defs]:
  "valid_run_retention_response response \<longleftrightarrow>
     length (RunRetentionResponse.topic response) < 2 ^ 32 \<and>
     length (RunRetentionResponse.partitions response) < 2 ^ 32 \<and>
     (\<forall>x \<in> set (RunRetentionResponse.partitions response). valid_retention_partition_result x)"

interpretation run_retention_response: message encode_run_retention_response
  decode_run_retention_response valid_run_retention_response
  by (unfold_locales, rename_tac p m, case_tac m)
    (simp add: encode_run_retention_response_def decode_run_retention_response_def
      valid_run_retention_response_def RunRetentionResponse.make_def decoder_simps wire_simps retention_partition_result.read_many_iff, blast?)

section \<open>Group administration\<close>

record DescribeGroupRequest =
  group :: string
  topic :: string

definition encode_describe_group_request :: "DescribeGroupRequest \<Rightarrow> bytes" where [bolt_defs]:
  "encode_describe_group_request request =
     write_string (DescribeGroupRequest.group request) @
     write_string (DescribeGroupRequest.topic request)"

definition decode_describe_group_request :: "bytes \<Rightarrow> DescribeGroupRequest decode_result" where [bolt_defs]:
  "decode_describe_group_request p =
     (case do {
        (grp, r) \<leftarrow> read_string (payload_reader p);
        (topic, r) \<leftarrow> read_string r;
        require (reader_done r);
        Some (DescribeGroupRequest.make grp topic)}
      of None \<Rightarrow> Inl (MalformedPayload, ''malformed describe-group request payload'')
       | Some request \<Rightarrow>
          if DescribeGroupRequest.group request = []
          then Inl (MalformedPayload, ''describe-group group must not be empty'')
          else if DescribeGroupRequest.topic request = []
          then Inl (MalformedPayload, ''describe-group topic must not be empty'')
          else Inr request)"

definition valid_describe_group_request :: "DescribeGroupRequest \<Rightarrow> bool" where [bolt_defs]:
  "valid_describe_group_request request \<longleftrightarrow>
     length (DescribeGroupRequest.group request) < 2 ^ 32 \<and>
     length (DescribeGroupRequest.topic request) < 2 ^ 32 \<and>
     DescribeGroupRequest.group request \<noteq> [] \<and>
     DescribeGroupRequest.topic request \<noteq> []"

interpretation describe_group_request: message encode_describe_group_request
  decode_describe_group_request valid_describe_group_request
  by (unfold_locales, rename_tac p m, case_tac m)
    (simp add: bolt_defs DescribeGroupRequest.make_def decoder_simps wire_simps, blast?)

record GroupOffsetDescription =
  partition :: u16
  has_committed_offset :: bool
  committed_offset :: u64
  earliest_offset :: u64
  next_offset :: u64
  lag :: u64
  out_of_range :: bool

definition write_group_offset_description :: "GroupOffsetDescription \<Rightarrow> bytes" where [bolt_defs]:
  "write_group_offset_description d =
     write_u16 (GroupOffsetDescription.partition d) @
     write_bool (GroupOffsetDescription.has_committed_offset d) @
     write_u64 (GroupOffsetDescription.committed_offset d) @
     write_u64 (GroupOffsetDescription.earliest_offset d) @
     write_u64 (GroupOffsetDescription.next_offset d) @
     write_u64 (GroupOffsetDescription.lag d) @
     write_bool (GroupOffsetDescription.out_of_range d)"

definition read_group_offset_description :: "PayloadReader \<Rightarrow> (GroupOffsetDescription \<times> PayloadReader) option" where [bolt_defs]:
  "read_group_offset_description r = do {
     (partition, r) \<leftarrow> read_u16 r;
     (has_committed_offset, r) \<leftarrow> read_bool r;
     (committed_offset, r) \<leftarrow> read_u64 r;
     (earliest_offset, r) \<leftarrow> read_u64 r;
     (next_offset, r) \<leftarrow> read_u64 r;
     (lag, r) \<leftarrow> read_u64 r;
     (out_of_range, r) \<leftarrow> read_bool r;
     Some (GroupOffsetDescription.make partition has_committed_offset committed_offset
       earliest_offset next_offset lag out_of_range, r)}"

interpretation group_offset_description: codec write_group_offset_description
  read_group_offset_description "\<lambda>_. True"
  by (unfold_locales, rename_tac r m r', case_tac m)
    (simp add: bolt_defs GroupOffsetDescription.make_def decoder_simps wire_simps, blast?)

record DescribeGroupResponse =
  group :: string
  topic :: string
  active_member_count :: u32
  offsets :: "GroupOffsetDescription list"

definition encode_describe_group_response :: "DescribeGroupResponse \<Rightarrow> bytes" where [bolt_defs]:
  "encode_describe_group_response response =
     write_string (DescribeGroupResponse.group response) @
     write_string (DescribeGroupResponse.topic response) @
     write_u32 (DescribeGroupResponse.active_member_count response) @
     write_u32 (of_nat (length (DescribeGroupResponse.offsets response))) @
     concat (map write_group_offset_description (DescribeGroupResponse.offsets response))"

definition decode_describe_group_response :: "bytes \<Rightarrow> DescribeGroupResponse decode_result" where [bolt_defs]:
  "decode_describe_group_response p =
     (case do {
        (grp, r) \<leftarrow> read_string (payload_reader p);
        (topic, r) \<leftarrow> read_string r;
        (active_member_count, r) \<leftarrow> read_u32 r;
        (count, r) \<leftarrow> read_u32 r;
        (items, r) \<leftarrow> read_many (unat count) read_group_offset_description r;
        require (reader_done r);
        Some (DescribeGroupResponse.make grp topic active_member_count items)}
      of None \<Rightarrow> Inl (MalformedPayload, ''malformed describe-group response payload'')
       | Some response \<Rightarrow> Inr response)"

definition valid_describe_group_response :: "DescribeGroupResponse \<Rightarrow> bool" where [bolt_defs]:
  "valid_describe_group_response response \<longleftrightarrow>
     length (DescribeGroupResponse.group response) < 2 ^ 32 \<and>
     length (DescribeGroupResponse.topic response) < 2 ^ 32 \<and>
     length (DescribeGroupResponse.offsets response) < 2 ^ 32"

interpretation describe_group_response: message encode_describe_group_response
  decode_describe_group_response valid_describe_group_response
  by (unfold_locales, rename_tac p m, case_tac m)
    (simp add: encode_describe_group_response_def decode_describe_group_response_def
      valid_describe_group_response_def DescribeGroupResponse.make_def decoder_simps wire_simps group_offset_description.read_many_iff, blast?)

record ResetGroupOffsetRequest =
  group :: string
  topic :: string
  partition :: u16
  target :: string

definition encode_reset_group_offset_request :: "ResetGroupOffsetRequest \<Rightarrow> bytes" where [bolt_defs]:
  "encode_reset_group_offset_request request =
     write_string (ResetGroupOffsetRequest.group request) @
     write_string (ResetGroupOffsetRequest.topic request) @
     write_u16 (ResetGroupOffsetRequest.partition request) @
     write_string (ResetGroupOffsetRequest.target request)"

definition decode_reset_group_offset_request :: "bytes \<Rightarrow> ResetGroupOffsetRequest decode_result" where [bolt_defs]:
  "decode_reset_group_offset_request p =
     (case do {
        (grp, r) \<leftarrow> read_string (payload_reader p);
        (topic, r) \<leftarrow> read_string r;
        (partition, r) \<leftarrow> read_u16 r;
        (target, r) \<leftarrow> read_string r;
        require (reader_done r);
        Some (ResetGroupOffsetRequest.make grp topic partition target)}
      of None \<Rightarrow> Inl (MalformedPayload, ''malformed reset-group-offset request payload'')
       | Some request \<Rightarrow>
          if ResetGroupOffsetRequest.group request = []
          then Inl (MalformedPayload, ''reset-group-offset group must not be empty'')
          else if ResetGroupOffsetRequest.topic request = []
          then Inl (MalformedPayload, ''reset-group-offset topic must not be empty'')
          else if ResetGroupOffsetRequest.target request = []
          then Inl (MalformedPayload, ''reset-group-offset target must not be empty'')
          else Inr request)"

definition valid_reset_group_offset_request :: "ResetGroupOffsetRequest \<Rightarrow> bool" where [bolt_defs]:
  "valid_reset_group_offset_request request \<longleftrightarrow>
     length (ResetGroupOffsetRequest.group request) < 2 ^ 32 \<and>
     length (ResetGroupOffsetRequest.topic request) < 2 ^ 32 \<and>
     length (ResetGroupOffsetRequest.target request) < 2 ^ 32 \<and>
     ResetGroupOffsetRequest.group request \<noteq> [] \<and>
     ResetGroupOffsetRequest.topic request \<noteq> [] \<and>
     ResetGroupOffsetRequest.target request \<noteq> []"

interpretation reset_group_offset_request: message encode_reset_group_offset_request
  decode_reset_group_offset_request valid_reset_group_offset_request
  by (unfold_locales, rename_tac p m, case_tac m)
    (simp add: bolt_defs ResetGroupOffsetRequest.make_def decoder_simps wire_simps, blast?)

record ResetGroupOffsetResponse =
  group :: string
  topic :: string
  partition :: u16
  next_offset :: u64
  status :: string

definition encode_reset_group_offset_response :: "ResetGroupOffsetResponse \<Rightarrow> bytes" where [bolt_defs]:
  "encode_reset_group_offset_response response =
     write_string (ResetGroupOffsetResponse.group response) @
     write_string (ResetGroupOffsetResponse.topic response) @
     write_u16 (ResetGroupOffsetResponse.partition response) @
     write_u64 (ResetGroupOffsetResponse.next_offset response) @
     write_string (ResetGroupOffsetResponse.status response)"

definition decode_reset_group_offset_response :: "bytes \<Rightarrow> ResetGroupOffsetResponse decode_result" where [bolt_defs]:
  "decode_reset_group_offset_response p =
     (case do {
        (grp, r) \<leftarrow> read_string (payload_reader p);
        (topic, r) \<leftarrow> read_string r;
        (partition, r) \<leftarrow> read_u16 r;
        (next_offset, r) \<leftarrow> read_u64 r;
        (status, r) \<leftarrow> read_string r;
        require (reader_done r);
        Some (ResetGroupOffsetResponse.make grp topic partition next_offset status)}
      of None \<Rightarrow> Inl (MalformedPayload, ''malformed reset-group-offset response payload'')
       | Some response \<Rightarrow> Inr response)"

definition valid_reset_group_offset_response :: "ResetGroupOffsetResponse \<Rightarrow> bool" where [bolt_defs]:
  "valid_reset_group_offset_response response \<longleftrightarrow>
     length (ResetGroupOffsetResponse.group response) < 2 ^ 32 \<and>
     length (ResetGroupOffsetResponse.topic response) < 2 ^ 32 \<and>
     length (ResetGroupOffsetResponse.status response) < 2 ^ 32"

interpretation reset_group_offset_response: message encode_reset_group_offset_response
  decode_reset_group_offset_response valid_reset_group_offset_response
  by (unfold_locales, rename_tac p m, case_tac m)
    (simp add: bolt_defs ResetGroupOffsetResponse.make_def decoder_simps wire_simps, blast?)

section \<open>Properties\<close>

text \<open>
  The payloads of the consumer-group protocol are parsed exactly. Each decoder accepts a byte
  string exactly when it is the encoding of a valid message, and returns that message.
\<close>

theorem group_messages_exact:
  "(decode_join_group_request p = Inr m1 \<longleftrightarrow> valid_join_group_request m1 \<and> p = encode_join_group_request m1) \<and>
   (decode_join_group_response p = Inr m2 \<longleftrightarrow> valid_join_group_response m2 \<and> p = encode_join_group_response m2) \<and>
   (decode_sync_group_request p = Inr m3 \<longleftrightarrow> valid_sync_group_request m3 \<and> p = encode_sync_group_request m3) \<and>
   (decode_sync_group_response p = Inr m4 \<longleftrightarrow> valid_sync_group_response m4 \<and> p = encode_sync_group_response m4) \<and>
   (decode_heartbeat_request p = Inr m5 \<longleftrightarrow> valid_heartbeat_request m5 \<and> p = encode_heartbeat_request m5) \<and>
   (decode_heartbeat_response p = Inr m6 \<longleftrightarrow> valid_heartbeat_response m6 \<and> p = encode_heartbeat_response m6) \<and>
   (decode_leave_group_request p = Inr m7 \<longleftrightarrow> valid_leave_group_request m7 \<and> p = encode_leave_group_request m7) \<and>
   (decode_leave_group_response p = Inr m8 \<longleftrightarrow> valid_leave_group_response m8 \<and> p = encode_leave_group_response m8) \<and>
   (decode_group_offset_commit_request p = Inr m9 \<longleftrightarrow> valid_group_offset_commit_request m9 \<and> p = encode_group_offset_commit_request m9) \<and>
   (decode_group_offset_commit_response p = Inr m10 \<longleftrightarrow> valid_group_offset_commit_response m10 \<and> p = encode_group_offset_commit_response m10)"
  by (intro conjI)
    (rule join_group_request.decode_iff join_group_response.decode_iff
      sync_group_request.decode_iff sync_group_response.decode_iff
      heartbeat_request.decode_iff heartbeat_response.decode_iff
      leave_group_request.decode_iff leave_group_response.decode_iff
      group_offset_commit_request.decode_iff group_offset_commit_response.decode_iff)+

text \<open>
  The payloads of topic and group administration are parsed exactly, including the nested
  repeated fields of topic descriptions, retention results and group offsets.
\<close>

theorem admin_messages_exact:
  "(decode_list_topics_response p = Inr m1 \<longleftrightarrow> valid_list_topics_response m1 \<and> p = encode_list_topics_response m1) \<and>
   (decode_describe_topic_request p = Inr m2 \<longleftrightarrow> valid_describe_topic_request m2 \<and> p = encode_describe_topic_request m2) \<and>
   (decode_describe_topic_response p = Inr m3 \<longleftrightarrow> valid_describe_topic_response m3 \<and> p = encode_describe_topic_response m3) \<and>
   (decode_delete_topic_request p = Inr m4 \<longleftrightarrow> valid_delete_topic_request m4 \<and> p = encode_delete_topic_request m4) \<and>
   (decode_delete_topic_response p = Inr m5 \<longleftrightarrow> valid_delete_topic_response m5 \<and> p = encode_delete_topic_response m5) \<and>
   (decode_run_retention_request p = Inr m6 \<longleftrightarrow> valid_run_retention_request m6 \<and> p = encode_run_retention_request m6) \<and>
   (decode_run_retention_response p = Inr m7 \<longleftrightarrow> valid_run_retention_response m7 \<and> p = encode_run_retention_response m7) \<and>
   (decode_describe_group_request p = Inr m8 \<longleftrightarrow> valid_describe_group_request m8 \<and> p = encode_describe_group_request m8) \<and>
   (decode_describe_group_response p = Inr m9 \<longleftrightarrow> valid_describe_group_response m9 \<and> p = encode_describe_group_response m9) \<and>
   (decode_reset_group_offset_request p = Inr m10 \<longleftrightarrow> valid_reset_group_offset_request m10 \<and> p = encode_reset_group_offset_request m10) \<and>
   (decode_reset_group_offset_response p = Inr m11 \<longleftrightarrow> valid_reset_group_offset_response m11 \<and> p = encode_reset_group_offset_response m11)"
  by (intro conjI)
    (rule list_topics_response.decode_iff describe_topic_request.decode_iff
      describe_topic_response.decode_iff delete_topic_request.decode_iff
      delete_topic_response.decode_iff run_retention_request.decode_iff
      run_retention_response.decode_iff describe_group_request.decode_iff
      describe_group_response.decode_iff reset_group_offset_request.decode_iff
      reset_group_offset_response.decode_iff)+

end
