(* ===== verification/Bolt_Records.thy ===== *)
theory Bolt_Records
  imports Bolt_Messages
begin

text \<open>
  The on-disk formats of \<open>src/src/storage/partition_log.cpp\<close>: a version-1 record and a version-2 batch,
  each a 32-bit length, a body and the body's checksum. A thrown exception is \<open>Inl\<close> of its message.
  The theory shows that both decoders invert their encoders, accept nothing else, and reject every
  stored body in which a byte was changed.
\<close>

section \<open>Data\<close>

definition kRecordVersion :: u16 where "kRecordVersion = 1"
definition kRecordFlags :: u16 where "kRecordFlags = 0"
definition kBatchVersion :: u16 where "kBatchVersion = 2"
definition kFixedBatchBodyBytes :: u32 where "kFixedBatchBodyBytes = 36"
definition kHeaderCount :: u32 where "kHeaderCount = 0"
definition kFixedRecordBodyBytes :: u32 where "kFixedRecordBodyBytes = 32"
definition kMinimumRecordBytes :: u32 where "kMinimumRecordBytes = kFixedRecordBodyBytes + 4"
definition kIndexEntryBytes :: u32 where "kIndexEntryBytes = 20"

lemmas storage_constants = kRecordVersion_def kRecordFlags_def kBatchVersion_def
  kFixedBatchBodyBytes_def kHeaderCount_def kFixedRecordBodyBytes_def kMinimumRecordBytes_def
  kIndexEntryBytes_def

record RecordMetadata =
  topic :: string
  partition :: u16
  offset :: u64
  timestamp_unix_ns :: u64
  encoded_byte_size :: u32

record Record =
  metadata :: RecordMetadata
  key :: bytes
  val :: bytes

record AppendRecord =
  key :: bytes
  val :: bytes

record BatchMetadata =
  topic :: string
  partition :: u16
  base_offset :: u64
  next_offset :: u64
  timestamp_unix_ns :: u64
  record_count :: u32
  logical_bytes :: u32
  encoded_bytes :: u32
  stored_bytes :: u32
  codec :: Codec

record EncodedBatch =
  metadata :: BatchMetadata
  encoded_records :: bytes

record DecodedRecord =
  stored_record :: Record
  record_bytes :: u32

record DecodedBatch =
  metadata :: BatchMetadata
  records :: "BatchRecord list"
  batch_bytes :: u32

section \<open>Encoders\<close>

definition record_body :: "u64 \<Rightarrow> u64 \<Rightarrow> bytes \<Rightarrow> bytes \<Rightarrow> bytes" where
  "record_body off ts k v =
     write_u16 kRecordVersion @ write_u16 kRecordFlags @ write_u64 off @ write_u64 ts @
     write_u32 (of_nat (length k)) @ write_u32 (of_nat (length v)) @ write_u32 kHeaderCount @ k @ v"

definition encode_record :: "u64 \<Rightarrow> u64 \<Rightarrow> bytes \<Rightarrow> bytes \<Rightarrow> string + bytes" where
  "encode_record off ts k v =
     (if length k > 2 ^ 32 - 1 \<or> length v > 2 ^ 32 - 1
      then Inl ''record key/value exceed format limits''
      else let body = record_body off ts k v; n = length body + 4 in
           if n > 2 ^ 32 - 1 then Inl ''record exceeds format limits''
           else Inr (write_u32 (of_nat n) @ body @ write_u32 (crc32 body)))"

text \<open>The batch body with a given 16-bit codec field.\<close>

definition batch_body :: "u16 \<Rightarrow> u64 \<Rightarrow> u64 \<Rightarrow> u32 \<Rightarrow> u32 \<Rightarrow> bytes \<Rightarrow> bytes" where
  "batch_body codec_field base ts count uncompressed encoded =
     write_u16 kBatchVersion @ write_u16 0 @ write_u16 codec_field @ write_u16 0 @
     write_u64 base @ write_u64 ts @ write_u32 count @ write_u32 uncompressed @
     write_u32 (of_nat (length encoded)) @ encoded"

definition encode_batch :: "u64 \<Rightarrow> u64 \<Rightarrow> Codec \<Rightarrow> u32 \<Rightarrow> u32 \<Rightarrow> bytes \<Rightarrow> bytes" where
  "encode_batch base ts cdc count uncompressed encoded =
     (let body = batch_body (codec_wire cdc) base ts count uncompressed encoded in
      write_u32 (of_nat (length body + 4)) @ body @ write_u32 (crc32 body))"

definition index_entry_bytes :: "u64 \<Rightarrow> nat \<Rightarrow> u32 \<Rightarrow> bytes" where
  "index_entry_bytes off pos n = write_u64 off @ write_u64 (of_nat pos) @ write_u32 n"

section \<open>Decoders\<close>

definition decode_record :: "string \<Rightarrow> u16 \<Rightarrow> u32 \<Rightarrow> bytes \<Rightarrow> string + DecodedRecord" where
  "decode_record tp part n bs =
     (if unat n \<noteq> length bs \<or> n < kMinimumRecordBytes then Inl ''invalid record length''
      else let body_bytes = unat (n - 4) in
      if read_u32_be bs body_bytes \<noteq> crc32 (take body_bytes bs) then Inl ''record crc mismatch''
      else let key_bytes = read_u32_be bs 20; value_bytes = read_u32_be bs 24 in
      if read_u16_be bs 0 \<noteq> kRecordVersion \<or> read_u16_be bs 2 \<noteq> kRecordFlags \<or>
         read_u32_be bs 28 \<noteq> kHeaderCount
      then Inl ''unsupported record header''
      else if (ucast kFixedRecordBodyBytes + ucast key_bytes + ucast value_bytes :: u64) \<noteq>
              of_nat body_bytes
      then Inl ''record payload length mismatch''
      else Inr (DecodedRecord.make
        (Record.make
          (RecordMetadata.make tp part (read_u64_be bs 4) (read_u64_be bs 12) (n + 4))
          (take (unat key_bytes) (drop (unat kFixedRecordBodyBytes) bs))
          (take (unat value_bytes) (drop (unat kFixedRecordBodyBytes + unat key_bytes) bs)))
        n))"

definition decode_batch ::
  "zstd \<Rightarrow> string \<Rightarrow> u16 \<Rightarrow> u32 \<Rightarrow> bytes \<Rightarrow> nat \<Rightarrow> string + DecodedBatch" where
  "decode_batch z tp part n bs maximum_uncompressed =
     (if unat n \<noteq> length bs \<or> n < kFixedBatchBodyBytes + 4 then Inl ''invalid batch length''
      else let body_bytes = n - 4 in
      if crc32 (take (unat body_bytes) bs) \<noteq> read_u32_be bs (unat body_bytes)
      then Inl ''batch crc mismatch''
      else if read_u16_be bs 0 \<noteq> kBatchVersion \<or> read_u16_be bs 2 \<noteq> 0 \<or> read_u16_be bs 6 \<noteq> 0
      then Inl ''unsupported batch header''
      else let cdc = codec_cast (read_u16_be bs 4); base = read_u64_be bs 8; ts = read_u64_be bs 16;
               count = read_u32_be bs 24; uncompressed = read_u32_be bs 28;
               encoded = read_u32_be bs 32 in
      if \<not> is_supported cdc \<or> count = 0 \<or> uncompressed = 0 \<or>
         encoded \<noteq> body_bytes - kFixedBatchBodyBytes
      then Inl ''invalid batch header''
      else case decompress z cdc (take (unat encoded) (drop (unat kFixedBatchBodyBytes) bs))
                  (unat uncompressed) maximum_uncompressed of
             Inl what \<Rightarrow> Inl what
           | Inr raw \<Rightarrow>
              (case decode_record_set raw count of
                 Inl e \<Rightarrow> Inl (snd e)
               | Inr recs \<Rightarrow> Inr (DecodedBatch.make
                   (BatchMetadata.make tp part base (base + ucast count) ts count uncompressed encoded
                     (n + 4) cdc)
                   recs n)))"

section \<open>Splitting stored bytes into fields\<close>

lemma split_u16: "k + 2 \<le> length bs \<Longrightarrow> drop k bs = write_u16 (read_u16_be bs k) @ drop (k + 2) bs"
  using read_u16_be_iff [of k bs "read_u16_be bs k"] append_take_drop_id [of 2 "drop k bs"]
  by (simp add: add.commute)

lemma split_u32: "k + 4 \<le> length bs \<Longrightarrow> drop k bs = write_u32 (read_u32_be bs k) @ drop (k + 4) bs"
  using read_u32_be_iff [of k bs "read_u32_be bs k"] append_take_drop_id [of 4 "drop k bs"]
  by (simp add: add.commute)

lemma split_u64: "k + 8 \<le> length bs \<Longrightarrow> drop k bs = write_u64 (read_u64_be bs k) @ drop (k + 8) bs"
  using read_u64_be_iff [of k bs "read_u64_be bs k"] append_take_drop_id [of 8 "drop k bs"]
  by (simp add: add.commute)

lemma split_sealed:
  assumes "4 \<le> length bs" "read_u32_be bs (length bs - 4) = crc32 (take (length bs - 4) bs)"
  shows "bs = take (length bs - 4) bs @ write_u32 (crc32 (take (length bs - 4) bs))"
  using split_u32 [of "length bs - 4" bs] append_take_drop_id [of "length bs - 4" bs] assms by simp

lemma split_u16_first: "2 \<le> length bs \<Longrightarrow> write_u16 (read_u16_be bs 0) @ drop 2 bs = bs"
  using split_u16 [of 0 bs, symmetric] by (simp only: drop0 add_0)

lemma record_fields:
  assumes "32 \<le> length bs"
  shows "write_u16 (read_u16_be bs 0) @ write_u16 (read_u16_be bs 2) @
    write_u64 (read_u64_be bs 4) @ write_u64 (read_u64_be bs 12) @ write_u32 (read_u32_be bs 20) @
    write_u32 (read_u32_be bs 24) @ write_u32 (read_u32_be bs 28) @ drop 32 bs = bs"
  using split_u16_first [of bs] split_u16 [of 2 bs] split_u64 [of 4 bs] split_u64 [of 12 bs]
    split_u32 [of 20 bs] split_u32 [of 24 bs] split_u32 [of 28 bs] assms by simp

lemma batch_fields:
  assumes "36 \<le> length bs"
  shows "write_u16 (read_u16_be bs 0) @ write_u16 (read_u16_be bs 2) @
    write_u16 (read_u16_be bs 4) @ write_u16 (read_u16_be bs 6) @
    write_u64 (read_u64_be bs 8) @ write_u64 (read_u64_be bs 16) @ write_u32 (read_u32_be bs 24) @
    write_u32 (read_u32_be bs 28) @ write_u32 (read_u32_be bs 32) @ drop 36 bs = bs"
  using split_u16_first [of bs] split_u16 [of 2 bs] split_u16 [of 4 bs] split_u16 [of 6 bs]
    split_u64 [of 8 bs] split_u64 [of 16 bs] split_u32 [of 24 bs] split_u32 [of 28 bs]
    split_u32 [of 32 bs] assms by simp

lemma length_record_body [simp]: "length (record_body off ts k v) = 32 + length k + length v"
  by (simp add: record_body_def)

lemma length_batch_body [simp]: "length (batch_body w base ts c u encoded) = 36 + length encoded"
  by (simp add: batch_body_def)

lemma record_body_fields:
  assumes bs: "bs = record_body off ts k v @ t"
  shows "read_u16_be bs 0 = kRecordVersion" "read_u16_be bs 2 = kRecordFlags"
    "read_u64_be bs 4 = off" "read_u64_be bs 12 = ts" "read_u32_be bs 20 = of_nat (length k)"
    "read_u32_be bs 24 = of_nat (length v)" "read_u32_be bs 28 = kHeaderCount"
    "drop 32 bs = k @ v @ t"
  using read_u16_append [of "[]" 0] read_u16_append [of "take 2 bs" 2]
    read_u64_append [of "take 4 bs" 4] read_u64_append [of "take 12 bs" 12]
    read_u32_append [of "take 20 bs" 20] read_u32_append [of "take 24 bs" 24]
    read_u32_append [of "take 28 bs" 28]
  by (simp_all add: bs record_body_def)

lemma batch_body_fields:
  assumes bs: "bs = batch_body w base ts c u encoded @ t"
  shows "read_u16_be bs 0 = kBatchVersion" "read_u16_be bs 2 = 0" "read_u16_be bs 4 = w"
    "read_u16_be bs 6 = 0" "read_u64_be bs 8 = base" "read_u64_be bs 16 = ts"
    "read_u32_be bs 24 = c" "read_u32_be bs 28 = u" "read_u32_be bs 32 = of_nat (length encoded)"
    "drop 36 bs = encoded @ t"
  using read_u16_append [of "[]" 0] read_u16_append [of "take 2 bs" 2]
    read_u16_append [of "take 4 bs" 4] read_u16_append [of "take 6 bs" 6]
    read_u64_append [of "take 8 bs" 8] read_u64_append [of "take 16 bs" 16]
    read_u32_append [of "take 24 bs" 24] read_u32_append [of "take 28 bs" 28]
    read_u32_append [of "take 32 bs" 32]
  by (simp_all add: bs batch_body_def)

section \<open>What the decoders accept\<close>

text \<open>A body followed by its checksum, as it is stored after the length word.\<close>

definition sealed :: "bytes \<Rightarrow> bytes" where
  "sealed body = body @ write_u32 (crc32 body)"

lemma length_sealed [simp]: "length (sealed body) = length body + 4"
  by (simp add: sealed_def)

lemma take_sealed [simp]: "k \<le> length body \<Longrightarrow> take k (sealed body) = take k body"
  by (simp add: sealed_def)

lemma read_crc_sealed [simp]: "read_u32_be (sealed body) (length body) = crc32 body"
  using read_u32_append [of body "length body" _ "[]"] by (simp add: sealed_def)

definition decoded_record ::
  "string \<Rightarrow> u16 \<Rightarrow> u64 \<Rightarrow> u64 \<Rightarrow> bytes \<Rightarrow> bytes \<Rightarrow> DecodedRecord" where
  "decoded_record tp part off ts k v =
     DecodedRecord.make
       (Record.make
          (RecordMetadata.make tp part off ts (of_nat (36 + length k + length v) + 4)) k v)
       (of_nat (36 + length k + length v))"

lemma u64_lengths_eq:
  fixes a b :: u32
  assumes "n < 2 ^ 32"
  shows "(32 + ucast a + ucast b :: u64) = of_nat n \<longleftrightarrow> 32 + unat a + unat b = n"
proof -
  have "(32 + ucast a + ucast b :: u64) = of_nat (32 + unat a + unat b)" by simp
  moreover have "32 + unat a + unat b < 2 ^ 64" "n < 2 ^ 64"
    using unat_u32_less [of a] unat_u32_less [of b] assms by simp_all
  ultimately show ?thesis
    by (simp only: word_of_nat_eq_iff) (simp add: take_bit_eq_mod)
qed

lemma eq_of_nat: "unat n = m \<Longrightarrow> n = of_nat m" for n :: "'a::len word"
  by auto

lemma unat_minus_4: "36 \<le> unat n \<Longrightarrow> unat (n - 4) = unat n - 4" for n :: u32
  by (subst unat_sub) (simp_all add: word_le_nat_alt)

lemma less_min_record: "n < kMinimumRecordBytes \<longleftrightarrow> unat n < 36" for n :: u32
  by (simp add: storage_constants word_less_nat_alt)

text \<open>The guards of \<open>decode_record\<close> as one condition over the natural numbers.\<close>

lemma decode_record_guards:
  "decode_record tp part n bs = Inr d \<longleftrightarrow>
     length bs = unat n \<and> 36 \<le> unat n \<and>
     read_u32_be bs (unat n - 4) = crc32 (take (unat n - 4) bs) \<and>
     read_u16_be bs 0 = kRecordVersion \<and> read_u16_be bs 2 = kRecordFlags \<and>
     read_u32_be bs 28 = kHeaderCount \<and>
     32 + unat (read_u32_be bs 20) + unat (read_u32_be bs 24) = unat n - 4 \<and>
     d = DecodedRecord.make
        (Record.make
          (RecordMetadata.make tp part (read_u64_be bs 4) (read_u64_be bs 12) (n + 4))
          (take (unat (read_u32_be bs 20)) (drop 32 bs))
          (take (unat (read_u32_be bs 24)) (drop (32 + unat (read_u32_be bs 20)) bs)))
        n"
proof (cases "length bs = unat n \<and> 36 \<le> unat n")
  case True
  then have "(32 + ucast (read_u32_be bs 20) + ucast (read_u32_be bs 24) :: u64) =
      of_nat (unat n - 4) \<longleftrightarrow>
      32 + unat (read_u32_be bs 20) + unat (read_u32_be bs 24) = unat n - 4"
    using unat_u32_less [of n] by (intro u64_lengths_eq) simp
  with True show ?thesis
    by (simp add: decode_record_def Let_def less_min_record unat_minus_4 kFixedRecordBodyBytes_def
        del: of_nat_diff) blast
qed (auto simp: decode_record_def less_min_record)

lemma record_split:
  assumes "length bs = unat n" "36 \<le> unat n" "read_u16_be bs 0 = kRecordVersion"
    and "read_u16_be bs 2 = kRecordFlags" "read_u32_be bs 28 = kHeaderCount"
    and "32 + unat (read_u32_be bs 20) + unat (read_u32_be bs 24) = unat n - 4"
  shows "take (unat n - 4) bs = record_body (read_u64_be bs 4) (read_u64_be bs 12)
    (take (unat (read_u32_be bs 20)) (drop 32 bs))
    (take (unat (read_u32_be bs 24)) (drop (32 + unat (read_u32_be bs 20)) bs))"
    (is "_ = record_body _ _ ?k ?v")
proof -
  let ?kb = "unat (read_u32_be bs 20)" and ?vb = "unat (read_u32_be bs 24)"
  have len: "length ?k = ?kb" "length ?v = ?vb" using assms by simp_all
  have "unat n - 36 = ?kb + ?vb" using assms(6) by simp
  then have "take (unat n - 36) (drop 32 bs) = ?k @ ?v"
    using take_add [of ?kb ?vb "drop 32 bs"] by (simp add: add.commute)
  moreover have "take (unat n - 4) bs = take 32 bs @ take (unat n - 36) (drop 32 bs)"
    using take_add [of 32 "unat n - 36" bs] assms(2) by simp
  moreover have "take 32 bs = write_u16 kRecordVersion @ write_u16 kRecordFlags @
    write_u64 (read_u64_be bs 4) @ write_u64 (read_u64_be bs 12) @ write_u32 (read_u32_be bs 20) @
    write_u32 (read_u32_be bs 24) @ write_u32 kHeaderCount"
    using arg_cong [OF record_fields [of bs], of "take 32"] assms(1-5) by simp
  ultimately show ?thesis
    unfolding record_body_def len by simp
qed

lemma decode_record_iff:
  "decode_record tp part n bs = Inr d \<longleftrightarrow>
     (\<exists>off ts k v. bs = sealed (record_body off ts k v) \<and> length bs = unat n \<and>
        d = decoded_record tp part off ts k v)" (is "_ \<longleftrightarrow> ?R")
proof
  assume "decode_record tp part n bs = Inr d"
  note g = this [unfolded decode_record_guards]
  let ?k = "take (unat (read_u32_be bs 20)) (drop 32 bs)"
  let ?v = "take (unat (read_u32_be bs 24)) (drop (32 + unat (read_u32_be bs 20)) bs)"
  have body: "take (unat n - 4) bs = record_body (read_u64_be bs 4) (read_u64_be bs 12) ?k ?v"
    using g by (intro record_split) simp_all
  have "length ?k = unat (read_u32_be bs 20)" "length ?v = unat (read_u32_be bs 24)"
    using g by auto
  then have "36 + length ?k + length ?v = unat n" using g by linarith
  then have "d = decoded_record tp part (read_u64_be bs 4) (read_u64_be bs 12) ?k ?v"
    using g unfolding decoded_record_def by (metis eq_of_nat)
  moreover have "bs = sealed (record_body (read_u64_be bs 4) (read_u64_be bs 12) ?k ?v)"
    using split_sealed [of bs] g body by (simp add: sealed_def)
  ultimately show ?R using g by blast
next
  assume ?R
  then obtain off ts k v where bs: "bs = sealed (record_body off ts k v)"
    and len: "length bs = unat n" and d: "d = decoded_record tp part off ts k v" by blast
  have n: "unat n = 36 + length k + length v" using bs len by simp
  then have n': "n = of_nat (36 + length k + length v)" by (metis eq_of_nat)
  have kv: "length k < 2 ^ 32" "length v < 2 ^ 32" using n unat_u32_less [of n] by linarith+
  have "read_u32_be bs (unat n - 4) = crc32 (take (unat n - 4) bs)"
    using read_crc_sealed [of "record_body off ts k v"] by (simp add: bs n add.assoc)
  moreover note f = record_body_fields [of bs off ts k v "write_u32 (crc32 (record_body off ts k v))"]
  moreover have "drop (32 + length k) bs = v @ write_u32 (crc32 (record_body off ts k v))"
    using f(8) drop_drop [of "length k" 32 bs] by (simp add: bs sealed_def add.commute)
  ultimately show "decode_record tp part n bs = Inr d"
    unfolding decode_record_guards using kv n
    by (simp add: bs sealed_def d decoded_record_def n')
qed

definition decoded_batch ::
  "string \<Rightarrow> u16 \<Rightarrow> u16 \<Rightarrow> u64 \<Rightarrow> u64 \<Rightarrow> u32 \<Rightarrow> u32 \<Rightarrow> bytes \<Rightarrow> BatchRecord list \<Rightarrow> DecodedBatch" where
  "decoded_batch tp part w base ts count uncompressed encoded recs =
     DecodedBatch.make
       (BatchMetadata.make tp part base (base + ucast count) ts count uncompressed
          (of_nat (length encoded)) (of_nat (40 + length encoded) + 4) (codec_cast w))
       recs (of_nat (40 + length encoded))"

text \<open>What the batch format requires of the fields of a batch.\<close>

definition batch_acceptable ::
  "zstd \<Rightarrow> nat \<Rightarrow> u16 \<Rightarrow> u32 \<Rightarrow> u32 \<Rightarrow> bytes \<Rightarrow> BatchRecord list \<Rightarrow> bool" where
  "batch_acceptable z maximum w count uncompressed encoded recs \<longleftrightarrow>
     is_supported (codec_cast w) \<and> count \<noteq> 0 \<and> uncompressed \<noteq> 0 \<and> valid_record_set count recs \<and>
     decompress z (codec_cast w) encoded (unat uncompressed) maximum = Inr (encode_record_set recs)"

lemma decode_records_case:
  "(case D of Inl what \<Rightarrow> Inl what
    | Inr raw \<Rightarrow> (case decode_record_set raw count of Inl e \<Rightarrow> Inl (snd e) | Inr recs \<Rightarrow> Inr (f recs)))
   = Inr d \<longleftrightarrow>
   (\<exists>recs. D = Inr (encode_record_set recs) \<and> valid_record_set count recs \<and> d = f recs)"
proof (cases D)
  case (Inr raw)
  show ?thesis
  proof (cases "decode_record_set raw count")
    case (Inl e)
    have "\<not> (valid_record_set count recs \<and> raw = encode_record_set recs)" for recs
      using Inl by (auto simp flip: record_set.decode_iff)
    then show ?thesis using Inr Inl by auto
  next
    case (Inr recs)
    then have "valid_record_set count recs \<and> raw = encode_record_set recs"
      by (simp add: record_set.decode_iff)
    then show ?thesis
      using \<open>D = Inr raw\<close> Inr by (auto dest: record_set.encode_inject)
  qed
qed simp

lemma decode_batch_guards:
  "decode_batch z tp part n bs mx = Inr d \<longleftrightarrow>
     length bs = unat n \<and> 40 \<le> unat n \<and>
     read_u32_be bs (unat n - 4) = crc32 (take (unat n - 4) bs) \<and>
     read_u16_be bs 0 = kBatchVersion \<and> read_u16_be bs 2 = 0 \<and> read_u16_be bs 6 = 0 \<and>
     unat (read_u32_be bs 32) = unat n - 40 \<and>
     (\<exists>recs. batch_acceptable z mx (read_u16_be bs 4) (read_u32_be bs 24) (read_u32_be bs 28)
        (take (unat n - 40) (drop 36 bs)) recs \<and>
      d = DecodedBatch.make
        (BatchMetadata.make tp part (read_u64_be bs 8) (read_u64_be bs 8 + ucast (read_u32_be bs 24))
          (read_u64_be bs 16) (read_u32_be bs 24) (read_u32_be bs 28) (read_u32_be bs 32) (n + 4)
          (codec_cast (read_u16_be bs 4))) recs n)"
proof (cases "length bs = unat n \<and> 40 \<le> unat n")
  case True
  then have n: "unat (n - 4) = unat n - 4" "unat (n - 4 - 36) = unat n - 40" "\<not> n < 40"
    by (simp_all add: unat_minus_4 unat_sub word_le_nat_alt word_less_nat_alt)
  have e: "read_u32_be bs 32 = n - 4 - 36 \<longleftrightarrow> unat (read_u32_be bs 32) = unat n - 40"
    using n(2) by (metis unsigned_word_eqI)
  show ?thesis
    unfolding decode_batch_def Let_def batch_acceptable_def kFixedBatchBodyBytes_def n(1) if_Inl_eq_Inr
      decode_records_case e
    using True n
    by (cases "unat (read_u32_be bs 32) = unat n - 40")
      (simp_all add: eq_commute [of "crc32 _"] conj_ac ex_simps [symmetric] del: ex_simps)
next
  case False
  then show ?thesis by (auto simp: decode_batch_def kFixedBatchBodyBytes_def word_less_nat_alt)
qed

lemma decode_batch_iff:
  "decode_batch z tp part n bs mx = Inr d \<longleftrightarrow>
     (\<exists>w base ts count uncompressed encoded recs.
        bs = sealed (batch_body w base ts count uncompressed encoded) \<and> length bs = unat n \<and>
        batch_acceptable z mx w count uncompressed encoded recs \<and>
        d = decoded_batch tp part w base ts count uncompressed encoded recs)" (is "_ \<longleftrightarrow> ?R")
proof
  assume "decode_batch z tp part n bs mx = Inr d"
  note g = this [unfolded decode_batch_guards]
  let ?e = "take (unat n - 40) (drop 36 bs)"
  let ?body = "batch_body (read_u16_be bs 4) (read_u64_be bs 8) (read_u64_be bs 16)
    (read_u32_be bs 24) (read_u32_be bs 28) ?e"
  have len: "length ?e = unat n - 40" using g by auto
  then have "unat (read_u32_be bs 32) = length ?e" "unat n = 40 + length ?e" using g by linarith+
  then have e: "read_u32_be bs 32 = of_nat (length ?e)" "n = of_nat (40 + length ?e)"
    using eq_of_nat by blast+
  have "take (unat n - 4) bs = take 36 bs @ ?e"
    using take_add [of 36 "unat n - 40" bs] g by simp
  moreover have "take 36 bs = write_u16 kBatchVersion @ write_u16 0 @ write_u16 (read_u16_be bs 4) @
      write_u16 0 @ write_u64 (read_u64_be bs 8) @ write_u64 (read_u64_be bs 16) @
      write_u32 (read_u32_be bs 24) @ write_u32 (read_u32_be bs 28) @ write_u32 (read_u32_be bs 32)"
    using arg_cong [OF batch_fields [of bs], of "take 36"] g by simp
  ultimately have "take (unat n - 4) bs = ?body"
    unfolding batch_body_def e(1) by simp
  then have "bs = sealed ?body"
    using split_sealed [of bs] g by (simp add: sealed_def)
  moreover obtain recs where "batch_acceptable z mx (read_u16_be bs 4) (read_u32_be bs 24)
      (read_u32_be bs 28) ?e recs"
    and "d = decoded_batch tp part (read_u16_be bs 4) (read_u64_be bs 8) (read_u64_be bs 16)
      (read_u32_be bs 24) (read_u32_be bs 28) ?e recs"
    using g unfolding decoded_batch_def e(1) by (metis e(2))
  ultimately show ?R using g by blast
next
  assume ?R
  then obtain w base ts count u encoded recs where
    bs: "bs = sealed (batch_body w base ts count u encoded)" and len: "length bs = unat n"
    and acc: "batch_acceptable z mx w count u encoded recs"
    and d: "d = decoded_batch tp part w base ts count u encoded recs" by blast
  have n: "unat n = 40 + length encoded" using bs len by simp
  then have n': "n = of_nat (40 + length encoded)" by (rule eq_of_nat)
  have e: "length encoded < 2 ^ 32" using n unat_u32_less [of n] by linarith
  have "read_u32_be bs (unat n - 4) = crc32 (take (unat n - 4) bs)"
    using read_crc_sealed [of "batch_body w base ts count u encoded"] by (simp add: bs n)
  moreover note batch_body_fields
    [of bs w base ts count u encoded "write_u32 (crc32 (batch_body w base ts count u encoded))"]
  ultimately show "decode_batch z tp part n bs mx = Inr d"
    unfolding decode_batch_guards using e n acc
    by (simp add: bs sealed_def d decoded_batch_def n') blast
qed

lemma encode_record_iff:
  "encode_record off ts k v = Inr e \<longleftrightarrow>
     36 + length k + length v < 2 ^ 32 \<and>
     e = write_u32 (of_nat (36 + length k + length v)) @ sealed (record_body off ts k v)"
  by (auto simp: encode_record_def Let_def sealed_def)

lemma encode_batch_sealed:
  "encode_batch base ts cdc count u encoded =
     write_u32 (of_nat (40 + length encoded)) @ sealed (batch_body (codec_wire cdc) base ts count u encoded)"
  by (simp add: encode_batch_def sealed_def Let_def)

text \<open>The decoders recognise each other's format by the version word, so at most one accepts.\<close>

lemma version_of_body:
  "read_u16_be (sealed (record_body off ts k v)) 0 = kRecordVersion"
  "read_u16_be (sealed (batch_body w base ts' count u encoded)) 0 = kBatchVersion"
  by (simp_all add: sealed_def record_body_fields(1) [OF refl] batch_body_fields(1) [OF refl])

lemma sealed_update:
  assumes "i < length body + 4" "b \<noteq> sealed body ! i"
  shows "(sealed body)[i := b] \<noteq> sealed body'"
proof
  assume eq: "(sealed body)[i := b] = sealed body'"
  then have len: "length body' = length body"
    by (metis eq length_list_update length_sealed add_right_cancel)
  show False
  proof (cases "i < length body")
    case True
    then have "body[i := b] @ write_u32 (crc32 body) = body' @ write_u32 (crc32 body')"
      using eq by (simp add: sealed_def list_update_append)
    then have "body' = body[i := b]" "crc32 body' = crc32 body"
      using len by simp_all
    then show False
      using crc32_update [OF True, of b] assms(2) True by (simp add: sealed_def nth_append)
  next
    case False
    then have "body @ (write_u32 (crc32 body))[i - length body := b] = body' @ write_u32 (crc32 body')"
      using eq by (auto simp: sealed_def list_update_append)
    then have "(write_u32 (crc32 body))[i - length body := b] = write_u32 (crc32 body)"
      using len by (metis append_eq_append_conv)
    then have "(write_u32 (crc32 body))[i - length body := b] ! (i - length body) =
        write_u32 (crc32 body) ! (i - length body)" by simp
    then show False
      using False assms by (simp add: sealed_def nth_append)
  qed
qed

section \<open>Properties\<close>

text \<open>
  The record format is exact. The bytes after a length word decode to a record exactly when the
  length word and these bytes are together what \<open>encode_record\<close> writes for some offset, timestamp, key
  and value, and the decoded record has that offset, timestamp, key and value.
\<close>

theorem decode_record_exact:
  "decode_record tp part n bs = Inr d \<longleftrightarrow>
     (\<exists>off ts k v. encode_record off ts k v = Inr (write_u32 n @ bs) \<and>
        d = decoded_record tp part off ts k v)"
proof -
  have "encode_record off ts k v = Inr (write_u32 n @ bs) \<longleftrightarrow>
      bs = sealed (record_body off ts k v) \<and> length bs = unat n" for off ts k v
    using unat_u32_less [of n] by (auto simp: encode_record_iff eq_of_nat simp del: of_nat_add)
  then show ?thesis by (simp add: decode_record_iff)
qed

text \<open>
  The batch format is exact up to the codec field. The bytes after a length word decode to a
  batch exactly when they are a sealed batch body whose codec field names a supported codec in its low
  byte and whose records, decompressed within the limit, are the record set that the decoder returns.
\<close>

theorem decode_batch_exact:
  "decode_batch z tp part n bs mx = Inr d \<longleftrightarrow>
     (\<exists>w base ts count uncompressed encoded recs.
        bs = sealed (batch_body w base ts count uncompressed encoded) \<and> length bs = unat n \<and>
        batch_acceptable z mx w count uncompressed encoded recs \<and>
        d = decoded_batch tp part w base ts count uncompressed encoded recs)"
  by (rule decode_batch_iff)

text \<open>
  C27: a stored record or batch in which any one byte of the body or of its checksum was changed is
  rejected by both decoders, whatever length is declared for it.
\<close>

theorem corrupt_stored_rejected:
  assumes "i < length body + 4" "b \<noteq> sealed body ! i"
  shows "(\<exists>e. decode_record tp part n ((sealed body)[i := b]) = Inl e) \<and>
    (\<exists>e. decode_batch z tp part n ((sealed body)[i := b]) mx = Inl e)"
proof -
  have "decode_record tp part n ((sealed body)[i := b]) \<noteq> Inr d" for d
    using sealed_update [OF assms] by (auto simp: decode_record_iff)
  moreover have "decode_batch z tp part n ((sealed body)[i := b]) mx \<noteq> Inr d" for d
    using sealed_update [OF assms] by (auto simp: decode_batch_iff)
  ultimately show ?thesis
    by (metis sum.exhaust)
qed

theorem corrupt_stored_rejected_witness:
  "(\<exists>e. decode_record ''t'' 0 38 ((sealed (record_body 7 99 [1] [2]))[32 := 9]) = Inl e) \<and>
   (\<exists>e. decode_batch zstd_stored ''t'' 0 38 ((sealed (record_body 7 99 [1] [2]))[32 := 9]) 64 = Inl e)"
  by (rule corrupt_stored_rejected) (simp_all add: sealed_def record_body_def nth_append)

end
