(* ===== verification/Bolt_Text.thy ===== *)
theory Bolt_Text
  imports Bolt_Prelude
begin

text \<open>
  The decimal text that the program writes and reads: \<open>operator<<\<close> on unsigned integers (with
  \<open>setw\<close>/\<open>setfill('0')\<close> for file names) and \<open>std::from_chars\<close>. Partition file names
  (\<open>src/src/storage/partition_log.cpp\<close>), offset files (\<open>src/src/storage/offset_store.cpp\<close>) and the
  broker's text fields are built on these.
\<close>

section \<open>Digits\<close>

definition is_digit :: "char \<Rightarrow> bool" where
  "is_digit c \<longleftrightarrow> 48 \<le> (of_char c :: nat) \<and> (of_char c :: nat) \<le> 57"

definition digit_char :: "nat \<Rightarrow> char" where
  "digit_char n = char_of (48 + n)"

definition digit_value :: "char \<Rightarrow> nat" where
  "digit_value c = of_char c - 48"

lemma is_digit_digit_char [simp]: "n < 10 \<Longrightarrow> is_digit (digit_char n)"
  by (simp add: is_digit_def digit_char_def)

lemma digit_value_digit_char [simp]: "n < 10 \<Longrightarrow> digit_value (digit_char n) = n"
  by (simp add: digit_value_def digit_char_def)

lemma digit_value_less: "is_digit c \<Longrightarrow> digit_value c < 10"
  unfolding is_digit_def digit_value_def by linarith

text \<open>Decimal output of an unsigned integer.\<close>

fun decimal :: "nat \<Rightarrow> string" where
  "decimal n = (if n < 10 then [digit_char n] else decimal (n div 10) @ [digit_char (n mod 10)])"

declare decimal.simps [simp del]

definition digits_value :: "string \<Rightarrow> nat" where
  "digits_value s = foldl (\<lambda>v c. 10 * v + digit_value c) 0 s"

lemma digits_value_snoc [simp]: "digits_value (s @ [c]) = 10 * digits_value s + digit_value c"
  by (simp add: digits_value_def)

lemma digits_value_Nil [simp]: "digits_value [] = 0"
  by (simp add: digits_value_def)

lemma decimal_digits: "c \<in> set (decimal n) \<Longrightarrow> is_digit c"
proof (induction n rule: decimal.induct)
  case (1 n)
  then show ?case by (subst (asm) (2) decimal.simps) (auto split: if_splits)
qed

lemma decimal_line [simp]: "CHR 0x0A \<notin> set (decimal n)"
  using decimal_digits [of "CHR 0x0A" n] by (auto simp: is_digit_def)

lemma decimal_not_Nil [simp]: "decimal n \<noteq> []"
  by (subst decimal.simps) simp

lemma digits_value_decimal [simp]: "digits_value (decimal n) = n"
proof (induction n rule: decimal.induct)
  case (1 n)
  show ?case
  proof (cases "n < 10")
    case True
    then show ?thesis using digits_value_snoc [of "[]" "digit_char n"]
      by (subst decimal.simps) (simp del: digits_value_snoc)
  qed (use 1 in \<open>subst decimal.simps, simp\<close>)
qed

lemma decimal_inject [simp]: "decimal m = decimal n \<longleftrightarrow> m = n"
  by (metis digits_value_decimal)

lemma length_decimal: "n < 10 ^ k \<Longrightarrow> 0 < k \<Longrightarrow> length (decimal n) \<le> k"
proof (induction n arbitrary: k rule: decimal.induct)
  case (1 n)
  show ?case
  proof (cases "n < 10")
    case True
    then show ?thesis using 1 by (subst decimal.simps) simp
  next
    case False
    then obtain k' where k: "k = Suc k'" "0 < k'"
      using "1.prems" by (cases k; cases "k - 1") auto
    then have "length (decimal (n div 10)) \<le> k'"
      using 1 False by (intro "1.IH") (auto simp: less_mult_imp_div_less mult.commute)
    then show ?thesis using False k by (subst decimal.simps) simp
  qed
qed

section \<open>Zero-padded output and \<open>from_chars\<close>\<close>

text \<open>\<open>std::setw(w) << std::setfill('0') << n\<close>.\<close>

definition pad_zero :: "nat \<Rightarrow> nat \<Rightarrow> string" where
  "pad_zero w n = replicate (w - length (decimal n)) CHR ''0'' @ decimal n"

lemma digit_zero: "is_digit CHR ''0''" "digit_value CHR ''0'' = 0"
  by (simp_all add: is_digit_def digit_value_def)

lemma digits_value_zeros: "digits_value (replicate k CHR ''0'' @ s) = digits_value s"
  by (induction k) (simp_all add: digits_value_def digit_zero)

lemma pad_zero_digits: "c \<in> set (pad_zero w n) \<Longrightarrow> is_digit c"
  by (auto simp: pad_zero_def digit_zero decimal_digits)

lemma digits_value_pad_zero [simp]: "digits_value (pad_zero w n) = n"
  by (simp add: pad_zero_def digits_value_zeros)

lemma pad_zero_inject [simp]: "pad_zero w m = pad_zero w n \<longleftrightarrow> m = n"
  by (metis digits_value_pad_zero)

lemma length_pad_zero: "n < 10 ^ w \<Longrightarrow> 0 < w \<Longrightarrow> length (pad_zero w n) = w"
  using length_decimal [of n w] by (simp add: pad_zero_def)

text \<open>
  \<open>std::from_chars\<close> into an unsigned integer with maximum \<open>mx\<close>: the value of the longest prefix of
  digits and the unread rest; no digits and a value out of range are errors.
\<close>

definition from_chars :: "nat \<Rightarrow> string \<Rightarrow> (nat \<times> string) option" where
  "from_chars mx s =
     (let ds = takeWhile is_digit s; v = digits_value ds in
      if ds = [] \<or> v > mx then None else Some (v, dropWhile is_digit s))"

text \<open>The common use: the whole text has to be the number.\<close>

lemma from_chars_all:
  assumes "s \<noteq> []" "\<forall>c \<in> set s. is_digit c" "digits_value s \<le> mx"
  shows "from_chars mx s = Some (digits_value s, [])"
proof -
  have "takeWhile is_digit s = s" and "dropWhile is_digit s = []"
    using assms(2) by (simp_all add: takeWhile_eq_all_conv)
  then show ?thesis
    using assms(1,3) by (simp add: from_chars_def Let_def del: takeWhile_eq_all_conv)
qed

lemma from_chars_decimal [simp]: "n \<le> mx \<Longrightarrow> from_chars mx (decimal n) = Some (n, [])"
  using from_chars_all [of "decimal n" mx] decimal_digits [of _ n] by simp

lemma from_chars_pad_zero [simp]: "n \<le> mx \<Longrightarrow> from_chars mx (pad_zero w n) = Some (n, [])"
proof -
  assume "n \<le> mx"
  moreover have "pad_zero w n \<noteq> []" by (simp add: pad_zero_def)
  ultimately show ?thesis
    using from_chars_all [of "pad_zero w n" mx] pad_zero_digits [of _ w n] by simp
qed

lemma from_chars_done:
  "from_chars mx s = Some (v, []) \<longleftrightarrow>
     s \<noteq> [] \<and> (\<forall>c \<in> set s. is_digit c) \<and> v = digits_value s \<and> v \<le> mx"
proof
  assume *: "from_chars mx s = Some (v, [])"
  then have "dropWhile is_digit s = []"
    by (auto simp: from_chars_def Let_def split: if_splits)
  then have all: "\<forall>c \<in> set s. is_digit c"
    by (simp add: dropWhile_eq_Nil_conv)
  then have "takeWhile is_digit s = s" by (simp add: takeWhile_eq_all_conv)
  with * all show "s \<noteq> [] \<and> (\<forall>c \<in> set s. is_digit c) \<and> v = digits_value s \<and> v \<le> mx"
    by (auto simp: from_chars_def Let_def split: if_splits)
qed (auto simp: from_chars_all)

section \<open>Names\<close>

text \<open>The names that topics and consumer groups may have.\<close>

definition is_valid_topic_name :: "string \<Rightarrow> bool" where
  "is_valid_topic_name name \<longleftrightarrow>
     name \<noteq> [] \<and> name \<noteq> ''.'' \<and> name \<noteq> ''..'' \<and>
     list_all (\<lambda>ch. CHR ''A'' \<le> ch \<and> ch \<le> CHR ''Z'' \<or> CHR ''a'' \<le> ch \<and> ch \<le> CHR ''z'' \<or>
       CHR ''0'' \<le> ch \<and> ch \<le> CHR ''9'' \<or> ch = CHR ''.'' \<or> ch = CHR ''_'' \<or> ch = CHR ''-'') name"

lemma valid_name_chars:
  assumes "is_valid_topic_name name" "c \<in> set name"
  shows "c \<noteq> CHR 0x09" "c \<noteq> CHR 0x0A" "c \<noteq> CHR 0x0D"
  using assms by (auto simp: is_valid_topic_name_def list_all_iff less_eq_char_def)

lemma digit_chars:
  assumes "is_digit c"
  shows "c \<noteq> CHR 0x09" "c \<noteq> CHR 0x0A" "c \<noteq> CHR 0x0D"
  using assms by (auto simp: is_digit_def)

end
