(* ===== verification/Bolt_Segments.thy ===== *)
theory Bolt_Segments
  imports Bolt_Records Bolt_Text "HOL-Library.AList"
begin

text \<open>
  The directory of one partition and the bytes of its segment files
  (\<open>src/src/storage/partition_log.cpp\<close>): file names, the operations of \<open>std::filesystem\<close> that the log
  uses, and the scan of a segment that recovery performs. A directory is an association list from file
  names to contents. File sizes and positions are natural numbers: the source holds them in 64 bits,
  which no file exceeds.
\<close>

section \<open>Files\<close>

type_synonym files = "(string \<times> bytes) list"

definition file_content :: "files \<Rightarrow> string \<Rightarrow> bytes" where
  "file_content fs path = (case map_of fs path of None \<Rightarrow> [] | Some c \<Rightarrow> c)"

definition file_size_or_zero :: "files \<Rightarrow> string \<Rightarrow> nat" where
  "file_size_or_zero fs path = (case map_of fs path of None \<Rightarrow> 0 | Some c \<Rightarrow> length c)"

text \<open>Opening with \<open>std::ios::app\<close> creates a missing file; \<open>std::ios::trunc\<close> empties it.\<close>

definition append_file :: "files \<Rightarrow> string \<Rightarrow> bytes \<Rightarrow> files" where
  "append_file fs path bs = AList.update path (file_content fs path @ bs) fs"

definition overwrite_file :: "files \<Rightarrow> string \<Rightarrow> bytes \<Rightarrow> files" where
  "overwrite_file fs path bs = AList.update path bs fs"

definition remove_file :: "files \<Rightarrow> string \<Rightarrow> files" where
  "remove_file fs path = AList.delete path fs"

text \<open>\<open>resize_file\<close> cuts or zero-fills an existing file and reports an error for a missing one.\<close>

definition resize_file :: "files \<Rightarrow> string \<Rightarrow> nat \<Rightarrow> files" where
  "resize_file fs path n =
     (case map_of fs path of
        None \<Rightarrow> fs
      | Some c \<Rightarrow> AList.update path (take n c @ replicate (n - length c) 0) fs)"

lemma file_size_content: "file_size_or_zero fs path = length (file_content fs path)"
  by (simp add: file_size_or_zero_def file_content_def split: option.splits)

lemma map_of_files [simp]:
  "map_of (append_file fs path bs) = (map_of fs)(path \<mapsto> file_content fs path @ bs)"
  "map_of (overwrite_file fs path bs) = (map_of fs)(path \<mapsto> bs)"
  "map_of (remove_file fs path) = (map_of fs)(path := None)"
  by (simp_all add: append_file_def overwrite_file_def remove_file_def update_conv' delete_conv')

lemma map_of_resize_file:
  "map_of (resize_file fs path n) =
     (map_of fs)(path := map_option (\<lambda>c. take n c @ replicate (n - length c) 0) (map_of fs path))"
  by (auto simp: resize_file_def update_conv' split: option.splits)

lemma file_content_cong: "map_of fs path = map_of fs' path \<Longrightarrow> file_content fs path = file_content fs' path"
  by (simp add: file_content_def)

lemma file_content_append_file [simp]:
  "file_content (append_file fs path bs) path' =
     (if path' = path then file_content fs path @ bs else file_content fs path')"
  by (simp add: file_content_def append_file_def update_conv')

lemma distinct_files [simp]:
  "distinct (map fst fs) \<Longrightarrow> distinct (map fst (append_file fs path bs))"
  "distinct (map fst fs) \<Longrightarrow> distinct (map fst (overwrite_file fs path bs))"
  "distinct (map fst fs) \<Longrightarrow> distinct (map fst (remove_file fs path))"
  "distinct (map fst fs) \<Longrightarrow> distinct (map fst (resize_file fs path n))"
  by (simp_all add: append_file_def overwrite_file_def remove_file_def resize_file_def distinct_update
      distinct_delete split: option.split)

section \<open>Segment names\<close>

definition format_base_offset :: "u64 \<Rightarrow> string" where
  "format_base_offset base = pad_zero 20 (unat base)"

definition parse_base_offset :: "string \<Rightarrow> u64 option" where
  "parse_base_offset name =
     (if length name \<noteq> 24 \<or> drop 20 name \<noteq> ''.log'' then None
      else if \<exists>c \<in> set (take 20 name). \<not> is_digit c then None
      else case from_chars (2 ^ 64 - 1) (take 20 name) of
             Some (v, []) \<Rightarrow> Some (of_nat v) | _ \<Rightarrow> None)"

definition segment_path :: "u64 \<Rightarrow> string" where
  "segment_path base = format_base_offset base @ ''.log''"

definition index_path :: "u64 \<Rightarrow> string" where
  "index_path base = format_base_offset base @ ''.index''"

definition list_segments :: "files \<Rightarrow> (u64 \<times> string) list" where
  "list_segments fs =
     sort_key fst (List.map_filter
       (\<lambda>(name, _). map_option (\<lambda>base. (base, name)) (parse_base_offset name)) fs)"

lemma unat_u64_less: "unat (w :: u64) < 2 ^ 64"
  using unsigned_less [of w] by simp

lemma length_format_base_offset [simp]: "length (format_base_offset base) = 20"
  using unat_u64_less [of base] by (simp add: format_base_offset_def length_pad_zero)

lemma pad_zero_Suc:
  assumes "d < 10" "0 < w"
  shows "pad_zero (Suc w) (10 * v + d) = pad_zero w v @ [digit_char d]"
proof (cases "v = 0")
  case True
  have zero: "digit_char 0 = CHR ''0''" 
    using char_of_char [of "CHR ''0''"] by (simp add: digit_char_def)
  obtain w' where "w = Suc w'" using assms(2) by (cases w) auto
  then show ?thesis
    using True assms(1) zero
    by (simp add: pad_zero_def decimal.simps replicate_append_same)
next
  case False
  then have "decimal (10 * v + d) = decimal v @ [digit_char d]"
    using assms(1) by (subst decimal.simps) simp
  then show ?thesis by (simp add: pad_zero_def)
qed

lemma digit_char_digit_value: "is_digit c \<Longrightarrow> digit_char (digit_value c) = c"
  by (simp add: digit_char_def digit_value_def is_digit_def)

lemma pad_zero_digits_value:
  "s \<noteq> [] \<Longrightarrow> \<forall>c \<in> set s. is_digit c \<Longrightarrow> pad_zero (length s) (digits_value s) = s"
proof (induction s rule: rev_induct)
  case (snoc c s)
  then have c: "digit_value c < 10" "digit_char (digit_value c) = c"
    by (simp_all add: digit_value_less digit_char_digit_value)
  show ?case
  proof (cases "s = []")
    case True
    have "digits_value [c] = digit_value c" by (simp add: digits_value_def)
    then show ?thesis
      using c True by (simp add: pad_zero_def) (simp add: decimal.simps)
  next
    case False
    then show ?thesis
      using snoc c by (simp add: pad_zero_Suc)
  qed
qed simp

lemma parse_base_offset_iff: "parse_base_offset name = Some base \<longleftrightarrow> name = segment_path base"
proof
  assume "parse_base_offset name = Some base"
  then obtain v where len: "length name = 24" and ext: "drop 20 name = ''.log''"
    and v: "from_chars (2 ^ 64 - 1) (take 20 name) = Some (v, [])" "base = of_nat v"
    by (auto simp: parse_base_offset_def split: if_splits option.splits prod.splits list.splits)
  then have *: "\<forall>c \<in> set (take 20 name). is_digit c" "v = digits_value (take 20 name)" "v \<le> 2 ^ 64 - 1"
    by (auto simp: from_chars_done)
  have "unat base = v" using *(3) v(2) by (simp add: unsigned_of_nat take_bit_eq_mod)
  moreover have "pad_zero 20 v = take 20 name"
    using pad_zero_digits_value [of "take 20 name"] * len by (cases name) auto
  ultimately show "name = segment_path base"
    using append_take_drop_id [of 20 name] ext by (simp add: segment_path_def format_base_offset_def)
next
  assume name: "name = segment_path base"
  have "unat base \<le> 2 ^ 64 - 1" using unat_u64_less [of base] by simp
  then have "from_chars (2 ^ 64 - 1) (format_base_offset base) = Some (unat base, [])"
    unfolding format_base_offset_def by (rule from_chars_pad_zero)
  moreover have "\<forall>c \<in> set (format_base_offset base). is_digit c"
    by (auto simp: format_base_offset_def pad_zero_digits)
  ultimately show "parse_base_offset name = Some base"
    by (auto simp: parse_base_offset_def name segment_path_def)
qed

lemma segment_path_inject [simp]: "segment_path a = segment_path b \<longleftrightarrow> a = b"
  by (metis parse_base_offset_iff option.inject)

lemma index_path_inject [simp]: "index_path a = index_path b \<longleftrightarrow> a = b"
proof
  assume "index_path a = index_path b"
  then have "unat a = unat b" by (simp add: index_path_def format_base_offset_def)
  then show "a = b" by (rule unsigned_word_eqI)
qed simp

lemma index_not_segment [simp]: "index_path a \<noteq> segment_path b" "segment_path b \<noteq> index_path a"
proof -
  have "length (index_path a) \<noteq> length (segment_path b)"
    by (simp add: index_path_def segment_path_def)
  then show "index_path a \<noteq> segment_path b" "segment_path b \<noteq> index_path a" by auto
qed

text \<open>The listing is the set of bases that have a log file, in increasing order.\<close>

definition segment_bases :: "files \<Rightarrow> u64 set" where
  "segment_bases fs = {base. map_of fs (segment_path base) \<noteq> None}"

lemma finite_segment_bases [simp]: "finite (segment_bases fs)"
proof -
  have "segment_path ` segment_bases fs \<subseteq> fst ` set fs"
    by (auto simp: segment_bases_def map_of_eq_None_iff)
  then show ?thesis
    by (rule finite_imageD [OF finite_subset]) (auto simp: inj_on_def)
qed

lemma distinct_mapD: "distinct (map f xs) \<Longrightarrow> distinct xs"
  by (simp add: distinct_map)

lemma list_segments_eq:
  assumes "distinct (map fst fs)"
  shows "list_segments fs = map (\<lambda>base. (base, segment_path base)) (sorted_list_of_set (segment_bases fs))"
proof -
  let ?f = "\<lambda>(name, _ :: bytes). map_option (\<lambda>base. (base, name)) (parse_base_offset name)"
  let ?l = "List.map_filter ?f fs"
  have set: "(base, name) \<in> set ?l \<longleftrightarrow> base \<in> segment_bases fs \<and> name = segment_path base" for base name
  proof -
    have "(base, name) \<in> set ?l \<longleftrightarrow> name \<in> fst ` set fs \<and> parse_base_offset name = Some base"
      by (induction fs) (auto split: option.splits)
    then show ?thesis
      by (auto simp: parse_base_offset_iff segment_bases_def map_of_eq_None_iff)
  qed
  then have seteq: "set ?l = (\<lambda>base. (base, segment_path base)) ` segment_bases fs"
    by auto
  have names: "map snd ?l = filter (\<lambda>name. parse_base_offset name \<noteq> None) (map fst fs)"
    by (induction fs) (auto split: option.splits)
  have "map segment_path (map fst ?l) = map snd ?l"
    using set by (auto simp: parse_base_offset_iff)
  then have "distinct (map segment_path (map fst ?l))"
    using assms by (simp only: names distinct_filter)
  then have dist: "distinct (map fst ?l)" by (rule distinct_mapD)
  have "map fst (list_segments fs) = sorted_list_of_set (segment_bases fs)"
  proof (rule sorted_distinct_set_unique)
    show "distinct (map fst (list_segments fs))"
      using dist by (simp add: list_segments_def distinct_map)
    show "set (map fst (list_segments fs)) = set (sorted_list_of_set (segment_bases fs))"
      using seteq by (simp add: list_segments_def image_image)
  qed (simp_all add: list_segments_def)
  moreover have "list_segments fs = map (\<lambda>base. (base, segment_path base)) (map fst (list_segments fs))"
    using seteq by (auto simp: list_segments_def intro!: map_idI [symmetric])
  ultimately show ?thesis by simp
qed

section \<open>Scanning a segment\<close>

record PartitionLogOptions =
  topic :: string
  partition_id :: u16
  max_segment_bytes :: nat
  segment_max_age_seconds :: u64
  max_uncompressed_batch_bytes :: u32

record IndexEntry =
  offset :: u64
  file_position :: nat
  record_bytes :: u32
  segment :: string
  record_index :: u32
  record_count :: u32

datatype Stored = StoredBatch DecodedBatch | StoredRecord DecodedRecord

text \<open>The version word of a stored body selects the decoder.\<close>

definition decode_stored :: "zstd \<Rightarrow> PartitionLogOptions \<Rightarrow> u32 \<Rightarrow> bytes \<Rightarrow> string + Stored" where
  "decode_stored z opts n body =
     (if read_u16_be body 0 = kBatchVersion
      then map_sum id StoredBatch (decode_batch z (PartitionLogOptions.topic opts) (partition_id opts)
             n body (unat (max_uncompressed_batch_bytes opts)))
      else map_sum id StoredRecord (decode_record (PartitionLogOptions.topic opts) (partition_id opts)
             n body))"

fun stored_entries :: "string \<Rightarrow> nat \<Rightarrow> u32 \<Rightarrow> Stored \<Rightarrow> IndexEntry list" where
  "stored_entries path pos n (StoredBatch batch) =
     (let m = DecodedBatch.metadata batch in
      map (\<lambda>index. IndexEntry.make (BatchMetadata.base_offset m + of_nat index) pos n path
             (of_nat index) (BatchMetadata.record_count m))
        [0..<unat (BatchMetadata.record_count m)])"
| "stored_entries path pos n (StoredRecord d) =
     [IndexEntry.make (RecordMetadata.offset (Record.metadata (stored_record d))) pos n path 0 1]"

fun stored_next_offset :: "Stored \<Rightarrow> u64" where
  "stored_next_offset (StoredBatch batch) = BatchMetadata.next_offset (DecodedBatch.metadata batch)"
| "stored_next_offset (StoredRecord d) =
     RecordMetadata.offset (Record.metadata (stored_record d)) + 1"

text \<open>
  The scan loop of \<open>recover\<close> over the content of one segment file: the position, length word and
  decoded body of every stored item up to the first one that is torn or does not decode, the position
  where the scan stopped, and whether the rest of the file has to be cut off.
\<close>

function scan_segment ::
  "zstd \<Rightarrow> PartitionLogOptions \<Rightarrow> bytes \<Rightarrow> nat \<Rightarrow> (nat \<times> u32 \<times> Stored) list \<times> nat \<times> bool" where
  "scan_segment z opts content position =
     (if length content \<le> position then ([], position, False)
      else if length content - position < 4 then ([], position, True)
      else let n = read_u32_be content position in
      if n < kMinimumRecordBytes \<or> unat n > length content - position - 4 then ([], position, True)
      else case decode_stored z opts n (take (unat n) (drop (position + 4) content)) of
             Inl _ \<Rightarrow> ([], position, True)
           | Inr stored \<Rightarrow>
              (let (items, stop, cut) = scan_segment z opts content (position + 4 + unat n)
               in ((position, n, stored) # items, stop, cut)))"
  by auto
termination
  by (relation "measure (\<lambda>(_, _, content, position). length content - position)") auto

declare scan_segment.simps [simp del]

definition items_of :: "zstd \<Rightarrow> PartitionLogOptions \<Rightarrow> bytes \<Rightarrow> (nat \<times> u32 \<times> Stored) list" where
  "items_of z opts content = fst (scan_segment z opts content 0)"

text \<open>A segment that recovery leaves as it is.\<close>

definition clean_segment :: "zstd \<Rightarrow> PartitionLogOptions \<Rightarrow> bytes \<Rightarrow> bool" where
  "clean_segment z opts content \<longleftrightarrow> \<not> snd (snd (scan_segment z opts content 0))"

definition item_entries :: "string \<Rightarrow> (nat \<times> u32 \<times> Stored) list \<Rightarrow> IndexEntry list" where
  "item_entries path items = concat (map (\<lambda>(pos, n, stored). stored_entries path pos n stored) items)"

section \<open>Stored items\<close>

text \<open>The bytes of one stored item: a length word and a body that decodes.\<close>

definition stored_bytes_of :: "zstd \<Rightarrow> PartitionLogOptions \<Rightarrow> u32 \<Rightarrow> bytes \<Rightarrow> Stored \<Rightarrow> bool" where
  "stored_bytes_of z opts n body stored \<longleftrightarrow>
     length body = unat n \<and> kMinimumRecordBytes \<le> n \<and> decode_stored z opts n body = Inr stored"

lemma scan_item:
  assumes "stored_bytes_of z opts n body stored"
  shows "scan_segment z opts (pre @ write_u32 n @ body @ rest) (length pre) =
    (let (items, stop, cut) = scan_segment z opts (pre @ write_u32 n @ body @ rest)
           (length pre + 4 + unat n)
     in ((length pre, n, stored) # items, stop, cut))"
  using assms
  by (subst scan_segment.simps) (auto simp: stored_bytes_of_def leD Let_def)

lemma scan_end: "scan_segment z opts content (length content) = ([], length content, False)"
  by (subst scan_segment.simps) simp

text \<open>
  A torn item: fewer bytes than the length word announces. Whatever the cut, the scan stops in front of
  the item and asks for the file to be cut there.
\<close>

lemma scan_torn:
  assumes "0 < k" "k < 4 + unat n" "length body = unat n"
  shows "scan_segment z opts (pre @ take k (write_u32 n @ body)) (length pre) = ([], length pre, True)"
proof (cases "k < 4")
  case True
  then show ?thesis using assms by (subst scan_segment.simps) simp
next
  case False
  then have "take k (write_u32 n @ body) = write_u32 n @ take (k - 4) body" by simp
  moreover have "k - 4 < unat n" using False assms(2) by simp
  ultimately show ?thesis
    using assms by (subst scan_segment.simps) (simp add: Let_def)
qed

lemma read_u32_be_append: "k + 4 \<le> length xs \<Longrightarrow> read_u32_be (xs @ ys) k = read_u32_be xs k"
  by (simp add: read_u32_be_def nth_append)

lemma read_u32_be_take: "k + 4 \<le> m \<Longrightarrow> m \<le> length xs \<Longrightarrow> read_u32_be (take m xs) k = read_u32_be xs k"
  by (simp add: read_u32_be_def)

text \<open>One step of a scan that goes on: what was read, and where the scan continues.\<close>

lemma scan_cases:
  assumes "position < length content"
  obtains (cut) "scan_segment z opts content position = ([], position, True)"
    "length content - position < 4 \<or> read_u32_be content position < kMinimumRecordBytes \<or>
     unat (read_u32_be content position) > length content - position - 4 \<or>
     (\<exists>e. decode_stored z opts (read_u32_be content position)
        (take (unat (read_u32_be content position)) (drop (position + 4) content)) = Inl e)"
  | (item) n stored where
    "n = read_u32_be content position" "position + 4 + unat n \<le> length content"
    "stored_bytes_of z opts n (take (unat n) (drop (position + 4) content)) stored"
    "scan_segment z opts content position =
       (let (items, stop, cut) = scan_segment z opts content (position + 4 + unat n)
        in ((position, n, stored) # items, stop, cut))"
proof (cases "length content - position < 4 \<or> read_u32_be content position < kMinimumRecordBytes \<or>
     unat (read_u32_be content position) > length content - position - 4 \<or>
     (\<exists>e. decode_stored z opts (read_u32_be content position)
        (take (unat (read_u32_be content position)) (drop (position + 4) content)) = Inl e)")
  case True
  then have "scan_segment z opts content position = ([], position, True)"
    using assms by (subst scan_segment.simps) (auto simp: Let_def)
  then show ?thesis using True cut by blast
next
  case False
  let ?n = "read_u32_be content position"
  obtain stored where st: "decode_stored z opts ?n (take (unat ?n) (drop (position + 4) content)) = Inr stored"
    using False by (cases "decode_stored z opts ?n (take (unat ?n) (drop (position + 4) content))") auto
  show ?thesis
  proof (rule item)
    show "position + 4 + unat ?n \<le> length content" using False assms by linarith
    then show "stored_bytes_of z opts ?n (take (unat ?n) (drop (position + 4) content)) stored"
      using False st by (simp add: stored_bytes_of_def not_less)
    show "scan_segment z opts content position =
       (let (items, stop, cut) = scan_segment z opts content (position + 4 + unat ?n)
        in ((position, ?n, stored) # items, stop, cut))"
      using False assms st by (subst scan_segment.simps) (auto simp: Let_def)
  qed simp
qed

lemma scan_extend:
  assumes "position \<le> length c" "\<not> snd (snd (scan_segment z opts c position))"
  shows "scan_segment z opts (c @ rest) position =
    (let (items, stop, cut) = scan_segment z opts (c @ rest) (length c)
     in (fst (scan_segment z opts c position) @ items, stop, cut))"
  using assms
proof (induction "length c - position" arbitrary: position rule: less_induct)
  case less
  show ?case
  proof (cases "position = length c")
    case True
    then show ?thesis by (simp add: scan_end Let_def split: prod.split)
  next
    case False
    then have pos: "position < length c" using less.prems(1) by simp
    then show ?thesis
    proof (cases rule: scan_cases [where z = z and opts = opts, consumes 1, case_names cut item])
      case cut
      then show ?thesis using less.prems by simp
    next
      case (item n stored)
      let ?next = "position + 4 + unat n"
      let ?body = "take (unat n) (drop (position + 4) c)"
      have c: "c @ rest = take position c @ write_u32 n @ ?body @ drop ?next c @ rest"
      proof -
        have "drop position c = write_u32 n @ drop (position + 4) c"
          using split_u32 [of position c] item(1,2) by simp
        moreover have "drop (position + 4) c = ?body @ drop ?next c"
          using append_take_drop_id [of "unat n" "drop (position + 4) c"] by (simp add: add.commute)
        ultimately show ?thesis
          by (metis append.assoc append_take_drop_id)
      qed
      have "scan_segment z opts (c @ rest) position =
          (let (items, stop, cut) = scan_segment z opts (c @ rest) ?next
           in ((position, n, stored) # items, stop, cut))"
        using scan_item [OF item(3), of "take position c" "drop ?next c @ rest"] pos
        by (simp only: c [symmetric]) simp
      moreover have "scan_segment z opts (c @ rest) ?next =
          (let (items, stop, cut) = scan_segment z opts (c @ rest) (length c)
           in (fst (scan_segment z opts c ?next) @ items, stop, cut))"
        using pos item less.prems by (intro less.hyps) (auto simp: split_beta Let_def)
      ultimately show ?thesis using item(4) by (simp add: Let_def split_beta)
    qed
  qed
qed

text \<open>Where a list of items that starts at a position ends.\<close>

definition items_end :: "nat \<Rightarrow> (nat \<times> u32 \<times> Stored) list \<Rightarrow> nat" where
  "items_end position items = (if items = [] then position else fst (last items) + 4 + unat (fst (snd (last items))))"

lemma items_end_simps [simp]:
  "items_end position [] = position"
  "items_end position ((p, n, stored) # items) = items_end (p + 4 + unat n) items"
  by (simp_all add: items_end_def)

lemma scan_stop: "fst (snd (scan_segment z opts c position)) = items_end position (fst (scan_segment z opts c position))"
proof (induction "length c - position" arbitrary: position rule: less_induct)
  case less
  show ?case
  proof (cases "position < length c")
    case True
    then show ?thesis
    proof (cases rule: scan_cases [where z = z and opts = opts, consumes 1, case_names cut item])
      case (item n stored)
      then show ?thesis using less [of "position + 4 + unat n"] by (simp add: Let_def split_beta)
    qed simp
  qed (subst (1 2) scan_segment.simps, simp)
qed

lemma scan_clean_end:
  assumes "position \<le> length c" "\<not> snd (snd (scan_segment z opts c position))"
  shows "fst (snd (scan_segment z opts c position)) = length c"
  using assms
proof (induction "length c - position" arbitrary: position rule: less_induct)
  case less
  show ?case
  proof (cases "position < length c")
    case True
    then show ?thesis
    proof (cases rule: scan_cases [where z = z and opts = opts, consumes 1, case_names cut item])
      case cut
      then show ?thesis using less.prems by simp
    next
      case (item n stored)
      then show ?thesis
        using less.hyps [of "position + 4 + unat n"] less.prems by (simp add: Let_def split_beta)
    qed
  next
    case False
    then show ?thesis using less.prems by (simp add: scan_end)
  qed
qed

text \<open>An item inside a prefix of the file, and one that the prefix tears.\<close>

lemma scan_take_item:
  assumes "n = read_u32_be c position" "position + 4 + unat n \<le> k" "k \<le> length c"
    and "stored_bytes_of z opts n (take (unat n) (drop (position + 4) c)) stored"
  shows "scan_segment z opts (take k c) position =
    (let (items, stop, cut) = scan_segment z opts (take k c) (position + 4 + unat n)
     in ((position, n, stored) # items, stop, cut))"
proof -
  have "read_u32_be (take k c) position = n"
    using assms(1-3) by (simp add: read_u32_be_take)
  moreover have "take (unat n) (drop (position + 4) (take k c)) = take (unat n) (drop (position + 4) c)"
    using assms(2) by (simp add: drop_take min_def)
  ultimately show ?thesis
    using assms(2-4) by (subst scan_segment.simps) (auto simp: Let_def stored_bytes_of_def leD)
qed

lemma scan_take_torn:
  assumes "n = read_u32_be c position" "position < k" "k < position + 4 + unat n" "k \<le> length c"
  shows "scan_segment z opts (take k c) position = ([], position, True)"
proof (cases "k - position < 4")
  case True
  then show ?thesis using assms by (subst scan_segment.simps) simp
next
  case False
  then have "read_u32_be (take k c) position = n" "k - (position + 4) < unat n"
    using assms by (simp_all add: read_u32_be_take)
  then show ?thesis
    using assms(2,4) by (subst scan_segment.simps) (simp add: Let_def)
qed

text \<open>
  A crash leaves a prefix of the bytes of a clean segment. The scan of the prefix finds the items that
  lie in it completely, in order, and no others; it asks for a cut exactly when the prefix does not end
  at an item boundary.
\<close>

lemma scan_prefix:
  assumes "position \<le> k" "k \<le> length c" "\<not> snd (snd (scan_segment z opts c position))"
  shows "scan_segment z opts (take k c) position =
    (let kept = takeWhile (\<lambda>(p, n, _). p + 4 + unat n \<le> k) (fst (scan_segment z opts c position))
     in (kept, items_end position kept, items_end position kept < k))"
  using assms
proof (induction "length c - position" arbitrary: position rule: less_induct)
  case less
  show ?case
  proof (cases "position < length c")
    case False
    then have "position = k" "position = length c" using less.prems by simp_all
    then show ?thesis using scan_end [of z opts c] by (simp add: Let_def)
  next
    case True
    then show ?thesis
    proof (cases rule: scan_cases [where z = z and opts = opts, consumes 1, case_names cut item])
      case cut
      then show ?thesis using less.prems by simp
    next
      case (item n stored)
      let ?next = "position + 4 + unat n"
      have scan: "scan_segment z opts c position =
          ((position, n, stored) # fst (scan_segment z opts c ?next), snd (scan_segment z opts c ?next))"
        using item(4) by (simp add: Let_def split_beta)
      consider "position = k" | "position < k" "k < ?next" | "?next \<le> k"
        using less.prems(1) by linarith
      then show ?thesis
      proof cases
        case 1
        then show ?thesis
          using scan_end [of z opts "take k c"] less.prems(2) scan by (simp add: Let_def)
      next
        case 2
        then show ?thesis
          using scan_take_torn [OF item(1) _ _ less.prems(2)] by (simp add: scan Let_def)
      next
        case 3
        have "scan_segment z opts (take k c) ?next =
          (let kept = takeWhile (\<lambda>(p, n, _). p + 4 + unat n \<le> k) (fst (scan_segment z opts c ?next))
           in (kept, items_end ?next kept, items_end ?next kept < k))"
          using 3 less.prems True scan by (intro less.hyps) auto
        then show ?thesis
          using 3 scan_take_item [OF item(1) 3 less.prems(2) item(3)] by (simp add: scan Let_def)
      qed
    qed
  qed
qed

text \<open>What the scan reports about each item is what the file holds at that position.\<close>

lemma scan_sound:
  assumes "(p, n, stored) \<in> set (fst (scan_segment z opts c position))"
  shows "position \<le> p \<and> p + 4 + unat n \<le> length c \<and> read_u32_be c p = n \<and>
    stored_bytes_of z opts n (take (unat n) (drop (p + 4) c)) stored"
  using assms
proof (induction "length c - position" arbitrary: position rule: less_induct)
  case less
  have "position < length c"
    using less.prems by (cases "position < length c") (auto simp: scan_segment.simps)
  then show ?case
  proof (cases rule: scan_cases [where z = z and opts = opts, consumes 1, case_names cut item])
    case cut
    then show ?thesis using less.prems by simp
  next
    case (item n' stored')
    have "length c - (position + 4 + unat n') < length c - position" using item(2) by simp
    then show ?thesis
      using item less.prems less.hyps [of "position + 4 + unat n'"] by (auto simp: Let_def split_beta)
  qed
qed

end
