(* ===== verification/Bolt_Log.thy ===== *)
theory Bolt_Log
  imports Bolt_Segments
begin

text \<open>
  \<open>PartitionLog\<close> of \<open>src/include/boltstream/storage/partition_log.h\<close> and
  \<open>src/src/storage/partition_log.cpp\<close>: the state of one open partition and every operation on it.
  The clock, the ages of files and I/O failures are arguments of the operations that observe them; zstd
  is an argument of those that decompress.
\<close>

section \<open>State\<close>

record RecoveryStats =
  segments_scanned :: nat
  indexes_rebuilt :: nat
  records_recovered :: nat
  bytes_truncated :: nat
  recovered_next_offset :: u64

record PartitionLog =
  options' :: PartitionLogOptions
  directory :: files
  index' :: "IndexEntry list"
  recovery_stats' :: RecoveryStats
  next_offset' :: u64

record SegmentSummary =
  base_offset :: u64
  first_offset :: u64
  last_offset :: u64
  log_bytes :: nat
  active :: bool
  log_path :: string

record RetentionPolicy =
  max_age_seconds :: u64
  max_bytes :: nat

record RetentionStats =
  segments_deleted :: nat
  bytes_deleted :: nat
  segments_retained :: nat
  bytes_retained :: nat
  retained_earliest_offset :: u64
  retained_next_offset :: u64

section \<open>Queries\<close>

definition active_segment_base :: "IndexEntry list \<Rightarrow> u64 \<Rightarrow> u64" where
  "active_segment_base index next_off =
     (if index = [] then 0
      else case parse_base_offset (segment (last index)) of
             None \<Rightarrow> next_off | Some base \<Rightarrow> base)"

abbreviation active_base :: "PartitionLog \<Rightarrow> u64" where
  "active_base s \<equiv> active_segment_base (index' s) (next_offset' s)"

definition earliest_offset :: "PartitionLog \<Rightarrow> u64" where
  "earliest_offset s =
     (if index' s = [] then next_offset' s else IndexEntry.offset (hd (index' s)))"

section \<open>Appending records\<close>

text \<open>
  What an append observes of its environment, by the position of the record in the batch: the clock, the
  age of a file, and an I/O failure with its message and the numbers of bytes of this record and of its
  index entry that reached the files before it. The position after the last record is the final flush.
\<close>

record AppendEnv =
  unix_time_ns :: "nat \<Rightarrow> u64"
  file_age_seconds :: "nat \<Rightarrow> string \<Rightarrow> u64"
  io_fault :: "nat \<Rightarrow> (string \<times> nat \<times> nat) option"

record AppendState =
  files_now :: files
  staged_index :: "IndexEntry list"
  staged_metadata :: "RecordMetadata list"
  segment_base :: u64
  current_size :: nat

definition roll_due :: "AppendEnv \<Rightarrow> PartitionLogOptions \<Rightarrow> nat \<Rightarrow> bytes \<Rightarrow> AppendState \<Rightarrow> bool" where
  "roll_due env opts i encoded st \<longleftrightarrow>
     current_size st > 0 \<and> current_size st + length encoded > max_segment_bytes opts \<or>
     segment_max_age_seconds opts > 0 \<and> current_size st > 0 \<and>
     file_age_seconds env i (segment_path (segment_base st)) \<ge> segment_max_age_seconds opts"

definition write_item :: "u64 \<Rightarrow> bytes \<Rightarrow> bytes \<Rightarrow> files \<Rightarrow> files" where
  "write_item base log_part index_part fs =
     append_file (append_file fs (segment_path base) log_part) (index_path base) index_part"

fun append_loop ::
  "AppendEnv \<Rightarrow> PartitionLogOptions \<Rightarrow> u64 \<Rightarrow> nat \<Rightarrow> AppendRecord list \<Rightarrow> AppendState \<Rightarrow>
   (string \<times> files) + AppendState" where
  "append_loop env opts original_next i [] st =
     (case io_fault env i of
        Some (what, _) \<Rightarrow> Inl (what, files_now st)
      | None \<Rightarrow> Inr st)"
| "append_loop env opts original_next i (rec # rest) st =
     (let off = original_next + of_nat i; ts = unix_time_ns env i in
      case encode_record off ts (AppendRecord.key rec) (AppendRecord.val rec) of
        Inl what \<Rightarrow> Inl (what, files_now st)
      | Inr encoded \<Rightarrow>
         (let roll = roll_due env opts i encoded st;
              base = (if roll then off else segment_base st);
              size = (if roll then 0 else current_size st);
              n = of_nat (length encoded - 4);
              entry = index_entry_bytes off size n
          in case io_fault env i of
               Some (what, a, b) \<Rightarrow>
                 Inl (what, write_item base (take a encoded) (take b entry) (files_now st))
             | None \<Rightarrow>
                 append_loop env opts original_next (Suc i) rest
                   \<lparr>files_now = write_item base encoded entry (files_now st),
                    staged_index = staged_index st @ [IndexEntry.make off size n (segment_path base) 0 1],
                    staged_metadata = staged_metadata st @
                      [RecordMetadata.make (PartitionLogOptions.topic opts) (partition_id opts) off ts
                         (of_nat (length encoded))],
                    segment_base = base, current_size = size + length encoded\<rparr>))"

text \<open>The handler that undoes a failed batch: new segments are removed, old ones cut to their old sizes.\<close>

definition rollback_segment :: "files \<Rightarrow> u64 \<times> string \<Rightarrow> files \<Rightarrow> files" where
  "rollback_segment original seg fs =
     (let (base, path) = seg in
      if base \<in> set (map fst (list_segments original))
      then resize_file (resize_file fs path (file_size_or_zero original path)) (index_path base)
             (file_size_or_zero original (index_path base))
      else remove_file (remove_file fs path) (index_path base))"

definition rollback :: "files \<Rightarrow> files \<Rightarrow> files" where
  "rollback original fs = fold (rollback_segment original) (list_segments fs) fs"

definition append_batch ::
  "AppendEnv \<Rightarrow> AppendRecord list \<Rightarrow> PartitionLog \<Rightarrow> (string + RecordMetadata list) \<times> PartitionLog" where
  "append_batch env recs s =
     (if recs = [] then (Inr [], s)
      else let base = active_base s in
        case append_loop env (options' s) (next_offset' s) 0 recs
               \<lparr>files_now = directory s, staged_index = [], staged_metadata = [],
                segment_base = base,
                current_size = file_size_or_zero (directory s) (segment_path base)\<rparr> of
          Inl (what, fs) \<Rightarrow> (Inl what, s\<lparr>directory := rollback (directory s) fs\<rparr>)
        | Inr st \<Rightarrow>
            (Inr (staged_metadata st),
             s\<lparr>directory := files_now st, index' := index' s @ staged_index st,
               next_offset' := next_offset' s + of_nat (length recs)\<rparr>))"

definition append_record ::
  "AppendEnv \<Rightarrow> bytes \<Rightarrow> bytes \<Rightarrow> PartitionLog \<Rightarrow> (string + RecordMetadata) \<times> PartitionLog" where
  "append_record env k v s =
     (case append_batch env [AppendRecord.make k v] s of
        (Inl what, s') \<Rightarrow> (Inl what, s')
      | (Inr ms, s') \<Rightarrow> (Inr (hd ms), s'))"

section \<open>Appending an encoded batch\<close>

definition append_encoded_batch ::
  "zstd \<Rightarrow> u64 \<Rightarrow> (string \<times> nat \<times> nat) option \<Rightarrow> Codec \<Rightarrow> bytes \<Rightarrow> u32 \<Rightarrow> AppendRecord list \<Rightarrow>
   PartitionLog \<Rightarrow> (string + BatchMetadata) \<times> PartitionLog" where
  "append_encoded_batch z ts fault cdc encoded_recs uncompressed recs s =
     (let count = of_nat (length recs) :: u32;
          canonical = encode_record_set
            (map (\<lambda>rec. BatchRecord.make (AppendRecord.key rec) (AppendRecord.val rec)) recs) in
      if recs = [] \<or> length recs > 2 ^ 32 - 1 then (Inl ''encoded batch record count is invalid'', s)
      else if length canonical \<noteq> unat uncompressed
      then (Inl ''encoded batch logical size mismatch'', s)
      else case decompress z cdc encoded_recs (unat uncompressed)
                  (unat (max_uncompressed_batch_bytes (options' s))) of
        Inl what \<Rightarrow> (Inl what, s)
      | Inr decoded \<Rightarrow>
         if decoded \<noteq> canonical then (Inl ''encoded batch content mismatch'', s)
         else let off = next_offset' s;
                  encoded = encode_batch off ts cdc count uncompressed encoded_recs;
                  size = file_size_or_zero (directory s) (segment_path (active_base s));
                  roll = (size > 0 \<and> size + length encoded > max_segment_bytes (options' s));
                  base = (if roll then off else active_base s);
                  pos = (if roll then 0 else size);
                  index_size = file_size_or_zero (directory s) (index_path base);
                  n = of_nat (length encoded - 4) :: u32;
                  entries = concat (map (\<lambda>i. index_entry_bytes (off + of_nat i) pos n) [0..<length recs])
              in case fault of
                   Some (what, a, b) \<Rightarrow>
                     (let fs = write_item base (take a encoded) (take b entries) (directory s);
                          fs = (if pos = 0 then remove_file fs (segment_path base)
                                else resize_file fs (segment_path base) pos);
                          fs = (if index_size = 0 then remove_file fs (index_path base)
                                else resize_file fs (index_path base) index_size)
                      in (Inl what, s\<lparr>directory := fs\<rparr>))
                 | None \<Rightarrow>
                     (Inr (BatchMetadata.make (PartitionLogOptions.topic (options' s))
                        (partition_id (options' s)) off (off + of_nat (length recs)) ts count uncompressed
                        (of_nat (length encoded_recs)) (of_nat (length encoded)) cdc),
                      s\<lparr>directory := write_item base encoded entries (directory s),
                        index' := index' s @ map (\<lambda>i. IndexEntry.make (off + of_nat i) pos n
                          (segment_path base) (of_nat i) count) [0..<length recs],
                        next_offset' := off + of_nat (length recs)\<rparr>))"

section \<open>Reading\<close>

text \<open>The record that an index entry selects from a decoded item, with the bytes it accounts for.\<close>

definition pick_record ::
  "PartitionLogOptions \<Rightarrow> IndexEntry \<Rightarrow> u32 \<Rightarrow> Stored \<Rightarrow> string + Record \<times> nat" where
  "pick_record opts entry n stored =
     (case stored of
        StoredBatch batch \<Rightarrow>
          if unat (record_index entry) \<ge> length (DecodedBatch.records batch)
          then Inl ''batch index entry is out of range''
          else let m = DecodedBatch.metadata batch;
                   rec = DecodedBatch.records batch ! unat (record_index entry) in
            Inr (Record.make
              (RecordMetadata.make (PartitionLogOptions.topic opts) (partition_id opts)
                (IndexEntry.offset entry) (BatchMetadata.timestamp_unix_ns m)
                (BatchMetadata.stored_bytes m div BatchMetadata.record_count m))
              (BatchRecord.key rec) (BatchRecord.message rec), unat n + 4)
      | StoredRecord d \<Rightarrow> Inr (stored_record d, unat n + 4))"

definition read_entry ::
  "zstd \<Rightarrow> PartitionLogOptions \<Rightarrow> files \<Rightarrow> IndexEntry \<Rightarrow> string + Record \<times> nat" where
  "read_entry z opts fs entry =
     (case map_of fs (segment entry) of
        None \<Rightarrow> Inl (''failed to open segment for read: '' @ segment entry)
      | Some content \<Rightarrow>
         if length content - file_position entry < 4 then Inl ''failed to read record length''
         else let n = read_u32_be content (file_position entry) in
         if length content - file_position entry - 4 < unat n then Inl ''failed to read record body''
         else case decode_stored z opts n (take (unat n) (drop (file_position entry + 4) content)) of
                Inl what \<Rightarrow> Inl what
              | Inr stored \<Rightarrow> pick_record opts entry n stored)"

fun read_loop ::
  "zstd \<Rightarrow> PartitionLogOptions \<Rightarrow> files \<Rightarrow> nat \<Rightarrow> nat \<Rightarrow> IndexEntry list \<Rightarrow> nat \<Rightarrow> nat \<Rightarrow>
   string + Record list" where
  "read_loop z opts fs max_records mx [] count emitted = Inr []"
| "read_loop z opts fs max_records mx (entry # rest) count emitted =
     (if count \<ge> max_records then Inr []
      else if mx > 0 \<and> count > 0 \<and> emitted + unat (IndexEntry.record_bytes entry) + 4 > mx
      then Inr []
      else case read_entry z opts fs entry of
             Inl what \<Rightarrow> Inl what
           | Inr (rec, n) \<Rightarrow>
              (case read_loop z opts fs max_records mx rest (Suc count) (emitted + n) of
                 Inl what \<Rightarrow> Inl what
               | Inr recs \<Rightarrow> Inr (rec # recs)))"

definition read_from ::
  "zstd \<Rightarrow> u64 \<Rightarrow> nat \<Rightarrow> nat \<Rightarrow> PartitionLog \<Rightarrow> string + Record list" where
  "read_from z off max_records mx s =
     read_loop z (options' s) (directory s) max_records mx
       (filter (\<lambda>entry. \<not> IndexEntry.offset entry < off) (index' s)) 0 0"

definition read_encoded_batch :: "zstd \<Rightarrow> u64 \<Rightarrow> PartitionLog \<Rightarrow> string + EncodedBatch option" where
  "read_encoded_batch z off s =
     (case find (\<lambda>item. IndexEntry.offset item = off) (index' s) of
        None \<Rightarrow> Inr None
      | Some entry \<Rightarrow>
         if record_index entry \<noteq> 0 then Inr None
         else case map_of (directory s) (segment entry) of
           None \<Rightarrow> Inl ''failed to open encoded batch segment''
         | Some content \<Rightarrow>
            (let n = IndexEntry.record_bytes entry;
                 body = take (unat n) (drop (file_position entry + 4) content) in
             if length body < unat n \<or> read_u16_be body 0 \<noteq> kBatchVersion then Inr None
             else case decode_batch z (PartitionLogOptions.topic (options' s))
                        (partition_id (options' s)) n body
                        (unat (max_uncompressed_batch_bytes (options' s))) of
               Inl what \<Rightarrow> Inl what
             | Inr batch \<Rightarrow>
                 Inr (Some (EncodedBatch.make (DecodedBatch.metadata batch)
                   (take (unat (BatchMetadata.encoded_bytes (DecodedBatch.metadata batch)))
                     (drop (unat kFixedBatchBodyBytes) body))))))"

section \<open>Recovery\<close>

text \<open>One iteration of the loop over the segments; the flag is \<open>stop_after_corruption\<close>.\<close>

definition recover_segment ::
  "zstd \<Rightarrow> u64 \<times> string \<Rightarrow> PartitionLog \<times> bool \<Rightarrow> PartitionLog \<times> bool" where
  "recover_segment z seg st =
     (let (base, path) = seg; (s, stop_after_corruption) = st;
          stats = recovery_stats' s; size = file_size_or_zero (directory s) path in
      if stop_after_corruption
      then (s\<lparr>recovery_stats' := stats\<lparr>bytes_truncated := bytes_truncated stats + size\<rparr>,
              directory := remove_file (remove_file (directory s) path) (index_path base)\<rparr>, True)
      else let (items, position, cut) =
                 scan_segment z (options' s) (file_content (directory s) path) 0;
               entries = item_entries path items;
               fs = overwrite_file (directory s) (index_path base)
                 (concat (map (\<lambda>e. index_entry_bytes (IndexEntry.offset e) (file_position e)
                   (IndexEntry.record_bytes e)) entries));
               fs = (if cut then resize_file fs path position else fs)
           in (s\<lparr>recovery_stats' := stats
                   \<lparr>segments_scanned := segments_scanned stats + 1,
                    indexes_rebuilt := indexes_rebuilt stats + 1,
                    records_recovered := records_recovered stats + length entries,
                    bytes_truncated := bytes_truncated stats + (if cut then size - position else 0)\<rparr>,
                 directory := fs,
                 index' := index' s @ entries,
                 next_offset' := fold (\<lambda>(_, _, stored) n. max n (stored_next_offset stored)) items
                   (next_offset' s)\<rparr>, cut))"

definition recover :: "zstd \<Rightarrow> PartitionLog \<Rightarrow> PartitionLog" where
  "recover z s =
     (let s0 = s\<lparr>index' := [], recovery_stats' := RecoveryStats.make 0 0 0 0 0, next_offset' := 0\<rparr>;
          (s1, _) = fold (recover_segment z) (list_segments (directory s)) (s0, False)
      in s1\<lparr>recovery_stats' := (recovery_stats' s1)\<lparr>recovered_next_offset := next_offset' s1\<rparr>,
            index' := sort_key IndexEntry.offset (index' s1)\<rparr>)"

definition open_active_segment :: "PartitionLog \<Rightarrow> PartitionLog" where
  "open_active_segment s =
     s\<lparr>directory := write_item (active_base s) [] [] (directory s)\<rparr>"

definition open_log :: "zstd \<Rightarrow> PartitionLogOptions \<Rightarrow> files \<Rightarrow> string + PartitionLog" where
  "open_log z opts fs =
     (if \<not> is_valid_topic_name (PartitionLogOptions.topic opts) then Inl ''invalid topic name''
      else if max_segment_bytes opts = 0 then Inl ''max_segment_bytes must be greater than zero''
      else Inr (open_active_segment (recover z
        (PartitionLog.make opts fs [] (RecoveryStats.make 0 0 0 0 0) 0))))"

section \<open>Retention\<close>

definition segment_summaries :: "PartitionLog \<Rightarrow> SegmentSummary list" where
  "segment_summaries s =
     (let listed = map (\<lambda>(base, path). (path, SegmentSummary.make base base base
            (file_size_or_zero (directory s) path) (base = active_base s) path))
            (list_segments (directory s));
          by_path = foldl (\<lambda>m entry.
            case map_of m (segment entry) of
              None \<Rightarrow>
                (let base = (case parse_base_offset (segment entry) of None \<Rightarrow> 0 | Some b \<Rightarrow> b) in
                 AList.update (segment entry) (SegmentSummary.make base (IndexEntry.offset entry)
                   (IndexEntry.offset entry) (file_size_or_zero (directory s) (segment entry))
                   (base = active_base s) (segment entry)) m)
            | Some summary \<Rightarrow>
                AList.update (segment entry) (summary
                  \<lparr>first_offset := min (first_offset summary) (IndexEntry.offset entry),
                   last_offset := max (last_offset summary) (IndexEntry.offset entry)\<rparr>) m)
            listed (index' s)
      in sort_key base_offset (map snd (sort_key fst by_path)))"

text \<open>
  The loop over the summaries. The ages of files are an argument, and so are the failures of removals:
  for the path of a log, either the log or, after it, its index cannot be removed. A failure leaves the
  files as they are at that point and the index in memory untouched.
\<close>

datatype RemoveFault = LogStays string | IndexStays string

fun retention_loop ::
  "(string \<Rightarrow> u64) \<Rightarrow> (string \<Rightarrow> RemoveFault option) \<Rightarrow> RetentionPolicy \<Rightarrow> SegmentSummary list \<Rightarrow>
   files \<times> string list \<times> nat \<times> nat \<times> nat \<Rightarrow>
   (string \<times> files) + (files \<times> string list \<times> nat \<times> nat \<times> nat)" where
  "retention_loop age fault policy [] st = Inr st"
| "retention_loop age fault policy (summary # rest) (fs, deleted_logs, deleted, bytes, total_bytes) =
     (if active summary
      then retention_loop age fault policy rest (fs, deleted_logs, deleted, bytes, total_bytes)
      else if \<not> (max_age_seconds policy > 0 \<and> age (log_path summary) \<ge> max_age_seconds policy) \<and>
              \<not> (max_bytes policy > 0 \<and> total_bytes > max_bytes policy)
      then retention_loop age fault policy rest (fs, deleted_logs, deleted, bytes, total_bytes)
      else case fault (log_path summary) of
        Some (LogStays what) \<Rightarrow>
          Inl (''failed to delete retained segment '' @ log_path summary @ '': '' @ what, fs)
      | Some (IndexStays what) \<Rightarrow>
          Inl (''failed to delete retained index '' @ index_path (base_offset summary) @ '': '' @ what,
            remove_file fs (log_path summary))
      | None \<Rightarrow> retention_loop age fault policy rest
          (remove_file (remove_file fs (log_path summary)) (index_path (base_offset summary)),
           deleted_logs @ [log_path summary], deleted + 1, bytes + log_bytes summary,
           if log_bytes summary > total_bytes then 0 else total_bytes - log_bytes summary))"

definition apply_retention ::
  "(string \<Rightarrow> u64) \<Rightarrow> (string \<Rightarrow> RemoveFault option) \<Rightarrow> RetentionPolicy \<Rightarrow> PartitionLog \<Rightarrow>
   (string + RetentionStats) \<times> PartitionLog" where
  "apply_retention age fault policy s =
     (let summaries = segment_summaries s in
      case retention_loop age fault policy summaries
             (directory s, [], 0, 0, sum_list (map log_bytes summaries)) of
        Inl (what, fs) \<Rightarrow> (Inl what, s\<lparr>directory := fs\<rparr>)
      | Inr (fs, deleted_logs, deleted, bytes, _) \<Rightarrow>
         (let s1 = s\<lparr>directory := fs,
                     index' := filter (\<lambda>entry. segment entry \<notin> set deleted_logs) (index' s)\<rparr>;
              retained = segment_summaries s1
          in (Inr (RetentionStats.make deleted bytes (length retained) (sum_list (map log_bytes retained))
                (earliest_offset s1) (next_offset' s1)), s1)))"

end
