(* ===== verification/Bolt_Log_Correct.thy ===== *)
theory Bolt_Log_Correct
  imports Bolt_Log
begin

text \<open>
  Correctness of the partition log. The invariant \<open>log_inv\<close> ties the in-memory index to the bytes on
  disk: the index is what a scan of the segments finds, offsets are consecutive up to the next offset,
  and only the active segment and those before it hold data. Every operation keeps it; appends extend
  the readable records, recovery reproduces them, retention drops a prefix.
\<close>

section \<open>The invariant\<close>

definition segment_entries :: "zstd \<Rightarrow> PartitionLogOptions \<Rightarrow> files \<Rightarrow> u64 \<Rightarrow> IndexEntry list" where
  "segment_entries z opts fs base =
     item_entries (segment_path base) (items_of z opts (file_content fs (segment_path base)))"

text \<open>The index that a scan of the directory gives.\<close>

definition disk_index :: "zstd \<Rightarrow> PartitionLogOptions \<Rightarrow> files \<Rightarrow> IndexEntry list" where
  "disk_index z opts fs =
     concat (map (\<lambda>(base, _). segment_entries z opts fs base) (list_segments fs))"

definition consecutive :: "IndexEntry list \<Rightarrow> u64 \<Rightarrow> bool" where
  "consecutive index next_off \<longleftrightarrow>
     length index \<le> unat next_off \<and>
     map (\<lambda>e. unat (IndexEntry.offset e)) index = [unat next_off - length index..<unat next_off]"

definition files_inv :: "zstd \<Rightarrow> PartitionLogOptions \<Rightarrow> files \<Rightarrow> IndexEntry list \<Rightarrow> u64 \<Rightarrow> bool" where
  "files_inv z opts fs index next_off \<longleftrightarrow>
     distinct (map fst fs) \<and>
     (\<forall>base \<in> segment_bases fs.
        clean_segment z opts (file_content fs (segment_path base)) \<and>
        (\<forall>e \<in> set (segment_entries z opts fs base). base \<le> IndexEntry.offset e) \<and>
        (active_segment_base index next_off < base \<longrightarrow> file_content fs (segment_path base) = [])) \<and>
     index = disk_index z opts fs \<and>
     consecutive index next_off \<and>
     (index = [] \<longrightarrow> next_off = 0)"

definition log_inv :: "zstd \<Rightarrow> PartitionLog \<Rightarrow> bool" where
  "log_inv z s \<longleftrightarrow> files_inv z (options' s) (directory s) (index' s) (next_offset' s)"

section \<open>Ordered segments\<close>

text \<open>Segments after the last one with data contribute nothing.\<close>

lemma concat_sorted_upto:
  fixes a :: "'a::linorder"
  assumes "finite S" "\<And>b. b \<in> S \<Longrightarrow> a < b \<Longrightarrow> f b = []"
  shows "concat (map f (sorted_list_of_set S)) =
    concat (map f (sorted_list_of_set {b \<in> S. b < a})) @ (if a \<in> S then f a else [])"
proof -
  let ?L = "{b \<in> S. b < a}" and ?M = "{b \<in> S. b = a}" and ?R = "{b \<in> S. a < b}"
  have fin: "finite ?L" "finite ?M" "finite ?R" using assms(1) by simp_all
  have "sorted_list_of_set S = sorted_list_of_set ?L @ sorted_list_of_set ?M @ sorted_list_of_set ?R"
    by (rule sorted_distinct_set_unique)
      (use fin assms(1) in \<open>auto simp: sorted_append intro: less_imp_le\<close>)
  moreover have "concat (map f (sorted_list_of_set ?R)) = []"
    using fin assms(2) by (auto simp: concat_eq_Nil_conv)
  moreover have "?M = (if a \<in> S then {a} else {})" by auto
  ultimately show ?thesis by simp
qed

lemma disk_index_upto:
  assumes "distinct (map fst fs)"
    and "\<And>b. b \<in> segment_bases fs \<Longrightarrow> a < b \<Longrightarrow> file_content fs (segment_path b) = []"
  shows "disk_index z opts fs =
    concat (map (segment_entries z opts fs) (sorted_list_of_set {b \<in> segment_bases fs. b < a})) @
    (if a \<in> segment_bases fs then segment_entries z opts fs a else [])"
proof -
  have "items_of z opts [] = []" by (simp add: items_of_def scan_segment.simps)
  then have "segment_entries z opts fs b = []" if "b \<in> segment_bases fs" "a < b" for b
    using assms(2) [OF that] by (simp add: segment_entries_def item_entries_def)
  then show ?thesis
    unfolding disk_index_def list_segments_eq [OF assms(1)]
    by (simp add: comp_def concat_sorted_upto [where a = a])
qed

section \<open>Adding one stored item\<close>

lemma clean_append:
  assumes "clean_segment z opts c" "stored_bytes_of z opts n body stored"
  shows "clean_segment z opts (c @ write_u32 n @ body)"
    "items_of z opts (c @ write_u32 n @ body) = items_of z opts c @ [(length c, n, stored)]"
proof -
  have "scan_segment z opts (c @ write_u32 n @ body) (length c) =
      ([(length c, n, stored)], length c + 4 + unat n, False)"
    using scan_item [OF assms(2), of c "[]"] scan_end [of z opts "c @ write_u32 n @ body"] assms(2)
    by (simp add: stored_bytes_of_def add.assoc)
  then show "clean_segment z opts (c @ write_u32 n @ body)"
    "items_of z opts (c @ write_u32 n @ body) = items_of z opts c @ [(length c, n, stored)]"
    using scan_extend [of 0 c z opts "write_u32 n @ body"] assms(1)
    by (simp_all add: clean_segment_def items_of_def)
qed

lemma map_sum_eq_Inr: "map_sum id f x = Inr w \<longleftrightarrow> (\<exists>y. x = Inr y \<and> w = f y)"
  by (cases x) auto

lemma decode_stored_iff:
  "decode_stored z opts n body = Inr (StoredBatch batch) \<longleftrightarrow>
     read_u16_be body 0 = kBatchVersion \<and>
     decode_batch z (PartitionLogOptions.topic opts) (partition_id opts) n body
       (unat (max_uncompressed_batch_bytes opts)) = Inr batch"
  "decode_stored z opts n body = Inr (StoredRecord d) \<longleftrightarrow>
     read_u16_be body 0 \<noteq> kBatchVersion \<and>
     decode_record (PartitionLogOptions.topic opts) (partition_id opts) n body = Inr d"
  by (auto simp: decode_stored_def map_sum_eq_Inr)

lemma stored_count_pos:
  assumes "stored_bytes_of z opts n body (StoredBatch batch)"
  shows "BatchMetadata.record_count (DecodedBatch.metadata batch) \<noteq> 0"
proof -
  have "decode_batch z (PartitionLogOptions.topic opts) (partition_id opts) n body
      (unat (max_uncompressed_batch_bytes opts)) = Inr batch"
    using assms by (simp add: stored_bytes_of_def decode_stored_iff)
  then show ?thesis
    by (auto simp: decode_batch_iff batch_acceptable_def decoded_batch_def DecodedBatch.make_def
        BatchMetadata.make_def)
qed

lemma stored_entries_not_Nil:
  assumes "stored_bytes_of z opts n body stored"
  shows "stored_entries path pos n stored \<noteq> []"
proof (cases stored)
  case (StoredBatch batch)
  then have "unat (BatchMetadata.record_count (DecodedBatch.metadata batch)) \<noteq> 0"
    using stored_count_pos assms by (simp add: unat_eq_zero)
  then show ?thesis using StoredBatch by (simp add: Let_def)
qed simp

lemma segment_of_entries:
  "e \<in> set (stored_entries path pos n stored) \<Longrightarrow> segment e = path"
  "e \<in> set (item_entries path items) \<Longrightarrow> segment e = path"
proof -
  show *: "e \<in> set (stored_entries path pos n stored) \<Longrightarrow> segment e = path" for pos n stored
    by (cases stored) (auto simp: Let_def IndexEntry.make_def)
  show "e \<in> set (item_entries path items) \<Longrightarrow> segment e = path"
    by (auto simp: item_entries_def dest: *)
qed

lemma clean_entries_Nil:
  assumes "clean_segment z opts c" "item_entries path (items_of z opts c) = []"
  shows "c = []"
proof (rule ccontr)
  assume "c \<noteq> []"
  then have "0 < length c" by simp
  then show False
  proof (cases rule: scan_cases [where z = z and opts = opts, consumes 1, case_names cut item])
    case cut
    then show False using assms(1) by (simp add: clean_segment_def)
  next
    case (item n stored)
    then show False
      using assms(2) stored_entries_not_Nil [OF item(3)]
      by (simp add: items_of_def item_entries_def Let_def split_beta)
  qed
qed

section \<open>Consequences of the invariant\<close>

lemma files_invD:
  assumes "files_inv z opts fs index next_off"
  shows "distinct (map fst fs)" "index = disk_index z opts fs" "consecutive index next_off"
    "index = [] \<Longrightarrow> next_off = 0"
    "base \<in> segment_bases fs \<Longrightarrow> clean_segment z opts (file_content fs (segment_path base))"
    "base \<in> segment_bases fs \<Longrightarrow> e \<in> set (segment_entries z opts fs base) \<Longrightarrow> base \<le> IndexEntry.offset e"
    "active_segment_base index next_off < base \<Longrightarrow> file_content fs (segment_path base) = []"
proof -
  show "active_segment_base index next_off < base \<Longrightarrow> file_content fs (segment_path base) = []"
    using assms
    by (cases "base \<in> segment_bases fs") (simp add: files_inv_def, simp add: segment_bases_def file_content_def)
qed (use assms in \<open>auto simp: files_inv_def\<close>)

lemma disk_index_mem:
  assumes "distinct (map fst fs)"
  shows "e \<in> set (disk_index z opts fs) \<longleftrightarrow>
    (\<exists>base \<in> segment_bases fs. e \<in> set (segment_entries z opts fs base))"
  by (auto simp: disk_index_def list_segments_eq [OF assms])

lemma consecutive_mem:
  assumes "consecutive index next_off" "e \<in> set index"
  shows "IndexEntry.offset e < next_off"
proof -
  have "unat (IndexEntry.offset e) \<in> set (map (\<lambda>e. unat (IndexEntry.offset e)) index)"
    using assms(2) by simp
  then show ?thesis
    using assms(1) unfolding consecutive_def by (simp add: word_less_nat_alt)
qed

lemma active_less_next:
  assumes inv: "files_inv z opts fs index next_off" and "index \<noteq> []"
  shows "active_segment_base index next_off < next_off"
proof -
  let ?e = "last index"
  have mem: "?e \<in> set index" using assms(2) by simp
  then obtain base where base: "base \<in> segment_bases fs" "?e \<in> set (segment_entries z opts fs base)"
    using files_invD(1,2) [OF inv] disk_index_mem by blast
  then have "segment ?e = segment_path base"
    by (simp add: segment_entries_def segment_of_entries(2))
  then have "active_segment_base index next_off = base"
    using assms(2) by (simp add: active_segment_base_def parse_base_offset_iff [THEN iffD2])
  also have "base \<le> IndexEntry.offset ?e" using files_invD(6) [OF inv] base by simp
  also have "\<dots> < next_off" using consecutive_mem [OF files_invD(3) [OF inv] mem] .
  finally show ?thesis .
qed

lemma active_content_less_next:
  assumes inv: "files_inv z opts fs index next_off"
    and "file_content fs (segment_path (active_segment_base index next_off)) \<noteq> []"
  shows "active_segment_base index next_off < next_off"
proof (rule active_less_next [OF inv])
  let ?a = "active_segment_base index next_off"
  have active: "?a \<in> segment_bases fs"
    using assms(2) by (auto simp: segment_bases_def file_content_def split: option.splits)
  have "segment_entries z opts fs ?a \<noteq> []"
    using clean_entries_Nil files_invD(5) [OF inv] active assms(2) unfolding segment_entries_def by blast
  then obtain e where "e \<in> set (segment_entries z opts fs ?a)" by (cases "segment_entries z opts fs ?a") auto
  then show "index \<noteq> []"
    using files_invD(1,2) [OF inv] active disk_index_mem [of fs e z opts] by auto
qed

section \<open>Writing one item keeps the invariant\<close>

lemma file_content_write_item:
  "file_content (write_item base l i fs) (segment_path b) =
     (if b = base then file_content fs (segment_path b) @ l else file_content fs (segment_path b))"
  by (simp add: write_item_def)

lemma segment_bases_write_item: "segment_bases (write_item base l i fs) = insert base (segment_bases fs)"
  by (auto simp: segment_bases_def write_item_def)

lemma map_of_write_item_index:
  "map_of (write_item base l i fs) (index_path b) \<noteq> None \<longleftrightarrow> b = base \<or> map_of fs (index_path b) \<noteq> None"
  by (auto simp: write_item_def)

lemma segment_entries_cong:
  "file_content fs (segment_path b) = file_content fs' (segment_path b) \<Longrightarrow>
   segment_entries z opts fs b = segment_entries z opts fs' b"
  by (simp add: segment_entries_def)

lemma consecutive_append:
  assumes "consecutive index next_off"
    and "map (\<lambda>e. unat (IndexEntry.offset e)) es = [unat next_off..<unat next_off + length es]"
    and "unat next_off + length es < 2 ^ 64"
  shows "consecutive (index @ es) (next_off + of_nat (length es))"
proof -
  have "unat next_off - length index \<le> unat next_off" by simp
  then have "[unat next_off - length index..<unat next_off + length es] =
      [unat next_off - length index..<unat next_off] @ [unat next_off..<unat next_off + length es]"
    by (rule upt_add_eq_append)
  moreover have "unat next_off + length es - length (index @ es) = unat next_off - length index"
    by simp
  ultimately show ?thesis
    using assms unfolding consecutive_def unat_add_of_nat [OF assms(3)] by (simp only: map_append) simp
qed

text \<open>A segment that does not exist yet reads as empty.\<close>

lemma missing_segment:
  assumes "base \<notin> segment_bases fs"
  shows "file_content fs (segment_path base) = []" "segment_entries z opts fs base = []"
  using assms by (simp_all add: segment_bases_def segment_entries_def file_content_def items_of_def
      scan_segment.simps item_entries_def)

lemma disk_index_write_item:
  assumes dist: "distinct (map fst fs)"
    and empty: "\<And>b. base < b \<Longrightarrow> file_content fs (segment_path b) = []"
    and clean: "clean_segment z opts (file_content fs (segment_path base))"
    and stored: "stored_bytes_of z opts n body stored"
    and fs': "fs' = write_item base (write_u32 n @ body) entry_bytes fs"
    and es: "es = stored_entries (segment_path base) (length (file_content fs (segment_path base))) n stored"
  shows "segment_entries z opts fs' base = segment_entries z opts fs base @ es"
    and "b \<noteq> base \<Longrightarrow> segment_entries z opts fs' b = segment_entries z opts fs b"
    and "disk_index z opts fs' = disk_index z opts fs @ es"
proof -
  show here: "segment_entries z opts fs' base = segment_entries z opts fs base @ es"
    using clean_append(2) [OF clean stored]
    by (simp add: segment_entries_def file_content_write_item item_entries_def es fs')
  show other: "segment_entries z opts fs' b = segment_entries z opts fs b" if "b \<noteq> base" for b
    using that by (simp add: segment_entries_def file_content_write_item fs')
  have dist': "distinct (map fst fs')" using dist by (simp add: write_item_def fs')
  have empty': "file_content fs' (segment_path b) = []" if "base < b" for b
    using empty [OF that] that by (auto simp: file_content_write_item fs')
  have "{b \<in> segment_bases fs'. b < base} = {b \<in> segment_bases fs. b < base}"
    and base: "base \<in> segment_bases fs'"
    by (auto simp: segment_bases_write_item fs')
  moreover have "concat (map (segment_entries z opts fs') (sorted_list_of_set {b \<in> segment_bases fs. b < base})) =
      concat (map (segment_entries z opts fs) (sorted_list_of_set {b \<in> segment_bases fs. b < base}))"
    by (intro arg_cong [where f = concat] map_cong refl other) auto
  moreover have "(if base \<in> segment_bases fs then segment_entries z opts fs base else []) =
      segment_entries z opts fs base"
    by (simp add: missing_segment)
  ultimately show "disk_index z opts fs' = disk_index z opts fs @ es"
    using disk_index_upto [OF dist' empty', of base z opts]
      disk_index_upto [OF dist empty, of base z opts] here by (simp del: map_eq_conv)
qed

text \<open>
  The segment an item goes to: the active one, or, when the log rolls, the one named after the next
  offset. Either way it is at or after the active segment and no later than the next offset.
\<close>

lemma append_item_inv:
  assumes inv: "files_inv z opts fs index next_off"
    and stored: "stored_bytes_of z opts n body stored"
    and base: "active_segment_base index next_off \<le> base" "base \<le> next_off"
    and es: "es = stored_entries (segment_path base) (length (file_content fs (segment_path base))) n stored"
    and offs: "map (\<lambda>e. unat (IndexEntry.offset e)) es = [unat next_off..<unat next_off + length es]"
      "unat next_off + length es < 2 ^ 64"
  shows "files_inv z opts (write_item base (write_u32 n @ body) entry_bytes fs) (index @ es)
    (next_off + of_nat (length es))"
proof -
  let ?fs = "write_item base (write_u32 n @ body) entry_bytes fs"
  note bases = segment_bases_write_item file_content_write_item
  have empty: "file_content fs (segment_path b) = []" if "base < b" for b
    using that base(1) files_invD(7) [OF inv] by simp
  have clean: "clean_segment z opts (file_content fs (segment_path base))"
    using files_invD(5) [OF inv, of base] missing_segment(1) [of base fs]
    by (cases "base \<in> segment_bases fs") (auto simp: clean_segment_def scan_segment.simps)
  note disk = disk_index_write_item [OF files_invD(1) [OF inv] empty clean stored refl es, simplified,
      where entry_bytes = entry_bytes]
  have new: "es \<noteq> []" "\<And>e. e \<in> set es \<Longrightarrow> segment e = segment_path base"
    using stored_entries_not_Nil [OF stored] segment_of_entries(1) by (auto simp: es)
  have active: "active_segment_base (index @ es) m = base" for m
    using new(1) new(2) [of "last es"]
    by (simp add: active_segment_base_def parse_base_offset_iff [THEN iffD2])
  have above: "base \<le> IndexEntry.offset e" if "e \<in> set es" for e
  proof -
    have "unat (IndexEntry.offset e) \<in> set (map (\<lambda>e. unat (IndexEntry.offset e)) es)" using that by simp
    then show ?thesis
      unfolding offs(1) using base(2) by (simp add: word_le_nat_alt)
  qed
  have seg: "clean_segment z opts (file_content ?fs (segment_path b)) \<and>
      (\<forall>e \<in> set (segment_entries z opts ?fs b). b \<le> IndexEntry.offset e) \<and>
      (base < b \<longrightarrow> file_content ?fs (segment_path b) = [])" if "b \<in> segment_bases ?fs" for b
  proof (cases "b = base")
    case True
    then show ?thesis
      using clean_append(1) [OF clean stored] disk(1) above files_invD(6) [OF inv, of base]
        missing_segment(2) [of base fs]
      by (cases "base \<in> segment_bases fs") (auto simp: bases)
  next
    case False
    then show ?thesis
      using that files_invD(5,6) [OF inv, of b] disk(2) [OF False] empty
      by (auto simp: bases)
  qed
  have "index @ es = disk_index z opts ?fs" using files_invD(2) [OF inv] disk(3) by simp
  moreover have "consecutive (index @ es) (next_off + of_nat (length es))"
    using consecutive_append files_invD(3) [OF inv] offs by blast
  moreover have "distinct (map fst ?fs)" using files_invD(1) [OF inv] by (simp add: write_item_def)
  ultimately show ?thesis
    unfolding files_inv_def active using seg new(1) by (auto simp: bases)
qed

section \<open>Appending records\<close>

lemma encoded_record_stored:
  assumes "encode_record off ts k v = Inr encoded"
  obtains body where "encoded = write_u32 (of_nat (length encoded - 4)) @ body"
    "stored_bytes_of z opts (of_nat (length encoded - 4)) body
       (StoredRecord (decoded_record (PartitionLogOptions.topic opts) (partition_id opts) off ts k v))"
proof
  let ?n = "36 + length k + length v" and ?body = "sealed (record_body off ts k v)"
  have n: "?n < 2 ^ 32" and e: "encoded = write_u32 (of_nat ?n) @ ?body"
    using assms by (simp_all add: encode_record_iff)
  then have len: "length encoded - 4 = ?n" by simp
  show "encoded = write_u32 (of_nat (length encoded - 4)) @ ?body"
    unfolding len by (rule e)
  have u: "unat (of_nat ?n :: u32) = ?n" using n by (rule unat_of_nat_u32)
  have "decode_record (PartitionLogOptions.topic opts) (partition_id opts) (of_nat ?n) ?body =
      Inr (decoded_record (PartitionLogOptions.topic opts) (partition_id opts) off ts k v)"
    unfolding decode_record_iff u by (intro exI conjI refl) simp_all
  then show "stored_bytes_of z opts (of_nat (length encoded - 4)) ?body
      (StoredRecord (decoded_record (PartitionLogOptions.topic opts) (partition_id opts) off ts k v))"
    unfolding stored_bytes_of_def decode_stored_iff len u
    by (simp add: version_of_body(1) storage_constants word_le_nat_alt u del: of_nat_add)
qed

lemma stored_record_decoded [simp]:
  "stored_record (decoded_record tp part off ts k v) =
     Record.make (RecordMetadata.make tp part off ts (of_nat (36 + length k + length v) + 4)) k v"
  by (simp add: decoded_record_def DecodedRecord.make_def)

lemma record_make_simps [simp]:
  "Record.metadata (Record.make m k v) = m"
  "Record.key (Record.make m k v) = k" "Record.val (Record.make m k v) = v"
  "RecordMetadata.offset (RecordMetadata.make tp part off ts n) = off"
  by (simp_all add: Record.make_def RecordMetadata.make_def)

lemma record_entries:
  "stored_entries path pos n (StoredRecord (decoded_record tp part off ts k v)) =
     [IndexEntry.make off pos n path 0 1]"
  by simp

text \<open>What the append loop keeps, with the entries staged so far counted as part of the index.\<close>

definition append_loop_inv ::
  "zstd \<Rightarrow> PartitionLogOptions \<Rightarrow> IndexEntry list \<Rightarrow> u64 \<Rightarrow> nat \<Rightarrow> AppendState \<Rightarrow> bool" where
  "append_loop_inv z opts index next_off i st \<longleftrightarrow>
     files_inv z opts (files_now st) (index @ staged_index st) (next_off + of_nat i) \<and>
     segment_base st = active_segment_base (index @ staged_index st) (next_off + of_nat i) \<and>
     current_size st = length (file_content (files_now st) (segment_path (segment_base st)))"

lemma append_step_inv:
  assumes inv: "append_loop_inv z opts index next_off i st"
    and range: "unat next_off + i + 1 < 2 ^ 64"
    and enc: "encode_record (next_off + of_nat i) ts k v = Inr encoded"
    and base: "base = (if roll_due env opts i encoded st then next_off + of_nat i else segment_base st)"
    and pos: "pos = (if roll_due env opts i encoded st then 0 else current_size st)"
  shows "append_loop_inv z opts index next_off (Suc i)
    \<lparr>files_now = write_item base encoded eb (files_now st),
     staged_index = staged_index st @
       [IndexEntry.make (next_off + of_nat i) pos (of_nat (length encoded - 4)) (segment_path base) 0 1],
     staged_metadata = ms, segment_base = base, current_size = pos + length encoded\<rparr>"
proof -
  let ?index = "index @ staged_index st" and ?off = "next_off + of_nat i"
  let ?e = "IndexEntry.make ?off pos (of_nat (length encoded - 4)) (segment_path base) 0 1"
  have fi: "files_inv z opts (files_now st) ?index ?off" using inv by (simp add: append_loop_inv_def)
  have seg: "segment_base st = active_segment_base ?index ?off"
    "current_size st = length (file_content (files_now st) (segment_path (segment_base st)))"
    using inv by (simp_all add: append_loop_inv_def)
  have le: "active_segment_base ?index ?off \<le> ?off"
    using active_less_next [OF fi] by (cases "?index = []") (auto simp: active_segment_base_def)
  have "current_size st > 0" if "roll_due env opts i encoded st"
    using that by (auto simp: roll_due_def)
  then have "active_segment_base ?index ?off < ?off" if "roll_due env opts i encoded st"
    using that active_content_less_next [OF fi] seg by fastforce
  then have between: "active_segment_base ?index ?off \<le> base" "base \<le> ?off"
    using le seg(1) by (auto simp: base)
  have size: "pos = length (file_content (files_now st) (segment_path base))"
    using seg \<open>roll_due env opts i encoded st \<Longrightarrow> active_segment_base ?index ?off < ?off\<close>
      files_invD(7) [OF fi] by (auto simp: base pos)
  obtain body where encoded: "encoded = write_u32 (of_nat (length encoded - 4)) @ body"
    and stored: "stored_bytes_of z opts (of_nat (length encoded - 4)) body
       (StoredRecord (decoded_record (PartitionLogOptions.topic opts) (partition_id opts) ?off ts k v))"
    by (rule encoded_record_stored [OF enc])
  have u: "unat ?off = unat next_off + i" using range by (intro unat_add_of_nat) simp
  have "files_inv z opts (write_item base encoded eb (files_now st)) (?index @ [?e]) (?off + of_nat 1)"
    using append_item_inv [OF fi stored between, of "[?e]" eb] encoded u range
    by (simp add: record_entries size IndexEntry.make_def)
  moreover have "active_segment_base (?index @ [?e]) m = base" for m
    by (simp add: active_segment_base_def parse_base_offset_iff [THEN iffD2] IndexEntry.make_def)
  ultimately show ?thesis
    by (simp add: append_loop_inv_def file_content_write_item size add.assoc add.commute [of 1])
qed

section \<open>Reading what was written\<close>

text \<open>Appends only extend files, and a read stays inside the bytes it was made for.\<close>

definition extends :: "files \<Rightarrow> files \<Rightarrow> bool" where
  "extends fs fs' \<longleftrightarrow> (\<forall>path c. map_of fs path = Some c \<longrightarrow> (\<exists>t. map_of fs' path = Some (c @ t)))"

lemma extends_refl [simp]: "extends fs fs"
  by (simp add: extends_def)

lemma extends_trans: "extends a b \<Longrightarrow> extends b c \<Longrightarrow> extends a c"
  unfolding extends_def by (metis append.assoc)

lemma extends_write_item [simp]: "extends fs (write_item base l i fs)"
  by (auto simp: extends_def write_item_def file_content_def)

lemma read_entry_iff:
  "read_entry z opts fs e = Inr x \<longleftrightarrow>
     (\<exists>c n stored. map_of fs (segment e) = Some c \<and> n = read_u32_be c (file_position e) \<and>
        file_position e + 4 + unat n \<le> length c \<and>
        decode_stored z opts n (take (unat n) (drop (file_position e + 4) c)) = Inr stored \<and>
        pick_record opts e n stored = Inr x)"
proof (cases "map_of fs (segment e)")
  case (Some c)
  let ?n = "read_u32_be c (file_position e)"
  have "\<not> length c - file_position e < 4 \<and> \<not> length c - file_position e - 4 < unat ?n \<longleftrightarrow>
      file_position e + 4 + unat ?n \<le> length c" by linarith
  then show ?thesis
    using Some by (auto simp: read_entry_def Let_def split: sum.splits)
qed (simp add: read_entry_def)

lemma read_entry_extends:
  assumes "extends fs fs'" "read_entry z opts fs e = Inr x"
  shows "read_entry z opts fs' e = Inr x"
proof -
  obtain c n stored where c: "map_of fs (segment e) = Some c" "n = read_u32_be c (file_position e)"
    "file_position e + 4 + unat n \<le> length c"
    and x: "decode_stored z opts n (take (unat n) (drop (file_position e + 4) c)) = Inr stored"
    "pick_record opts e n stored = Inr x"
    using assms(2) unfolding read_entry_iff by blast
  then obtain t where t: "map_of fs' (segment e) = Some (c @ t)"
    using assms(1) by (auto simp: extends_def)
  have "read_u32_be (c @ t) (file_position e) = n" using c by (simp add: read_u32_be_append)
  moreover have "take (unat n) (drop (file_position e + 4) (c @ t)) =
      take (unat n) (drop (file_position e + 4) c)" using c(3) by simp
  ultimately show ?thesis
    unfolding read_entry_iff using c(3) x t by (intro exI [of _ "c @ t"] exI [of _ n]) auto
qed

lemma read_entry_item:
  assumes "map_of fs (segment e) = Some (c @ write_u32 n @ body @ rest)" "file_position e = length c"
    and "stored_bytes_of z opts n body stored"
  shows "read_entry z opts fs e = pick_record opts e n stored"
  using assms by (simp add: read_entry_def stored_bytes_of_def)

text \<open>The records that an append stores, with the metadata that it returns for them.\<close>

definition stored_as ::
  "zstd \<Rightarrow> PartitionLogOptions \<Rightarrow> files \<Rightarrow> IndexEntry \<Rightarrow> RecordMetadata \<Rightarrow> AppendRecord \<Rightarrow> bool" where
  "stored_as z opts fs e m rec \<longleftrightarrow>
     IndexEntry.offset e = RecordMetadata.offset m \<and>
     (\<exists>n. read_entry z opts fs e =
        Inr (Record.make m (AppendRecord.key rec) (AppendRecord.val rec), n))"

lemma stored_as_extends: "extends fs fs' \<Longrightarrow> stored_as z opts fs e m rec \<Longrightarrow> stored_as z opts fs' e m rec"
  by (auto simp: stored_as_def dest: read_entry_extends)

lemma append_step_stored:
  assumes inv: "append_loop_inv z opts index next_off i st"
    and enc: "encode_record off ts (AppendRecord.key rec) (AppendRecord.val rec) = Inr encoded"
    and pos: "pos = length (file_content (files_now st) (segment_path base))"
  shows "stored_as z opts (write_item base encoded eb (files_now st))
    (IndexEntry.make off pos (of_nat (length encoded - 4)) (segment_path base) 0 1)
    (RecordMetadata.make (PartitionLogOptions.topic opts) (partition_id opts) off ts
      (of_nat (length encoded))) rec"
proof -
  obtain body where encoded: "encoded = write_u32 (of_nat (length encoded - 4)) @ body"
    and stored: "stored_bytes_of z opts (of_nat (length encoded - 4)) body
       (StoredRecord (decoded_record (PartitionLogOptions.topic opts) (partition_id opts) off ts
          (AppendRecord.key rec) (AppendRecord.val rec)))"
    by (rule encoded_record_stored [OF enc])
  have "length encoded = 40 + length (AppendRecord.key rec) + length (AppendRecord.val rec)"
    using enc by (auto simp: encode_record_iff)
  then have "of_nat (36 + length (AppendRecord.key rec) + length (AppendRecord.val rec)) + 4 =
      (of_nat (length encoded) :: u32)" by simp
  moreover have "map_of (write_item base encoded eb (files_now st)) (segment_path base) =
      Some (file_content (files_now st) (segment_path base) @
        write_u32 (of_nat (length encoded - 4)) @ body)"
    by (simp add: write_item_def flip: encoded)
  ultimately show ?thesis
    using read_entry_item [OF _ _ stored, of _ _ _ "[]"] pos
    by (simp add: stored_as_def IndexEntry.make_def pick_record_def del: of_nat_add)
qed

lemma append_position:
  assumes inv: "append_loop_inv z opts index next_off i st"
    and roll: "roll_due env opts i encoded st"
  shows "file_content (files_now st) (segment_path (next_off + of_nat i)) = []"
proof -
  have fi: "files_inv z opts (files_now st) (index @ staged_index st) (next_off + of_nat i)"
    and "segment_base st = active_segment_base (index @ staged_index st) (next_off + of_nat i)"
    and "current_size st = length (file_content (files_now st) (segment_path (segment_base st)))"
    using inv by (simp_all add: append_loop_inv_def)
  moreover have "0 < current_size st" using roll by (auto simp: roll_due_def)
  ultimately show ?thesis
    using active_content_less_next [OF fi] files_invD(7) [OF fi] by auto
qed

text \<open>
  A successful loop: every record is stored, in order, at consecutive offsets, and reads back under the
  metadata returned for it.
\<close>

lemma append_loop_ok:
  assumes "append_loop_inv z opts index next_off i st"
    and "unat next_off + i + length recs < 2 ^ 64"
    and "append_loop env opts next_off i recs st = Inr st'"
  shows "append_loop_inv z opts index next_off (i + length recs) st' \<and>
    extends (files_now st) (files_now st') \<and>
    (\<exists>es ms. staged_index st' = staged_index st @ es \<and> staged_metadata st' = staged_metadata st @ ms \<and>
       length es = length recs \<and> length ms = length recs \<and>
       (\<forall>j < length recs. stored_as z opts (files_now st') (es ! j) (ms ! j) (recs ! j) \<and>
          RecordMetadata.offset (ms ! j) = next_off + of_nat (i + j)))"
  using assms
proof (induction recs arbitrary: i st)
  case Nil
  then show ?case by (auto split: option.splits)
next
  case (Cons rec recs)
  let ?off = "next_off + of_nat i" and ?ts = "unix_time_ns env i"
  obtain encoded where enc: "encode_record ?off ?ts (AppendRecord.key rec) (AppendRecord.val rec) = Inr encoded"
    using Cons.prems(3) by (auto simp: Let_def split: sum.splits)
  define base where "base = (if roll_due env opts i encoded st then ?off else segment_base st)"
  define pos where "pos = (if roll_due env opts i encoded st then 0 else current_size st)"
  let ?n = "of_nat (length encoded - 4) :: u32"
  define e where "e = IndexEntry.make ?off pos ?n (segment_path base) 0 1"
  define m where "m = RecordMetadata.make (PartitionLogOptions.topic opts) (partition_id opts) ?off ?ts
      (of_nat (length encoded))"
  define st1 where "st1 = \<lparr>files_now = write_item base encoded (index_entry_bytes ?off pos ?n) (files_now st),
      staged_index = staged_index st @ [e], staged_metadata = staged_metadata st @ [m],
      segment_base = base, current_size = pos + length encoded\<rparr>"
  have inv1: "append_loop_inv z opts index next_off (Suc i) st1"
    unfolding st1_def e_def
    by (rule append_step_inv [OF Cons.prems(1) _ enc base_def pos_def]) (use Cons.prems(2) in simp)
  have run: "append_loop env opts next_off (Suc i) recs st1 = Inr st'"
    using Cons.prems(3) enc
    by (auto simp: Let_def base_def pos_def st1_def e_def m_def split: option.splits)
  have "pos = length (file_content (files_now st) (segment_path base))"
    using append_position [OF Cons.prems(1)] Cons.prems(1)
    by (simp add: pos_def base_def append_loop_inv_def)
  then have stored: "stored_as z opts (files_now st1) e m rec"
    unfolding st1_def e_def m_def using append_step_stored [OF Cons.prems(1) enc] by simp
  obtain es ms where IH: "append_loop_inv z opts index next_off (Suc i + length recs) st'"
    "extends (files_now st1) (files_now st')"
    "staged_index st' = staged_index st1 @ es" "staged_metadata st' = staged_metadata st1 @ ms"
    "length es = length recs" "length ms = length recs"
    "\<forall>j < length recs. stored_as z opts (files_now st') (es ! j) (ms ! j) (recs ! j) \<and>
       RecordMetadata.offset (ms ! j) = next_off + of_nat (Suc i + j)"
    using Cons.IH [OF inv1 _ run] Cons.prems(2) by auto
  have "stored_as z opts (files_now st') e m rec" using stored_as_extends [OF IH(2) stored] .
  then have "\<forall>j < length (rec # recs). stored_as z opts (files_now st') ((e # es) ! j) ((m # ms) ! j)
      ((rec # recs) ! j) \<and> RecordMetadata.offset ((m # ms) ! j) = next_off + of_nat (i + j)"
    using IH(7) by (auto simp: nth_Cons' m_def RecordMetadata.make_def)
  then show ?case
    using IH(1-6) extends_trans [of "files_now st" "files_now st1"]
    by (intro conjI exI [of _ "e # es"] exI [of _ "m # ms"]) (simp_all add: st1_def)
qed

text \<open>The records of an open log, as the read path sees them.\<close>

definition entry_records :: "zstd \<Rightarrow> PartitionLogOptions \<Rightarrow> files \<Rightarrow> IndexEntry \<Rightarrow> Record list" where
  "entry_records z opts fs e =
     (case read_entry z opts fs e of Inl _ \<Rightarrow> [] | Inr (r, _) \<Rightarrow> [r])"

definition readable :: "zstd \<Rightarrow> PartitionLog \<Rightarrow> Record list" where
  "readable z s = concat (map (entry_records z (options' s) (directory s)) (index' s))"

lemma batch_records_length:
  assumes "stored_bytes_of z opts n body (StoredBatch batch)"
  shows "length (DecodedBatch.records batch) = unat (BatchMetadata.record_count (DecodedBatch.metadata batch))"
  using assms
  by (auto simp: stored_bytes_of_def decode_stored_iff decode_batch_iff batch_acceptable_def
      valid_record_set_def decoded_batch_def DecodedBatch.make_def BatchMetadata.make_def)

lemma pick_record_ok:
  assumes "stored_bytes_of z opts n body stored" "e \<in> set (stored_entries path pos n stored)"
  shows "\<exists>r. pick_record opts e n stored = Inr (r, unat n + 4) \<and>
    RecordMetadata.offset (Record.metadata r) = IndexEntry.offset e"
proof (cases stored)
  case (StoredBatch batch)
  let ?count = "BatchMetadata.record_count (DecodedBatch.metadata batch)"
  obtain i where i: "i < unat ?count" "record_index e = of_nat i"
    using assms(2) StoredBatch by (auto simp: Let_def IndexEntry.make_def)
  then have "unat (record_index e) = i" using unat_u32_less [of ?count] by simp
  then show ?thesis
    using i batch_records_length assms(1) StoredBatch by (simp add: pick_record_def Let_def)
next
  case (StoredRecord d)
  then show ?thesis using assms(2) by (auto simp: pick_record_def IndexEntry.make_def)
qed

lemma entries_fields:
  "e \<in> set (stored_entries path pos n stored) \<Longrightarrow>
   file_position e = pos \<and> IndexEntry.record_bytes e = n \<and> segment e = path"
  by (cases stored) (auto simp: Let_def IndexEntry.make_def)

lemma inv_read_entry:
  assumes inv: "files_inv z opts fs index next_off" and "e \<in> set index"
  shows "\<exists>r. read_entry z opts fs e = Inr (r, unat (IndexEntry.record_bytes e) + 4) \<and>
    RecordMetadata.offset (Record.metadata r) = IndexEntry.offset e"
proof -
  obtain base where base: "base \<in> segment_bases fs" "e \<in> set (segment_entries z opts fs base)"
    using files_invD(1,2) [OF inv] disk_index_mem assms(2) by blast
  let ?c = "file_content fs (segment_path base)"
  obtain p n stored where item: "(p, n, stored) \<in> set (items_of z opts ?c)"
    and e: "e \<in> set (stored_entries (segment_path base) p n stored)"
    using base(2) by (auto simp: segment_entries_def item_entries_def)
  note sound = scan_sound [OF item [unfolded items_of_def]]
  have "map_of fs (segment_path base) = Some ?c"
    using base(1) by (auto simp: segment_bases_def file_content_def)
  moreover obtain r where "pick_record opts e n stored = Inr (r, unat n + 4)"
    "RecordMetadata.offset (Record.metadata r) = IndexEntry.offset e"
    using pick_record_ok e sound by blast
  ultimately show ?thesis
    using entries_fields [OF e] sound
    by (intro exI [of _ r]) (auto simp: read_entry_iff stored_bytes_of_def)
qed

lemma stored_as_records: "stored_as z opts fs e m rec \<Longrightarrow>
  entry_records z opts fs e = [Record.make m (AppendRecord.key rec) (AppendRecord.val rec)]"
  by (auto simp: stored_as_def entry_records_def)

lemma entry_records_extends:
  assumes "files_inv z opts fs index next_off" "e \<in> set index" "extends fs fs'"
  shows "entry_records z opts fs' e = entry_records z opts fs e"
  using inv_read_entry [OF assms(1,2)] read_entry_extends [OF assms(3)]
  by (auto simp: entry_records_def)

lemma append_batch_ok:
  assumes inv: "log_inv z s" and range: "unat (next_offset' s) + length recs < 2 ^ 64"
    and run: "append_batch env recs s = (Inr ms, s')"
  shows "log_inv z s' \<and> next_offset' s' = next_offset' s + of_nat (length recs) \<and>
    length ms = length recs \<and> options' s' = options' s \<and>
    readable z s' = readable z s @
       map2 (\<lambda>m rec. Record.make m (AppendRecord.key rec) (AppendRecord.val rec)) ms recs \<and>
    (\<forall>j < length recs. RecordMetadata.offset (ms ! j) = next_offset' s + of_nat j)"
proof (cases "recs = []")
  case True
  then show ?thesis
    using inv run by (simp add: append_batch_def)
next
  case False
  let ?st = "\<lparr>files_now = directory s, staged_index = [], staged_metadata = [],
    segment_base = active_base s,
    current_size = file_size_or_zero (directory s) (segment_path (active_base s))\<rparr>"
  have inv0: "append_loop_inv z (options' s) (index' s) (next_offset' s) 0 ?st"
    using inv by (simp add: append_loop_inv_def log_inv_def file_size_content)
  obtain st where st: "append_loop env (options' s) (next_offset' s) 0 recs ?st = Inr st"
    and s': "ms = staged_metadata st" "s' = s\<lparr>directory := files_now st,
      index' := index' s @ staged_index st, next_offset' := next_offset' s + of_nat (length recs)\<rparr>"
    using run False by (auto simp: append_batch_def Let_def split: sum.splits)
  then obtain es where ok: "append_loop_inv z (options' s) (index' s) (next_offset' s) (length recs) st"
    "extends (directory s) (files_now st)" "staged_index st = es"
    "length es = length recs" "length ms = length recs"
    "\<forall>j < length recs. stored_as z (options' s) (files_now st) (es ! j) (ms ! j) (recs ! j) \<and>
       RecordMetadata.offset (ms ! j) = next_offset' s + of_nat j"
    using append_loop_ok [OF inv0 _ st] range by auto
  have "concat (map (entry_records z (options' s) (files_now st)) es) =
      map2 (\<lambda>m rec. Record.make m (AppendRecord.key rec) (AppendRecord.val rec)) ms recs"
  proof -
    have "map (entry_records z (options' s) (files_now st)) es =
        map (\<lambda>r. [r]) (map2 (\<lambda>m rec. Record.make m (AppendRecord.key rec) (AppendRecord.val rec)) ms recs)"
      using ok(4-6) by (intro nth_equalityI) (auto simp: stored_as_records)
    then show ?thesis by (simp only: concat_map_singleton map_ident)
  qed
  moreover have "concat (map (entry_records z (options' s) (files_now st)) (index' s)) =
      concat (map (entry_records z (options' s) (directory s)) (index' s))"
    using entry_records_extends [OF inv [unfolded log_inv_def] _ ok(2)]
    by (intro arg_cong [where f = concat] map_cong) auto
  ultimately show ?thesis
    using ok by (auto simp: s' readable_def log_inv_def append_loop_inv_def)
qed

section \<open>Reading\<close>

text \<open>
  The read loop over entries that all read back: it returns a prefix, stops at the record limit, and,
  with a byte limit, stops before the limit is exceeded except that the first record always goes out.
\<close>

lemma read_loop_ok:
  assumes "\<And>e. e \<in> set es \<Longrightarrow> read_entry z opts fs e = Inr (f e, unat (IndexEntry.record_bytes e) + 4)"
  shows "\<exists>k \<le> length es.
    read_loop z opts fs limit mx es count emitted = Inr (map f (take k es)) \<and>
    k \<le> limit - count \<and> (mx = 0 \<longrightarrow> k = min (limit - count) (length es)) \<and>
    (count = 0 \<and> 0 < limit \<and> es \<noteq> [] \<longrightarrow> 0 < k) \<and>
    (k = 0 \<or> count = 0 \<and> k = 1 \<or> mx = 0 \<or>
      emitted + sum_list (map (\<lambda>e. unat (IndexEntry.record_bytes e) + 4) (take k es)) \<le> mx)"
  using assms
proof (induction es arbitrary: count emitted)
  case Nil
  then show ?case by simp
next
  case (Cons e es)
  let ?n = "unat (IndexEntry.record_bytes e) + 4"
  consider "count \<ge> limit" | "count < limit" "mx > 0 \<and> count > 0 \<and> emitted + ?n > mx"
    | "count < limit" "\<not> (mx > 0 \<and> count > 0 \<and> emitted + ?n > mx)" by linarith
  then show ?case
  proof cases
    case 3
    obtain k where k: "k \<le> length es"
      "read_loop z opts fs limit mx es (Suc count) (emitted + ?n) = Inr (map f (take k es))"
      "k \<le> limit - Suc count" "mx = 0 \<longrightarrow> k = min (limit - Suc count) (length es)"
      "k = 0 \<or> mx = 0 \<or>
        emitted + ?n + sum_list (map (\<lambda>e. unat (IndexEntry.record_bytes e) + 4) (take k es)) \<le> mx"
      using Cons.IH [of "Suc count" "emitted + ?n"] Cons.prems by auto
    have "read_loop z opts fs limit mx (e # es) count emitted = Inr (map f (take (Suc k) (e # es)))"
      using 3 k(2) Cons.prems [of e] by (simp add: add.assoc)
    then show ?thesis
      using 3 k by (intro exI [of _ "Suc k"]) (auto simp: min_def add.assoc)
  qed (auto intro: exI [of _ 0] simp: add.assoc)
qed

lemma entry_records_inv:
  assumes "log_inv z s" "e \<in> set (index' s)"
  defines "r \<equiv> hd (entry_records z (options' s) (directory s) e)"
  shows "entry_records z (options' s) (directory s) e = [r]"
    "read_entry z (options' s) (directory s) e = Inr (r, unat (IndexEntry.record_bytes e) + 4)"
    "RecordMetadata.offset (Record.metadata r) = IndexEntry.offset e"
  using inv_read_entry [OF assms(1) [unfolded log_inv_def] assms(2)]
  by (auto simp: entry_records_def r_def)

lemma readable_map:
  assumes "log_inv z s"
  shows "readable z s = map (\<lambda>e. hd (entry_records z (options' s) (directory s) e)) (index' s)"
proof -
  let ?f = "\<lambda>e. hd (entry_records z (options' s) (directory s) e)"
  have "map (entry_records z (options' s) (directory s)) (index' s) = map (\<lambda>e. [?f e]) (index' s)"
    using entry_records_inv(1) [OF assms] by (intro map_cong) auto
  then show ?thesis by (simp only: readable_def concat_map_singleton)
qed

lemma readable_offsets:
  assumes "log_inv z s"
  shows "map (\<lambda>r. unat (RecordMetadata.offset (Record.metadata r))) (readable z s) =
    [unat (next_offset' s) - length (readable z s)..<unat (next_offset' s)]"
proof -
  have "map (\<lambda>r. unat (RecordMetadata.offset (Record.metadata r))) (readable z s) =
      map (\<lambda>e. unat (IndexEntry.offset e)) (index' s)"
    unfolding readable_map [OF assms] map_map
    using entry_records_inv(3) [OF assms] by (intro map_cong) auto
  moreover have "length (readable z s) = length (index' s)" by (simp add: readable_map [OF assms])
  ultimately show ?thesis
    using files_invD(3) [OF assms [unfolded log_inv_def]] by (simp add: consecutive_def)
qed

lemma read_from_prefix:
  assumes inv: "log_inv z s"
    and wanted_def: "wanted = filter (\<lambda>r. off \<le> RecordMetadata.offset (Record.metadata r)) (readable z s)"
  shows "\<exists>k. read_from z off limit mx s = Inr (take k wanted) \<and> k \<le> limit \<and>
    (mx = 0 \<longrightarrow> k = min limit (length wanted)) \<and> (0 < limit \<and> wanted \<noteq> [] \<longrightarrow> 0 < k)"
proof -
  let ?f = "\<lambda>e. hd (entry_records z (options' s) (directory s) e)"
  let ?es = "filter (\<lambda>e. \<not> IndexEntry.offset e < off) (index' s)"
  have f: "read_entry z (options' s) (directory s) e = Inr (?f e, unat (IndexEntry.record_bytes e) + 4)"
    "RecordMetadata.offset (Record.metadata (?f e)) = IndexEntry.offset e" if "e \<in> set (index' s)" for e
    using entry_records_inv [OF inv that] by auto
  have wanted: "wanted = map ?f ?es"
    unfolding wanted_def readable_map [OF inv] filter_map comp_def
    by (intro arg_cong [where f = "map ?f"] filter_cong) (auto simp: f(2) not_less)
  obtain k where "k \<le> length ?es"
    "read_loop z (options' s) (directory s) limit mx ?es 0 0 = Inr (map ?f (take k ?es))"
    "k \<le> limit" "mx = 0 \<longrightarrow> k = min limit (length ?es)" "0 < limit \<and> ?es \<noteq> [] \<longrightarrow> 0 < k"
    using read_loop_ok [of ?es z "options' s" "directory s" ?f limit mx 0 0] f(1) by auto
  then show ?thesis
    by (intro exI [of _ k]) (simp add: read_from_def wanted take_map)
qed

section \<open>The invariant depends on the log files only\<close>

lemma files_inv_cong:
  assumes inv: "files_inv z opts fs index next_off"
    and same: "\<And>b. map_of fs' (segment_path b) = map_of fs (segment_path b)"
    and "distinct (map fst fs')"
  shows "files_inv z opts fs' index next_off"
proof -
  have bases: "segment_bases fs' = segment_bases fs" by (simp add: segment_bases_def same)
  have content: "file_content fs' (segment_path b) = file_content fs (segment_path b)" for b
    by (simp add: file_content_def same)
  then have entries: "segment_entries z opts fs' b = segment_entries z opts fs b" for b
    by (simp add: segment_entries_def)
  have "disk_index z opts fs' = disk_index z opts fs"
    unfolding disk_index_def list_segments_eq [OF assms(3)] list_segments_eq [OF files_invD(1) [OF inv]]
    by (simp add: bases entries)
  then show ?thesis
    using inv assms(3) unfolding files_inv_def bases content entries by auto
qed

lemma inv_segment_path:
  assumes "files_inv z opts fs index next_off" "e \<in> set index"
  obtains base where "base \<in> segment_bases fs" "segment e = segment_path base"
proof -
  obtain base where "base \<in> segment_bases fs" "e \<in> set (segment_entries z opts fs base)"
    using files_invD(1,2) [OF assms(1)] disk_index_mem assms(2) by blast
  then show ?thesis
    using that by (simp add: segment_entries_def segment_of_entries(2))
qed

lemma readable_cong:
  assumes inv: "log_inv z s" and "index' s' = index' s" "options' s' = options' s"
    and same: "\<And>b. b \<in> segment_bases (directory s) \<Longrightarrow> file_content (directory s) (segment_path b) \<noteq> [] \<Longrightarrow>
      map_of (directory s') (segment_path b) = map_of (directory s) (segment_path b)"
  shows "readable z s' = readable z s"
proof -
  have "entry_records z (options' s) (directory s') e = entry_records z (options' s) (directory s) e"
    if e: "e \<in> set (index' s)" for e
  proof -
    obtain base where base: "base \<in> segment_bases (directory s)" "segment e = segment_path base"
      using inv_segment_path [OF inv [unfolded log_inv_def] e] .
    moreover have "file_content (directory s) (segment_path base) \<noteq> []"
      using entry_records_inv(2) [OF inv e] base by (auto simp: read_entry_iff file_content_def)
    ultimately show ?thesis using same [of base] by (simp add: entry_records_def read_entry_def)
  qed
  then show ?thesis
    unfolding readable_def assms(2,3) by (intro arg_cong [where f = concat] map_cong) auto
qed

section \<open>Undoing a failed append\<close>

text \<open>What a failed loop leaves behind: the old files, possibly longer, and new segments.\<close>

definition grown :: "files \<Rightarrow> files \<Rightarrow> bool" where
  "grown fs fs' \<longleftrightarrow> distinct (map fst fs') \<and> extends fs fs'"

lemma grown_refl: "distinct (map fst fs) \<Longrightarrow> grown fs fs"
  by (simp add: grown_def)

lemma grown_write_item: "grown fs fs' \<Longrightarrow> grown fs (write_item base l i fs')"
  by (auto simp: grown_def write_item_def intro: extends_trans extends_write_item [unfolded write_item_def])

lemma append_loop_grown:
  assumes "grown fs (files_now st)" "append_loop env opts next_off i recs st = Inl (what, fs')"
  shows "grown fs fs'"
  using assms
proof (induction recs arbitrary: i st)
  case (Cons rec recs)
  show ?case
    using Cons.prems Cons.IH [where i = "Suc i", rotated]
    by (auto simp: Let_def grown_write_item split: sum.splits option.splits)
qed (auto split: option.splits)

lemma rollback_segment_maps:
  assumes "distinct (map fst fs0)"
  shows "map_of (rollback_segment fs0 (b, segment_path b) fs) path =
    (if path = segment_path b \<or> path = index_path b then
       (if b \<in> segment_bases fs0
        then map_option (\<lambda>c. take (file_size_or_zero fs0 path) c @
               replicate (file_size_or_zero fs0 path - length c) 0) (map_of fs path)
        else None)
     else map_of fs path)"
proof -
  have "b \<in> set (map fst (list_segments fs0)) \<longleftrightarrow> b \<in> segment_bases fs0"
    unfolding list_segments_eq [OF assms] by (auto simp: image_image)
  then show ?thesis
    by (auto simp: rollback_segment_def map_of_resize_file)
qed

lemma rollback_other:
  assumes "distinct (map fst fs0)" "b \<notin> set bs" "path = segment_path b \<or> path = index_path b"
  shows "map_of (fold (rollback_segment fs0) (map (\<lambda>b. (b, segment_path b)) bs) fs) path = map_of fs path"
  using assms(2,3)
  by (induction bs arbitrary: fs) (auto simp: rollback_segment_maps [OF assms(1)])

lemma rollback_fold:
  assumes "distinct (map fst fs0)" "distinct bs" "b \<in> set bs" "path = segment_path b \<or> path = index_path b"
  shows "map_of (fold (rollback_segment fs0) (map (\<lambda>b. (b, segment_path b)) bs) fs) path =
    map_of (rollback_segment fs0 (b, segment_path b) fs) path"
  using assms(2-4)
proof (induction bs arbitrary: fs)
  case (Cons a bs)
  show ?case
  proof (cases "a = b")
    case True
    then show ?thesis
      using rollback_other [OF assms(1) _ Cons.prems(3)] Cons.prems(1) by simp
  next
    case False
    then have "map_of (rollback_segment fs0 (a, segment_path a) fs) path = map_of fs path"
      using Cons.prems(3) by (auto simp: rollback_segment_maps [OF assms(1)])
    then show ?thesis
      using Cons False by (simp add: rollback_segment_maps [OF assms(1)])
  qed
qed simp

lemma distinct_rollback:
  "distinct (map fst fs) \<Longrightarrow> distinct (map fst (fold (rollback_segment fs0) segs fs))"
  by (induction segs arbitrary: fs) (auto simp: rollback_segment_def split: prod.split)

lemma extends_bases: "extends fs fs' \<Longrightarrow> b \<in> segment_bases fs \<Longrightarrow> b \<in> segment_bases fs'"
  by (fastforce simp: extends_def segment_bases_def)

lemma rollback_restores:
  assumes inv: "files_inv z opts fs index next_off" and grown: "grown fs fs'"
  shows "map_of (rollback fs fs') (segment_path b) = map_of fs (segment_path b)"
    and "distinct (map fst (rollback fs fs'))"
proof -
  note dist = files_invD(1) [OF inv]
  have dist': "distinct (map fst fs')" and ext: "extends fs fs'" using grown by (simp_all add: grown_def)
  let ?bs = "sorted_list_of_set (segment_bases fs')"
  have roll: "rollback fs fs' = fold (rollback_segment fs) (map (\<lambda>b. (b, segment_path b)) ?bs) fs'"
    by (simp add: rollback_def list_segments_eq [OF dist'])
  show "map_of (rollback fs fs') (segment_path b) = map_of fs (segment_path b)"
  proof (cases "b \<in> segment_bases fs")
    case True
    then obtain c t where "map_of fs (segment_path b) = Some c" "map_of fs' (segment_path b) = Some (c @ t)"
      using ext by (fastforce simp: extends_def segment_bases_def)
    then show ?thesis
      unfolding roll using rollback_fold [OF dist _ _ disjI1 [OF refl], of ?bs] extends_bases [OF ext True] True
      by (simp add: rollback_segment_maps [OF dist] file_size_or_zero_def)
  next
    case False
    then have "map_of (rollback fs fs') (segment_path b) = None"
      unfolding roll using rollback_other [OF dist, of b ?bs] rollback_fold [OF dist, of ?bs b]
      by (cases "b \<in> segment_bases fs'") (simp_all add: rollback_segment_maps [OF dist], simp add: segment_bases_def)
    then show ?thesis using False by (simp add: segment_bases_def)
  qed
  show "distinct (map fst (rollback fs fs'))" using dist' by (simp add: rollback_def distinct_rollback)
qed

lemma append_batch_fail:
  assumes inv: "log_inv z s" and run: "append_batch env recs s = (Inl what, s')"
  shows "log_inv z s' \<and> index' s' = index' s \<and> next_offset' s' = next_offset' s \<and>
    (\<forall>b. map_of (directory s') (segment_path b) = map_of (directory s) (segment_path b)) \<and>
    readable z s' = readable z s"
proof -
  let ?st = "\<lparr>files_now = directory s, staged_index = [], staged_metadata = [],
    segment_base = active_base s,
    current_size = file_size_or_zero (directory s) (segment_path (active_base s))\<rparr>"
  note fi = inv [unfolded log_inv_def]
  obtain fs where fail: "append_loop env (options' s) (next_offset' s) 0 recs ?st = Inl (what, fs)"
    and s': "s' = s\<lparr>directory := rollback (directory s) fs\<rparr>"
    using run by (auto simp: append_batch_def Let_def split: if_splits sum.splits)
  have "grown (directory s) fs"
    using append_loop_grown [OF _ fail] grown_refl files_invD(1) [OF fi] by simp
  note rest = rollback_restores [OF fi this]
  have "log_inv z s'"
    unfolding log_inv_def s'
    using files_inv_cong [OF fi rest] by simp
  moreover have "readable z s' = readable z s"
    by (rule readable_cong [OF inv]) (simp_all add: s' rest(1))
  ultimately show ?thesis by (simp add: s' rest(1))
qed

end
