(* ===== verification/Bolt_Recovery.thy ===== *)
theory Bolt_Recovery
  imports Bolt_Log_Correct
begin

text \<open>
  \<open>PartitionLog::open\<close> and \<open>PartitionLog::recover\<close> of \<open>src/src/storage/partition_log.cpp\<close>: reopening a
  log reproduces its index and its next offset, and a crash in the middle of an append loses at most the
  item that was being written.
\<close>

section \<open>Recovery\<close>

abbreviation segs :: "u64 list \<Rightarrow> (u64 \<times> string) list" where
  "segs bs \<equiv> map (\<lambda>b. (b, segment_path b)) bs"

definition items_next :: "(nat \<times> u32 \<times> Stored) list \<Rightarrow> u64 \<Rightarrow> u64" where
  "items_next items n = fold (\<lambda>(_, _, stored) n. max n (stored_next_offset stored)) items n"

abbreviation content_of :: "PartitionLog \<Rightarrow> u64 \<Rightarrow> bytes" where
  "content_of s b \<equiv> file_content (directory s) (segment_path b)"

text \<open>
  How recovery of one more segment changes the state: log files before the corruption stay, the index
  and the next offset grow by what the scan finds.
\<close>

definition recovered_by ::
  "zstd \<Rightarrow> (u64 \<Rightarrow> (nat \<times> u32 \<times> Stored) list) \<Rightarrow> u64 list \<Rightarrow> PartitionLog \<Rightarrow> PartitionLog \<Rightarrow> bool" where
  "recovered_by z items bs s s' \<longleftrightarrow>
     index' s' = index' s @ concat (map (\<lambda>b. item_entries (segment_path b) (items b)) bs) \<and>
     next_offset' s' = fold (\<lambda>b. items_next (items b)) bs (next_offset' s) \<and>
     options' s' = options' s \<and> distinct (map fst (directory s')) \<and>
     (\<forall>b. map_of (directory s') (index_path b) \<noteq> None \<longleftrightarrow>
        b \<in> set bs \<or> map_of (directory s) (index_path b) \<noteq> None)"

lemma recover_clean_segment:
  assumes "clean_segment z (options' s) (content_of s b)" "distinct (map fst (directory s))"
  obtains s' where "recover_segment z (b, segment_path b) (s, False) = (s', False)"
    "recovered_by z (\<lambda>b. items_of z (options' s) (content_of s b)) [b] s s'"
    "\<And>b. map_of (directory s') (segment_path b) = map_of (directory s) (segment_path b)"
    "bytes_truncated (recovery_stats' s') = bytes_truncated (recovery_stats' s)"
proof -
  obtain items stop where scan: "scan_segment z (options' s) (content_of s b) 0 = (items, stop, False)"
    using assms(1) by (cases "scan_segment z (options' s) (content_of s b) 0") (auto simp: clean_segment_def)
  let ?s = "fst (recover_segment z (b, segment_path b) (s, False))"
  have "recover_segment z (b, segment_path b) (s, False) = (?s, False)"
    by (simp add: recover_segment_def scan Let_def)
  moreover have "recovered_by z (\<lambda>b. items_of z (options' s) (content_of s b)) [b] s ?s"
    using assms(2)
    by (auto simp: recover_segment_def scan Let_def recovered_by_def items_of_def items_next_def)
  moreover have "map_of (directory ?s) (segment_path c) = map_of (directory s) (segment_path c)" for c
    by (simp add: recover_segment_def scan Let_def)
  moreover have "bytes_truncated (recovery_stats' ?s) = bytes_truncated (recovery_stats' s)"
    by (simp add: recover_segment_def scan Let_def)
  ultimately show ?thesis by (rule that)
qed

lemma recover_clean_fold:
  assumes "\<And>b. b \<in> set bs \<Longrightarrow> clean_segment z (options' s) (content_of s b)"
    and "distinct (map fst (directory s))"
  shows "\<exists>s'. fold (recover_segment z) (segs bs) (s, False) = (s', False) \<and>
    recovered_by z (\<lambda>b. items_of z (options' s) (content_of s b)) bs s s' \<and>
    (\<forall>b. map_of (directory s') (segment_path b) = map_of (directory s) (segment_path b)) \<and>
    bytes_truncated (recovery_stats' s') = bytes_truncated (recovery_stats' s)"
  using assms
proof (induction bs arbitrary: s)
  case Nil
  then show ?case by (simp add: recovered_by_def)
next
  case (Cons a bs)
  obtain s1 where s1: "recover_segment z (a, segment_path a) (s, False) = (s1, False)"
    "recovered_by z (\<lambda>b. items_of z (options' s) (content_of s b)) [a] s s1"
    "\<And>b. map_of (directory s1) (segment_path b) = map_of (directory s) (segment_path b)"
    "bytes_truncated (recovery_stats' s1) = bytes_truncated (recovery_stats' s)"
    using recover_clean_segment [of z s a] Cons.prems by auto
  then have eq: "options' s1 = options' s" "distinct (map fst (directory s1))"
    "\<And>b. content_of s1 b = content_of s b"
    by (auto simp: recovered_by_def intro: file_content_cong)
  obtain s2 where s2: "fold (recover_segment z) (segs bs) (s1, False) = (s2, False)"
    "recovered_by z (\<lambda>b. items_of z (options' s) (content_of s b)) bs s1 s2"
    "\<And>b. map_of (directory s2) (segment_path b) = map_of (directory s1) (segment_path b)"
    "bytes_truncated (recovery_stats' s2) = bytes_truncated (recovery_stats' s1)"
    using Cons.IH [of s1] Cons.prems eq by auto
  then have "recovered_by z (\<lambda>b. items_of z (options' s) (content_of s b)) (a # bs) s s2"
    using s1(2) by (auto simp: recovered_by_def simp del: not_None_eq)
  then show ?case using s1 s2 by (intro exI [of _ s2]) simp
qed

text \<open>The next offset found by a scan is one past the last offset in the index.\<close>

lemma stored_next_offset_batch:
  assumes "stored_bytes_of z opts n body (StoredBatch batch)"
  shows "BatchMetadata.next_offset (DecodedBatch.metadata batch) =
    BatchMetadata.base_offset (DecodedBatch.metadata batch) +
    of_nat (unat (BatchMetadata.record_count (DecodedBatch.metadata batch)))"
  using assms
  by (auto simp: stored_bytes_of_def decode_stored_iff decode_batch_iff decoded_batch_def
      DecodedBatch.make_def BatchMetadata.make_def)

lemma stored_next_successor:
  assumes "stored_bytes_of z opts n body stored" "e \<in> set (stored_entries path pos n stored)"
  shows "stored_next_offset stored = IndexEntry.offset e + 1 \<or>
    (\<exists>e' \<in> set (stored_entries path pos n stored). IndexEntry.offset e' = IndexEntry.offset e + 1)"
proof (cases stored)
  case (StoredBatch batch)
  let ?m = "DecodedBatch.metadata batch"
  let ?count = "unat (BatchMetadata.record_count ?m)"
  obtain i where i: "i < ?count" "IndexEntry.offset e = BatchMetadata.base_offset ?m + of_nat i"
    using assms(2) StoredBatch by (auto simp: Let_def IndexEntry.make_def)
  show ?thesis
  proof (cases "Suc i < ?count")
    case True
    let ?e = "IndexEntry.make (BatchMetadata.base_offset ?m + of_nat (Suc i)) pos n path
        (of_nat (Suc i)) (BatchMetadata.record_count ?m)"
    have "?e \<in> set (stored_entries path pos n stored)"
      unfolding StoredBatch stored_entries.simps Let_def set_map
      by (rule image_eqI [where x = "Suc i"]) (use True in simp_all)
    moreover have "IndexEntry.offset ?e = IndexEntry.offset e + 1"
      using i(2) by (simp add: algebra_simps IndexEntry.make_def)
    ultimately show ?thesis by blast
  next
    case False
    then have "?count = Suc i" using i(1) by simp
    then have "BatchMetadata.next_offset ?m = BatchMetadata.base_offset ?m + of_nat (Suc i)"
      using stored_next_offset_batch [OF assms(1) [unfolded StoredBatch]] by metis
    then have "stored_next_offset stored = IndexEntry.offset e + 1"
      using i(2) by (simp add: StoredBatch algebra_simps)
    then show ?thesis by (rule disjI1)
  qed
next
  case (StoredRecord d)
  then show ?thesis using assms(2) by (simp add: IndexEntry.make_def)
qed

lemma stored_next_last:
  assumes "stored_bytes_of z opts n body stored"
  shows "\<exists>e \<in> set (stored_entries path pos n stored). stored_next_offset stored = IndexEntry.offset e + 1"
proof (cases stored)
  case (StoredBatch batch)
  let ?m = "DecodedBatch.metadata batch"
  let ?count = "unat (BatchMetadata.record_count ?m)"
  have "?count \<noteq> 0" using stored_count_pos assms by (simp add: StoredBatch unat_eq_zero)
  then obtain k where k: "?count = Suc k" by (cases ?count) auto
  let ?e = "IndexEntry.make (BatchMetadata.base_offset ?m + of_nat k) pos n path (of_nat k)
    (BatchMetadata.record_count ?m)"
  have "?e \<in> set (stored_entries path pos n stored)"
    unfolding StoredBatch stored_entries.simps Let_def set_map k
    by (rule image_eqI [where x = k]) simp_all
  moreover have "BatchMetadata.next_offset ?m = BatchMetadata.base_offset ?m + of_nat (Suc k)"
    using stored_next_offset_batch [OF assms [unfolded StoredBatch]] k by metis
  then have "stored_next_offset stored = IndexEntry.offset ?e + 1"
    by (simp add: StoredBatch IndexEntry.make_def algebra_simps)
  ultimately show ?thesis by blast
next
  case (StoredRecord d)
  then show ?thesis by (simp add: IndexEntry.make_def)
qed

lemma fold_max_eq:
  fixes u :: "'a::linorder"
  assumes "m \<le> u" "\<And>x. x \<in> set xs \<Longrightarrow> f x \<le> u" "x \<in> set xs" "f x = u"
  shows "fold (\<lambda>x n. max n (f x)) xs m = u"
proof -
  have le: "fold (\<lambda>x n. max n (f x)) ys m \<le> u" if "m \<le> u" "\<And>x. x \<in> set ys \<Longrightarrow> f x \<le> u" for ys m
    using that by (induction ys arbitrary: m) auto
  have ge: "m \<le> fold (\<lambda>x n. max n (f x)) ys m" for ys and m :: 'a
    by (induction ys arbitrary: m) (auto, meson max.cobounded1 order_trans)
  have "f x \<le> fold (\<lambda>x n. max n (f x)) ys m" if "x \<in> set ys" for ys m
    using that
  proof (induction ys arbitrary: m)
    case (Cons y ys)
    then show ?case using ge [of "max m (f x)" ys] by (auto intro: order_trans [rotated])
  qed simp
  then show ?thesis using le [of m xs] assms by (metis order_antisym)
qed

lemma fold_items_next: "fold (\<lambda>b. items_next (items b)) bs n = items_next (concat (map items bs)) n"
  by (induction bs arbitrary: n) (simp_all add: items_next_def)

lemma consecutive_last:
  assumes "consecutive index next_off" "index \<noteq> []"
  shows "IndexEntry.offset (last index) + 1 = next_off"
proof -
  have "unat (IndexEntry.offset (last index)) = last (map (\<lambda>e. unat (IndexEntry.offset e)) index)"
    using assms(2) by (simp add: last_map)
  also have "\<dots> = unat next_off - 1"
  proof -
    have "unat next_off - length index < unat next_off"
      using assms by (cases index) (auto simp: consecutive_def)
    then show ?thesis using assms(1) by (simp add: consecutive_def)
  qed
  finally have "unat (IndexEntry.offset (last index)) = unat next_off - 1" .
  moreover have "0 < unat next_off" using assms by (cases index) (auto simp: consecutive_def)
  ultimately have "unat (IndexEntry.offset (last index)) + 1 = unat next_off" by simp
  then show ?thesis
    using unat_add_of_nat [of "IndexEntry.offset (last index)" 1] unat_u64_less [of next_off]
    by (intro unsigned_word_eqI) simp
qed

lemma recovered_next:
  assumes items: "\<And>b p n st. b \<in> set bs \<Longrightarrow> (p, n, st) \<in> set (items b) \<Longrightarrow> \<exists>body. stored_bytes_of z opts n body st"
    and index: "index = concat (map (\<lambda>b. item_entries (segment_path b) (items b)) bs)"
    and cons: "consecutive index next_off" and empty: "index = [] \<Longrightarrow> next_off = 0"
  shows "fold (\<lambda>b. items_next (items b)) bs 0 = next_off"
proof -
  let ?all = "concat (map items bs)"
  have mem: "e \<in> set index \<longleftrightarrow>
      (\<exists>b \<in> set bs. \<exists>(p, n, st) \<in> set (items b). e \<in> set (stored_entries (segment_path b) p n st))" for e
    by (fastforce simp: index item_entries_def)
  have upper: "stored_next_offset st \<le> next_off" if item: "(p, n, st) \<in> set ?all" for p n st
  proof -
    obtain b where b: "b \<in> set bs" "(p, n, st) \<in> set (items b)" using item by auto
    then obtain e where "e \<in> set (stored_entries (segment_path b) p n st)"
      "stored_next_offset st = IndexEntry.offset e + 1"
      using items stored_next_last by blast
    moreover from this b have "IndexEntry.offset e < next_off"
      using consecutive_mem [OF cons, of e] by (auto simp: mem)
    ultimately show ?thesis by (simp add: inc_le)
  qed
  show ?thesis
  proof (cases "index = []")
    case True
    have "items b = []" if b: "b \<in> set bs" for b
    proof (rule ccontr)
      assume "items b \<noteq> []"
      then obtain p n st where item: "(p, n, st) \<in> set (items b)" by (cases "items b") auto
      then have "stored_entries (segment_path b) p n st \<noteq> []"
        using items [OF b] stored_entries_not_Nil by blast
      then obtain e where "e \<in> set (stored_entries (segment_path b) p n st)"
        by (cases "stored_entries (segment_path b) p n st") auto
      then have "e \<in> set index" using b item unfolding mem by blast
      then show False using True by simp
    qed
    then have "?all = []" by simp
    then show ?thesis using empty [OF True] by (simp only: fold_items_next) (simp add: items_next_def del: concat_eq_Nil_conv)
  next
    case False
    then obtain b p n st where st: "b \<in> set bs" "(p, n, st) \<in> set (items b)"
      "last index \<in> set (stored_entries (segment_path b) p n st)"
      using mem [of "last index"] by auto
    note last = consecutive_last [OF cons False]
    have "IndexEntry.offset e \<noteq> next_off" if "e \<in> set (stored_entries (segment_path b) p n st)" for e
      using that st consecutive_mem [OF cons, of e] by (auto simp: mem)
    then have "stored_next_offset st = next_off"
      using items [OF st(1,2)] stored_next_successor st(3) last by metis
    moreover have "stored_next_offset (snd (snd x)) \<le> next_off" if "x \<in> set ?all" for x
      using upper [of "fst x" "fst (snd x)" "snd (snd x)"] that by simp
    moreover have "(p, n, st) \<in> set ?all" using st(1,2) by auto
    ultimately have "fold (\<lambda>x n. max n (stored_next_offset (snd (snd x)))) ?all 0 = next_off"
      by (intro fold_max_eq [where x = "(p, n, st)"]) simp_all
    then show ?thesis by (simp add: fold_items_next items_next_def case_prod_unfold)
  qed
qed

section \<open>Directories with the same content\<close>

lemma concat_sorted_nonempty:
  fixes S :: "'a::linorder set"
  assumes "finite S"
  shows "concat (map f (sorted_list_of_set S)) = concat (map f (sorted_list_of_set {b \<in> S. f b \<noteq> []}))"
proof -
  have "sorted_list_of_set {b \<in> S. f b \<noteq> []} = filter (\<lambda>b. f b \<noteq> []) (sorted_list_of_set S)"
    by (rule sorted_distinct_set_unique) (use assms in \<open>auto intro: sorted_filter [of id, simplified]\<close>)
  moreover have "concat (map f (filter (\<lambda>b. f b \<noteq> []) xs)) = concat (map f xs)" for xs
    by (induction xs) auto
  ultimately show ?thesis by simp
qed

lemma segment_entries_content:
  "segment_entries z opts fs b \<noteq> [] \<Longrightarrow> b \<in> segment_bases fs"
  using missing_segment(2) by blast

lemma disk_index_content:
  assumes "distinct (map fst fs)" "distinct (map fst fs')"
    and "\<And>b. file_content fs' (segment_path b) = file_content fs (segment_path b)"
  shows "disk_index z opts fs' = disk_index z opts fs"
proof -
  have same: "segment_entries z opts fs' b = segment_entries z opts fs b" for b
    by (simp add: segment_entries_def assms(3))
  have disk: "disk_index z opts fs = concat (map (segment_entries z opts fs)
      (sorted_list_of_set {b. segment_entries z opts fs b \<noteq> []}))" if "distinct (map fst fs)" for fs
  proof -
    have "{b \<in> segment_bases fs. segment_entries z opts fs b \<noteq> []} = {b. segment_entries z opts fs b \<noteq> []}"
      using segment_entries_content by blast
    then show ?thesis
      using concat_sorted_nonempty [OF finite_segment_bases, of "segment_entries z opts fs" fs]
      by (simp add: disk_index_def list_segments_eq [OF that] comp_def)
  qed
  show ?thesis unfolding disk [OF assms(1)] disk [OF assms(2)] same ..
qed

lemma clean_Nil [simp]: "clean_segment z opts []"
  by (simp add: clean_segment_def scan_segment.simps)

lemma clean_content:
  "files_inv z opts fs index next_off \<Longrightarrow> clean_segment z opts (file_content fs (segment_path b))"
  using files_invD(5) [of z opts fs index next_off b] missing_segment(1) [of b fs]
  by (cases "b \<in> segment_bases fs") auto

lemma files_inv_content:
  assumes inv: "files_inv z opts fs index next_off" and dist: "distinct (map fst fs')"
    and same: "\<And>b. file_content fs' (segment_path b) = file_content fs (segment_path b)"
  shows "files_inv z opts fs' index next_off"
proof -
  have entries: "segment_entries z opts fs' b = segment_entries z opts fs b" for b
    by (simp add: segment_entries_def same)
  have "b \<le> IndexEntry.offset e" if "e \<in> set (segment_entries z opts fs b)" for b e
    using that files_invD(6) [OF inv, of b e] segment_entries_content [of z opts fs b]
    by (cases "segment_entries z opts fs b") auto
  then show ?thesis
    using files_invD(2,3,4,7) [OF inv] clean_content [OF inv] dist
      disk_index_content [OF files_invD(1) [OF inv] dist same, of z opts]
    unfolding files_inv_def entries same by auto
qed

section \<open>After a cut\<close>

lemma recover_stopped_fold:
  assumes "distinct (map fst (directory s))"
  shows "\<exists>s'. fold (recover_segment z) (segs bs) (s, True) = (s', True) \<and>
    index' s' = index' s \<and> next_offset' s' = next_offset' s \<and> options' s' = options' s \<and>
    distinct (map fst (directory s')) \<and>
    (\<forall>b. map_of (directory s') (segment_path b) =
       (if b \<in> set bs then None else map_of (directory s) (segment_path b))) \<and>
    (\<forall>b. b \<notin> set bs \<longrightarrow> map_of (directory s') (index_path b) = map_of (directory s) (index_path b))"
  using assms
proof (induction bs arbitrary: s)
  case (Cons a bs)
  define s1 where "s1 = fst (recover_segment z (a, segment_path a) (s, True))"
  have step: "recover_segment z (a, segment_path a) (s, True) = (s1, True)"
    and s1: "index' s1 = index' s" "next_offset' s1 = next_offset' s" "options' s1 = options' s"
      "directory s1 = remove_file (remove_file (directory s) (segment_path a)) (index_path a)"
    by (simp_all add: s1_def recover_segment_def Let_def)
  have "distinct (map fst (directory s1))" using Cons.prems by (simp add: s1(4))
  then show ?case using Cons.IH [of s1] step s1 by auto
qed simp

lemma recover_torn_segment:
  assumes "scan_segment z (options' s) (content_of s b) 0 = (items_of z (options' s) c, length c, True)"
    and "content_of s b = c @ t" "map_of (directory s) (segment_path b) \<noteq> None"
    and "distinct (map fst (directory s))"
  obtains s' where "recover_segment z (b, segment_path b) (s, False) = (s', True)"
    "recovered_by z (\<lambda>_. items_of z (options' s) c) [b] s s'"
    "\<And>a. map_of (directory s') (segment_path a) =
       (if a = b then Some c else map_of (directory s) (segment_path a))"
proof -
  let ?s = "fst (recover_segment z (b, segment_path b) (s, False))"
  have "recover_segment z (b, segment_path b) (s, False) = (?s, True)"
    by (simp add: recover_segment_def assms(1) Let_def)
  moreover have "recovered_by z (\<lambda>_. items_of z (options' s) c) [b] s ?s"
    using assms(4)
    by (auto simp: recover_segment_def assms(1) Let_def recovered_by_def items_next_def map_of_resize_file)
  moreover have "map_of (directory s) (segment_path b) = Some (c @ t)"
    using assms(2,3) by (auto simp: file_content_def)
  then have "map_of (directory ?s) (segment_path a) =
      (if a = b then Some c else map_of (directory s) (segment_path a))" for a
    by (simp add: recover_segment_def assms(1) Let_def map_of_resize_file)
  ultimately show ?thesis by (rule that)
qed

section \<open>Recovery after a crash\<close>

text \<open>
  A crash during an append: the segment \<open>base\<close> has been extended by \<open>t\<close>, the beginning of an item; the
  index files may hold anything, since recovery rebuilds them.
\<close>

definition torn_item :: "bytes \<Rightarrow> bool" where
  "torn_item t \<longleftrightarrow> (\<exists>n body k. length body = unat n \<and> k < 4 + unat n \<and> t = take k (write_u32 n @ body))"

definition crash_dir :: "files \<Rightarrow> u64 \<Rightarrow> bytes \<Rightarrow> files \<Rightarrow> bool" where
  "crash_dir fs base t fs' \<longleftrightarrow> distinct (map fst fs') \<and>
     (\<forall>b. map_of fs' (segment_path b) =
        (if b = base then Some (file_content fs (segment_path base) @ t) else map_of fs (segment_path b)))"

lemma crash_dirD:
  assumes "crash_dir fs base t fs'"
  shows "distinct (map fst fs')" "segment_bases fs' = insert base (segment_bases fs)"
    "file_content fs' (segment_path b) =
       (if b = base then file_content fs (segment_path base) @ t else file_content fs (segment_path b))"
  using assms by (auto simp: crash_dir_def segment_bases_def file_content_def)

lemma scan_torn_item:
  assumes "clean_segment z opts c" "torn_item t" "t \<noteq> []"
  shows "scan_segment z opts (c @ t) 0 = (items_of z opts c, length c, True)"
proof -
  obtain n body k where t: "length body = unat n" "k < 4 + unat n" "t = take k (write_u32 n @ body)"
    using assms(2) by (auto simp: torn_item_def)
  then have "0 < k" using assms(3) by (cases k) auto
  then have "scan_segment z opts (c @ t) (length c) = ([], length c, True)"
    using scan_torn [OF _ t(2,1), of z opts c] t(3) by simp
  then show ?thesis
    using scan_extend [of 0 c z opts t] assms(1) by (simp add: clean_segment_def items_of_def)
qed

text \<open>The state that the fold over the segments has to reach.\<close>

definition recovered_state ::
  "PartitionLogOptions \<Rightarrow> files \<Rightarrow> IndexEntry list \<Rightarrow> u64 \<Rightarrow> PartitionLog \<Rightarrow> bool" where
  "recovered_state opts fs index next_off s \<longleftrightarrow>
     index' s = index \<and> next_offset' s = next_off \<and> options' s = opts \<and>
     distinct (map fst (directory s)) \<and>
     (\<forall>b. file_content (directory s) (segment_path b) = file_content fs (segment_path b))"

lemma items_of_stored:
  "(p, n, st) \<in> set (items_of z opts c) \<Longrightarrow> \<exists>body. stored_bytes_of z opts n body st"
  using scan_sound by (fastforce simp: items_of_def)

lemma disk_index_bases:
  assumes inv: "files_inv z opts fs index next_off" and "active_segment_base index next_off \<le> base"
  shows "index = concat (map (\<lambda>b. item_entries (segment_path b) (items_of z opts (file_content fs (segment_path b))))
    (sorted_list_of_set {b \<in> segment_bases fs. b < base} @ [base]))"
proof -
  have "file_content fs (segment_path b) = []" if "base < b" for b
    using files_invD(7) [OF inv] assms(2) that by simp
  then show ?thesis
    using files_invD(2) [OF inv] disk_index_upto [OF files_invD(1) [OF inv], of base z opts]
      missing_segment(2) [of base fs z opts]
    by (cases "base \<in> segment_bases fs") (simp_all add: segment_entries_def [abs_def])
qed

lemma sorted_bases_split:
  assumes "finite S" "base \<in> S"
  shows "sorted_list_of_set S =
    (sorted_list_of_set {b \<in> S. b < base} @ [base]) @ sorted_list_of_set {b \<in> S. base < b}"
  by (rule sorted_distinct_set_unique)
    (use assms in \<open>auto simp: sorted_append intro: less_imp_le\<close>)

lemma recovered_by_cong:
  assumes "\<And>b. b \<in> set bs \<Longrightarrow> items b = items' b"
  shows "recovered_by z items bs s s' \<longleftrightarrow> recovered_by z items' bs s s'"
proof -
  have "map (\<lambda>b. item_entries (segment_path b) (items b)) bs =
      map (\<lambda>b. item_entries (segment_path b) (items' b)) bs"
    using assms by simp
  moreover have "fold (\<lambda>b. items_next (items b)) bs n = fold (\<lambda>b. items_next (items' b)) bs n" for n
    using assms by (intro fold_cong) auto
  ultimately show ?thesis unfolding recovered_by_def by metis
qed

lemma recovered_by_append:
  assumes "recovered_by z items bs s s1" "recovered_by z items bs' s1 s2"
  shows "recovered_by z items (bs @ bs') s s2"
  using assms by (auto simp: recovered_by_def simp del: not_None_eq)

lemma recover_torn_prefix:
  assumes clean: "\<And>b. b \<in> set bs \<Longrightarrow> clean_segment z (options' s) (content_of s b)" and "base \<notin> set bs"
    and c: "clean_segment z (options' s) c" "content_of s base = c @ t" "torn_item t" "t \<noteq> []"
    and base: "map_of (directory s) (segment_path base) \<noteq> None" and dist: "distinct (map fst (directory s))"
  shows "\<exists>s'. fold (recover_segment z) (segs (bs @ [base])) (s, False) = (s', True) \<and>
    recovered_by z (\<lambda>b. items_of z (options' s) (if b = base then c else content_of s b)) (bs @ [base]) s s' \<and>
    (\<forall>a. map_of (directory s') (segment_path a) =
       (if a = base then Some c else map_of (directory s) (segment_path a)))"
proof -
  let ?items = "\<lambda>b. items_of z (options' s) (if b = base then c else content_of s b)"
  obtain s1 where s1: "fold (recover_segment z) (segs bs) (s, False) = (s1, False)"
    "recovered_by z (\<lambda>b. items_of z (options' s) (content_of s b)) bs s s1"
    "\<And>b. map_of (directory s1) (segment_path b) = map_of (directory s) (segment_path b)"
    using recover_clean_fold [OF clean dist] by blast
  have "items_of z (options' s) (content_of s b) = ?items b" if "b \<in> set bs" for b
    using that assms(2) by auto
  note rb1 = recovered_by_cong [OF this, THEN iffD1, OF _ s1(2)]
  have eq: "options' s1 = options' s" "content_of s1 base = c @ t" "distinct (map fst (directory s1))"
    using s1(2) file_content_cong [OF s1(3) [of base]] c(2) by (simp_all add: recovered_by_def)
  have scan: "scan_segment z (options' s1) (content_of s1 base) 0 = (items_of z (options' s1) c, length c, True)"
    unfolding eq using scan_torn_item [OF c(1,3,4)] .
  have there: "map_of (directory s1) (segment_path base) \<noteq> None" using s1(3) base by simp
  obtain s2 where s2: "recover_segment z (base, segment_path base) (s1, False) = (s2, True)"
    "recovered_by z (\<lambda>_. items_of z (options' s1) c) [base] s1 s2"
    "\<And>a. map_of (directory s2) (segment_path a) =
       (if a = base then Some c else map_of (directory s1) (segment_path a))"
    using recover_torn_segment [OF scan eq(2) there eq(3)] by blast
  have "items_of z (options' s1) c = ?items b" if "b \<in> set [base]" for b using that by (simp add: eq(1))
  note recovered_by_cong [OF this, THEN iffD1, OF _ s2(2)]
  then show ?thesis
    using recovered_by_append [OF rb1] s1(1,3) s2(1,3) by (intro exI [of _ s2]) auto
qed

lemma recover_fold_torn:
  assumes inv: "files_inv z opts fs index next_off" and base: "active_segment_base index next_off \<le> base"
    and crash: "crash_dir fs base t (directory s)" and torn: "torn_item t" "t \<noteq> []"
    and s: "options' s = opts" "index' s = []" "next_offset' s = 0"
  shows "\<exists>s'. fold (recover_segment z) (segs (sorted_list_of_set (segment_bases (directory s)))) (s, False) =
    (s', True) \<and> recovered_state opts fs index next_off s'"
proof -
  note dir = crash_dirD [OF crash]
  let ?S = "segment_bases (directory s)"
  let ?L = "sorted_list_of_set {b \<in> ?S. b < base}" and ?R = "sorted_list_of_set {b \<in> ?S. base < b}"
  let ?items = "\<lambda>b. items_of z opts (file_content fs (segment_path b))"
  have content: "(if b = base then file_content fs (segment_path base) else content_of s b) =
      file_content fs (segment_path b)" for b
    by (simp add: dir(3))
  obtain s2 where s2: "fold (recover_segment z) (segs (?L @ [base])) (s, False) = (s2, True)"
    "recovered_by z ?items (?L @ [base]) s s2"
    "\<And>a. map_of (directory s2) (segment_path a) =
       (if a = base then Some (file_content fs (segment_path base)) else map_of (directory s) (segment_path a))"
  proof -
    have L: "clean_segment z (options' s) (content_of s b)" if "b \<in> set ?L" for b
      using that clean_content [OF inv] by (auto simp: dir(3) s(1))
    have notin: "base \<notin> set ?L" by simp
    have at_base: "content_of s base = file_content fs (segment_path base) @ t"
      "clean_segment z (options' s) (file_content fs (segment_path base))"
      "map_of (directory s) (segment_path base) \<noteq> None"
      using crash clean_content [OF inv] by (auto simp: dir(3) s(1) crash_dir_def)
    show thesis
      using recover_torn_prefix [OF L notin at_base(2,1) torn at_base(3) dir(1)] that
      unfolding content s(1) by blast
  qed
  obtain s3 where s3: "fold (recover_segment z) (segs ?R) (s2, True) = (s3, True)"
    "index' s3 = index' s2" "next_offset' s3 = next_offset' s2" "options' s3 = options' s2"
    "distinct (map fst (directory s3))"
    "\<And>b. map_of (directory s3) (segment_path b) = (if b \<in> set ?R then None else map_of (directory s2) (segment_path b))"
    "\<And>b. b \<notin> set ?R \<Longrightarrow> map_of (directory s3) (index_path b) = map_of (directory s2) (index_path b)"
    using recover_stopped_fold [of s2 z ?R] s2(2) by (auto simp: recovered_by_def)
  have "{b \<in> ?S. b < base} = {b \<in> segment_bases fs. b < base}" using dir(2) by auto
  note index = disk_index_bases [OF inv base, folded this]
  have next_off: "fold (\<lambda>b. items_next (?items b)) (?L @ [base]) 0 = next_off"
    by (rule recovered_next [OF items_of_stored index files_invD(3,4) [OF inv]])
  have empty: "file_content fs (segment_path b) = []" if "base < b" for b
    using files_invD(7) [OF inv] base that by simp
  have "file_content (directory s3) (segment_path b) = file_content fs (segment_path b)" for b
    using s3(6) [of b] s2(3) [of b] dir(3) [of b] empty [of b]
    by (cases "b \<in> set ?R") (auto simp: file_content_def)
  then have "recovered_state opts fs index next_off s3"
    using s3 s2(2) index next_off by (simp add: recovered_state_def recovered_by_def s)
  then show ?thesis
    using s2(1) s3(1) sorted_bases_split [of ?S base] dir(2) by (intro exI [of _ s3]) simp
qed

lemma recover_fold_clean:
  assumes inv: "files_inv z opts fs index next_off" and crash: "crash_dir fs base [] (directory s)"
    and s: "options' s = opts" "index' s = []" "next_offset' s = 0"
  shows "\<exists>s'. fold (recover_segment z) (segs (sorted_list_of_set (segment_bases (directory s)))) (s, False) =
    (s', False) \<and> recovered_state opts fs index next_off s'"
proof -
  note dir = crash_dirD [OF crash]
  let ?bs = "sorted_list_of_set (segment_bases (directory s))"
  let ?items = "\<lambda>b. items_of z opts (file_content fs (segment_path b))"
  have content: "content_of s b = file_content fs (segment_path b)" for b by (simp add: dir(3))
  obtain s1 where s1: "fold (recover_segment z) (segs ?bs) (s, False) = (s1, False)"
    "recovered_by z ?items ?bs s s1"
    "\<And>b. map_of (directory s1) (segment_path b) = map_of (directory s) (segment_path b)"
    using recover_clean_fold [of ?bs z s, OF _ dir(1)] clean_content [OF inv]
    unfolding content s(1) by blast
  have "disk_index z opts (directory s) = index"
    using disk_index_content [OF files_invD(1) [OF inv] dir(1) content] files_invD(2) [OF inv] by simp
  then have index: "index = concat (map (\<lambda>b. item_entries (segment_path b) (?items b)) ?bs)"
    by (simp add: disk_index_def list_segments_eq [OF dir(1)] comp_def segment_entries_def content)
  have next_off: "fold (\<lambda>b. items_next (?items b)) ?bs 0 = next_off"
    by (rule recovered_next [OF items_of_stored index files_invD(3,4) [OF inv]])
  have "content_of s1 b = file_content fs (segment_path b)" for b
    using file_content_cong [OF s1(3)] content by simp
  then have "recovered_state opts fs index next_off s1"
    using s1(2) index next_off
    by (simp add: recovered_state_def recovered_by_def s)
  then show ?thesis using s1(1) by blast
qed

lemma sort_consecutive: "consecutive index next_off \<Longrightarrow> sort_key IndexEntry.offset index = index"
proof (rule sort_key_id_if_sorted)
  assume "consecutive index next_off"
  then have "sorted (map (\<lambda>e. unat (IndexEntry.offset e)) index)" by (simp add: consecutive_def)
  then show "sorted (map IndexEntry.offset index)"
    by (simp add: sorted_map word_le_nat_alt)
qed

text \<open>Reopening: the in-memory state comes back, and the invariant holds again.\<close>

lemma recover_crash:
  assumes inv: "files_inv z opts fs index next_off" and base: "active_segment_base index next_off \<le> base"
    and crash: "crash_dir fs base t fs'" and torn: "torn_item t"
    and open_ok: "is_valid_topic_name (PartitionLogOptions.topic opts)" "max_segment_bytes opts \<noteq> 0"
  shows "\<exists>s. open_log z opts fs' = Inr s \<and> log_inv z s \<and> options' s = opts \<and> index' s = index \<and>
    next_offset' s = next_off \<and> (\<forall>b. content_of s b = file_content fs (segment_path b))"
proof -
  let ?s0 = "PartitionLog.make opts fs' [] (RecoveryStats.make 0 0 0 0 0) 0"
  have s0: "directory ?s0 = fs'" "options' ?s0 = opts" "index' ?s0 = []" "next_offset' ?s0 = 0"
    by (simp_all add: PartitionLog.make_def)
  have reset: "?s0\<lparr>index' := [], recovery_stats' := RecoveryStats.make 0 0 0 0 0, next_offset' := 0\<rparr> = ?s0"
    by (simp add: PartitionLog.make_def)
  note dir = crash_dirD [OF crash]
  obtain s1 flag where s1:
    "fold (recover_segment z) (segs (sorted_list_of_set (segment_bases fs'))) (?s0, False) = (s1, flag)"
    "recovered_state opts fs index next_off s1"
    using recover_fold_clean [of z opts fs index next_off base ?s0] s0
      recover_fold_torn [of z opts fs index next_off base t ?s0] inv base crash torn
    by (cases "t = []") auto
  let ?s2 = "recover z ?s0"
  have s2: "index' ?s2 = index" "next_offset' ?s2 = next_off" "options' ?s2 = opts"
    "directory ?s2 = directory s1"
    using s1 sort_consecutive files_invD(3) [OF inv]
    by (simp_all add: recover_def reset s0 list_segments_eq [OF dir(1)] recovered_state_def)
  let ?s3 = "open_active_segment ?s2"
  let ?a = "active_segment_base index next_off"
  have s3: "directory ?s3 = write_item ?a [] [] (directory s1)" by (simp add: open_active_segment_def s2)
  have content: "content_of ?s3 b = file_content fs (segment_path b)" for b
    using s1(2) by (simp add: s3 file_content_write_item recovered_state_def)
  have "files_inv z opts (directory ?s3) index next_off"
  proof (rule files_inv_content [OF inv _ content])
    show "distinct (map fst (directory ?s3))" using s1(2) by (simp add: s3 write_item_def recovered_state_def)
  qed
  moreover have "index' ?s3 = index" "next_offset' ?s3 = next_off" "options' ?s3 = opts"
    by (simp_all add: open_active_segment_def s2)
  ultimately show ?thesis
    using content open_ok by (intro exI [of _ ?s3]) (simp add: open_log_def log_inv_def)
qed

end
