(* ===== verification/Bolt_Log_Properties.thy ===== *)
theory Bolt_Log_Properties
  imports Bolt_Recovery
begin

text \<open>
  What the partition log promises to the broker: an append-only journal of records. The interface
  \<open>journal\<close> is the contract that a client relies on (an operation either appends what it acknowledges or
  changes nothing readable); the partition log of \<open>src/src/storage/partition_log.cpp\<close> interprets it, and
  the end-to-end properties rest on that interpretation.
\<close>

section \<open>The journal interface\<close>

locale journal =
  fixes inv :: "'s \<Rightarrow> bool"
    and view :: "'s \<Rightarrow> 'v list"
    and room :: "'op \<Rightarrow> 's \<Rightarrow> bool"
    and step :: "'op \<Rightarrow> 's \<Rightarrow> 's"
    and acknowledged :: "'op \<Rightarrow> 's \<Rightarrow> 'v list"
  assumes step_inv: "inv s \<Longrightarrow> room op s \<Longrightarrow> inv (step op s)"
    and step_view: "inv s \<Longrightarrow> room op s \<Longrightarrow> view (step op s) = view s @ acknowledged op s"
begin

lemma run_inv: "inv s \<Longrightarrow> run_rooms room step ops s \<Longrightarrow> inv (run_steps step ops s)"
  by (induction ops arbitrary: s) (auto intro: step_inv)

lemma run_view:
  "inv s \<Longrightarrow> run_rooms room step ops s \<Longrightarrow>
   view (run_steps step ops s) = view s @ run_outputs step acknowledged ops s"
  by (induction ops arbitrary: s) (auto simp: step_inv step_view)

end

section \<open>The partition log is a journal\<close>

type_synonym append_op = "AppendEnv \<times> AppendRecord list"

definition stored_records :: "RecordMetadata list \<Rightarrow> AppendRecord list \<Rightarrow> Record list" where
  "stored_records ms recs =
     map2 (\<lambda>m rec. Record.make m (AppendRecord.key rec) (AppendRecord.val rec)) ms recs"

definition append_step :: "append_op \<Rightarrow> PartitionLog \<Rightarrow> PartitionLog" where
  "append_step op s = snd (append_batch (fst op) (snd op) s)"

definition append_acknowledged :: "append_op \<Rightarrow> PartitionLog \<Rightarrow> Record list" where
  "append_acknowledged op s =
     (case fst (append_batch (fst op) (snd op) s) of Inl _ \<Rightarrow> [] | Inr ms \<Rightarrow> stored_records ms (snd op))"

text \<open>Offsets are 64 bits wide: the batch has to fit below the largest one.\<close>

definition append_room :: "append_op \<Rightarrow> PartitionLog \<Rightarrow> bool" where
  "append_room op s \<longleftrightarrow> unat (next_offset' s) + length (snd op) < 2 ^ 64"

interpretation plog: journal "log_inv z" "readable z" append_room append_step append_acknowledged for z
proof
  fix s :: PartitionLog and op :: append_op
  assume inv: "log_inv z s" and room: "append_room op s"
  obtain env recs where op: "op = (env, recs)" by (cases op)
  have "log_inv z (append_step op s) \<and>
      readable z (append_step op s) = readable z s @ append_acknowledged op s"
  proof (cases "append_batch env recs s")
    case (Pair result s')
    then show ?thesis
    proof (cases result)
      case (Inl what)
      then show ?thesis
        using append_batch_fail [OF inv, of env recs what s'] Pair
        by (simp add: append_step_def append_acknowledged_def op)
    next
      case (Inr ms)
      then show ?thesis
        using append_batch_ok [OF inv, of recs env ms s'] room Pair
        by (simp add: append_step_def append_acknowledged_def append_room_def op stored_records_def)
    qed
  qed
  then show "log_inv z (append_step op s)"
    and "readable z (append_step op s) = readable z s @ append_acknowledged op s" by simp_all
qed

section \<open>A fresh log\<close>

definition fresh_log :: "PartitionLogOptions \<Rightarrow> PartitionLog" where
  "fresh_log opts = PartitionLog.make opts [(segment_path 0, []), (index_path 0, [])] []
     (RecoveryStats.make 0 0 0 0 0) 0"

lemma fresh_log_inv: "log_inv z (fresh_log opts)"
proof -
  let ?fs = "[(segment_path 0, []), (index_path 0, [])] :: files"
  have bases: "segment_bases ?fs = {0}"
    by (auto simp: segment_bases_def split: if_splits)
  have dist: "distinct (map fst ?fs)" by simp
  have entries: "segment_entries z opts ?fs 0 = []" and content: "file_content ?fs (segment_path 0) = []"
    by (simp_all add: segment_entries_def file_content_def items_of_def scan_segment.simps item_entries_def)
  have "disk_index z opts ?fs = []"
    by (simp add: disk_index_def list_segments_eq [OF dist] bases entries)
  then show ?thesis
    by (simp add: log_inv_def fresh_log_def PartitionLog.make_def files_inv_def bases entries content
        active_segment_base_def consecutive_def)
qed

lemma fresh_log_simps [simp]:
  "options' (fresh_log opts) = opts" "index' (fresh_log opts) = []" "next_offset' (fresh_log opts) = 0"
  "readable z (fresh_log opts) = []"
  by (simp_all add: fresh_log_def PartitionLog.make_def readable_def)

text \<open>Opening an empty directory gives a fresh log.\<close>

lemma open_empty_log:
  assumes "open_log z opts [] = Inr log"
  shows "log_inv z log \<and> options' log = opts \<and> next_offset' log = 0 \<and> readable z log = []"
proof -
  have log: "log = open_active_segment (recover z (PartitionLog.make opts [] [] (RecoveryStats.make 0 0 0 0 0) 0))"
    using assms by (auto simp: open_log_def split: if_splits)
  have "list_segments [] = []" by (simp add: list_segments_def)
  then have "directory log = [(segment_path 0, []), (index_path 0, [])] \<and> index' log = [] \<and> next_offset' log = 0 \<and>
      options' log = opts"
    by (simp add: log recover_def open_active_segment_def PartitionLog.make_def active_segment_base_def write_item_def
        append_file_def file_content_def)
  then show ?thesis using fresh_log_inv [of z opts]
    by (simp add: log_inv_def fresh_log_def PartitionLog.make_def readable_def)
qed

lemma append_step_options [simp]: "options' (append_step op s) = options' s"
  by (auto simp: append_step_def append_batch_def Let_def split: sum.split)

lemma run_append_options [simp]: "options' (run_steps append_step ops s) = options' s"
  by (induction ops arbitrary: s) simp_all

text \<open>An environment without I/O failures and a constant clock.\<close>

definition quiet_env :: AppendEnv where
  "quiet_env = \<lparr>unix_time_ns = (\<lambda>_. 99), file_age_seconds = (\<lambda>_ _. 0), io_fault = (\<lambda>_. None)\<rparr>"

definition sample_options :: PartitionLogOptions where
  "sample_options = PartitionLogOptions.make ''t'' 0 1024 3600 1048576"

lemma append_one_fresh:
  assumes "length k + length v < 1024"
  shows "fst (append_batch quiet_env [AppendRecord.make k v] (fresh_log sample_options)) =
    Inr [RecordMetadata.make ''t'' 0 0 99 (of_nat (40 + length k + length v))]"
proof -
  have "encode_record 0 99 k v =
      Inr (write_u32 (of_nat (36 + length k + length v)) @ sealed (record_body 0 99 k v))"
    using assms by (subst encode_record_iff) simp
  moreover have "file_size_or_zero (directory (fresh_log opts)) (segment_path 0) = 0" for opts
    by (simp add: fresh_log_def PartitionLog.make_def file_size_or_zero_def)
  ultimately show ?thesis
    by (simp add: append_batch_def Let_def quiet_env_def active_segment_base_def roll_due_def
        AppendRecord.make_def sample_options_def PartitionLogOptions.make_def add.assoc)
qed

text \<open>A record that the format can hold is appended when no write fails.\<close>

lemma append_one_accepts:
  assumes "36 + length k + length v < 2 ^ 32" "io_fault env = (\<lambda>_. None)"
  shows "\<exists>ms s'. append_batch env [AppendRecord.make k v] s = (Inr ms, s')"
proof -
  obtain e where "encode_record (next_offset' s) (unix_time_ns env 0) k v = Inr e"
    using assms(1) encode_record_iff by blast
  then show ?thesis using assms(2) by (simp add: append_batch_def Let_def AppendRecord.make_def)
qed

text \<open>Opening the directory of a log after a stop or a crash in the middle of a write.\<close>

lemma reopen_crashed:
  assumes inv: "log_inv z log" and base: "active_base log \<le> base"
    and crash: "crash_dir (directory log) base t fs" "torn_item t"
    and opts: "is_valid_topic_name (PartitionLogOptions.topic (options' log))" "max_segment_bytes (options' log) \<noteq> 0"
  shows "\<exists>log'. open_log z (options' log) fs = Inr log' \<and> log_inv z log' \<and> options' log' = options' log \<and>
    readable z log' = readable z log \<and> next_offset' log' = next_offset' log"
proof -
  obtain log' where log': "open_log z (options' log) fs = Inr log'" "log_inv z log'" "options' log' = options' log"
    "index' log' = index' log" "next_offset' log' = next_offset' log" "\<And>b. content_of log' b = content_of log b"
    using recover_crash [OF inv [unfolded log_inv_def] base crash opts] by auto
  have "readable z log' = readable z log"
  proof (rule readable_cong [OF inv log'(4)])
    fix b assume "b \<in> segment_bases (directory log)" "content_of log b \<noteq> []"
    then show "map_of (directory log') (segment_path b) = map_of (directory log) (segment_path b)"
      using log'(6) [of b] by (auto simp: segment_bases_def file_content_def split: option.splits)
  qed (simp add: log'(3))
  then show ?thesis using log' by auto
qed

section \<open>Properties\<close>

text \<open>
  C2: a successful append stores exactly the batch. The log's invariant holds afterwards, the returned
  metadata carry consecutive offsets from the old next offset, the next offset advances by the length
  of the batch, and the readable records are the old ones followed by the new ones in order, whatever
  segment rolls happened on the way.
\<close>

theorem append_batch_appends:
  assumes "log_inv z s" "unat (next_offset' s) + length recs < 2 ^ 64"
    and "append_batch env recs s = (Inr ms, s')"
  shows "log_inv z s' \<and> next_offset' s' = next_offset' s + of_nat (length recs) \<and>
    length ms = length recs \<and>
    (\<forall>j < length recs. RecordMetadata.offset (ms ! j) = next_offset' s + of_nat j) \<and>
    readable z s' = readable z s @ stored_records ms recs"
  using append_batch_ok [OF assms] by (simp add: stored_records_def)

theorem append_batch_appends_witness:
  "let r = append_batch quiet_env [AppendRecord.make [1] [2, 3]] (fresh_log sample_options);
       ms = [RecordMetadata.make ''t'' 0 0 99 43]
   in log_inv zstd_stored (snd r) \<and> readable zstd_stored (snd r) =
      stored_records ms [AppendRecord.make [1] [2, 3]]"
  using append_batch_appends [OF fresh_log_inv, of sample_options "[AppendRecord.make [1] [2, 3]]"
      quiet_env "[RecordMetadata.make ''t'' 0 0 99 43]" _ zstd_stored]
    append_one_fresh [of "[1]" "[2, 3]"]
  by (simp add: Let_def prod_eq_iff)

text \<open>
  C3: a failed append changes nothing. After an error at any record of the batch, whatever part of the
  record and of its index entry reached the files, every log file has its old bytes, the index, the
  next offset and the readable records are the old ones, and the invariant holds.
\<close>

theorem append_batch_atomic:
  assumes "log_inv z s" "append_batch env recs s = (Inl what, s')"
  shows "log_inv z s' \<and> index' s' = index' s \<and> next_offset' s' = next_offset' s \<and>
    (\<forall>b. map_of (directory s') (segment_path b) = map_of (directory s) (segment_path b)) \<and>
    readable z s' = readable z s"
  using assms by (rule append_batch_fail)

theorem append_batch_atomic_witness:
  "let env = quiet_env\<lparr>io_fault := (\<lambda>_. Some (''disk full'', 5, 0))\<rparr>;
       r = append_batch env [AppendRecord.make [1] [2]] (fresh_log sample_options)
   in fst r = Inl ''disk full'' \<and> log_inv zstd_stored (snd r) \<and> next_offset' (snd r) = 0"
proof -
  let ?env = "quiet_env\<lparr>io_fault := (\<lambda>_. Some (''disk full'', 5, 0))\<rparr>"
  let ?r = "append_batch ?env [AppendRecord.make [1] [2]] (fresh_log sample_options)"
  have "\<exists>e. encode_record 0 99 [1] [2] = Inr e" by (simp add: encode_record_iff)
  then have failed: "fst ?r = Inl ''disk full''"
    by (auto simp: append_batch_def Let_def quiet_env_def AppendRecord.make_def)
  then have "?r = (Inl ''disk full'', snd ?r)" by (metis prod.collapse)
  from append_batch_atomic [OF fresh_log_inv [of zstd_stored] this] failed
  show ?thesis unfolding Let_def by (metis fresh_log_simps(3))
qed



text \<open>
  A consumer reads its producer's writes. After a successful append, a read from the old next
  offset returns exactly the appended records, with the offsets that the append returned.
\<close>

lemma read_your_writes:
  assumes inv: "log_inv z s" and range: "unat (next_offset' s) + length recs < 2 ^ 64"
    and run: "append_batch env recs s = (Inr ms, s')"
  shows "read_from z (next_offset' s) (length recs) 0 s' = Inr (stored_records ms recs)"
proof -
  note ok = append_batch_ok [OF inv range run]
  let ?P = "\<lambda>r. next_offset' s \<le> RecordMetadata.offset (Record.metadata r)"
  have "RecordMetadata.offset (Record.metadata r) < next_offset' s" if "r \<in> set (readable z s)" for r
  proof -
    have "unat (RecordMetadata.offset (Record.metadata r)) \<in>
        set (map (\<lambda>r. unat (RecordMetadata.offset (Record.metadata r))) (readable z s))"
      using that by simp
    then show ?thesis unfolding readable_offsets [OF inv] by (simp add: word_less_nat_alt)
  qed
  then have old: "filter ?P (readable z s) = []" by (auto simp: filter_empty_conv not_le)
  have "?P r" if r: "r \<in> set (stored_records ms recs)" for r
  proof -
    obtain j where j: "j < length recs" "Record.metadata r = ms ! j"
      using r ok by (auto simp: stored_records_def set_zip)
    have "unat (next_offset' s + of_nat j) = unat (next_offset' s) + j"
      using range j(1) by (intro unat_add_of_nat) simp
    then show ?thesis using ok j by (simp add: word_le_nat_alt)
  qed
  then have new: "filter ?P (stored_records ms recs) = stored_records ms recs" by simp
  have "filter ?P (readable z s') = stored_records ms recs"
    using ok old new by (simp add: stored_records_def)
  moreover have "length (stored_records ms recs) = length recs" using ok by (simp add: stored_records_def)
  moreover obtain k where "read_from z (next_offset' s) (length recs) 0 s' =
      Inr (take k (filter ?P (readable z s')))" "k = min (length recs) (length (filter ?P (readable z s')))"
    using read_from_prefix [of z s' "filter ?P (readable z s')" "next_offset' s" "length recs" 0] ok by auto
  ultimately show ?thesis by simp
qed



end
