(* ===== verification/Bolt_Map.thy ===== *)
theory Bolt_Map
  imports Bolt_Prelude
begin

text \<open>
  \<open>std::map\<close>: the broker keeps topics, groups, members and committed offsets in ordered maps and
  iterates over them in key order. A map is an association list that is sorted strictly by its keys;
  \<open>map_of\<close> is \<open>find\<close>, \<open>map_put\<close> is insertion or assignment, \<open>map_erase\<close> and \<open>map_erase_if\<close> are \<open>erase\<close>
  by key and in an iterator loop.
\<close>

fun map_put :: "'k::linorder \<Rightarrow> 'v \<Rightarrow> ('k \<times> 'v) list \<Rightarrow> ('k \<times> 'v) list" where
  "map_put k v [] = [(k, v)]"
| "map_put k v ((k', v') # m) =
     (if k < k' then (k, v) # (k', v') # m
      else if k = k' then (k, v) # m
      else (k', v') # map_put k v m)"

definition map_erase_if :: "('k \<Rightarrow> 'v \<Rightarrow> bool) \<Rightarrow> ('k \<times> 'v) list \<Rightarrow> ('k \<times> 'v) list" where
  "map_erase_if p m = filter (\<lambda>(k, v). \<not> p k v) m"

definition map_erase :: "'k \<Rightarrow> ('k \<times> 'v) list \<Rightarrow> ('k \<times> 'v) list" where
  "map_erase k m = map_erase_if (\<lambda>k' _. k' = k) m"

definition sorted_map :: "('k::linorder \<times> 'v) list \<Rightarrow> bool" where
  "sorted_map m \<longleftrightarrow> sorted_wrt (<) (map fst m)"

named_theorems map_simps \<open>lookups in and shapes of updated ordered maps\<close>

lemma map_of_map_put [simp]: "map_of (map_put k v m) = (map_of m)(k \<mapsto> v)"
  by (induction k v m rule: map_put.induct) (auto simp: fun_eq_iff)

lemma set_map_put:
  "set (map_put k v m) \<subseteq> insert (k, v) (set m)"
  by (induction k v m rule: map_put.induct) auto

lemma keys_map_put [simp]: "fst ` set (map_put k v m) = insert k (fst ` set m)"
  by (induction k v m rule: map_put.induct) auto

lemma sorted_map_Nil [simp]: "sorted_map []"
  by (simp add: sorted_map_def)

lemma sorted_map_Cons: "sorted_map ((k, v) # m) \<longleftrightarrow> (\<forall>k' \<in> fst ` set m. k < k') \<and> sorted_map m"
  by (simp add: sorted_map_def)

lemma sorted_map_put [simp]: "sorted_map m \<Longrightarrow> sorted_map (map_put k v m)"
  by (induction k v m rule: map_put.induct) (auto simp: sorted_map_Cons)

lemma sorted_map_erase_if [simp]: "sorted_map m \<Longrightarrow> sorted_map (map_erase_if p m)"
  by (auto simp: sorted_map_def map_erase_if_def intro: sorted_wrt_filter simp: sorted_wrt_map)

lemma sorted_map_erase [simp]: "sorted_map m \<Longrightarrow> sorted_map (map_erase k m)"
  by (simp add: map_erase_def)

lemma sorted_map_distinct: "sorted_map m \<Longrightarrow> distinct (map fst m)"
  by (simp add: sorted_map_def strict_sorted_iff)

lemma sorted_map_of [simp]: "sorted_map m \<Longrightarrow> map_of m k = Some v \<longleftrightarrow> (k, v) \<in> set m"
  by (auto dest: map_of_SomeD intro: map_of_is_SomeI sorted_map_distinct)

declare sorted_map_of [simp del]

lemma map_erase_if_subset: "set (map_erase_if p m) \<subseteq> set m"
  by (auto simp: map_erase_if_def)

lemma map_of_erase_if:
  assumes "sorted_map m"
  shows "map_of (map_erase_if p m) k =
    (case map_of m k of None \<Rightarrow> None | Some v \<Rightarrow> if p k v then None else Some v)"
proof (cases "map_of m k")
  case None
  then have "map_of (map_erase_if p m) k = None"
    by (auto simp: map_of_eq_None_iff map_erase_if_def)
  with None show ?thesis by simp
next
  case (Some v)
  then have "map_of (map_erase_if p m) k = Some v \<longleftrightarrow> \<not> p k v"
    using assms by (simp add: sorted_map_of) (simp add: map_erase_if_def)
  moreover have "v' = v" if "map_of (map_erase_if p m) k = Some v'" for v'
    using that Some assms map_erase_if_subset [of p m] by (auto simp: sorted_map_of
        dest: eq_key_imp_eq_value [OF sorted_map_distinct])
  ultimately show ?thesis using Some by (cases "map_of (map_erase_if p m) k") auto
qed

lemma map_of_erase [simp]: "map_of (map_erase k m) = (map_of m)(k := None)"
  by (rule ext, induction m) (auto simp: map_erase_def map_erase_if_def)

lemma map_erase_if_none: "(\<And>k v. (k, v) \<in> set m \<Longrightarrow> \<not> p k v) \<Longrightarrow> map_erase_if p m = m"
  by (auto simp: map_erase_if_def intro!: filter_True)

lemma sorted_map_eqI:
  assumes "sorted_map m" "sorted_map m'" "map_of m = map_of m'"
  shows "m = m'"
proof -
  have "set m = set m'" using assms by (auto simp flip: sorted_map_of)
  moreover have "sorted (map fst m)" "sorted (map fst m')" "distinct (map fst m)" "distinct (map fst m')"
    using assms(1,2) by (auto simp: sorted_map_def strict_sorted_iff)
  ultimately show ?thesis
    using map_sorted_distinct_set_unique [of fst m m'] by (auto simp: distinct_map)
qed

end
