(* ===== verification/Bolt_Groups.thy ===== *)
theory Bolt_Groups
  imports Bolt_Wire Bolt_Text Bolt_Map
begin

text \<open>
  The consumer group coordinator of \<open>src/src/broker/group_coordinator.cpp\<close>: membership with session
  timeouts, the generation counter and the assignment of a topic's partitions to the members of a group.
  Times of the steady clock are integers in nanoseconds. Every public operation takes the coordinator's
  lock for its whole body, so an operation is one step of the model; an exception is the \<open>Inl\<close> result,
  and the state beside it is the one that the exception leaves behind.
\<close>

section \<open>State\<close>

datatype GroupKey = GroupKey (key_group: string) (key_topic: string)

text \<open>\<open>operator<\<close> of the key, which orders the map of groups.\<close>

definition group_key_less :: "GroupKey \<Rightarrow> GroupKey \<Rightarrow> bool" where
  "group_key_less a b \<longleftrightarrow>
     (if key_group a \<noteq> key_group b then key_group a < key_group b else key_topic a < key_topic b)"

instantiation GroupKey :: linorder
begin

definition less_GroupKey :: "GroupKey \<Rightarrow> GroupKey \<Rightarrow> bool" where
  "less_GroupKey = group_key_less"

definition less_eq_GroupKey :: "GroupKey \<Rightarrow> GroupKey \<Rightarrow> bool" where
  "less_eq_GroupKey a b \<longleftrightarrow> a = b \<or> a < b"

instance
proof
  fix a b c :: GroupKey
  show "a < b \<longleftrightarrow> a \<le> b \<and> \<not> b \<le> a" "a \<le> a" "a \<le> b \<or> b \<le> a"
    by (auto simp: less_eq_GroupKey_def less_GroupKey_def group_key_less_def GroupKey.expand)
  show "a \<le> c" if "a \<le> b" "b \<le> c"
    using that by (auto simp: less_eq_GroupKey_def less_GroupKey_def group_key_less_def split: if_splits)
  show "a = b" if "a \<le> b" "b \<le> a"
    using that by (auto simp: less_eq_GroupKey_def less_GroupKey_def group_key_less_def split: if_splits)
qed

end

record MemberState =
  member_id :: string
  session_timeout_ms :: u32
  last_heartbeat :: int
  assignment :: "u16 list"

record GroupState =
  group :: string
  topic :: string
  partition_count :: u16
  generation_id :: u64
  members :: "(string \<times> MemberState) list"

record GroupCoordinator =
  groups :: "(GroupKey \<times> GroupState) list"
  next_member_id' :: u64

text \<open>\<open>Result\<close> and \<open>Snapshot\<close> of the class.\<close>

record GroupResult =
  group :: string
  topic :: string
  member_id :: string
  generation_id :: u64
  assignment :: "u16 list"
  expired_member_ids :: "string list"
  member_joined :: bool
  member_left :: bool
  generation_changed :: bool

record GroupSnapshot =
  group :: string
  topic :: string
  generation_id :: u64
  active_members :: nat

type_synonym group_error = "ErrorCode \<times> string"

section \<open>Assignment\<close>

text \<open>The loop over the members: \<open>base + (index < remainder ? 1 : 0)\<close> partitions for each.\<close>

fun assign_loop ::
  "nat \<Rightarrow> nat \<Rightarrow> nat \<Rightarrow> u16 \<Rightarrow> (string \<times> MemberState) list \<Rightarrow> (string \<times> MemberState) list" where
  "assign_loop base remainder index next_partition [] = []"
| "assign_loop base remainder index next_partition ((ident, m) # ms) =
     (let count = base + (if index < remainder then 1 else 0) in
      (ident, m\<lparr>MemberState.assignment := map (\<lambda>assigned. next_partition + of_nat assigned) [0..<count]\<rparr>) #
      assign_loop base remainder (index + 1) (next_partition + of_nat count) ms)"

definition recompute_assignment :: "GroupState \<Rightarrow> GroupState" where
  "recompute_assignment st =
     (let cleared = map (\<lambda>(ident, m). (ident, m\<lparr>MemberState.assignment := []\<rparr>)) (members st) in
      if members st = [] \<or> partition_count st = 0 then st\<lparr>members := cleared\<rparr>
      else let member_count = length (members st) in
        st\<lparr>members := assign_loop (unat (partition_count st) div member_count)
             (unat (partition_count st) mod member_count) 0 0 cleared\<rparr>)"

definition bump_generation :: "GroupState \<Rightarrow> GroupState" where
  "bump_generation st =
     recompute_assignment (st\<lparr>GroupState.generation_id := GroupState.generation_id st + 1\<rparr>)"

definition owns_partition :: "MemberState \<Rightarrow> u16 \<Rightarrow> bool" where
  "owns_partition m part \<longleftrightarrow> part \<in> set (MemberState.assignment m)"

section \<open>Membership\<close>

definition timed_out :: "int \<Rightarrow> MemberState \<Rightarrow> bool" where
  "timed_out now m \<longleftrightarrow> now - last_heartbeat m \<ge> int (unat (session_timeout_ms m)) * 1000000"

definition expire_members :: "GroupState \<Rightarrow> int \<Rightarrow> string list \<times> GroupState" where
  "expire_members st now =
     (map fst (filter (\<lambda>(_, m). timed_out now m) (members st)),
      st\<lparr>members := map_erase_if (\<lambda>_. timed_out now) (members st)\<rparr>)"

text \<open>The lines that open every operation on a group: expire, and start a generation if anyone left.\<close>

definition evict :: "GroupState \<Rightarrow> int \<Rightarrow> string list \<times> GroupState" where
  "evict st now =
     (let (expired, st1) = expire_members st now in
      (expired, if expired \<noteq> [] then bump_generation st1 else st1))"

definition make_result :: "GroupState \<Rightarrow> MemberState option \<Rightarrow> GroupResult" where
  "make_result st m =
     GroupResult.make (GroupState.group st) (GroupState.topic st)
       (case m of None \<Rightarrow> [] | Some m \<Rightarrow> MemberState.member_id m) (GroupState.generation_id st)
       (case m of None \<Rightarrow> [] | Some m \<Rightarrow> MemberState.assignment m) [] False False False"

definition next_member_id :: "GroupCoordinator \<Rightarrow> string \<times> GroupCoordinator" where
  "next_member_id c =
     (''member-'' @ pad_zero 12 (unat (next_member_id' c)), c\<lparr>next_member_id' := next_member_id' c + 1\<rparr>)"

abbreviation put_group :: "GroupKey \<Rightarrow> GroupState \<Rightarrow> GroupCoordinator \<Rightarrow> GroupCoordinator" where
  "put_group k st c \<equiv> c\<lparr>groups := map_put k st (groups c)\<rparr>"

abbreviation put_member :: "string \<Rightarrow> MemberState \<Rightarrow> GroupState \<Rightarrow> GroupState" where
  "put_member ident m st \<equiv> st\<lparr>members := map_put ident m (members st)\<rparr>"

section \<open>Operations\<close>

text \<open>\<open>groups_[key]\<close> creates the state of a group that is not known yet.\<close>

definition enter_group :: "string \<Rightarrow> string \<Rightarrow> u16 \<Rightarrow> GroupCoordinator \<Rightarrow> GroupState" where
  "enter_group grp tpc count c =
     (let st = (case map_of (groups c) (GroupKey grp tpc) of
                  None \<Rightarrow> GroupState.make [] [] 0 0 [] | Some st \<Rightarrow> st);
          st = (if GroupState.group st = [] then st\<lparr>GroupState.group := grp, GroupState.topic := tpc\<rparr> else st)
      in st\<lparr>GroupState.partition_count := count\<rparr>)"

definition join ::
  "string \<Rightarrow> string \<Rightarrow> string \<Rightarrow> u32 \<Rightarrow> u16 \<Rightarrow> int \<Rightarrow> GroupCoordinator \<Rightarrow> GroupResult \<times> GroupCoordinator" where
  "join grp tpc mid timeout count now c =
     (let (expired, st1) = evict (enter_group grp tpc count c) now;
          (ident, c1) = (if mid = [] then next_member_id c else (mid, c));
          inserted = (map_of (members st1) ident = None);
          st2 = (if inserted then bump_generation (put_member ident (MemberState.make ident 0 0 []) st1) else st1);
          m = (the (map_of (members st2) ident))\<lparr>session_timeout_ms := timeout, last_heartbeat := now\<rparr>;
          st3 = put_member ident m st2;
          st4 = (if \<not> inserted \<and> MemberState.assignment m = [] then recompute_assignment st3 else st3)
      in ((make_result st4 (map_of (members st4) ident))
            \<lparr>member_joined := inserted, generation_changed := (expired \<noteq> [] \<or> inserted),
             expired_member_ids := expired\<rparr>,
          put_group (GroupKey grp tpc) st4 c1))"

text \<open>The checks that \<open>sync\<close>, \<open>heartbeat\<close> and \<open>leave\<close> share.\<close>

definition find_member ::
  "string \<Rightarrow> u64 \<Rightarrow> GroupState \<Rightarrow> group_error + MemberState" where
  "find_member mid gen st =
     (case map_of (members st) mid of
        None \<Rightarrow> Inl (StaleMember, ''group member is stale'')
      | Some m \<Rightarrow>
          if gen \<noteq> GroupState.generation_id st
          then Inl (RebalanceRequired, ''group generation has changed'') else Inr m)"

definition sync ::
  "string \<Rightarrow> string \<Rightarrow> string \<Rightarrow> u64 \<Rightarrow> int \<Rightarrow> GroupCoordinator \<Rightarrow> (group_error + GroupResult) \<times> GroupCoordinator" where
  "sync grp tpc mid gen now c =
     (case map_of (groups c) (GroupKey grp tpc) of
        None \<Rightarrow> (Inl (StaleMember, ''consumer group is unknown''), c)
      | Some st \<Rightarrow>
         (let (expired, st1) = evict st now in
          case find_member mid gen st1 of
            Inl err \<Rightarrow> (Inl err, put_group (GroupKey grp tpc) st1 c)
          | Inr m \<Rightarrow>
             (let m = m\<lparr>last_heartbeat := now\<rparr> in
              (Inr ((make_result st1 (Some m))
                 \<lparr>generation_changed := (expired \<noteq> []), expired_member_ids := expired\<rparr>),
               put_group (GroupKey grp tpc) (put_member mid m st1) c))))"

definition heartbeat ::
  "string \<Rightarrow> string \<Rightarrow> string \<Rightarrow> u64 \<Rightarrow> int \<Rightarrow> GroupCoordinator \<Rightarrow> (group_error + GroupResult) \<times> GroupCoordinator" where
  "heartbeat grp tpc mid gen now c =
     (case map_of (groups c) (GroupKey grp tpc) of
        None \<Rightarrow> (Inl (StaleMember, ''consumer group is unknown''), c)
      | Some st \<Rightarrow>
         (let (expired, st1) = evict st now in
          case find_member mid gen st1 of
            Inl err \<Rightarrow> (Inl err, put_group (GroupKey grp tpc) st1 c)
          | Inr m \<Rightarrow>
             (let m = m\<lparr>last_heartbeat := now\<rparr> in
              (Inr ((make_result st1 (Some m))
                 \<lparr>generation_changed := (expired \<noteq> []), expired_member_ids := expired\<rparr>),
               put_group (GroupKey grp tpc) (put_member mid m st1) c))))"

definition leave ::
  "string \<Rightarrow> string \<Rightarrow> string \<Rightarrow> u64 \<Rightarrow> int \<Rightarrow> GroupCoordinator \<Rightarrow> (group_error + GroupResult) \<times> GroupCoordinator" where
  "leave grp tpc mid gen now c =
     (case map_of (groups c) (GroupKey grp tpc) of
        None \<Rightarrow> (Inl (StaleMember, ''consumer group is unknown''), c)
      | Some st \<Rightarrow>
         (let (expired, st1) = evict st now in
          case find_member mid gen st1 of
            Inl err \<Rightarrow> (Inl err, put_group (GroupKey grp tpc) st1 c)
          | Inr m \<Rightarrow>
             (let st2 = bump_generation (st1\<lparr>members := map_erase mid (members st1)\<rparr>) in
              (Inr ((make_result st1 (Some m))
                 \<lparr>GroupResult.generation_id := GroupState.generation_id st2, member_left := True,
                  generation_changed := True, expired_member_ids := expired\<rparr>),
               put_group (GroupKey grp tpc) st2 c))))"

definition expire :: "string \<Rightarrow> string \<Rightarrow> int \<Rightarrow> GroupCoordinator \<Rightarrow> GroupResult \<times> GroupCoordinator" where
  "expire grp tpc now c =
     (case map_of (groups c) (GroupKey grp tpc) of
        None \<Rightarrow> (GroupResult.make grp tpc [] 0 [] [] False False False, c)
      | Some st \<Rightarrow>
         (let (expired, st1) = evict st now in
          ((make_result st None)\<lparr>expired_member_ids := expired,
              GroupResult.generation_id := GroupState.generation_id st1,
              generation_changed := (expired \<noteq> [])\<rparr>,
           put_group (GroupKey grp tpc) st1 c)))"

definition validate_commit ::
  "string \<Rightarrow> string \<Rightarrow> string \<Rightarrow> u64 \<Rightarrow> u16 \<Rightarrow> int \<Rightarrow> GroupCoordinator \<Rightarrow>
   (group_error + GroupResult) \<times> GroupCoordinator" where
  "validate_commit grp tpc mid gen part now c =
     (case map_of (groups c) (GroupKey grp tpc) of
        None \<Rightarrow> (Inl (StaleMember, ''consumer group is unknown''), c)
      | Some st \<Rightarrow>
         (let (expired, st1) = evict st now; c1 = put_group (GroupKey grp tpc) st1 c in
          case map_of (members st1) mid of
            None \<Rightarrow> (Inl (StaleMember, ''group member is stale''), c1)
          | Some m \<Rightarrow>
             if gen \<noteq> GroupState.generation_id st1
             then (Inl (StaleMember, ''group generation is stale for commit''), c1)
             else if \<not> owns_partition m part
             then (Inl (StaleMember, ''group member does not own committed partition''), c1)
             else let m = m\<lparr>last_heartbeat := now\<rparr> in
               (Inr ((make_result st1 (Some m))
                  \<lparr>generation_changed := (expired \<noteq> []), expired_member_ids := expired\<rparr>),
                put_group (GroupKey grp tpc) (put_member mid m st1) c)))"

definition active_member_count :: "string \<Rightarrow> string \<Rightarrow> int \<Rightarrow> GroupCoordinator \<Rightarrow> nat \<times> GroupCoordinator" where
  "active_member_count grp tpc now c =
     (case map_of (groups c) (GroupKey grp tpc) of
        None \<Rightarrow> (0, c)
      | Some st \<Rightarrow>
         (let (_, st1) = evict st now in (length (members st1), put_group (GroupKey grp tpc) st1 c)))"

definition has_active_members :: "string \<Rightarrow> string \<Rightarrow> int \<Rightarrow> GroupCoordinator \<Rightarrow> bool \<times> GroupCoordinator" where
  "has_active_members grp tpc now c =
     (case map_of (groups c) (GroupKey grp tpc) of
        None \<Rightarrow> (False, c)
      | Some st \<Rightarrow>
         (let (_, st1) = evict st now in (members st1 \<noteq> [], put_group (GroupKey grp tpc) st1 c)))"

definition topic_has_active_members :: "string \<Rightarrow> int \<Rightarrow> GroupCoordinator \<Rightarrow> bool \<times> GroupCoordinator" where
  "topic_has_active_members tpc now c =
     (let gs = map (\<lambda>(k, st). (k, if key_topic k \<noteq> tpc then st else snd (evict st now))) (groups c) in
      (list_ex (\<lambda>(k, st). key_topic k = tpc \<and> members st \<noteq> []) gs, c\<lparr>groups := gs\<rparr>))"

definition remove_topic_groups :: "string \<Rightarrow> GroupCoordinator \<Rightarrow> GroupCoordinator" where
  "remove_topic_groups tpc c = c\<lparr>groups := map_erase_if (\<lambda>k _. key_topic k = tpc) (groups c)\<rparr>"

definition snapshots :: "int \<Rightarrow> GroupCoordinator \<Rightarrow> GroupSnapshot list" where
  "snapshots now c =
     map (\<lambda>(k, st). GroupSnapshot.make (key_group k) (key_topic k) (GroupState.generation_id st)
       (length (filter (\<lambda>(_, m). now - last_heartbeat m < int (unat (session_timeout_ms m)) * 1000000)
         (members st)))) (groups c)"

end
