(* ===== verification/Bolt_Group_Invariant.thy ===== *)
theory Bolt_Group_Invariant
  imports Bolt_Groups
begin

text \<open>
  The assignment of partitions against a reference definition (contiguous ranges in member order), and
  the invariant of the group coordinator with its preservation by every operation.
\<close>

section \<open>Reference assignment\<close>

text \<open>The first partition of the \<open>i\<close>-th of \<open>k\<close> members, and the ranges of all members.\<close>

definition range_start :: "nat \<Rightarrow> nat \<Rightarrow> nat \<Rightarrow> nat" where
  "range_start n k i = i * (n div k) + min i (n mod k)"

definition ranges :: "nat \<Rightarrow> nat \<Rightarrow> u16 list list" where
  "ranges n k = map (\<lambda>i. map of_nat [range_start n k i..<range_start n k (Suc i)]) [0..<k]"

definition with_assignments ::
  "(string \<times> MemberState) list \<Rightarrow> u16 list list \<Rightarrow> (string \<times> MemberState) list" where
  "with_assignments ms as = map2 (\<lambda>(ident, m) a. (ident, m\<lparr>MemberState.assignment := a\<rparr>)) ms as"

abbreviation assignments :: "(string \<times> MemberState) list \<Rightarrow> u16 list list" where
  "assignments ms \<equiv> map (\<lambda>(_, m). MemberState.assignment m) ms"

lemma length_ranges [simp]: "length (ranges n k) = k"
  by (simp add: ranges_def)

lemma range_start_Suc:
  "range_start n k (Suc i) = range_start n k i + (n div k + (if i < n mod k then 1 else 0))"
  by (simp add: range_start_def)

lemma range_start_0 [simp]: "range_start n k 0 = 0"
  by (simp add: range_start_def)

lemma range_start_end [simp]: "0 < k \<Longrightarrow> range_start n k k = n"
  using mod_less_divisor [of k n] by (simp add: range_start_def min.absorb2 less_imp_le)

lemma length_ranges_nth: "i < k \<Longrightarrow> length (ranges n k ! i) = n div k + (if i < n mod k then 1 else 0)"
  by (simp add: ranges_def range_start_Suc)

lemma concat_upt: "(\<And>i. f i \<le> f (Suc i)) \<Longrightarrow> concat (map (\<lambda>i. [f i..<f (Suc i)]) [0..<k]) = [f 0..<f k]"
  for f :: "nat \<Rightarrow> nat"
proof (induction k)
  case (Suc k)
  moreover have "f 0 \<le> f k" using lift_Suc_mono_le [of f 0 k] Suc.prems by simp
  moreover have "[f 0..<f k] @ [f k..<f (Suc k)] = [f 0..<f (Suc k)]"
    using upt_add_eq_append [of "f 0" "f k" "f (Suc k) - f k"] Suc.prems [of k] \<open>f 0 \<le> f k\<close> by simp
  ultimately show ?case by simp
qed simp

lemma concat_ranges: "0 < k \<Longrightarrow> concat (ranges n k) = map of_nat [0..<n]"
proof -
  assume k: "0 < k"
  have "concat (ranges n k) = map of_nat (concat (map (\<lambda>i. [range_start n k i..<range_start n k (Suc i)]) [0..<k]))"
    by (simp add: ranges_def map_concat comp_def)
  also have "\<dots> = map of_nat [0..<n]"
    using concat_upt [of "range_start n k" k] k by (simp add: range_start_Suc)
  finally show ?thesis .
qed

lemma assign_loop_ranges:
  "assign_loop (n div k) (n mod k) i (of_nat (range_start n k i)) ms =
     with_assignments ms (map (\<lambda>i. map of_nat [range_start n k i..<range_start n k (Suc i)]) [i..<i + length ms])"
proof (induction ms arbitrary: i)
  case (Cons im ms)
  obtain ident m where im: "im = (ident, m)" by (cases im)
  let ?s = "range_start n k"
  let ?count = "n div k + (if i < n mod k then 1 else 0)"
  have upt: "[i..<i + length (im # ms)] = i # [Suc i..<Suc i + length ms]"
    using upt_conv_Cons [of i "i + length (im # ms)"] by simp
  have "map (\<lambda>a. of_nat (?s i) + of_nat a) [0..<?count] = (map of_nat [?s i..<?s (Suc i)] :: u16 list)"
    by (rule nth_equalityI) (simp_all add: range_start_Suc)
  moreover have "of_nat (?s i) + of_nat ?count = (of_nat (?s (Suc i)) :: u16)"
    by (simp add: range_start_Suc)
  ultimately show ?case
    using Cons.IH [of "Suc i"] unfolding upt
    by (simp only: im assign_loop.simps Let_def with_assignments_def list.map zip_Cons_Cons prod.case Suc_eq_plus1)
qed (simp add: with_assignments_def)

lemma with_assignments_cleared:
  "with_assignments (map (\<lambda>(ident, m). (ident, m\<lparr>MemberState.assignment := a\<rparr>)) ms) as = with_assignments ms as"
  unfolding with_assignments_def zip_map1 map_map by (rule map_cong) auto

text \<open>The routine of the code computes the reference ranges, on every branch.\<close>

lemma recompute_assignment_ranges:
  "recompute_assignment st =
     st\<lparr>members := with_assignments (members st)
          (ranges (unat (GroupState.partition_count st)) (length (members st)))\<rparr>"
proof -
  let ?n = "unat (GroupState.partition_count st)" and ?k = "length (members st)"
  have none: "ranges 0 k = replicate k []" for k
    by (rule nth_equalityI) (simp_all add: ranges_def range_start_def)
  have zero: "with_assignments ms (replicate (length ms) []) =
      map (\<lambda>(ident, m). (ident, m\<lparr>MemberState.assignment := []\<rparr>)) ms" for ms
    by (induction ms) (auto simp: with_assignments_def)
  show ?thesis
  proof (cases "members st = [] \<or> GroupState.partition_count st = 0")
    case True
    then show ?thesis by (auto simp: recompute_assignment_def Let_def none zero with_assignments_def [of "[]"])
  next
    case False
    let ?cleared = "map (\<lambda>(ident, m). (ident, m\<lparr>MemberState.assignment := []\<rparr>)) (members st)"
    have "assign_loop (?n div ?k) (?n mod ?k) 0 0 ?cleared = with_assignments (members st) (ranges ?n ?k)"
      using assign_loop_ranges [of ?n ?k 0 ?cleared]
      by (simp add: with_assignments_cleared ranges_def)
    with False show ?thesis by (simp add: recompute_assignment_def Let_def)
  qed
qed

lemma with_assignments_simps [simp]:
  "length as = length ms \<Longrightarrow> map fst (with_assignments ms as) = map fst ms"
  "length as = length ms \<Longrightarrow> assignments (with_assignments ms as) = as"
  "length as = length ms \<Longrightarrow> length (with_assignments ms as) = length ms"
  "with_assignments ms (assignments ms) = ms"
proof -
  show "length as = length ms \<Longrightarrow> map fst (with_assignments ms as) = map fst ms"
    "length as = length ms \<Longrightarrow> assignments (with_assignments ms as) = as"
    by (induction as ms rule: list_induct2) (auto simp: with_assignments_def)
  show "with_assignments ms (assignments ms) = ms"
    by (induction ms) (auto simp: with_assignments_def)
qed (simp add: with_assignments_def)

section \<open>Invariant\<close>

text \<open>
  The invariant of one group relative to the partition counts of the topics: members are kept under their
  ids in id order, and their assignments are the reference ranges of the topic's partitions.
\<close>

definition members_ok :: "(string \<times> MemberState) list \<Rightarrow> bool" where
  "members_ok ms \<longleftrightarrow> sorted_map ms \<and> (\<forall>(ident, m) \<in> set ms. MemberState.member_id m = ident)"

definition group_shape :: "(string \<Rightarrow> u16) \<Rightarrow> GroupKey \<Rightarrow> GroupState \<Rightarrow> bool" where
  "group_shape pc k st \<longleftrightarrow>
     GroupState.group st = key_group k \<and> GroupState.topic st = key_topic k \<and>
     GroupState.partition_count st = pc (key_topic k) \<and> members_ok (members st)"

definition group_inv :: "(string \<Rightarrow> u16) \<Rightarrow> GroupKey \<Rightarrow> GroupState \<Rightarrow> bool" where
  "group_inv pc k st \<longleftrightarrow> group_shape pc k st \<and>
     assignments (members st) = ranges (unat (GroupState.partition_count st)) (length (members st))"

definition coordinator_inv :: "(string \<Rightarrow> u16) \<Rightarrow> GroupCoordinator \<Rightarrow> bool" where
  "coordinator_inv pc c \<longleftrightarrow> sorted_map (groups c) \<and> (\<forall>(k, st) \<in> set (groups c). group_inv pc k st)"

lemma members_ok_Nil [simp]: "members_ok []"
  by (simp add: members_ok_def)

lemma members_ok_with_assignments [simp]:
  assumes "length as = length ms" "members_ok ms"
  shows "members_ok (with_assignments ms as)"
proof -
  have "map (\<lambda>(_, m). MemberState.member_id m) (with_assignments ms as) = map (\<lambda>(_, m). MemberState.member_id m) ms"
    using assms(1) by (induction as ms rule: list_induct2) (auto simp: with_assignments_def)
  moreover have "members_ok xs \<longleftrightarrow> sorted_wrt (<) (map fst xs) \<and> map (\<lambda>(_, m). MemberState.member_id m) xs = map fst xs" for xs
    by (auto simp: members_ok_def sorted_map_def intro!: map_cong)
  ultimately show ?thesis using assms(2) with_assignments_simps(1) [OF assms(1)] by metis
qed

lemma members_ok_put:
  "members_ok ms \<Longrightarrow> MemberState.member_id m = ident \<Longrightarrow> members_ok (map_put ident m ms)"
  using set_map_put [of ident m ms] by (fastforce simp: members_ok_def)

lemma members_ok_erase_if: "members_ok ms \<Longrightarrow> members_ok (map_erase_if p ms)"
  using map_erase_if_subset [of p ms] by (fastforce simp: members_ok_def)

lemma members_ok_find: "members_ok ms \<Longrightarrow> map_of ms ident = Some m \<Longrightarrow> MemberState.member_id m = ident"
  by (auto simp: members_ok_def sorted_map_of)

lemma map_put_same_view:
  assumes "sorted_map ms" "map_of ms ident = Some m" "f (ident, m') = f (ident, m)"
  shows "map f (map_put ident m' ms) = map f ms"
  using assms
proof (induction ms)
  case (Cons im ms)
  obtain i0 m0 where im: "im = (i0, m0)" by (cases im)
  show ?case
  proof (cases "ident = i0")
    case False
    then have "(ident, m) \<in> set ms" using Cons.prems im by (auto dest: map_of_SomeD)
    then have "i0 < ident" using Cons.prems(1) im by (force simp: sorted_map_Cons)
    then show ?thesis using Cons False im by (simp add: sorted_map_Cons)
  qed (use Cons im in auto)
qed simp

lemma recompute_group_inv: "group_shape pc k st \<Longrightarrow> group_inv pc k (recompute_assignment st)"
  by (simp add: group_inv_def group_shape_def recompute_assignment_ranges)

lemma recompute_idle: "group_inv pc k st \<Longrightarrow> recompute_assignment st = st"
  using with_assignments_simps(4) [of "members st"] by (simp add: group_inv_def recompute_assignment_ranges)

lemma bump_group_inv: "group_shape pc k st \<Longrightarrow> group_inv pc k (bump_generation st)"
  unfolding bump_generation_def by (rule recompute_group_inv) (simp add: group_shape_def)

lemma bump_generation_id [simp]:
  "GroupState.generation_id (bump_generation st) = GroupState.generation_id st + 1"
  "map fst (members (bump_generation st)) = map fst (members st)"
  by (simp_all add: bump_generation_def recompute_assignment_ranges)

lemma bump_keys: "fst ` set (members (bump_generation st)) = fst ` set (members st)"
  by (metis bump_generation_id(2) list.set_map)

lemma evict_group_inv:
  assumes "group_inv pc k st"
  shows "group_inv pc k (snd (evict st now))"
proof (cases "fst (expire_members st now) = []")
  case True
  then have "members (snd (expire_members st now)) = members st"
    by (auto simp: expire_members_def filter_empty_conv intro: map_erase_if_none)
  then have "snd (expire_members st now) = st" by (simp add: expire_members_def)
  then show ?thesis using True assms by (simp add: evict_def split_beta)
next
  case False
  have "group_shape pc k (snd (expire_members st now))"
    using assms by (simp add: group_inv_def group_shape_def expire_members_def members_ok_erase_if)
  then show ?thesis using False by (simp add: evict_def split_beta bump_group_inv)
qed

lemma put_member_group_inv:
  assumes "group_inv pc k st" "map_of (members st) ident = Some m"
    and "MemberState.assignment m' = MemberState.assignment m" "MemberState.member_id m' = ident"
  shows "group_inv pc k (put_member ident m' st)"
proof -
  have sorted: "sorted_map (members st)"
    using assms(1) by (simp add: group_inv_def group_shape_def members_ok_def)
  have "assignments (map_put ident m' (members st)) = assignments (members st)"
    "map fst (map_put ident m' (members st)) = map fst (members st)"
    by (intro map_put_same_view [OF sorted assms(2)]; simp add: assms(3))+
  then show ?thesis
    using assms(1,4) by (simp add: group_inv_def group_shape_def members_ok_put) (metis length_map)
qed

text \<open>The invariant of the coordinator, through lookups and updates of its map.\<close>

lemma coordinator_inv_find:
  "coordinator_inv pc c \<Longrightarrow> map_of (groups c) k = Some st \<Longrightarrow> group_inv pc k st"
  by (auto simp: coordinator_inv_def dest: map_of_SomeD)

lemma coordinator_inv_put:
  "coordinator_inv pc c \<Longrightarrow> group_inv pc k st \<Longrightarrow> coordinator_inv pc (put_group k st c)"
  using set_map_put [of k st "groups c"] by (fastforce simp: coordinator_inv_def)

lemma coordinator_inv_more [simp]:
  "coordinator_inv pc (c\<lparr>next_member_id' := n\<rparr>) \<longleftrightarrow> coordinator_inv pc c"
  by (simp add: coordinator_inv_def)

lemmas group_keeps = coordinator_inv_put coordinator_inv_find evict_group_inv put_member_group_inv

lemma find_member_Inr:
  "find_member mid gen st = Inr m \<longleftrightarrow>
     map_of (members st) mid = Some m \<and> gen = GroupState.generation_id st"
  by (auto simp: find_member_def split: option.splits)

lemma member_of_inv:
  "group_inv pc k st \<Longrightarrow> map_of (members st) mid = Some m \<Longrightarrow> MemberState.member_id m = mid"
  by (auto simp: group_inv_def group_shape_def dest: members_ok_find)

lemma touch_group_inv:
  "group_inv pc k st \<Longrightarrow> map_of (members st) mid = Some m \<Longrightarrow>
   group_inv pc k (put_member mid (m\<lparr>last_heartbeat := now\<rparr>) st)"
  using member_of_inv [of pc k st mid m] by (intro put_member_group_inv) simp_all

text \<open>The operations that look a group up first share one shape.\<close>

lemma lookup_inv:
  assumes "coordinator_inv pc c"
    and "map_of (groups c) k = None \<Longrightarrow> r = c"
    and "\<And>st. map_of (groups c) k = Some st \<Longrightarrow> group_inv pc k st \<Longrightarrow>
      group_inv pc k (snd (evict st now)) \<Longrightarrow> \<exists>st'. group_inv pc k st' \<and> r = put_group k st' c"
  shows "coordinator_inv pc r"
  using assms by (cases "map_of (groups c) k") (auto dest: coordinator_inv_find evict_group_inv intro: coordinator_inv_put)

lemma sync_inv: "coordinator_inv pc c \<Longrightarrow> coordinator_inv pc (snd (sync grp tpc mid gen now c))"
  by (erule lookup_inv [where k = "GroupKey grp tpc" and now = now])
    (auto simp: sync_def split_beta Let_def find_member_Inr split: sum.split intro: touch_group_inv)

lemma heartbeat_inv: "coordinator_inv pc c \<Longrightarrow> coordinator_inv pc (snd (heartbeat grp tpc mid gen now c))"
  by (erule lookup_inv [where k = "GroupKey grp tpc" and now = now])
    (auto simp: heartbeat_def split_beta Let_def find_member_Inr split: sum.split intro: touch_group_inv)

lemma validate_commit_inv:
  "coordinator_inv pc c \<Longrightarrow> coordinator_inv pc (snd (validate_commit grp tpc mid gen part now c))"
  by (erule lookup_inv [where k = "GroupKey grp tpc" and now = now])
    (auto simp: validate_commit_def split_beta Let_def split: option.split intro: touch_group_inv)

lemma expire_inv: "coordinator_inv pc c \<Longrightarrow> coordinator_inv pc (snd (expire grp tpc now c))"
  by (erule lookup_inv [where k = "GroupKey grp tpc" and now = now]) (auto simp: expire_def split_beta)

lemma active_member_count_inv:
  "coordinator_inv pc c \<Longrightarrow> coordinator_inv pc (snd (active_member_count grp tpc now c))"
  by (erule lookup_inv [where k = "GroupKey grp tpc" and now = now])
    (auto simp: active_member_count_def split_beta)

lemma has_active_members_inv:
  "coordinator_inv pc c \<Longrightarrow> coordinator_inv pc (snd (has_active_members grp tpc now c))"
  by (erule lookup_inv [where k = "GroupKey grp tpc" and now = now])
    (auto simp: has_active_members_def split_beta)

lemma leave_group_inv:
  "group_inv pc k st \<Longrightarrow> group_inv pc k (bump_generation (st\<lparr>members := map_erase mid (members st)\<rparr>))"
  by (rule bump_group_inv) (simp add: group_inv_def group_shape_def map_erase_def members_ok_erase_if)

lemma leave_inv: "coordinator_inv pc c \<Longrightarrow> coordinator_inv pc (snd (leave grp tpc mid gen now c))"
  by (erule lookup_inv [where k = "GroupKey grp tpc" and now = now])
    (auto simp: leave_def split_beta Let_def find_member_Inr split: sum.split intro: leave_group_inv)

lemma topic_has_active_members_inv:
  "coordinator_inv pc c \<Longrightarrow> coordinator_inv pc (snd (topic_has_active_members tpc now c))"
  by (auto simp: topic_has_active_members_def Let_def coordinator_inv_def sorted_map_def comp_def split_beta
      intro: evict_group_inv)

text \<open>Joining: the member's entry after an insertion, and the group after the whole operation.\<close>

lemma enter_group_inv:
  assumes "coordinator_inv pc c" "count = pc tpc"
  shows "group_inv pc (GroupKey grp tpc) (enter_group grp tpc count c)"
proof (cases "map_of (groups c) (GroupKey grp tpc)")
  case None
  then show ?thesis
    using assms(2) by (simp add: enter_group_def group_inv_def group_shape_def GroupState.make_def ranges_def)
next
  case (Some st)
  then show ?thesis
    using coordinator_inv_find [OF assms(1) Some] assms(2)
    by (auto simp: enter_group_def group_inv_def group_shape_def)
qed

definition joined_group :: "string \<Rightarrow> GroupState \<Rightarrow> GroupState" where
  "joined_group ident st =
     (if map_of (members st) ident = None
      then bump_generation (put_member ident (MemberState.make ident 0 0 []) st) else st)"

lemma joined_group_inv:
  assumes "group_inv pc k st"
  shows "group_inv pc k (joined_group ident st)" "\<exists>m. map_of (members (joined_group ident st)) ident = Some m"
proof -
  have "group_shape pc k (put_member ident (MemberState.make ident 0 0 []) st)"
    using assms by (simp add: group_inv_def group_shape_def members_ok_put MemberState.make_def)
  then show "group_inv pc k (joined_group ident st)"
    using assms by (simp add: joined_group_def bump_group_inv)
  have "map_of (members (joined_group ident st)) ident \<noteq> None"
    by (simp add: joined_group_def map_of_eq_None_iff bump_keys)
  then show "\<exists>m. map_of (members (joined_group ident st)) ident = Some m" by blast
qed

definition join_ident :: "string \<Rightarrow> GroupCoordinator \<Rightarrow> string" where
  "join_ident mid c = (if mid = [] then fst (next_member_id c) else mid)"

lemma join_shape:
  fixes mid grp tpc count now c
  defines "ident \<equiv> join_ident mid c"
    and "st1 \<equiv> snd (evict (enter_group grp tpc count c) now)"
  assumes inv: "coordinator_inv pc c" "count = pc tpc"
  obtains m where "map_of (members (joined_group ident st1)) ident = Some m"
    and "groups (snd (join grp tpc mid timeout count now c)) = map_put (GroupKey grp tpc)
      (put_member ident (m\<lparr>session_timeout_ms := timeout, last_heartbeat := now\<rparr>) (joined_group ident st1)) (groups c)"
    and "fst (join grp tpc mid timeout count now c) =
      (make_result (joined_group ident st1) (Some m))
        \<lparr>member_joined := (map_of (members st1) ident = None),
         generation_changed := (fst (evict (enter_group grp tpc count c) now) \<noteq> [] \<or> map_of (members st1) ident = None),
         expired_member_ids := fst (evict (enter_group grp tpc count c) now)\<rparr>"
proof -
  let ?k = "GroupKey grp tpc" and ?st = "joined_group ident st1"
  have st1: "group_inv pc ?k st1"
    unfolding st1_def by (intro evict_group_inv enter_group_inv inv)
  obtain m where m: "map_of (members ?st) ident = Some m" using joined_group_inv(2) [OF st1] by blast
  let ?m = "m\<lparr>session_timeout_ms := timeout, last_heartbeat := now\<rparr>"
  have st3: "group_inv pc ?k (put_member ident ?m ?st)"
    using member_of_inv [OF joined_group_inv(1) [OF st1] m]
    by (intro put_member_group_inv [OF joined_group_inv(1) [OF st1] m]) simp_all
  have idle: "(if b then recompute_assignment (put_member ident ?m ?st) else put_member ident ?m ?st) =
      put_member ident ?m ?st" for b
    using recompute_idle [OF st3] by simp
  have eq: "snd (evict (enter_group grp tpc count c) now) = st1" by (simp add: st1_def)
  have id': "(if mid = [] then next_member_id c else (mid, c)) =
      (ident, if mid = [] then snd (next_member_id c) else c)"
    by (simp add: ident_def join_ident_def)
  have grp': "groups (if mid = [] then snd (next_member_id c) else c) = groups c"
    by (simp add: next_member_id_def)
  have "join grp tpc mid timeout count now c =
      ((make_result (put_member ident ?m ?st) (map_of (members (put_member ident ?m ?st)) ident))
        \<lparr>member_joined := (map_of (members st1) ident = None),
         generation_changed := (fst (evict (enter_group grp tpc count c) now) \<noteq> [] \<or> map_of (members st1) ident = None),
         expired_member_ids := fst (evict (enter_group grp tpc count c) now)\<rparr>,
       put_group ?k (put_member ident ?m ?st) (if mid = [] then snd (next_member_id c) else c))"
    unfolding join_def Let_def split_beta eq id' fst_conv snd_conv joined_group_def [symmetric] m option.sel idle
    by (rule refl)
  then show thesis
    by (intro that [OF m]) (simp_all add: grp' make_result_def)
qed

lemma join_inv:
  assumes "coordinator_inv pc c" "count = pc tpc"
  shows "coordinator_inv pc (snd (join grp tpc mid timeout count now c))"
proof -
  let ?st = "joined_group (join_ident mid c) (snd (evict (enter_group grp tpc count c) now))"
  obtain m where m: "map_of (members ?st) (join_ident mid c) = Some m"
    and gs: "groups (snd (join grp tpc mid timeout count now c)) = map_put (GroupKey grp tpc)
      (put_member (join_ident mid c) (m\<lparr>session_timeout_ms := timeout, last_heartbeat := now\<rparr>) ?st) (groups c)"
    by (rule join_shape [OF assms])
  have st: "group_inv pc (GroupKey grp tpc) ?st"
    by (intro joined_group_inv(1) evict_group_inv enter_group_inv assms)
  have "group_inv pc (GroupKey grp tpc)
      (put_member (join_ident mid c) (m\<lparr>session_timeout_ms := timeout, last_heartbeat := now\<rparr>) ?st)"
    using member_of_inv [OF st m] by (intro put_member_group_inv [OF st m]) simp_all
  from coordinator_inv_put [OF assms(1) this] show ?thesis by (simp add: coordinator_inv_def gs)
qed

lemma remove_topic_groups_inv:
  assumes "coordinator_inv pc c"
  shows "coordinator_inv (pc(tpc := n)) (remove_topic_groups tpc c)"
  using assms
  by (auto simp: remove_topic_groups_def coordinator_inv_def) (auto simp: map_erase_if_def group_inv_def group_shape_def)

end
