(* ===== verification/Bolt_Group_Properties.thy ===== *)
theory Bolt_Group_Properties
  imports Bolt_Group_Invariant
begin

text \<open>
  Runs of the group coordinator: the operations as steps, the reachable states, the interface \<open>epoch\<close>
  that fencing relies on (a generation number that moves whenever the assignment does) with the
  coordinator as its model, and the properties of membership, assignment and commit fencing.
\<close>

section \<open>Steps and reachable states\<close>

datatype GroupOp =
    Join string string string u32 u16 int
  | Sync string string string u64 int
  | Heartbeat string string string u64 int
  | Leave string string string u64 int
  | Expire string string int
  | ValidateCommit string string string u64 u16 int
  | HasActiveMembers string string int
  | ActiveMemberCount string string int
  | TopicHasActiveMembers string int

fun group_step :: "GroupOp \<Rightarrow> GroupCoordinator \<Rightarrow> GroupCoordinator" where
  "group_step (Join grp tpc mid timeout count now) c = snd (join grp tpc mid timeout count now c)"
| "group_step (Sync grp tpc mid gen now) c = snd (sync grp tpc mid gen now c)"
| "group_step (Heartbeat grp tpc mid gen now) c = snd (heartbeat grp tpc mid gen now c)"
| "group_step (Leave grp tpc mid gen now) c = snd (leave grp tpc mid gen now c)"
| "group_step (Expire grp tpc now) c = snd (expire grp tpc now c)"
| "group_step (ValidateCommit grp tpc mid gen part now) c = snd (validate_commit grp tpc mid gen part now c)"
| "group_step (HasActiveMembers grp tpc now) c = snd (has_active_members grp tpc now c)"
| "group_step (ActiveMemberCount grp tpc now) c = snd (active_member_count grp tpc now c)"
| "group_step (TopicHasActiveMembers tpc now) c = snd (topic_has_active_members tpc now c)"

text \<open>
  The broker passes the partition count of the topic to every join; the count of a topic changes only
  when the topic is deleted, which removes its groups, and created again.
\<close>

fun op_counts :: "(string \<Rightarrow> u16) \<Rightarrow> GroupOp \<Rightarrow> bool" where
  "op_counts pc (Join grp tpc mid timeout count now) \<longleftrightarrow> count = pc tpc"
| "op_counts pc _ \<longleftrightarrow> True"

definition empty_coordinator :: GroupCoordinator where
  "empty_coordinator = GroupCoordinator.make [] 1"

inductive coordinator_reach :: "(string \<Rightarrow> u16) \<Rightarrow> GroupCoordinator \<Rightarrow> bool" where
  reach_start: "coordinator_reach pc empty_coordinator"
| reach_step: "coordinator_reach pc c \<Longrightarrow> op_counts pc op \<Longrightarrow> coordinator_reach pc (group_step op c)"
| reach_recreate: "coordinator_reach pc c \<Longrightarrow> coordinator_reach (pc(tpc := n)) (remove_topic_groups tpc c)"

lemma group_step_inv:
  "coordinator_inv pc c \<Longrightarrow> op_counts pc op \<Longrightarrow> coordinator_inv pc (group_step op c)"
  by (cases op)
    (simp_all add: join_inv sync_inv heartbeat_inv leave_inv expire_inv validate_commit_inv
      has_active_members_inv active_member_count_inv topic_has_active_members_inv)

lemma reach_inv: "coordinator_reach pc c \<Longrightarrow> coordinator_inv pc c"
proof (induction rule: coordinator_reach.induct)
  case (reach_start pc)
  then show ?case by (simp add: coordinator_inv_def empty_coordinator_def GroupCoordinator.make_def)
qed (auto intro: group_step_inv remove_topic_groups_inv simp del: fun_upd_apply)

section \<open>Epochs\<close>

locale epoch =
  fixes inv :: "'s \<Rightarrow> bool"
    and room :: "'op \<Rightarrow> 's \<Rightarrow> bool"
    and step :: "'op \<Rightarrow> 's \<Rightarrow> 's"
    and gen :: "'s \<Rightarrow> nat"
    and view :: "'s \<Rightarrow> 'v"
  assumes step_inv: "inv s \<Longrightarrow> room op s \<Longrightarrow> inv (step op s)"
    and gen_mono: "inv s \<Longrightarrow> room op s \<Longrightarrow> gen s \<le> gen (step op s)"
    and same_view: "inv s \<Longrightarrow> room op s \<Longrightarrow> gen (step op s) = gen s \<Longrightarrow> view (step op s) = view s"
begin

lemma run_inv: "inv s \<Longrightarrow> run_rooms room step ops s \<Longrightarrow> inv (run_steps step ops s)"
  by (induction ops arbitrary: s) (auto intro: step_inv)

lemma run_gen_mono: "inv s \<Longrightarrow> run_rooms room step ops s \<Longrightarrow> gen s \<le> gen (run_steps step ops s)"
  by (induction ops arbitrary: s) (auto intro: step_inv gen_mono order_trans)

lemma run_same_view:
  "inv s \<Longrightarrow> run_rooms room step ops s \<Longrightarrow> gen (run_steps step ops s) = gen s \<Longrightarrow>
   view (run_steps step ops s) = view s"
proof (induction ops arbitrary: s)
  case (Cons op ops)
  then have s': "inv (step op s)" "run_rooms room step ops (step op s)" "room op s"
    by (auto intro: step_inv)
  then have "gen s \<le> gen (step op s)" "gen (step op s) \<le> gen s"
    using gen_mono [of s op] run_gen_mono [of "step op s" ops] Cons.prems by auto
  then have "gen (step op s) = gen s" by simp
  then show ?case using Cons s' same_view by simp
qed simp

end

section \<open>The coordinator advances in epochs\<close>

abbreviation group_view :: "GroupState \<Rightarrow> (string \<times> u16 list) list" where
  "group_view st \<equiv> map (\<lambda>(ident, m). (ident, MemberState.assignment m)) (members st)"

text \<open>At most \<open>d\<close> new generations, and none exactly when nobody's assignment moved.\<close>

definition advances :: "nat \<Rightarrow> GroupState \<Rightarrow> GroupState \<Rightarrow> bool" where
  "advances d st st' \<longleftrightarrow>
     GroupState.generation_id st' = GroupState.generation_id st \<and> group_view st' = group_view st \<or>
     (\<exists>e. 0 < e \<and> e \<le> d \<and> GroupState.generation_id st' = GroupState.generation_id st + of_nat e)"

lemma advances_refl [simp]: "advances d st st"
  by (simp add: advances_def)

lemma advances_trans:
  assumes "advances a st st'" "advances b st' st''"
  shows "advances (a + b) st st''"
proof (cases "GroupState.generation_id st' = GroupState.generation_id st \<and> group_view st' = group_view st")
  case True
  then show ?thesis using assms(2) by (auto simp: advances_def intro: trans_le_add2)
next
  case False
  then obtain e where e: "0 < e" "e \<le> a" "GroupState.generation_id st' = GroupState.generation_id st + of_nat e"
    using assms(1) by (auto simp: advances_def)
  from assms(2) consider "GroupState.generation_id st'' = GroupState.generation_id st'"
    | f where "f \<le> b" "GroupState.generation_id st'' = GroupState.generation_id st' + of_nat f"
    by (auto simp: advances_def)
  then show ?thesis
  proof cases
    case 1
    then show ?thesis using e unfolding advances_def by (intro disjI2 exI [of _ e]) simp
  next
    case 2
    then show ?thesis using e unfolding advances_def by (intro disjI2 exI [of _ "e + f"]) simp
  qed
qed

lemma advances_bump: "GroupState.generation_id st' = GroupState.generation_id st \<Longrightarrow> advances (Suc 0) st (bump_generation st')"
  unfolding advances_def by (intro disjI2 exI [of _ "Suc 0"]) simp

lemma advances_evict: "advances (Suc 0) st (snd (evict st now))"
proof (cases "fst (expire_members st now) = []")
  case True
  then have "members (snd (expire_members st now)) = members st"
    by (auto simp: expire_members_def filter_empty_conv intro: map_erase_if_none)
  then show ?thesis using True by (simp add: evict_def split_beta advances_def expire_members_def)
qed (simp add: evict_def split_beta advances_bump expire_members_def)

lemma advances_touch:
  assumes "group_inv pc k st" "map_of (members st) mid = Some m"
    and "MemberState.assignment m' = MemberState.assignment m"
  shows "advances 0 st (put_member mid m' st)"
proof -
  have "sorted_map (members st)" using assms(1) by (simp add: group_inv_def group_shape_def members_ok_def)
  have "group_view (put_member mid m' st) = group_view st"
    using map_put_same_view [OF \<open>sorted_map (members st)\<close> assms(2),
        of "\<lambda>(ident, m). (ident, MemberState.assignment m)" m'] assms(3) by simp
  then show ?thesis by (simp add: advances_def)
qed

lemma advances_joined: "advances (Suc 0) st (joined_group ident st)"
  by (simp add: joined_group_def advances_bump)

text \<open>What one operation does to the group under each key.\<close>

definition progress :: "GroupCoordinator \<Rightarrow> GroupCoordinator \<Rightarrow> bool" where
  "progress c c' \<longleftrightarrow> (\<forall>k. case map_of (groups c) k of
      None \<Rightarrow> (\<forall>st'. map_of (groups c') k = Some st' \<longrightarrow> GroupState.generation_id st' = 1)
    | Some st \<Rightarrow> \<exists>st'. map_of (groups c') k = Some st' \<and> advances 2 st st')"

lemma progress_Some:
  "progress c c' \<Longrightarrow> map_of (groups c) k = Some st \<Longrightarrow>
   \<exists>st'. map_of (groups c') k = Some st' \<and> advances 2 st st'"
  unfolding progress_def by (drule spec [of _ k]) simp

lemma progress_None:
  "progress c c' \<Longrightarrow> map_of (groups c) k = None \<Longrightarrow> map_of (groups c') k = Some st' \<Longrightarrow>
   GroupState.generation_id st' = 1"
  unfolding progress_def by (drule spec [of _ k]) simp

lemma progress_put:
  "map_of (groups c) k = Some st \<Longrightarrow> advances 2 st st' \<Longrightarrow> progress c (put_group k st' c)"
  by (auto simp: progress_def split: option.split)

lemma progress_refl [simp]: "progress c c"
  by (auto simp: progress_def split: option.split)

lemma lookup_progress:
  assumes "coordinator_inv pc c"
    and "map_of (groups c) k = None \<Longrightarrow> r = c"
    and "\<And>st. map_of (groups c) k = Some st \<Longrightarrow> group_inv pc k (snd (evict st now)) \<Longrightarrow>
      \<exists>st'. advances (Suc 0) (snd (evict st now)) st' \<and> r = put_group k st' c"
  shows "progress c r"
proof (cases "map_of (groups c) k")
  case (Some st)
  then obtain st' where "advances (Suc 0) (snd (evict st now)) st'" "r = put_group k st' c"
    using assms(1,3) by (metis coordinator_inv_find evict_group_inv)
  then show ?thesis using Some advances_trans [OF advances_evict] by (metis add_2_eq_Suc' add_Suc_right Suc_1 One_nat_def progress_put one_add_one)
qed (use assms(2) in simp)

lemma heartbeat_advances:
  "group_inv pc k st \<Longrightarrow> map_of (members st) mid = Some m \<Longrightarrow>
   advances (Suc 0) st (put_member mid (m\<lparr>last_heartbeat := now\<rparr>) st)"
  using advances_touch [of pc k st mid m "m\<lparr>last_heartbeat := now\<rparr>"] by (auto simp: advances_def)

lemma sync_progress: "coordinator_inv pc c \<Longrightarrow> progress c (snd (sync grp tpc mid gen now c))"
  by (erule lookup_progress [where k = "GroupKey grp tpc" and now = now])
    (auto simp: sync_def split_beta Let_def find_member_Inr split: sum.split
      intro: heartbeat_advances advances_refl)

lemma heartbeat_progress: "coordinator_inv pc c \<Longrightarrow> progress c (snd (heartbeat grp tpc mid gen now c))"
  by (erule lookup_progress [where k = "GroupKey grp tpc" and now = now])
    (auto simp: heartbeat_def split_beta Let_def find_member_Inr split: sum.split
      intro: heartbeat_advances advances_refl)

lemma validate_commit_progress:
  "coordinator_inv pc c \<Longrightarrow> progress c (snd (validate_commit grp tpc mid gen part now c))"
  by (erule lookup_progress [where k = "GroupKey grp tpc" and now = now])
    (auto simp: validate_commit_def split_beta Let_def split: option.split
      intro: heartbeat_advances advances_refl)

lemma leave_advances: "advances (Suc 0) st (bump_generation (st\<lparr>members := ms\<rparr>))"
  by (rule advances_bump) simp

lemma leave_progress: "coordinator_inv pc c \<Longrightarrow> progress c (snd (leave grp tpc mid gen now c))"
  by (erule lookup_progress [where k = "GroupKey grp tpc" and now = now])
    (auto simp: leave_def split_beta Let_def find_member_Inr split: sum.split
      intro: leave_advances advances_refl)

lemma expire_progress: "coordinator_inv pc c \<Longrightarrow> progress c (snd (expire grp tpc now c))"
  by (erule lookup_progress [where k = "GroupKey grp tpc" and now = now])
    (auto simp: expire_def split_beta intro: advances_refl)

lemma active_member_count_progress:
  "coordinator_inv pc c \<Longrightarrow> progress c (snd (active_member_count grp tpc now c))"
  by (erule lookup_progress [where k = "GroupKey grp tpc" and now = now])
    (auto simp: active_member_count_def split_beta intro: advances_refl)

lemma has_active_members_progress:
  "coordinator_inv pc c \<Longrightarrow> progress c (snd (has_active_members grp tpc now c))"
  by (erule lookup_progress [where k = "GroupKey grp tpc" and now = now])
    (auto simp: has_active_members_def split_beta intro: advances_refl)

lemma map_of_map_values: "map_of (map (\<lambda>(k, v). (k, f k v)) m) k = map_option (f k) (map_of m k)"
  by (induction m) auto

lemma topic_has_active_members_progress: "progress c (snd (topic_has_active_members tpc now c))"
proof -
  have "advances 2 st (snd (evict st now))" for st
    using advances_evict [of st now] by (auto simp: advances_def)
  then show ?thesis
    by (auto simp: progress_def topic_has_active_members_def Let_def map_of_map_values split: option.split)
qed

lemma join_progress:
  assumes inv: "coordinator_inv pc c" "count = pc tpc"
  shows "progress c (snd (join grp tpc mid timeout count now c))"
proof -
  let ?k = "GroupKey grp tpc" and ?st1 = "snd (evict (enter_group grp tpc count c) now)"
  let ?i = "join_ident mid c" and ?st2 = "joined_group (join_ident mid c) (snd (evict (enter_group grp tpc count c) now))"
  obtain m where m: "map_of (members ?st2) ?i = Some m"
    and gs: "groups (snd (join grp tpc mid timeout count now c)) = map_put ?k
      (put_member ?i (m\<lparr>session_timeout_ms := timeout, last_heartbeat := now\<rparr>) ?st2) (groups c)"
    by (rule join_shape [OF inv])
  let ?st3 = "put_member ?i (m\<lparr>session_timeout_ms := timeout, last_heartbeat := now\<rparr>) ?st2"
  have st2: "group_inv pc ?k ?st2" by (intro joined_group_inv(1) evict_group_inv enter_group_inv inv)
  show ?thesis
  proof (cases "map_of (groups c) ?k")
    case None
    then have "members (enter_group grp tpc count c) = []" "GroupState.generation_id (enter_group grp tpc count c) = 0"
      by (simp_all add: enter_group_def GroupState.make_def)
    then have "members ?st1 = []" "GroupState.generation_id ?st1 = 0"
      by (simp_all add: evict_def expire_members_def split_beta map_erase_if_def)
    then have "GroupState.generation_id ?st3 = 1" by (simp add: joined_group_def)
    then show ?thesis using None by (auto simp: progress_def gs split: option.split)
  next
    case (Some st)
    have "advances 0 st (enter_group grp tpc count c)"
      using Some by (simp add: enter_group_def advances_def)
    moreover have "advances 0 ?st2 ?st3" by (rule advances_touch [OF st2 m]) simp
    ultimately have "advances (0 + Suc 0 + Suc 0 + 0) st ?st3"
      by (meson advances_evict advances_joined advances_trans)
    then show ?thesis
      using Some by (auto simp: progress_def gs numeral_2_eq_2 split: option.split)
  qed
qed

lemma group_step_progress:
  "coordinator_inv pc c \<Longrightarrow> op_counts pc op \<Longrightarrow> progress c (group_step op c)"
  by (cases op)
    (simp_all add: join_progress sync_progress heartbeat_progress leave_progress expire_progress
      validate_commit_progress has_active_members_progress active_member_count_progress
      topic_has_active_members_progress)

text \<open>The generation and the assignment of one group, and room for the generation counter to move.\<close>

definition generation_of :: "GroupKey \<Rightarrow> GroupCoordinator \<Rightarrow> nat" where
  "generation_of k c = (case map_of (groups c) k of None \<Rightarrow> 0 | Some st \<Rightarrow> unat (GroupState.generation_id st))"

definition shares_of :: "GroupKey \<Rightarrow> GroupCoordinator \<Rightarrow> (string \<times> u16 list) list" where
  "shares_of k c = (case map_of (groups c) k of None \<Rightarrow> [] | Some st \<Rightarrow> group_view st)"

definition group_room :: "(string \<Rightarrow> u16) \<Rightarrow> GroupKey \<Rightarrow> GroupOp \<Rightarrow> GroupCoordinator \<Rightarrow> bool" where
  "group_room pc k op c \<longleftrightarrow> op_counts pc op \<and> generation_of k c + 2 < 2 ^ 64"

interpretation coordinator: epoch "coordinator_inv pc" "group_room pc k" group_step "generation_of k" "shares_of k"
  for pc k
proof
  fix c :: GroupCoordinator and op :: GroupOp
  assume inv: "coordinator_inv pc c" and room: "group_room pc k op c"
  then show "coordinator_inv pc (group_step op c)" by (simp add: group_room_def group_step_inv)
  have prog: "progress c (group_step op c)" using inv room by (simp add: group_room_def group_step_progress)
  have "generation_of k c \<le> generation_of k (group_step op c) \<and>
    (generation_of k (group_step op c) = generation_of k c \<longrightarrow> shares_of k (group_step op c) = shares_of k c)"
  proof (cases "map_of (groups c) k")
    case None
    then have "map_of (groups (group_step op c)) k = Some st' \<Longrightarrow> GroupState.generation_id st' = 1" for st'
      using progress_None [OF prog] by blast
    then show ?thesis using None by (auto simp: generation_of_def shares_of_def split: option.split)
  next
    case (Some st)
    then obtain st' where st': "map_of (groups (group_step op c)) k = Some st'" "advances 2 st st'"
      using progress_Some [OF prog] by blast
    have "unat (GroupState.generation_id st + of_nat e) = unat (GroupState.generation_id st) + e" if "e \<le> 2" for e
      using that room Some by (intro unat_add_of_nat) (simp add: group_room_def generation_of_def)
    then show ?thesis using Some st' by (auto simp: generation_of_def shares_of_def advances_def)
  qed
  then show "generation_of k c \<le> generation_of k (group_step op c)"
    and "generation_of k (group_step op c) = generation_of k c \<Longrightarrow> shares_of k (group_step op c) = shares_of k c"
    by simp_all
qed

section \<open>Who is alive, who owns what\<close>

text \<open>No member other than those in \<open>X\<close> has timed out.\<close>

definition fresh_except :: "string set \<Rightarrow> int \<Rightarrow> (string \<times> MemberState) list \<Rightarrow> bool" where
  "fresh_except X now ms \<longleftrightarrow> (\<forall>(ident, m) \<in> set ms. ident \<in> X \<or> \<not> timed_out now m)"

lemma timed_out_assignment [simp]: "timed_out now (m\<lparr>MemberState.assignment := a\<rparr>) = timed_out now m"
  by (simp add: timed_out_def)

lemma fresh_with_assignments:
  "length as = length ms \<Longrightarrow> fresh_except X now (with_assignments ms as) \<longleftrightarrow> fresh_except X now ms"
  by (induction as ms rule: list_induct2) (auto simp: with_assignments_def fresh_except_def)

lemma fresh_bump: "fresh_except X now (members (bump_generation st)) \<longleftrightarrow> fresh_except X now (members st)"
  by (simp add: bump_generation_def recompute_assignment_ranges fresh_with_assignments)

lemma fresh_evict: "fresh_except X now (members (snd (evict st now)))"
  by (simp add: evict_def split_beta fresh_bump) (auto simp: expire_members_def map_erase_if_def fresh_except_def)

lemma fresh_put:
  "fresh_except (insert ident X) now ms \<Longrightarrow> sorted_map ms \<Longrightarrow> \<not> timed_out now m \<Longrightarrow> fresh_except X now (map_put ident m ms)"
proof (induction ms)
  case (Cons im ms)
  obtain i0 m0 where im: "im = (i0, m0)" by (cases im)
  show ?case
  proof (cases "ident < i0")
    case True
    then have "ident \<noteq> i" if "(i, m') \<in> set (im # ms)" for i m'
      using that Cons.prems(2) im by (force simp: sorted_map_Cons)
    then show ?thesis using Cons.prems True im by (fastforce simp: fresh_except_def)
  next
    case False
    then show ?thesis
      using Cons im by (force simp: fresh_except_def sorted_map_Cons)
  qed
qed (simp add: fresh_except_def)

lemma fresh_joined: "fresh_except {ident} now (members (joined_group ident (snd (evict st now))))"
proof (cases "map_of (members (snd (evict st now))) ident = None")
  case True
  have "fresh_except {ident} now (map_put ident m (members (snd (evict st now))))" for m
    using fresh_evict [of "{ident}" now st] set_map_put [of ident m "members (snd (evict st now))"]
    by (fastforce simp: fresh_except_def)
  then show ?thesis using True by (simp add: joined_group_def fresh_bump)
qed (auto simp: joined_group_def fresh_evict)

lemma evict_fresh:
  assumes "fresh_except {} now (members st)"
  shows "evict st now = ([], st)"
proof -
  have "\<not> timed_out now m" if "(i, m) \<in> set (members st)" for i m
    using assms that by (auto simp: fresh_except_def)
  then have "filter (\<lambda>(_, m). timed_out now m) (members st) = []"
    and "map_erase_if (\<lambda>_. timed_out now) (members st) = members st"
    by (auto simp: filter_empty_conv intro!: map_erase_if_none)
  then show ?thesis by (simp add: evict_def expire_members_def)
qed

lemma run_steps_append: "run_steps step (xs @ ys) s = run_steps step ys (run_steps step xs s)"
  by (induction xs arbitrary: s) simp_all

text \<open>Ownership of a partition is a function of the member list when the assignments are the ranges.\<close>

lemma distinct_concat_unique:
  "distinct (concat (map f xs)) \<Longrightarrow> x \<in> set xs \<Longrightarrow> y \<in> set xs \<Longrightarrow> p \<in> set (f x) \<Longrightarrow> p \<in> set (f y) \<Longrightarrow> x = y"
  by (induction xs) auto

lemma inj_on_of_nat_u16: "inj_on (of_nat :: nat \<Rightarrow> u16) {..<2 ^ 16}"
proof (rule inj_onI)
  fix x y :: nat
  assume "x \<in> {..<2 ^ 16}" "y \<in> {..<2 ^ 16}" "(of_nat x :: u16) = of_nat y"
  then show "x = y"
    by (auto dest!: arg_cong [where f = unat] simp: unsigned_of_nat take_bit_eq_mod)
qed

lemma owners_unique:
  assumes inv: "group_inv pc k st" and ne: "members st \<noteq> []"
  shows "concat (assignments (members st)) = map of_nat [0..<unat (pc (key_topic k))]"
    and "(i, m) \<in> set (members st) \<Longrightarrow> (i', m') \<in> set (members st) \<Longrightarrow>
      owns_partition m p \<Longrightarrow> owns_partition m' p \<Longrightarrow> i = i' \<and> m = m'"
    and "p < pc (key_topic k) \<longleftrightarrow> (\<exists>i m. (i, m) \<in> set (members st) \<and> owns_partition m p)"
proof -
  let ?n = "unat (pc (key_topic k))"
  show eq: "concat (assignments (members st)) = map of_nat [0..<?n]"
    using inv ne by (simp add: group_inv_def group_shape_def concat_ranges)
  have "?n < 2 ^ 16" using unsigned_less [of "pc (key_topic k)"] by simp
  then have "distinct (map (of_nat :: nat \<Rightarrow> u16) [0..<?n])"
    by (auto simp: distinct_map intro!: inj_on_subset [OF inj_on_of_nat_u16])
  then have dist: "distinct (concat (assignments (members st)))" by (simp only: eq)
  show "i = i' \<and> m = m'" if "(i, m) \<in> set (members st)" "(i', m') \<in> set (members st)"
    "owns_partition m p" "owns_partition m' p"
    using distinct_concat_unique [OF dist that(1,2)] that(3,4) by (simp add: owns_partition_def)
  have "(\<exists>i m. (i, m) \<in> set (members st) \<and> owns_partition m p) \<longleftrightarrow> p \<in> set (concat (assignments (members st)))"
    by (auto simp: owns_partition_def)
  also have "\<dots> \<longleftrightarrow> p < pc (key_topic k)"
  proof
    assume "p \<in> set (concat (assignments (members st)))"
    then obtain i where "i < ?n" "p = of_nat i" unfolding eq by auto
    then show "p < pc (key_topic k)"
      using \<open>?n < 2 ^ 16\<close> by (simp add: word_less_nat_alt unsigned_of_nat take_bit_eq_mod)
  next
    assume "p < pc (key_topic k)"
    then have "unat p \<in> {0..<?n}" "p = of_nat (unat p)" by (simp_all add: word_less_nat_alt)
    then show "p \<in> set (concat (assignments (members st)))" unfolding eq set_map set_upt by (metis imageI)
  qed
  finally show "p < pc (key_topic k) \<longleftrightarrow> (\<exists>i m. (i, m) \<in> set (members st) \<and> owns_partition m p)" by blast
qed

lemma share_size:
  assumes inv: "group_inv pc k st" and m: "(i, m) \<in> set (members st)"
  shows "length (MemberState.assignment m) \<in>
    {unat (pc (key_topic k)) div length (members st), unat (pc (key_topic k)) div length (members st) + 1}"
proof -
  obtain j where j: "j < length (members st)" "members st ! j = (i, m)"
    using m by (metis in_set_conv_nth)
  then have "MemberState.assignment m = assignments (members st) ! j" by simp
  also have "\<dots> = ranges (unat (pc (key_topic k))) (length (members st)) ! j"
    using inv by (simp add: group_inv_def group_shape_def)
  finally show ?thesis using j(1) by (simp add: length_ranges_nth)
qed

lemma validate_commit_ok:
  assumes "validate_commit grp tpc mid gen part now c = (Inr r, c')"
  obtains st m where "map_of (groups c') (GroupKey grp tpc) = Some st" "map_of (members st) mid = Some m"
    "owns_partition m part" "GroupState.generation_id st = gen"
  using assms
  by (auto simp: validate_commit_def split_beta Let_def owns_partition_def split: option.splits if_splits)

section \<open>Properties\<close>

text \<open>
  C21: every partition of a topic has exactly one owner in each group that has members. In every
  reachable state of the coordinator the assignments, in member order, list the topic's partitions once
  each, a partition number is below the partition count exactly when one member owns it, and the shares
  of two members differ by at most one partition.
\<close>

theorem partitions_assigned_once:
  assumes "coordinator_reach pc c" "map_of (groups c) (GroupKey grp tpc) = Some st" "members st \<noteq> []"
  shows "concat (assignments (members st)) = map of_nat [0..<unat (pc tpc)] \<and>
    (\<forall>p. p < pc tpc \<longleftrightarrow> (\<exists>!ident. \<exists>m. (ident, m) \<in> set (members st) \<and> owns_partition m p)) \<and>
    (\<forall>(ident, m) \<in> set (members st). length (MemberState.assignment m) \<in>
       {unat (pc tpc) div length (members st), unat (pc tpc) div length (members st) + 1})"
proof -
  have inv: "group_inv pc (GroupKey grp tpc) st"
    using reach_inv [OF assms(1)] assms(2) by (rule coordinator_inv_find)
  note own = owners_unique [OF inv assms(3), unfolded GroupKey.sel]
  have "p < pc tpc \<longleftrightarrow> (\<exists>!ident. \<exists>m. (ident, m) \<in> set (members st) \<and> owns_partition m p)" for p
    using own(2,3) by blast
  then show ?thesis using own(1) share_size [OF inv, unfolded GroupKey.sel] by blast
qed

definition sample_group :: GroupCoordinator where
  "sample_group = run_steps group_step
     [Join ''g'' ''t'' ''a'' 1000 3 0, Join ''g'' ''t'' ''b'' 1000 3 5] empty_coordinator"

lemma sample_group_reach: "coordinator_reach (\<lambda>_. 3) sample_group"
  unfolding sample_group_def run_steps.simps
  by (intro coordinator_reach.intros) simp_all

lemma sample_group_eq:
  "groups sample_group = [(GroupKey ''g'' ''t'', GroupState.make ''g'' ''t'' 3 2
     [(''a'', MemberState.make ''a'' 1000 0 [0, 1]), (''b'', MemberState.make ''b'' 1000 5 [2])])]"
  by code_simp

theorem partitions_assigned_once_witness:
  "concat (assignments [(''a'', MemberState.make ''a'' 1000 0 [0, 1]), (''b'', MemberState.make ''b'' 1000 5 [2])]) =
     map of_nat [0..<unat (3 :: u16)]"
  using partitions_assigned_once [OF sample_group_reach, of "''g''" "''t''"]
  by (simp add: sample_group_eq GroupState.make_def)

text \<open>
  C22: commits of one generation come from one member per partition. If a commit for a partition is
  accepted from one member in some generation, then after any operations of any members a commit for the
  same partition in the same generation is accepted from that member only.
\<close>

theorem single_committer:
  assumes "coordinator_reach pc c"
    and first: "validate_commit grp tpc a gen part now c = (Inr r1, c1)"
    and rooms: "run_rooms (group_room pc (GroupKey grp tpc)) group_step
      (ops @ [ValidateCommit grp tpc b gen part now']) c1"
    and second: "validate_commit grp tpc b gen part now' (run_steps group_step ops c1) = (Inr r2, c2)"
  shows "b = a"
proof -
  let ?k = "GroupKey grp tpc" and ?ops = "ops @ [ValidateCommit grp tpc b gen part now']"
  have inv1: "coordinator_inv pc c1"
    using validate_commit_inv [OF reach_inv [OF assms(1)], of grp tpc a gen part now] first by simp
  have end2: "run_steps group_step ?ops c1 = c2"
    using second by (simp add: run_steps_append)
  obtain st1 m1 where st1: "map_of (groups c1) ?k = Some st1" "map_of (members st1) a = Some m1"
    "owns_partition m1 part" "GroupState.generation_id st1 = gen" by (rule validate_commit_ok [OF first])
  obtain st2 m2 where st2: "map_of (groups c2) ?k = Some st2" "map_of (members st2) b = Some m2"
    "owns_partition m2 part" "GroupState.generation_id st2 = gen" by (rule validate_commit_ok [OF second])
  have "shares_of ?k c2 = shares_of ?k c1"
    using coordinator.run_same_view [OF inv1 rooms] st1 st2 unfolding end2 by (simp add: generation_of_def)
  then have "group_view st2 = group_view st1" using st1 st2 by (simp add: shares_of_def)
  moreover have "(b, MemberState.assignment m2) \<in> set (group_view st2)"
    using map_of_SomeD [OF st2(2)] by force
  ultimately have "(b, MemberState.assignment m2) \<in> set (group_view st1)" by simp
  then obtain m where m: "(b, m) \<in> set (members st1)" "owns_partition m part"
    using st2(3) by (auto simp: owns_partition_def)
  moreover have "(a, m1) \<in> set (members st1)" using st1(2) by (rule map_of_SomeD)
  moreover have "group_inv pc ?k st1" using inv1 st1(1) by (rule coordinator_inv_find)
  moreover have "members st1 \<noteq> []" using m(1) by auto
  ultimately show ?thesis using owners_unique(2) [of pc ?k st1 b m a m1 part] st1(3) by blast
qed

theorem single_committer_witness:
  "\<exists>x r1 c1 r2 c2. validate_commit ''g'' ''t'' ''b'' 2 2 10 sample_group = (Inr r1, c1) \<and>
     validate_commit ''g'' ''t'' x 2 2 12 (run_steps group_step [Heartbeat ''g'' ''t'' ''a'' 2 11] c1) = (Inr r2, c2) \<and>
     x = ''b''"
proof -
  let ?v1 = "validate_commit ''g'' ''t'' ''b'' 2 2 10 sample_group"
  let ?ops = "[Heartbeat ''g'' ''t'' ''a'' 2 11]"
  let ?v2 = "validate_commit ''g'' ''t'' ''b'' 2 2 12 (run_steps group_step ?ops (snd ?v1))"
  have "\<not> isl (fst ?v1)" "\<not> isl (fst ?v2)" by code_simp+
  then obtain r1 r2 where v: "?v1 = (Inr r1, snd ?v1)" "?v2 = (Inr r2, snd ?v2)"
    by (metis prod.collapse sum.collapse(2))
  have "generation_of (GroupKey ''g'' ''t'') (snd ?v1) = 2"
    "generation_of (GroupKey ''g'' ''t'') (run_steps group_step ?ops (snd ?v1)) = 2" by code_simp+
  then have "run_rooms (group_room (\<lambda>_. 3) (GroupKey ''g'' ''t'')) group_step
      (?ops @ [ValidateCommit ''g'' ''t'' ''b'' 2 2 12]) (snd ?v1)"
    by (simp add: group_room_def)
  from single_committer [OF sample_group_reach v(1) this v(2)] v show ?thesis by blast
qed

text \<open>
  Expiry removes exactly the members whose session timed out. The other members stay, the
  generation advances by one exactly when someone was removed, the removed members are reported, and no
  other group changes.
\<close>

theorem expire_exact:
  assumes "map_of (groups c) (GroupKey grp tpc) = Some st" "expire grp tpc now c = (r, c')"
  shows "\<exists>st'. map_of (groups c') (GroupKey grp tpc) = Some st' \<and>
    map fst (members st') = map fst (filter (\<lambda>(_, m). \<not> timed_out now m) (members st)) \<and>
    expired_member_ids r = map fst (filter (\<lambda>(_, m). timed_out now m) (members st)) \<and>
    GroupState.generation_id st' =
      GroupState.generation_id st + (if expired_member_ids r = [] then 0 else 1) \<and>
    (\<forall>k. k \<noteq> GroupKey grp tpc \<longrightarrow> map_of (groups c') k = map_of (groups c) k)"
proof -
  have r: "expired_member_ids r = fst (evict st now)" "c' = put_group (GroupKey grp tpc) (snd (evict st now)) c"
    using assms by (auto simp: expire_def split_beta)
  show ?thesis
    by (intro exI [of _ "snd (evict st now)"])
      (simp add: r evict_def split_beta expire_members_def map_erase_if_def)
qed

theorem expire_exact_witness:
  "\<exists>st'. map_of (groups (snd (expire ''g'' ''t'' 1000000000 sample_group))) (GroupKey ''g'' ''t'') = Some st' \<and>
     map fst (members st') = [''b'']"
  using expire_exact [of sample_group "''g''" "''t''" _ 1000000000]
  by (force simp: sample_group_eq GroupState.make_def MemberState.make_def timed_out_def prod_eq_iff)

text \<open>
  C23: a member that joins can work at once. The generation that \<open>join\<close> returns is accepted by \<open>sync\<close>,
  which returns the assignment that the join computed, and a commit for any partition of that assignment
  is accepted.
\<close>

theorem join_then_commit:
  assumes reach: "coordinator_reach pc c" and count: "count = pc tpc" and timeout: "0 < timeout"
    and joined: "join grp tpc mid timeout count now c = (r, c1)"
    and part: "part \<in> set (GroupResult.assignment r)"
  shows "\<exists>r2 c2 r3 c3.
    sync grp tpc (GroupResult.member_id r) (GroupResult.generation_id r) now c1 = (Inr r2, c2) \<and>
    GroupResult.assignment r2 = GroupResult.assignment r \<and>
    validate_commit grp tpc (GroupResult.member_id r) (GroupResult.generation_id r) part now c2 = (Inr r3, c3)"
proof -
  let ?k = "GroupKey grp tpc" and ?st1 = "snd (evict (enter_group grp tpc count c) now)"
  let ?i = "join_ident mid c" and ?st2 = "joined_group (join_ident mid c) (snd (evict (enter_group grp tpc count c) now))"
  note inv = reach_inv [OF reach]
  obtain m where m: "map_of (members ?st2) ?i = Some m"
    and gs: "groups (snd (join grp tpc mid timeout count now c)) = map_put ?k
      (put_member ?i (m\<lparr>session_timeout_ms := timeout, last_heartbeat := now\<rparr>) ?st2) (groups c)"
    and r: "fst (join grp tpc mid timeout count now c) = (make_result ?st2 (Some m))
        \<lparr>member_joined := (map_of (members ?st1) ?i = None),
         generation_changed := (fst (evict (enter_group grp tpc count c) now) \<noteq> [] \<or> map_of (members ?st1) ?i = None),
         expired_member_ids := fst (evict (enter_group grp tpc count c) now)\<rparr>"
    by (rule join_shape [OF inv count])
  define m' where "m' = m\<lparr>session_timeout_ms := timeout, last_heartbeat := now\<rparr>"
  define st3 where "st3 = put_member ?i m' ?st2"
  have st2: "group_inv pc ?k ?st2" by (intro joined_group_inv(1) evict_group_inv enter_group_inv inv count)
  have alive: "\<not> timed_out now m'" using timeout by (auto simp: m'_def timed_out_def unsigned_eq_0_iff)
  have ident: "GroupResult.member_id r = ?i" "GroupResult.generation_id r = GroupState.generation_id ?st2"
    "GroupResult.assignment r = MemberState.assignment m'"
    using r joined member_of_inv [OF st2 m] by (simp_all add: make_result_def GroupResult.make_def m'_def)
  have fresh2: "fresh_except {?i} now (members ?st2)" by (rule fresh_joined)
  have sorted: "sorted_map (members ?st2)" "sorted_map (members st3)"
    using st2 by (simp_all add: st3_def group_inv_def group_shape_def members_ok_def)
  have fresh3: "fresh_except {} now (members st3)"
    unfolding st3_def using fresh_put [OF fresh2 sorted(1) alive] by simp
  have look: "map_of (groups c1) ?k = Some st3" "map_of (members st3) ?i = Some m'"
    using gs joined by (simp_all add: st3_def m'_def)
  let ?st4 = "put_member ?i m' st3"
  have idle: "m'\<lparr>last_heartbeat := now\<rparr> = m'" by (simp add: m'_def)
  have fresh4: "fresh_except {} now (members ?st4)"
    using fresh_put [of ?i "{}" now "members st3" m'] fresh3 sorted(2) alive by (auto simp: fresh_except_def)
  have owns: "owns_partition m' part" using part ident(3) by (simp add: owns_partition_def)
  have "\<exists>r2. sync grp tpc ?i (GroupState.generation_id ?st2) now c1 = (Inr r2, put_group ?k ?st4 c1) \<and>
      GroupResult.assignment r2 = MemberState.assignment m'"
    using look by (simp add: sync_def evict_fresh [OF fresh3] find_member_def idle)
      (simp add: st3_def make_result_def GroupResult.make_def)
  moreover have "\<exists>r3 c3. validate_commit grp tpc ?i (GroupState.generation_id ?st2) part now (put_group ?k ?st4 c1) =
      (Inr r3, c3)"
    using owns by (simp add: validate_commit_def evict_fresh [OF fresh4] Let_def) (simp add: st3_def)
  ultimately show ?thesis unfolding ident by blast
qed

theorem join_then_commit_witness:
  "\<exists>r2 c2 r3 c3. sync ''g'' ''t'' ''c'' 3 20 (snd (join ''g'' ''t'' ''c'' 1000 3 20 sample_group)) = (Inr r2, c2) \<and>
     validate_commit ''g'' ''t'' ''c'' 3 2 20 c2 = (Inr r3, c3)"
proof -
  let ?j = "join ''g'' ''t'' ''c'' 1000 3 20 sample_group"
  have "GroupResult.member_id (fst ?j) = ''c'' \<and> GroupResult.generation_id (fst ?j) = 3 \<and>
      2 \<in> set (GroupResult.assignment (fst ?j))" by code_simp
  then show ?thesis
    using join_then_commit [OF sample_group_reach, where count = 3 and tpc = "''t''" and timeout = 1000
        and grp = "''g''" and mid = "''c''" and now = 20 and r = "fst ?j" and ?c1.0 = "snd ?j" and part = 2] by auto
qed

lemma join_generated:
  "fst (join grp tpc [] timeout count now c) = fst (join grp tpc (fst (next_member_id c)) timeout count now c)"
proof -
  let ?i = "fst (next_member_id c)"
  have choose: "(if ?i = [] then next_member_id c else (?i, c)) = (?i, c)"
    "(if [] = [] then next_member_id c else ([], c)) = next_member_id c"
    by (simp_all add: next_member_id_def)
  show ?thesis unfolding join_def split_beta Let_def choose fst_conv ..
qed

text \<open>
  An id that the coordinator generates can belong to a member already. After a consumer has joined
  under an id of the generated form (an id it kept from before a restart of the broker, whose counter
  starts again at one), a consumer that asks for a new id receives the same id, is not counted as a new
  member and starts no generation.
\<close>

theorem generated_id_collision:
  "let c = snd (join ''g'' ''t'' ''member-000000000001'' 30000 4 0 empty_coordinator);
       r = fst (join ''g'' ''t'' [] 30000 4 1 c)
   in GroupResult.member_id r = ''member-000000000001'' \<and> \<not> member_joined r \<and>
      \<not> generation_changed r \<and> GroupResult.assignment r = [0, 1, 2, 3]"
proof -
  let ?c = "snd (join ''g'' ''t'' ''member-000000000001'' 30000 4 0 empty_coordinator)"
  have "next_member_id' ?c = 1" by code_simp
  moreover have "digit_char 1 = CHR ''1''"
    using char_of_char [of "CHR ''1''"] by (simp add: digit_char_def)
  then have "pad_zero 12 1 = ''000000000001''" by (simp add: pad_zero_def decimal.simps eval_nat_numeral)
  ultimately have "fst (next_member_id ?c) = ''member-000000000001''" by (simp add: next_member_id_def)
  then have "fst (join ''g'' ''t'' [] 30000 4 1 ?c) = fst (join ''g'' ''t'' ''member-000000000001'' 30000 4 1 ?c)"
    using join_generated [of "''g''" "''t''" 30000 4 1 ?c] by simp
  moreover have "groups ?c = [(GroupKey ''g'' ''t'', GroupState.make ''g'' ''t'' 4 1
      [(''member-000000000001'', MemberState.make ''member-000000000001'' 30000 0 [0, 1, 2, 3])])]"
    by code_simp
  then have "let r = fst (join ''g'' ''t'' ''member-000000000001'' 30000 4 1 ?c) in
      GroupResult.member_id r = ''member-000000000001'' \<and> \<not> member_joined r \<and>
      \<not> generation_changed r \<and> GroupResult.assignment r = [0, 1, 2, 3]"
    by (simp add: join_def [of _ _ _ _ _ 1] Let_def split_beta enter_group_def evict_def expire_members_def
        timed_out_def MemberState.make_def GroupState.make_def make_result_def GroupResult.make_def map_erase_if_def)
  ultimately show ?thesis unfolding Let_def by simp
qed

end
