(* ===== verification/Bolt_Offsets.thy ===== *)
theory Bolt_Offsets
  imports Bolt_Frame Bolt_Text Bolt_Map "HOL-Library.AList" "HOL-Library.Product_Lexorder"
begin

text \<open>
  The store of committed consumer offsets (\<open>src/src/storage/offset_store.cpp\<close>): one append-only text
  log per consumer group, the in-memory maps that mirror the logs, recovery with truncation of a torn
  tail, and the rewrite of the logs when a topic is deleted. The directory \<open>consumer_offsets\<close> is an
  association list; the order of the list is the order in which the directory is iterated. Failures of
  the file system are arguments that say at which call the operation fails and what reached the disk.
\<close>

section \<open>Lines\<close>

abbreviation TAB :: char where "TAB \<equiv> CHR 0x09"
abbreviation LF :: char where "LF \<equiv> CHR 0x0A"
abbreviation CR :: char where "CR \<equiv> CHR 0x0D"

definition crc_input :: "string \<Rightarrow> u16 \<Rightarrow> u64 \<Rightarrow> string" where
  "crc_input tpc part off = tpc @ TAB # decimal (unat part) @ TAB # decimal (unat off)"

definition write_offset_record :: "string \<Rightarrow> u16 \<Rightarrow> u64 \<Rightarrow> string" where
  "write_offset_record tpc part off =
     (let input = crc_input tpc part off; crc = crc32 (bytes_of_string input) in
      input @ TAB # decimal (unat crc) @ [LF])"

definition parse_uint :: "nat \<Rightarrow> string \<Rightarrow> nat option" where
  "parse_uint mx text =
     (case from_chars mx text of Some (v, []) \<Rightarrow> Some v | _ \<Rightarrow> None)"

text \<open>\<open>find\<close> of a character: the text before it and after it.\<close>

fun split_at :: "char \<Rightarrow> string \<Rightarrow> (string \<times> string) option" where
  "split_at ch [] = None"
| "split_at ch (c # cs) =
     (if c = ch then Some ([], cs) else map_option (\<lambda>(a, b). (c # a, b)) (split_at ch cs))"

definition parse_offset_line :: "string \<Rightarrow> (string \<times> u16 \<times> u64) option" where
  "parse_offset_line line =
     do { (tpc, r1) \<leftarrow> split_at TAB line;
          (part_text, r2) \<leftarrow> split_at TAB r1;
          (off_text, crc_text) \<leftarrow> split_at TAB r2;
          require (split_at TAB crc_text = None);
          require (is_valid_topic_name tpc);
          parsed_partition \<leftarrow> parse_uint (2 ^ 32 - 1) part_text;
          require (parsed_partition \<le> 65535);
          off \<leftarrow> parse_uint (2 ^ 64 - 1) off_text;
          expected_crc \<leftarrow> parse_uint (2 ^ 32 - 1) crc_text;
          require (crc32 (bytes_of_string (crc_input tpc (of_nat parsed_partition) (of_nat off))) =
            of_nat expected_crc);
          Some (tpc, of_nat parsed_partition, of_nat off) }"

section \<open>State\<close>

type_synonym OffsetKey = "string \<times> u16"
type_synonym GroupOffsets = "(OffsetKey \<times> u64) list"

text \<open>An entry of the directory: a group directory with its files, or anything else.\<close>

datatype DirEntry = GroupDirectory "(string \<times> string) list" | OtherEntry

record OffsetStoreStats =
  groups_recovered :: nat
  commits_recovered :: nat
  offset_bytes_truncated :: nat

record OffsetStore =
  consumer_offsets :: "(string \<times> DirEntry) list"
  offsets' :: "(string \<times> GroupOffsets) list"
  stats' :: OffsetStoreStats

record OffsetSnapshot =
  group :: string
  topic :: string
  partition :: u16
  next_offset :: u64

record OffsetCleanupStats =
  groups_touched :: nat
  offsets_removed :: nat

definition group_files :: "(string \<times> DirEntry) list \<Rightarrow> string \<Rightarrow> (string \<times> string) list" where
  "group_files disk grp = (case map_of disk grp of Some (GroupDirectory fs) \<Rightarrow> fs | _ \<Rightarrow> [])"

definition put_group_file ::
  "string \<Rightarrow> string \<Rightarrow> string \<Rightarrow> (string \<times> DirEntry) list \<Rightarrow> (string \<times> DirEntry) list" where
  "put_group_file grp name content disk =
     AList.update grp (GroupDirectory (AList.update name content (group_files disk grp))) disk"

abbreviation offsets_log :: string where "offsets_log \<equiv> ''offsets.log''"
abbreviation offsets_tmp :: string where "offsets_tmp \<equiv> ''offsets.log.tmp''"

definition is_valid_group_name :: "string \<Rightarrow> bool" where
  "is_valid_group_name grp = is_valid_topic_name grp"

text \<open>\<open>offsets_[group][key] = next_offset\<close>.\<close>

definition set_offset :: "string \<Rightarrow> OffsetKey \<Rightarrow> u64 \<Rightarrow> (string \<times> GroupOffsets) list \<Rightarrow> (string \<times> GroupOffsets) list" where
  "set_offset grp k off m =
     map_put grp (map_put k off (case map_of m grp of None \<Rightarrow> [] | Some os \<Rightarrow> os)) m"

section \<open>Recovery\<close>

lemma split_at_length: "split_at ch s = Some (a, b) \<Longrightarrow> length s = Suc (length a + length b)"
  by (induction ch s arbitrary: a rule: split_at.induct) (auto split: if_splits)

text \<open>A trailing carriage return is removed from a line.\<close>

definition strip_cr :: "string \<Rightarrow> string" where
  "strip_cr line = (if line \<noteq> [] \<and> last line = CR then butlast line else line)"

text \<open>The loop over the lines: the entries that it accepts and the end of the last accepted line.\<close>

function scan_offsets :: "string \<Rightarrow> (string \<times> u16 \<times> u64) list \<times> nat" where
  "scan_offsets content =
     (case split_at LF content of
        None \<Rightarrow> ([], 0)
      | Some (line, rest) \<Rightarrow>
         (case parse_offset_line (strip_cr line) of
            None \<Rightarrow> ([], 0)
          | Some entry \<Rightarrow>
             (let (entries, valid_end) = scan_offsets rest in
              (entry # entries, length line + 1 + valid_end))))"
  by pat_completeness auto
termination
  by (relation "measure length") (auto dest: split_at_length)

declare scan_offsets.simps [simp del]

definition recover_group :: "string \<Rightarrow> string \<Rightarrow> OffsetStore \<Rightarrow> OffsetStore" where
  "recover_group grp content s =
     (let (entries, valid_end) = scan_offsets content in
      s\<lparr>offsets' := fold (\<lambda>(tpc, part, off). set_offset grp (tpc, part) off) entries (offsets' s),
        stats' := (stats' s)\<lparr>commits_recovered := commits_recovered (stats' s) + length entries,
          offset_bytes_truncated := offset_bytes_truncated (stats' s) + (length content - valid_end)\<rparr>,
        consumer_offsets := (if valid_end < length content
          then put_group_file grp offsets_log (take valid_end content) (consumer_offsets s)
          else consumer_offsets s)\<rparr>)"

definition recover_entry :: "string \<times> DirEntry \<Rightarrow> OffsetStore \<Rightarrow> OffsetStore" where
  "recover_entry entry s =
     (case entry of
        (_, OtherEntry) \<Rightarrow> s
      | (grp, GroupDirectory fs) \<Rightarrow>
          if \<not> is_valid_group_name grp then s
          else case map_of fs offsets_log of
                 None \<Rightarrow> s
               | Some content \<Rightarrow>
                  (let s1 = recover_group grp content s in
                   s1\<lparr>stats' := (stats' s1)\<lparr>groups_recovered := groups_recovered (stats' s1) + 1\<rparr>\<rparr>))"

definition open_offsets :: "(string \<times> DirEntry) list \<Rightarrow> OffsetStore" where
  "open_offsets disk = fold recover_entry disk
     (OffsetStore.make disk [] (OffsetStoreStats.make 0 0 0))"

section \<open>Queries\<close>

definition committed :: "string \<Rightarrow> string \<Rightarrow> u16 \<Rightarrow> OffsetStore \<Rightarrow> u64 option" where
  "committed grp tpc part s =
     (case map_of (offsets' s) grp of None \<Rightarrow> None | Some os \<Rightarrow> map_of os (tpc, part))"

definition group_offsets :: "string \<Rightarrow> string \<Rightarrow> OffsetStore \<Rightarrow> OffsetSnapshot list" where
  "group_offsets grp tpc s =
     (case map_of (offsets' s) grp of
        None \<Rightarrow> []
      | Some os \<Rightarrow> map (\<lambda>((t, part), off). OffsetSnapshot.make grp t part off)
          (filter (\<lambda>((t, part), off). t = tpc) os))"

definition all_offsets :: "OffsetStore \<Rightarrow> OffsetSnapshot list" where
  "all_offsets s =
     concat (map (\<lambda>(grp, os). map (\<lambda>((t, part), off). OffsetSnapshot.make grp t part off) os) (offsets' s))"

section \<open>Commit\<close>

datatype CommitFault = NoDirectory string | NoFile | ShortWrite nat

definition commit ::
  "CommitFault option \<Rightarrow> string \<Rightarrow> string \<Rightarrow> u16 \<Rightarrow> u64 \<Rightarrow> OffsetStore \<Rightarrow> (string + unit) \<times> OffsetStore" where
  "commit fault grp tpc part off s =
     (if \<not> is_valid_group_name grp then (Inl ''invalid consumer group name'', s)
      else if \<not> is_valid_topic_name tpc then (Inl ''invalid topic name'', s)
      else let fs = group_files (consumer_offsets s) grp;
               old = (case map_of fs offsets_log of None \<Rightarrow> [] | Some c \<Rightarrow> c);
               line = write_offset_record tpc part off;
               append = (\<lambda>text. s\<lparr>consumer_offsets := put_group_file grp offsets_log (old @ text) (consumer_offsets s)\<rparr>)
           in case fault of
                Some (NoDirectory what) \<Rightarrow>
                  (Inl (''failed to create consumer offset directory: '' @ what), s)
              | Some NoFile \<Rightarrow>
                  (Inl ''failed to open consumer offset log'',
                   s\<lparr>consumer_offsets := AList.update grp (GroupDirectory fs) (consumer_offsets s)\<rparr>)
              | Some (ShortWrite n) \<Rightarrow>
                  (Inl ''failed to append consumer offset log'', append (take n line))
              | None \<Rightarrow>
                  (Inr (), (append line)\<lparr>offsets' := set_offset grp (tpc, part) off (offsets' s)\<rparr>))"

section \<open>Removal of a topic\<close>

text \<open>
  Where a rewrite can fail, with the text of the system error or the bytes that reached the new file.
  Paths in messages are relative to the directory of the store.
\<close>

datatype RewriteFault =
  NoRemoveDir string | NoCreateDir string | NoTmp | ShortTmp nat | NoReplace string | NoRename string

definition group_lines :: "GroupOffsets \<Rightarrow> string" where
  "group_lines os = concat (map (\<lambda>((t, part), off). write_offset_record t part off) os)"

definition rewrite_group :: "RewriteFault option \<Rightarrow> string \<Rightarrow> OffsetStore \<Rightarrow> (string + unit) \<times> OffsetStore" where
  "rewrite_group fault grp s =
     (let os = (case map_of (offsets' s) grp of None \<Rightarrow> [] | Some os \<Rightarrow> os); disk = consumer_offsets s in
      if os = [] then
        case fault of
          Some (NoRemoveDir what) \<Rightarrow> (Inl (''failed to remove empty consumer offset directory: '' @ what), s)
        | _ \<Rightarrow> (Inr (), s\<lparr>consumer_offsets := AList.delete grp disk, offsets' := map_erase grp (offsets' s)\<rparr>)
      else let disk1 = AList.update grp (GroupDirectory (group_files disk grp)) disk;
               lines = group_lines os;
               tmp_path = grp @ ''/'' @ offsets_tmp;
               disk2 = put_group_file grp offsets_tmp lines disk1;
               disk3 = AList.update grp (GroupDirectory (AList.delete offsets_log (group_files disk2 grp))) disk2;
               disk4 = AList.update grp (GroupDirectory (AList.update offsets_log lines
                 (AList.delete offsets_tmp (group_files disk3 grp)))) disk3
           in case fault of
                Some (NoCreateDir what) \<Rightarrow> (Inl (''failed to create consumer offset directory: '' @ what), s)
              | Some NoTmp \<Rightarrow>
                  (Inl (''failed to rewrite consumer offset log: '' @ tmp_path), s\<lparr>consumer_offsets := disk1\<rparr>)
              | Some (ShortTmp n) \<Rightarrow>
                  (Inl (''failed to flush rewritten consumer offset log: '' @ tmp_path),
                   s\<lparr>consumer_offsets := put_group_file grp offsets_tmp (take n lines) disk1\<rparr>)
              | Some (NoReplace what) \<Rightarrow>
                  (Inl (''failed to replace consumer offset log: '' @ what), s\<lparr>consumer_offsets := disk2\<rparr>)
              | Some (NoRename what) \<Rightarrow>
                  (Inl (''failed to install rewritten consumer offset log: '' @ what), s\<lparr>consumer_offsets := disk3\<rparr>)
              | _ \<Rightarrow> (Inr (), s\<lparr>consumer_offsets := disk4\<rparr>))"

fun rewrite_groups :: "(string \<Rightarrow> RewriteFault option) \<Rightarrow> string list \<Rightarrow> OffsetStore \<Rightarrow> (string + unit) \<times> OffsetStore" where
  "rewrite_groups fault [] s = (Inr (), s)"
| "rewrite_groups fault (grp # rest) s =
     (case rewrite_group (fault grp) grp s of
        (Inl what, s1) \<Rightarrow> (Inl what, s1)
      | (Inr _, s1) \<Rightarrow> rewrite_groups fault rest s1)"

definition remove_topic_offsets ::
  "(string \<Rightarrow> RewriteFault option) \<Rightarrow> string \<Rightarrow> OffsetStore \<Rightarrow> (string + OffsetCleanupStats) \<times> OffsetStore" where
  "remove_topic_offsets fault tpc s =
     (let kept = map (\<lambda>(grp, os). (grp, map_erase_if (\<lambda>(t, part) _. t = tpc) os)) (offsets' s);
          removed = map2 (\<lambda>(grp, os) (_, os'). (grp, length os - length os')) (offsets' s) kept;
          touched = map fst (filter (\<lambda>(_, n). n > 0) removed)
      in case rewrite_groups fault touched (s\<lparr>offsets' := kept\<rparr>) of
           (Inl what, s1) \<Rightarrow> (Inl what, s1)
         | (Inr _, s1) \<Rightarrow> (Inr (OffsetCleanupStats.make (length touched) (sum_list (map snd removed))), s1))"

end
