(* ===== verification/Bolt_Offset_Properties.thy ===== *)
theory Bolt_Offset_Properties
  imports Bolt_Offsets
begin

text \<open>
  The offset store as a durable map: the text format is parsed exactly, the logs replay to the maps in
  memory, and committed offsets survive a restart with a torn tail. The interface \<open>durable_map\<close> is the
  contract that the broker relies on.
\<close>

section \<open>The text format\<close>

lemma split_at_append [simp]: "ch \<notin> set a \<Longrightarrow> split_at ch (a @ ch # b) = Some (a, b)"
  by (induction a) auto

lemma split_at_sound: "split_at ch s = Some (a, b) \<Longrightarrow> s = a @ ch # b \<and> ch \<notin> set a"
  by (induction s arbitrary: a) (auto split: if_splits)

lemma split_at_Some: "split_at ch s = Some (a, b) \<longleftrightarrow> s = a @ ch # b \<and> ch \<notin> set a"
  using split_at_sound by auto

lemma split_at_None: "split_at ch s = None \<longleftrightarrow> ch \<notin> set s"
  by (induction ch s rule: split_at.induct) auto

lemma parse_uint_Some:
  "parse_uint mx s = Some v \<longleftrightarrow> s \<noteq> [] \<and> (\<forall>c \<in> set s. is_digit c) \<and> v = digits_value s \<and> v \<le> mx"
  unfolding parse_uint_def from_chars_done [symmetric] by (auto split: option.splits list.splits)

lemma parse_uint_decimal [simp]: "n \<le> mx \<Longrightarrow> parse_uint mx (decimal n) = Some n"
  by (simp add: parse_uint_def)

text \<open>A line of the log with the numbers as they are written in it.\<close>

definition offset_line :: "string \<Rightarrow> string \<Rightarrow> string \<Rightarrow> string \<Rightarrow> string" where
  "offset_line tpc part_text off_text crc_text =
     tpc @ TAB # part_text @ TAB # off_text @ TAB # crc_text"

definition numeral_text :: "nat \<Rightarrow> nat \<Rightarrow> string \<Rightarrow> bool" where
  "numeral_text bound v s \<longleftrightarrow> s \<noteq> [] \<and> (\<forall>c \<in> set s. is_digit c) \<and> digits_value s = v \<and> v < bound"

lemma numeral_text_no_tab: "numeral_text b v s \<Longrightarrow> TAB \<notin> set s"
  by (auto simp: numeral_text_def dest: digit_chars)

lemma parse_offset_line_iff:
  "parse_offset_line line = Some (tpc, part, off) \<longleftrightarrow>
     (\<exists>part_text off_text crc_text.
        line = offset_line tpc part_text off_text crc_text \<and> is_valid_topic_name tpc \<and>
        numeral_text (2 ^ 16) (unat part) part_text \<and> numeral_text (2 ^ 64) (unat off) off_text \<and>
        numeral_text (2 ^ 32) (unat (crc32 (bytes_of_string (crc_input tpc part off)))) crc_text)"
  (is "_ \<longleftrightarrow> (\<exists>ps os cs. ?R ps os cs)")
proof
  assume "parse_offset_line line = Some (tpc, part, off)"
  then obtain r1 ps r2 os cs p o' crc where
    line: "split_at TAB line = Some (tpc, r1)" "split_at TAB r1 = Some (ps, r2)" "split_at TAB r2 = Some (os, cs)"
    and valid: "is_valid_topic_name tpc"
    and nums: "parse_uint (2 ^ 32 - 1) ps = Some p" "p \<le> 65535" "parse_uint (2 ^ 64 - 1) os = Some o'"
      "parse_uint (2 ^ 32 - 1) cs = Some crc"
    and vals: "part = of_nat p" "off = of_nat o'"
      "crc32 (bytes_of_string (crc_input tpc part off)) = of_nat crc"
    by (auto simp: parse_offset_line_def bind_eq_Some_conv)
  have "unat part = p" "unat off = o'" "unat (of_nat crc :: u32) = crc"
    using nums by (auto simp: vals parse_uint_Some unsigned_of_nat take_bit_eq_mod)
  then have "?R ps os cs"
    using line valid nums vals by (auto simp: split_at_Some offset_line_def parse_uint_Some numeral_text_def)
  then show "\<exists>ps os cs. ?R ps os cs" by blast
next
  assume "\<exists>ps os cs. ?R ps os cs"
  then obtain ps os cs where r: "?R ps os cs" by blast
  then have tabs: "TAB \<notin> set tpc" "TAB \<notin> set ps" "TAB \<notin> set os" "TAB \<notin> set cs"
    by (auto dest: valid_name_chars numeral_text_no_tab)
  let ?crc = "crc32 (bytes_of_string (crc_input tpc part off))"
  have "parse_uint (2 ^ 32 - 1) ps = Some (unat part)" "unat part \<le> 65535"
    "parse_uint (2 ^ 64 - 1) os = Some (unat off)" "parse_uint (2 ^ 32 - 1) cs = Some (unat ?crc)"
    using r by (auto simp: parse_uint_Some numeral_text_def)
  then show "parse_offset_line line = Some (tpc, part, off)"
    using r tabs by (simp add: parse_offset_line_def offset_line_def split_at_None)
qed

lemma numeral_text_decimal: "n < b \<Longrightarrow> numeral_text b n (decimal n)"
  by (auto simp: numeral_text_def decimal_digits)

lemma write_offset_record_line:
  "write_offset_record tpc part off = offset_line tpc (decimal (unat part)) (decimal (unat off))
     (decimal (unat (crc32 (bytes_of_string (crc_input tpc part off))))) @ [LF]"
  by (simp add: write_offset_record_def Let_def offset_line_def crc_input_def)

lemma butlast_record:
  "butlast (write_offset_record tpc part off) = offset_line tpc (decimal (unat part)) (decimal (unat off))
     (decimal (unat (crc32 (bytes_of_string (crc_input tpc part off)))))"
  by (simp add: write_offset_record_line)

lemma record_line_chars:
  assumes "is_valid_topic_name tpc"
  shows "LF \<notin> set (butlast (write_offset_record tpc part off))"
    and "last (butlast (write_offset_record tpc part off)) \<noteq> CR"
    and "butlast (write_offset_record tpc part off) \<noteq> []"
proof -
  have digits: "c \<noteq> LF \<and> c \<noteq> CR" if "c \<in> set (decimal n)" for c n
    using digit_chars [OF decimal_digits [OF that]] by simp
  show "LF \<notin> set (butlast (write_offset_record tpc part off))"
    using digits valid_name_chars [OF assms] unfolding butlast_record by (auto simp: offset_line_def)
  show "last (butlast (write_offset_record tpc part off)) \<noteq> CR"
    using digits [OF last_in_set [OF decimal_not_Nil]] unfolding butlast_record by (simp add: offset_line_def)
  show "butlast (write_offset_record tpc part off) \<noteq> []"
    unfolding butlast_record by (simp add: offset_line_def)
qed

lemma parse_written:
  "is_valid_topic_name tpc \<Longrightarrow> parse_offset_line (butlast (write_offset_record tpc part off)) = Some (tpc, part, off)"
  by (subst parse_offset_line_iff)
    (auto simp: butlast_record intro!: exI numeral_text_decimal unsigned_less [THEN order_less_le_trans])

section \<open>Scanning a log\<close>

lemma scan_no_line: "LF \<notin> set c \<Longrightarrow> scan_offsets c = ([], 0)"
  by (subst scan_offsets.simps) (simp add: split_at_None [symmetric])

lemma scan_line:
  "LF \<notin> set line \<Longrightarrow> scan_offsets (line @ LF # rest) =
     (case parse_offset_line (strip_cr line) of
        None \<Rightarrow> ([], 0)
      | Some e \<Rightarrow> (e # fst (scan_offsets rest), length line + 1 + snd (scan_offsets rest)))"
  by (subst scan_offsets.simps) (simp add: split_beta Let_def split: option.split)

lemma scan_induct [case_names no_line bad_line good_line]:
  assumes "\<And>c. LF \<notin> set c \<Longrightarrow> P c"
    and "\<And>line rest. LF \<notin> set line \<Longrightarrow> parse_offset_line (strip_cr line) = None \<Longrightarrow> P (line @ LF # rest)"
    and "\<And>line rest e. LF \<notin> set line \<Longrightarrow> parse_offset_line (strip_cr line) = Some e \<Longrightarrow> P rest \<Longrightarrow> P (line @ LF # rest)"
  shows "P c"
proof (induction c rule: length_induct)
  case (1 c)
  show ?case
  proof (cases "split_at LF c")
    case None
    then show ?thesis by (simp add: split_at_None assms(1))
  next
    case (Some lr)
    then obtain line rest where c: "c = line @ LF # rest" "LF \<notin> set line"
      by (cases lr) (auto simp: split_at_Some)
    then have "P rest" using 1 by simp
    then show ?thesis using c assms(2,3) by (cases "parse_offset_line (strip_cr line)") auto
  qed
qed

lemma scan_record:
  assumes "is_valid_topic_name tpc"
  shows "scan_offsets (write_offset_record tpc part off @ rest) =
    ((tpc, part, off) # fst (scan_offsets rest),
     length (write_offset_record tpc part off) + snd (scan_offsets rest))"
proof -
  let ?line = "butlast (write_offset_record tpc part off)"
  have rec: "write_offset_record tpc part off = ?line @ [LF]" by (simp add: write_offset_record_line)
  have len: "length (write_offset_record tpc part off) = length ?line + 1" by (subst rec) simp
  have "scan_offsets (?line @ LF # rest) =
      ((tpc, part, off) # fst (scan_offsets rest), length ?line + 1 + snd (scan_offsets rest))"
    using scan_line [OF record_line_chars(1) [OF assms], of part off rest]
      record_line_chars(2,3) [OF assms, of part off] parse_written [OF assms, of part off]
    by (simp add: strip_cr_def)
  moreover have "write_offset_record tpc part off @ rest = ?line @ LF # rest" by (subst rec) simp
  ultimately show ?thesis unfolding len by (simp only: add.assoc)
qed

lemma torn_line_open:
  assumes "is_valid_topic_name tpc" "n < length (write_offset_record tpc part off)"
  shows "LF \<notin> set (take n (write_offset_record tpc part off))"
proof -
  let ?line = "butlast (write_offset_record tpc part off)"
  have rec: "write_offset_record tpc part off = ?line @ [LF]" by (simp add: write_offset_record_line)
  then have "n \<le> length ?line" using assms(2) by (metis length_append_singleton less_Suc_eq_le)
  then have "take n (write_offset_record tpc part off) = take n ?line" by (subst rec) simp
  then show ?thesis
    using record_line_chars(1) [OF assms(1), of part off] by (auto dest: in_set_takeD)
qed

definition complete :: "string \<Rightarrow> bool" where
  "complete c \<longleftrightarrow> snd (scan_offsets c) = length c"

lemma scan_Nil [simp]: "scan_offsets [] = ([], 0)" "complete []"
  by (simp_all add: scan_no_line complete_def)

lemma scan_bound: "snd (scan_offsets c) \<le> length c"
  by (induction c rule: scan_induct) (simp_all add: scan_no_line scan_line)

lemma scan_append:
  "complete c \<Longrightarrow> scan_offsets (c @ d) = (fst (scan_offsets c) @ fst (scan_offsets d), length c + snd (scan_offsets d))"
  by (induction c rule: scan_induct) (simp_all add: scan_no_line scan_line complete_def)

lemma scan_take: "scan_offsets (take (snd (scan_offsets c)) c) = scan_offsets c"
  by (induction c rule: scan_induct) (simp_all add: scan_no_line scan_line)

lemma complete_take: "complete (take (snd (scan_offsets c)) c)"
  using scan_bound [of c] by (simp add: complete_def scan_take)

lemma scan_valid: "(tpc, part, off) \<in> set (fst (scan_offsets c)) \<Longrightarrow> is_valid_topic_name tpc"
proof (induction c rule: scan_induct)
  case (good_line line rest e)
  obtain t p o' where e: "e = (t, p, o')" by (cases e)
  then have "is_valid_topic_name t" using good_line(2) by (auto simp: parse_offset_line_iff)
  then show ?case using good_line e by (auto simp: scan_line)
qed (simp_all add: scan_no_line scan_line)

section \<open>The store and its logs\<close>

definition offsets_of :: "(string \<times> GroupOffsets) list \<Rightarrow> string \<Rightarrow> GroupOffsets" where
  "offsets_of m grp = (case map_of m grp of None \<Rightarrow> [] | Some os \<Rightarrow> os)"

definition entry_log :: "DirEntry \<Rightarrow> string" where
  "entry_log e = (case e of OtherEntry \<Rightarrow> [] | GroupDirectory fs \<Rightarrow>
     (case map_of fs offsets_log of None \<Rightarrow> [] | Some c \<Rightarrow> c))"

definition log_content :: "(string \<times> DirEntry) list \<Rightarrow> string \<Rightarrow> string" where
  "log_content disk grp = (case map_of disk grp of None \<Rightarrow> [] | Some e \<Rightarrow> entry_log e)"

definition put_entry :: "string \<times> u16 \<times> u64 \<Rightarrow> GroupOffsets \<Rightarrow> GroupOffsets" where
  "put_entry e m = (case e of (tpc, part, off) \<Rightarrow> map_put (tpc, part) off m)"

definition replay :: "string \<Rightarrow> GroupOffsets" where
  "replay c = fold put_entry (fst (scan_offsets c)) []"

lemma committed_offsets_of: "committed grp tpc part s = map_of (offsets_of (offsets' s) grp) (tpc, part)"
  by (simp add: committed_def offsets_of_def split: option.split)

lemma offsets_of_set_offset:
  "offsets_of (set_offset grp k off m) g = (if g = grp then map_put k off (offsets_of m g) else offsets_of m g)"
  by (auto simp: offsets_of_def set_offset_def)

lemma offsets_of_fold:
  "offsets_of (fold (\<lambda>(tpc, part, off). set_offset grp (tpc, part) off) es m) g =
     (if g = grp then fold put_entry es (offsets_of m g) else offsets_of m g)"
  by (induction es arbitrary: m) (auto simp: offsets_of_set_offset put_entry_def)

lemma sorted_set_offset [simp]: "sorted_map m \<Longrightarrow> sorted_map (set_offset grp k off m)"
  by (simp add: set_offset_def)

lemma sorted_fold_set_offset:
  "sorted_map m \<Longrightarrow> sorted_map (fold (\<lambda>(tpc, part, off). set_offset grp (tpc, part) off) es m)"
  by (induction es arbitrary: m) auto

lemma group_files_log: "log_content disk grp = (case map_of (group_files disk grp) offsets_log of None \<Rightarrow> [] | Some c \<Rightarrow> c)"
  by (auto simp: log_content_def entry_log_def group_files_def split: option.split DirEntry.split)

lemma log_content_update: "log_content (AList.update grp e disk) g = (if g = grp then entry_log e else log_content disk g)"
  by (simp add: log_content_def update_conv')

lemma log_content_put:
  "log_content (put_group_file grp offsets_log c disk) g = (if g = grp then c else log_content disk g)"
  by (simp add: put_group_file_def log_content_update entry_log_def update_conv')

lemma distinct_put_group_file [simp]: "distinct (map fst disk) \<Longrightarrow> distinct (map fst (put_group_file grp n c disk))"
  by (simp add: put_group_file_def distinct_update)

lemma sorted_fold_put: "sorted_map m \<Longrightarrow> sorted_map (fold put_entry es m)"
  by (induction es arbitrary: m) (auto simp: put_entry_def)

lemma sorted_replay [simp]: "sorted_map (replay c)"
  by (simp add: replay_def sorted_fold_put)

lemma fold_put_keys: "(t, p) \<in> fst ` set (fold put_entry es m) \<Longrightarrow> (t, p) \<in> fst ` set m \<or> (\<exists>off. (t, p, off) \<in> set es)"
proof (induction es arbitrary: m)
  case (Cons e es)
  obtain t' p' o' where e: "e = (t', p', o')" by (cases e)
  then show ?case using Cons.IH [of "put_entry e m"] Cons.prems by (auto simp: put_entry_def)
qed simp

lemma replay_valid: "((t, p), off) \<in> set (replay c) \<Longrightarrow> is_valid_topic_name t"
  using fold_put_keys [of t p "fst (scan_offsets c)" "[]"] by (force simp: replay_def dest: scan_valid)

lemma replay_record:
  "complete c \<Longrightarrow> is_valid_topic_name tpc \<Longrightarrow>
   complete (c @ write_offset_record tpc part off) \<and>
   replay (c @ write_offset_record tpc part off) = map_put (tpc, part) off (replay c)"
  using scan_record [of tpc part off "[]"]
  by (simp add: complete_def replay_def scan_append put_entry_def)

section \<open>Opening the store\<close>

lemma recover_entry_effect:
  assumes "log_content (consumer_offsets s) g = entry_log e"
  shows "offsets_of (offsets' (recover_entry (g, e) s)) h =
      (if h = g \<and> is_valid_group_name g then fold put_entry (fst (scan_offsets (entry_log e))) (offsets_of (offsets' s) h)
       else offsets_of (offsets' s) h)" (is ?offsets)
    and "log_content (consumer_offsets (recover_entry (g, e) s)) h =
      (if h = g \<and> is_valid_group_name g then take (snd (scan_offsets (entry_log e))) (entry_log e)
       else log_content (consumer_offsets s) h)" (is ?log)
    and "distinct (map fst (consumer_offsets s)) \<Longrightarrow> distinct (map fst (consumer_offsets (recover_entry (g, e) s)))"
    and "sorted_map (offsets' s) \<Longrightarrow> sorted_map (offsets' (recover_entry (g, e) s))"
proof -
  show ?offsets
    by (auto simp: recover_entry_def recover_group_def entry_log_def split_beta offsets_of_fold Let_def
        split: DirEntry.split option.split)
  show ?log
    using assms scan_bound [of "entry_log e"]
    by (auto simp: recover_entry_def recover_group_def entry_log_def split_beta log_content_put Let_def
        split: DirEntry.splits option.splits)
  show "distinct (map fst (consumer_offsets (recover_entry (g, e) s)))" if "distinct (map fst (consumer_offsets s))"
    using that
    by (auto simp: recover_entry_def recover_group_def split_beta Let_def split: DirEntry.split option.split)
  show "sorted_map (offsets' (recover_entry (g, e) s))" if "sorted_map (offsets' s)"
    using that sorted_fold_set_offset
    by (auto simp: recover_entry_def recover_group_def split_beta Let_def split: DirEntry.split option.split)
qed

lemma recover_entries_effect:
  assumes "distinct (map fst es)" "\<And>g e. (g, e) \<in> set es \<Longrightarrow> log_content (consumer_offsets s) g = entry_log e"
  shows "offsets_of (offsets' (fold recover_entry es s)) h =
      (case map_of es h of None \<Rightarrow> offsets_of (offsets' s) h
       | Some e \<Rightarrow> if is_valid_group_name h then fold put_entry (fst (scan_offsets (entry_log e))) (offsets_of (offsets' s) h)
                 else offsets_of (offsets' s) h) \<and>
    log_content (consumer_offsets (fold recover_entry es s)) h =
      (case map_of es h of None \<Rightarrow> log_content (consumer_offsets s) h
       | Some e \<Rightarrow> if is_valid_group_name h then take (snd (scan_offsets (entry_log e))) (entry_log e)
                 else log_content (consumer_offsets s) h) \<and>
    (distinct (map fst (consumer_offsets s)) \<longrightarrow> distinct (map fst (consumer_offsets (fold recover_entry es s)))) \<and>
    (sorted_map (offsets' s) \<longrightarrow> sorted_map (offsets' (fold recover_entry es s)))"
  using assms
proof (induction es arbitrary: s)
  case (Cons ge es)
  obtain g e where ge: "ge = (g, e)" by (cases ge)
  let ?s = "recover_entry (g, e) s"
  have log: "log_content (consumer_offsets s) g = entry_log e" using Cons.prems(2) ge by simp
  have fresh: "map_of es g = None" using Cons.prems(1) ge by (auto simp: map_of_eq_None_iff)
  have rest: "log_content (consumer_offsets ?s) g' = entry_log e'" if "(g', e') \<in> set es" for g' e'
  proof -
    have "g' \<noteq> g" using that Cons.prems(1) ge by (force simp: rev_image_eqI)
    then show ?thesis using Cons.prems(2) [of g' e'] that by (simp add: recover_entry_effect(2) [OF log])
  qed
  have dist: "distinct (map fst es)" using Cons.prems(1) by simp
  show ?case
    using Cons.IH [OF dist, of ?s, OF rest] fresh recover_entry_effect [OF log] log
    by (cases "h = g"; cases "map_of es h") (simp_all add: ge)
qed simp

text \<open>The invariant: memory is the replay of the logs, and the logs have no torn tail.\<close>

definition group_synced :: "OffsetStore \<Rightarrow> string \<Rightarrow> bool" where
  "group_synced s g \<longleftrightarrow>
     (if is_valid_group_name g
      then complete (log_content (consumer_offsets s) g) \<and>
        offsets_of (offsets' s) g = replay (log_content (consumer_offsets s) g)
      else offsets_of (offsets' s) g = [])"

definition store_inv :: "OffsetStore \<Rightarrow> bool" where
  "store_inv s \<longleftrightarrow> distinct (map fst (consumer_offsets s)) \<and> sorted_map (offsets' s) \<and> (\<forall>g. group_synced s g)"

lemma open_offsets_correct:
  assumes "distinct (map fst disk)"
  shows "store_inv (open_offsets disk)"
    and "offsets_of (offsets' (open_offsets disk)) g = (if is_valid_group_name g then replay (log_content disk g) else [])"
proof -
  let ?s0 = "OffsetStore.make disk [] (OffsetStoreStats.make 0 0 0)"
  have s0: "consumer_offsets ?s0 = disk" "offsets' ?s0 = []" by (simp_all add: OffsetStore.make_def)
  have entries: "log_content (consumer_offsets ?s0) h = entry_log e" if "(h, e) \<in> set disk" for h e
    using that assms by (simp add: s0 log_content_def)
  note eff = recover_entries_effect [OF assms, of ?s0, OF entries]
  have view: "offsets_of (offsets' (open_offsets disk)) h = (if is_valid_group_name h then replay (log_content disk h) else [])" for h
    using eff [of h] unfolding open_offsets_def
    by (simp add: s0 offsets_of_def replay_def log_content_def split: option.split)
  have "log_content (consumer_offsets (open_offsets disk)) h =
      take (snd (scan_offsets (log_content disk h))) (log_content disk h)" if "is_valid_group_name h" for h
    using eff [of h] that unfolding open_offsets_def by (simp add: s0 log_content_def split: option.split)
  then have "group_synced (open_offsets disk) h" for h
    using complete_take view by (simp add: group_synced_def replay_def scan_take)
  then show "store_inv (open_offsets disk)"
    using eff assms by (simp add: store_inv_def open_offsets_def s0)
  show "offsets_of (offsets' (open_offsets disk)) g = (if is_valid_group_name g then replay (log_content disk g) else [])"
    by (rule view)
qed

section \<open>A durable map\<close>

text \<open>
  What the broker relies on: a map whose updates are visible at once and that comes back unchanged after
  any crash.
\<close>

locale durable_map =
  fixes inv :: "'s \<Rightarrow> bool"
    and key_ok :: "'k \<Rightarrow> bool"
    and look :: "'s \<Rightarrow> 'k \<Rightarrow> 'v option"
    and put :: "'k \<Rightarrow> 'v \<Rightarrow> 's \<Rightarrow> 's"
    and crash :: "'s \<Rightarrow> 's \<Rightarrow> bool"
  assumes put_inv: "inv s \<Longrightarrow> key_ok k \<Longrightarrow> inv (put k v s)"
    and put_look: "inv s \<Longrightarrow> key_ok k \<Longrightarrow> look (put k v s) = (look s)(k \<mapsto> v)"
    and crash_inv: "inv s \<Longrightarrow> crash s s' \<Longrightarrow> inv s'"
    and crash_look: "inv s \<Longrightarrow> crash s s' \<Longrightarrow> look s' = look s"
begin

lemma puts_inv: "inv s \<Longrightarrow> \<forall>(k, v) \<in> set kvs. key_ok k \<Longrightarrow> inv (fold (\<lambda>(k, v). put k v) kvs s)"
  by (induction kvs arbitrary: s) (auto intro: put_inv)

lemma puts_look:
  "inv s \<Longrightarrow> \<forall>(k, v) \<in> set kvs. key_ok k \<Longrightarrow>
   look (fold (\<lambda>(k, v). put k v) kvs s) = look s ++ map_of (rev kvs)"
proof (induction kvs arbitrary: s)
  case (Cons kv kvs)
  obtain k v where kv: "kv = (k, v)" by (cases kv)
  have ok: "key_ok k" "\<forall>(k, v) \<in> set kvs. key_ok k" using Cons.prems(2) kv by simp_all
  have "look (fold (\<lambda>(k, v). put k v) (kv # kvs) s) = look (put k v s) ++ map_of (rev kvs)"
    using Cons.IH [OF put_inv [OF Cons.prems(1) ok(1)] ok(2), of v] by (simp add: kv)
  also have "\<dots> = (look s ++ [k \<mapsto> v]) ++ map_of (rev kvs)"
    by (simp add: put_look [OF Cons.prems(1) ok(1)])
  also have "\<dots> = look s ++ map_of (rev (kv # kvs))"
    unfolding kv rev.simps map_of_append by (simp only: map_add_assoc map_of.simps fst_conv snd_conv)
  finally show ?case .
qed simp

lemma puts_crash_look:
  "inv s \<Longrightarrow> \<forall>(k, v) \<in> set kvs. key_ok k \<Longrightarrow> crash (fold (\<lambda>(k, v). put k v) kvs s) s' \<Longrightarrow>
   inv s' \<and> look s' = look s ++ map_of (rev kvs)"
  using crash_inv [OF puts_inv] crash_look [OF puts_inv] puts_look by simp

end

type_synonym commit_key = "string \<times> string \<times> u16"

fun commit_key_ok :: "commit_key \<Rightarrow> bool" where
  "commit_key_ok (grp, tpc, part) \<longleftrightarrow> is_valid_group_name grp \<and> is_valid_topic_name tpc"

fun commit_at :: "commit_key \<Rightarrow> u64 \<Rightarrow> OffsetStore \<Rightarrow> OffsetStore" where
  "commit_at (grp, tpc, part) off s = snd (commit None grp tpc part off s)"

fun committed_at :: "OffsetStore \<Rightarrow> commit_key \<Rightarrow> u64 option" where
  "committed_at s (grp, tpc, part) = committed grp tpc part s"

text \<open>
  A restart on the directory as it is, or with the log of one group extended by the beginning of the
  line that a commit was writing when the broker died.
\<close>

definition crash_restart :: "OffsetStore \<Rightarrow> OffsetStore \<Rightarrow> bool" where
  "crash_restart s s' \<longleftrightarrow> s' = open_offsets (consumer_offsets s) \<or>
     (\<exists>grp tpc part off n. is_valid_topic_name tpc \<and> n < length (write_offset_record tpc part off) \<and>
        s' = open_offsets (put_group_file grp offsets_log
          (log_content (consumer_offsets s) grp @ take n (write_offset_record tpc part off)) (consumer_offsets s)))"

lemma commit_None:
  assumes "is_valid_group_name grp" "is_valid_topic_name tpc"
  shows "commit None grp tpc part off s = (Inr (), s
    \<lparr>consumer_offsets := put_group_file grp offsets_log
       (log_content (consumer_offsets s) grp @ write_offset_record tpc part off) (consumer_offsets s),
     offsets' := set_offset grp (tpc, part) off (offsets' s)\<rparr>)"
  using assms by (simp add: commit_def group_files_log Let_def)

lemma commit_inv:
  assumes "store_inv s" "is_valid_group_name grp" "is_valid_topic_name tpc"
  shows "store_inv (snd (commit None grp tpc part off s))"
  using assms replay_record [of "log_content (consumer_offsets s) grp" tpc part off]
  by (auto simp: store_inv_def group_synced_def commit_None log_content_put offsets_of_set_offset)

lemma replay_torn: "complete c \<Longrightarrow> LF \<notin> set t \<Longrightarrow> replay (c @ t) = replay c"
  by (simp add: replay_def scan_append scan_no_line)

lemma crash_restart_offsets:
  assumes "store_inv s" "crash_restart s s'"
  shows "store_inv s' \<and> (\<forall>g. offsets_of (offsets' s') g = offsets_of (offsets' s) g)"
proof -
  have dist: "distinct (map fst (consumer_offsets s))" and sync: "group_synced s g" for g
    using assms(1) by (auto simp: store_inv_def)
  obtain disk where disk: "s' = open_offsets disk" "distinct (map fst disk)"
    and logs: "\<And>g. is_valid_group_name g \<Longrightarrow> replay (log_content disk g) = replay (log_content (consumer_offsets s) g)"
    using assms(2) unfolding crash_restart_def
  proof (elim disjE exE conjE)
    assume "s' = open_offsets (consumer_offsets s)"
    then show thesis using that [OF _ dist] by simp
  next
    fix grp tpc part off n
    let ?t = "take n (write_offset_record tpc part off)"
    assume t: "is_valid_topic_name tpc" "n < length (write_offset_record tpc part off)"
      and s': "s' = open_offsets (put_group_file grp offsets_log
          (log_content (consumer_offsets s) grp @ ?t) (consumer_offsets s))"
    have "replay (log_content (consumer_offsets s) grp @ ?t) = replay (log_content (consumer_offsets s) grp)"
      if "is_valid_group_name grp"
      using sync [of grp] that torn_line_open [OF t] by (simp add: group_synced_def replay_torn)
    then have "replay (log_content (put_group_file grp offsets_log
          (log_content (consumer_offsets s) grp @ ?t) (consumer_offsets s)) g) =
        replay (log_content (consumer_offsets s) g)" if "is_valid_group_name g" for g
      using that by (auto simp: log_content_put)
    then show thesis using that [OF s'] dist by simp
  qed
  then show ?thesis
    using open_offsets_correct [OF disk(2)] sync by (simp add: disk(1) group_synced_def)
qed

interpretation offset_store: durable_map store_inv commit_key_ok committed_at commit_at crash_restart
proof
  fix s s' :: OffsetStore and k :: commit_key and v :: u64
  assume inv: "store_inv s"
  obtain grp tpc part where k: "k = (grp, tpc, part)" by (cases k)
  { assume ok: "commit_key_ok k"
    then show "store_inv (commit_at k v s)" using commit_inv [OF inv] by (simp add: k)
    show "committed_at (commit_at k v s) = (committed_at s)(k \<mapsto> v)"
      using ok by (auto simp: k fun_eq_iff commit_None committed_offsets_of offsets_of_set_offset) }
  { assume "crash_restart s s'"
    from crash_restart_offsets [OF inv this] show "store_inv s'" "committed_at s' = committed_at s"
      by (auto simp: fun_eq_iff committed_offsets_of) }
qed

section \<open>Removing a topic\<close>

abbreviation valid_topics :: "GroupOffsets \<Rightarrow> bool" where
  "valid_topics os \<equiv> \<forall>e \<in> set os. is_valid_topic_name (fst (fst e))"

definition flat_entry :: "OffsetKey \<times> u64 \<Rightarrow> string \<times> u16 \<times> u64" where
  "flat_entry e = (fst (fst e), snd (fst e), snd e)"

lemma group_lines_Cons: "group_lines (((t, p), off) # os) = write_offset_record t p off @ group_lines os"
  by (simp add: group_lines_def)

lemma scan_records: "valid_topics os \<Longrightarrow> scan_offsets (group_lines os) = (map flat_entry os, length (group_lines os))"
proof (induction os)
  case (Cons e os)
  obtain t p off where e: "e = ((t, p), off)" by (metis surj_pair)
  then show ?case using Cons.IH Cons.prems by (simp add: scan_record group_lines_Cons flat_entry_def)
qed (simp add: group_lines_def)

lemma map_of_fold_put: "map_of (fold put_entry (map flat_entry os) m) = map_of m ++ map_of (rev os)"
proof (induction os arbitrary: m)
  case (Cons e os)
  obtain t p off where e: "e = ((t, p), off)" by (metis surj_pair)
  have "put_entry (flat_entry e) m = map_put (t, p) off m" by (simp add: e put_entry_def flat_entry_def)
  then show ?case using Cons.IH [of "map_put (t, p) off m"] by (simp add: e del: fun_upd_apply)
qed simp

lemma replay_records:
  assumes "sorted_map os" "valid_topics os"
  shows "replay (group_lines os) = os" and "complete (group_lines os)"
proof -
  have "map_of (rev os) = map_of os"
    using sorted_map_distinct [OF assms(1)] by (intro map_of_inject_set [THEN iffD2]) (simp_all add: rev_map [symmetric])
  then have "map_of (fold put_entry (map flat_entry os) []) = map_of os"
    by (simp add: map_of_fold_put)
  then show "replay (group_lines os) = os"
    using assms by (intro sorted_map_eqI) (simp_all add: replay_def scan_records sorted_fold_put)
  show "complete (group_lines os)"
    using scan_records [OF assms(2)] by (simp add: complete_def)
qed

text \<open>What holds of a group between its removal in memory and the rewrite of its log.\<close>

definition rewritable :: "OffsetStore \<Rightarrow> string \<Rightarrow> bool" where
  "rewritable s g \<longleftrightarrow> sorted_map (offsets_of (offsets' s) g) \<and>
     valid_topics (offsets_of (offsets' s) g) \<and>
     (\<not> is_valid_group_name g \<longrightarrow> offsets_of (offsets' s) g = [])"

lemma log_content_delete: "log_content (AList.delete grp disk) g = (if g = grp then [] else log_content disk g)"
  by (simp add: log_content_def delete_conv')

lemma rewrite_group_effect:
  assumes "rewritable s grp"
  shows "fst (rewrite_group None grp s) = Inr ()"
    and "offsets_of (offsets' (snd (rewrite_group None grp s))) g = offsets_of (offsets' s) g"
    and "group_synced (snd (rewrite_group None grp s)) g \<longleftrightarrow> g = grp \<or> group_synced s g"
    and "distinct (map fst (consumer_offsets s)) \<Longrightarrow> distinct (map fst (consumer_offsets (snd (rewrite_group None grp s))))"
    and "sorted_map (offsets' s) \<Longrightarrow> sorted_map (offsets' (snd (rewrite_group None grp s)))"
proof -
  let ?os = "offsets_of (offsets' s) grp" and ?s' = "snd (rewrite_group None grp s)"
  let ?lines = "group_lines ?os"
  have os: "(case map_of (offsets' s) grp of None \<Rightarrow> [] | Some os \<Rightarrow> os) = ?os" by (simp add: offsets_of_def)
  show "fst (rewrite_group None grp s) = Inr ()"
    by (simp add: rewrite_group_def os Let_def)
  show offs: "offsets_of (offsets' ?s') h = offsets_of (offsets' s) h" for h
    by (simp add: rewrite_group_def os Let_def) (simp add: offsets_of_def)
  have log: "log_content (consumer_offsets ?s') h = (if h = grp then ?lines else log_content (consumer_offsets s) h)" for h
    by (simp add: rewrite_group_def os Let_def log_content_delete put_group_file_def log_content_update)
      (simp add: entry_log_def group_files_def update_conv' delete_conv' group_lines_def)
  show "group_synced ?s' g \<longleftrightarrow> g = grp \<or> group_synced s g"
    using assms replay_records [of ?os]
    by (auto simp: group_synced_def offs log rewritable_def)
  show "distinct (map fst (consumer_offsets ?s'))" if "distinct (map fst (consumer_offsets s))"
    using that by (simp add: rewrite_group_def os Let_def distinct_update distinct_delete put_group_file_def)
  show "sorted_map (offsets' ?s')" if "sorted_map (offsets' s)"
    using that by (simp add: rewrite_group_def os Let_def)
qed

lemma rewrite_groups_effect:
  assumes "\<forall>g \<in> set gs. rewritable s g"
  shows "fst (rewrite_groups (\<lambda>_. None) gs s) = Inr () \<and>
    offsets_of (offsets' (snd (rewrite_groups (\<lambda>_. None) gs s))) g = offsets_of (offsets' s) g \<and>
    (group_synced (snd (rewrite_groups (\<lambda>_. None) gs s)) g \<longleftrightarrow> g \<in> set gs \<or> group_synced s g) \<and>
    (distinct (map fst (consumer_offsets s)) \<longrightarrow>
      distinct (map fst (consumer_offsets (snd (rewrite_groups (\<lambda>_. None) gs s))))) \<and>
    (sorted_map (offsets' s) \<longrightarrow> sorted_map (offsets' (snd (rewrite_groups (\<lambda>_. None) gs s))))"
  using assms
proof (induction gs arbitrary: s)
  case (Cons grp gs)
  let ?s = "snd (rewrite_group None grp s)"
  have ok: "rewritable s grp" using Cons.prems by simp
  note eff = rewrite_group_effect [OF ok]
  have "\<forall>g \<in> set gs. rewritable ?s g" using Cons.prems by (simp add: rewritable_def eff(2))
  note ih = Cons.IH [OF this]
  have "rewrite_group None grp s = (Inr (), ?s)" using eff(1) by (metis prod.collapse)
  then have "rewrite_groups (\<lambda>_. None) (grp # gs) s = rewrite_groups (\<lambda>_. None) gs ?s"
    by (metis (mono_tags, lifting) old.prod.case rewrite_groups.simps(2) sum.simps(6))
  then show ?case using ih eff by auto
qed simp

lemma remove_topic_effect:
  assumes inv: "store_inv s"
  shows "\<exists>stats s'. remove_topic_offsets (\<lambda>_. None) tpc s = (Inr stats, s') \<and> store_inv s' \<and>
    (\<forall>g. offsets_of (offsets' s') g = map_erase_if (\<lambda>k _. fst k = tpc) (offsets_of (offsets' s) g))"
proof -
  let ?erase = "map_erase_if (\<lambda>k _. fst k = tpc) :: GroupOffsets \<Rightarrow> GroupOffsets"
  define kept where "kept = map (\<lambda>(grp, os). (grp, ?erase os)) (offsets' s)"
  define removed where "removed = map (\<lambda>(grp, os). (grp, length os - length (?erase os))) (offsets' s)"
  let ?touched = "map fst (filter (\<lambda>(_, n). n > 0) removed)" and ?s1 = "s\<lparr>offsets' := kept\<rparr>"
  have erase_eq: "map_erase_if (\<lambda>(t, part) _. t = tpc) = ?erase"
    by (rule arg_cong [where f = map_erase_if]) (auto simp: fun_eq_iff)
  have kept: "offsets_of kept g = ?erase (offsets_of (offsets' s) g)" for g
    by (simp add: offsets_of_def kept_def map_of_map map_option_case map_erase_if_def split: option.split)
  have sorted: "sorted_map kept" "sorted_map (offsets' s)" and dist: "distinct (map fst (consumer_offsets s))"
    using inv by (simp_all add: store_inv_def kept_def sorted_map_def comp_def split_beta)
  have sync: "group_synced s g" for g using inv by (simp add: store_inv_def)
  have view: "offsets_of (offsets' s) g = (if is_valid_group_name g then replay (log_content (consumer_offsets s) g) else [])" for g
    using sync [of g] by (auto simp: group_synced_def)
  have "valid_topics (replay c)" for c using replay_valid by force
  then have "valid_topics (offsets_of (offsets' s) g)" "sorted_map (offsets_of (offsets' s) g)" for g
    unfolding view by (simp_all split: if_split) fastforce
  then have ok: "rewritable ?s1 g" for g
    using map_erase_if_subset [of "\<lambda>k _. fst k = tpc" "offsets_of (offsets' s) g"]
    by (auto simp: rewritable_def kept) (simp add: view map_erase_if_def)
  have untouched: "group_synced ?s1 g" if "g \<notin> set ?touched" for g
  proof -
    have "?erase (offsets_of (offsets' s) g) = offsets_of (offsets' s) g"
    proof (cases "map_of (offsets' s) g")
      case (Some os)
      then have "(g, os) \<in> set (offsets' s)" by (rule map_of_SomeD)
      then have "length os \<le> length (?erase os)" using that by (force simp: removed_def)
      then have "?erase os = os" unfolding map_erase_if_def
        by (metis (no_types, lifting) filter_id_conv length_filter_less linorder_not_le)
      then show ?thesis using Some by (simp add: offsets_of_def)
    qed (simp add: offsets_of_def map_erase_if_def)
    then show ?thesis using sync [of g] unfolding group_synced_def by (auto simp: kept)
  qed
  note eff = rewrite_groups_effect [of ?touched ?s1]
  let ?r = "rewrite_groups (\<lambda>_. None) ?touched ?s1"
  have removed_eq: "removed = map2 (\<lambda>(grp, os) (_, os'). (grp, length os - length os')) (offsets' s) kept"
    unfolding removed_def kept_def by (rule nth_equalityI) (auto simp: split_beta)
  have run: "remove_topic_offsets (\<lambda>_. None) tpc s =
      (case ?r of (Inl what, s1) \<Rightarrow> (Inl what, s1)
       | (Inr _, s1) \<Rightarrow> (Inr (OffsetCleanupStats.make (length ?touched) (sum_list (map snd removed))), s1))"
    unfolding remove_topic_offsets_def erase_eq Let_def kept_def [symmetric] removed_eq [symmetric] ..
  obtain u s' where r: "?r = (Inr u, s')" using eff ok by (cases ?r) auto
  then have "remove_topic_offsets (\<lambda>_. None) tpc s =
      (Inr (OffsetCleanupStats.make (length ?touched) (sum_list (map snd removed))), s')"
    unfolding run by simp
  moreover have "group_synced s' g" "offsets_of (offsets' s') g = ?erase (offsets_of (offsets' s) g)"
    "distinct (map fst (consumer_offsets s'))" "sorted_map (offsets' s')" for g
    using eff [of g] ok untouched [of g] sorted dist kept [of g] unfolding r by auto
  ultimately show ?thesis by (auto simp: store_inv_def)
qed

section \<open>Properties\<close>

text \<open>
  C24: committed offsets are durable. After any sequence of commits and a crash, including one in the
  middle of the next commit's line, the restarted store answers every query with the last offset
  committed for that group, topic and partition, and its memory again matches its logs.
\<close>

theorem commits_survive_crash:
  assumes "store_inv s" "\<forall>(k, off) \<in> set commits. commit_key_ok k"
    and "crash_restart (fold (\<lambda>(k, off). commit_at k off) commits s) s'"
  shows "store_inv s' \<and> committed_at s' = committed_at s ++ map_of (rev commits)"
  using assms by (rule offset_store.puts_crash_look)

theorem commits_survive_crash_witness:
  "committed ''g'' ''t'' 3 (open_offsets (consumer_offsets
     (commit_at (''g'', ''t'', 3) 42 (commit_at (''g'', ''t'', 3) 41 (open_offsets []))))) = Some 42"
proof -
  have "store_inv (open_offsets [])" by (rule open_offsets_correct) simp
  moreover have "is_valid_topic_name ''g''" "is_valid_topic_name ''t''"
    by (simp_all add: is_valid_topic_name_def less_eq_char_def)
  ultimately show ?thesis
    using commits_survive_crash [of "open_offsets []" "[((''g'', ''t'', 3), 41), ((''g'', ''t'', 3), 42)]"]
    by (auto simp: crash_restart_def is_valid_group_name_def fun_eq_iff dest: spec [of _ "(''g'', ''t'', 3)"])
qed

text \<open>
  What a line of the offset log means. A line is accepted as a commit exactly when it has four
  fields separated by tabs: a valid topic name, decimal numbers (leading zeros allowed) for a 16-bit
  partition and a 64-bit offset, and the decimal CRC-32 of the canonical text of the first three. In
  particular the line that a commit writes is accepted as that commit.
\<close>

theorem offset_line_exact:
  "(parse_offset_line line = Some (tpc, part, off) \<longleftrightarrow>
     (\<exists>part_text off_text crc_text.
        line = offset_line tpc part_text off_text crc_text \<and> is_valid_topic_name tpc \<and>
        numeral_text (2 ^ 16) (unat part) part_text \<and> numeral_text (2 ^ 64) (unat off) off_text \<and>
        numeral_text (2 ^ 32) (unat (crc32 (bytes_of_string (crc_input tpc part off)))) crc_text)) \<and>
   (is_valid_topic_name tpc \<longrightarrow>
     parse_offset_line (butlast (write_offset_record tpc part off)) = Some (tpc, part, off))"
  using parse_offset_line_iff parse_written by blast

theorem offset_line_exact_witness:
  "parse_offset_line (butlast (write_offset_record ''orders'' 1 7)) = Some (''orders'', 1, 7)"
proof -
  have "is_valid_topic_name ''orders''" by (simp add: is_valid_topic_name_def less_eq_char_def)
  then show ?thesis using offset_line_exact by blast
qed

text \<open>
  Deleting a topic removes its offsets and no others. When no file operation fails the cleanup
  succeeds, the store's memory matches its logs again, offsets of the topic are gone from every group,
  and every other committed offset is unchanged, also after the next restart.
\<close>

theorem remove_topic_exact:
  assumes "store_inv s"
  shows "\<exists>stats s'. remove_topic_offsets (\<lambda>_. None) tpc s = (Inr stats, s') \<and> store_inv s' \<and>
    (\<forall>grp t part. committed grp t part s' = (if t = tpc then None else committed grp t part s) \<and>
       committed grp t part (open_offsets (consumer_offsets s')) = committed grp t part s')"
proof -
  obtain stats s' where run: "remove_topic_offsets (\<lambda>_. None) tpc s = (Inr stats, s')" and inv: "store_inv s'"
    and offs: "\<And>g. offsets_of (offsets' s') g = map_erase_if (\<lambda>k _. fst k = tpc) (offsets_of (offsets' s) g)"
    using remove_topic_effect [OF assms, of tpc] by blast
  have "sorted_map (offsets_of (offsets' s) g)" for g
    using assms by (cases "is_valid_group_name g") (auto simp: store_inv_def group_synced_def split: if_splits)
  then have "committed grp t part s' = (if t = tpc then None else committed grp t part s)" for grp t part
    by (simp add: committed_offsets_of offs map_of_erase_if split: option.split)
  moreover have "committed grp t part (open_offsets (consumer_offsets s')) = committed grp t part s'" for grp t part
    using crash_restart_offsets [OF inv, of "open_offsets (consumer_offsets s')"]
    by (simp add: crash_restart_def committed_offsets_of)
  ultimately show ?thesis using run inv by blast
qed

theorem remove_topic_exact_witness:
  "\<exists>stats s'. remove_topic_offsets (\<lambda>_. None) ''t'' (commit_at (''g'', ''t'', 3) 41 (open_offsets [])) = (Inr stats, s') \<and>
     committed ''g'' ''t'' 3 s' = None"
proof -
  have "store_inv (open_offsets [])" by (rule open_offsets_correct) simp
  moreover have "is_valid_topic_name ''g''" "is_valid_topic_name ''t''"
    by (simp_all add: is_valid_topic_name_def less_eq_char_def)
  ultimately have "store_inv (commit_at (''g'', ''t'', 3) 41 (open_offsets []))"
    by (simp add: commit_inv is_valid_group_name_def)
  from remove_topic_exact [OF this, of "''t''"] show ?thesis by auto
qed

text \<open>
  C37: a commit that fails half-written takes later commits with it. When the write of a commit stops
  after the topic and its tab, the broker reports the error but leaves the fragment in the log; the next
  commit of the group is acknowledged and visible, yet after a restart it is gone, together with
  everything behind it: the store answers as before both.
\<close>

theorem short_write_loses_commits:
  assumes inv: "store_inv s" and names: "is_valid_group_name grp" "is_valid_topic_name tpc" "is_valid_topic_name tpc'"
    and cut: "length tpc < n" "n < length (write_offset_record tpc part off)"
    and s1: "s1 = snd (commit (Some (ShortWrite n)) grp tpc part off s)"
    and s2: "commit None grp tpc' part' off' s1 = (Inr (), s2)"
  shows "committed grp tpc' part' s2 = Some off' \<and>
    committed grp t p (open_offsets (consumer_offsets s2)) = committed grp t p s"
proof -
  let ?c = "log_content (consumer_offsets s) grp" and ?t = "take n (write_offset_record tpc part off)"
  let ?l = "write_offset_record tpc' part' off'"
  have s1': "s1 = s\<lparr>consumer_offsets := put_group_file grp offsets_log (?c @ ?t) (consumer_offsets s)\<rparr>"
    using names by (simp add: s1 commit_def group_files_log Let_def)
  have s2': "log_content (consumer_offsets s2) grp = ?c @ ?t @ ?l" "offsets' s2 = set_offset grp (tpc', part') off' (offsets' s)"
    "distinct (map fst (consumer_offsets s2))"
    using s2 inv names by (auto simp: commit_None s1' log_content_put store_inv_def)
  have bad: "parse_offset_line (strip_cr (?t @ butlast ?l)) = None"
  proof -
    have "butlast ?l \<noteq> [] \<and> last (butlast ?l) \<noteq> CR" using record_line_chars(2,3) [OF names(3)] by blast
    then have strip: "strip_cr (?t @ butlast ?l) = ?t @ butlast ?l" by (simp add: strip_cr_def)
    have "TAB \<in> set ?t" using cut(1) by (simp add: write_offset_record_line offset_line_def take_Cons')
    then have "1 \<le> count_list ?t TAB" by (simp add: count_list_0_iff Suc_le_eq flip: neq0_conv)
    moreover have "3 \<le> count_list (butlast ?l) TAB" by (simp add: butlast_record offset_line_def count_list_append)
    ultimately have many: "3 < count_list (?t @ butlast ?l) TAB" by (simp add: count_list_append)
    have no_tab: "is_valid_topic_name a \<Longrightarrow> TAB \<notin> set a" for a by (auto dest: valid_name_chars(1))
    have "count_list line TAB = 3" if "parse_offset_line line = Some x" for line x
      using that by (cases x) (auto simp: parse_offset_line_iff offset_line_def count_list_append
          dest!: no_tab numeral_text_no_tab)
    then show ?thesis unfolding strip using many by (metis less_irrefl not_None_eq)
  qed
  have "LF \<notin> set (?t @ butlast ?l)"
    using torn_line_open [OF names(2) cut(2)] record_line_chars(1) [OF names(3)] by simp
  from scan_line [OF this, of "[]"] bad have torn: "scan_offsets (?t @ ?l) = ([], 0)"
    by (simp add: write_offset_record_line butlast_record)
  have "complete ?c" "offsets_of (offsets' s) grp = replay ?c"
    using inv names(1) by (auto simp: store_inv_def group_synced_def split: if_splits dest: spec [of _ grp])
  then have "offsets_of (offsets' (open_offsets (consumer_offsets s2))) grp = offsets_of (offsets' s) grp"
    using open_offsets_correct(2) [OF s2'(3), of grp] names(1) torn by (simp add: s2' replay_def scan_append)
  then show ?thesis by (simp add: committed_offsets_of s2' offsets_of_set_offset)
qed

theorem short_write_loses_commits_witness:
  "let s1 = snd (commit (Some (ShortWrite 3)) ''g'' ''t'' 0 5 (open_offsets []));
       s2 = snd (commit None ''g'' ''t'' 0 6 s1)
   in committed ''g'' ''t'' 0 s2 = Some 6 \<and> committed ''g'' ''t'' 0 (open_offsets (consumer_offsets s2)) = None"
proof -
  have inv: "store_inv (open_offsets [])" by (rule open_offsets_correct) simp
  have ok: "is_valid_topic_name ''g''" "is_valid_topic_name ''t''"
    by (simp_all add: is_valid_topic_name_def less_eq_char_def)
  have "3 < length (write_offset_record ''t'' 0 5)"
    by (simp add: write_offset_record_line offset_line_def)
  moreover have "committed ''g'' ''t'' 0 (open_offsets []) = None"
    by (simp add: open_offsets_def committed_def OffsetStore.make_def)
  ultimately show ?thesis
    using short_write_loses_commits [OF inv, of "''g''" "''t''" "''t''" 3 0 5
        "snd (commit (Some (ShortWrite 3)) ''g'' ''t'' 0 5 (open_offsets []))" 0 6 _ "''t''" 0] ok
    by (simp add: is_valid_group_name_def commit_None)
qed

text \<open>
  C38: the rewrite of a group's log is not crash-safe. It removes the old log before it renames the new
  one into place; after a crash between the two (or a failed rename) the restarted store knows no offset
  of the group at all, although only the offsets of the deleted topic should have gone.
\<close>

theorem rewrite_window_loses_offsets:
  assumes "store_inv s" "offsets_of (offsets' s) grp \<noteq> []"
  shows "committed grp t part (open_offsets (consumer_offsets (snd (rewrite_group (Some (NoRename what)) grp s)))) = None"
proof -
  let ?s = "snd (rewrite_group (Some (NoRename what)) grp s)"
  have os: "(case map_of (offsets' s) grp of None \<Rightarrow> [] | Some os \<Rightarrow> os) = offsets_of (offsets' s) grp"
    by (simp add: offsets_of_def)
  have "log_content (consumer_offsets ?s) grp = []"
    using assms(2) by (simp add: rewrite_group_def os Let_def put_group_file_def log_content_update)
      (simp add: entry_log_def group_files_def update_conv' delete_conv')
  moreover have "distinct (map fst (consumer_offsets ?s))"
    using assms by (simp add: rewrite_group_def os Let_def store_inv_def distinct_update put_group_file_def)
  ultimately show ?thesis
    using open_offsets_correct(2) [of "consumer_offsets ?s" grp] by (simp add: committed_offsets_of replay_def)
qed

theorem rewrite_window_loses_offsets_witness:
  "committed ''g'' ''t'' 3 (open_offsets (consumer_offsets (snd (rewrite_group (Some (NoRename ''crash'')) ''g''
     (commit_at (''g'', ''t'', 3) 41 (open_offsets [])))))) = None"
proof (rule rewrite_window_loses_offsets)
  have ok: "is_valid_topic_name ''g''" "is_valid_topic_name ''t''"
    by (simp_all add: is_valid_topic_name_def less_eq_char_def)
  have "store_inv (open_offsets [])" by (rule open_offsets_correct) simp
  then show "store_inv (commit_at (''g'', ''t'', 3) 41 (open_offsets []))"
    using ok by (simp add: commit_inv is_valid_group_name_def)
  show "offsets_of (offsets' (commit_at (''g'', ''t'', 3) 41 (open_offsets []))) ''g'' \<noteq> []"
    using ok by (simp add: commit_None is_valid_group_name_def offsets_of_set_offset)
      (simp add: open_offsets_def OffsetStore.make_def offsets_of_def)
qed

end
