(* ===== verification/Bolt_Queues.thy ===== *)
theory Bolt_Queues
  imports Bolt_Map "HOL-Library.Product_Lexorder"
begin

text \<open>
  The two queues of \<open>BrokerRuntime\<close> (\<open>src/src/broker/server.cpp\<close>): the bounded append queue of each
  partition with the ready list that the append workers share, and the registry of long-poll waiters.
  Partitions and jobs are abstract here: a partition stands for the shared \<open>PartitionState\<close>, a job for
  the shared \<open>AppendJob\<close>. The steps of the append path are the critical sections of the code, so an
  interleaving of the broker's threads is a sequence of these steps.
\<close>

section \<open>Append queues\<close>

record ('p, 'j) AppendQueues =
  pending_appends :: "'p \<Rightarrow> 'j list"
  append_active :: "'p \<Rightarrow> bool"
  ready_appends :: "('p \<times> 'j) list"

record EnqueueOutcome =
  accepted :: bool
  depth :: u32

definition schedule_append :: "'p \<Rightarrow> 'j \<Rightarrow> ('p, 'j) AppendQueues \<Rightarrow> ('p, 'j) AppendQueues" where
  "schedule_append p job q = q\<lparr>ready_appends := ready_appends q @ [(p, job)]\<rparr>"

text \<open>The critical section under \<open>append_mutex\<close>; its second result is the job left to schedule.\<close>

definition claim_append ::
  "u32 \<Rightarrow> 'p \<Rightarrow> 'j \<Rightarrow> ('p, 'j) AppendQueues \<Rightarrow> EnqueueOutcome \<times> 'j option \<times> ('p, 'j) AppendQueues" where
  "claim_append max_depth p job q =
     (let current_depth = of_nat (length (pending_appends q p) + (if append_active q p then 1 else 0)) in
      if current_depth \<ge> max_depth then (EnqueueOutcome.make False current_depth, None, q)
      else if append_active q p
      then (EnqueueOutcome.make True (current_depth + 1), None,
            q\<lparr>pending_appends := (pending_appends q)(p := pending_appends q p @ [job])\<rparr>)
      else (EnqueueOutcome.make True 1, Some job, q\<lparr>append_active := (append_active q)(p := True)\<rparr>))"

definition try_enqueue_append ::
  "u32 \<Rightarrow> 'p \<Rightarrow> 'j \<Rightarrow> ('p, 'j) AppendQueues \<Rightarrow> EnqueueOutcome \<times> ('p, 'j) AppendQueues" where
  "try_enqueue_append max_depth p job q =
     (case claim_append max_depth p job q of
        (outcome, None, q1) \<Rightarrow> (outcome, q1)
      | (outcome, Some ready_job, q1) \<Rightarrow> (outcome, schedule_append p ready_job q1))"

text \<open>A worker takes the first ready job and then pending jobs of the same partition, up to the batch size.\<close>

definition take_ready :: "('p, 'j) AppendQueues \<Rightarrow> (('p \<times> 'j) \<times> ('p, 'j) AppendQueues) option" where
  "take_ready q =
     (case ready_appends q of
        [] \<Rightarrow> None
      | r # rs \<Rightarrow> Some (r, q\<lparr>ready_appends := rs\<rparr>))"

definition drain_pending :: "nat \<Rightarrow> 'p \<Rightarrow> 'j list \<Rightarrow> ('p, 'j) AppendQueues \<Rightarrow> 'j list \<times> ('p, 'j) AppendQueues" where
  "drain_pending batch p jobs q =
     (let n = batch - length jobs in
      (jobs @ take n (pending_appends q p),
       q\<lparr>pending_appends := (pending_appends q)(p := drop n (pending_appends q p))\<rparr>))"

definition release_append :: "'p \<Rightarrow> ('p, 'j) AppendQueues \<Rightarrow> 'j option \<times> ('p, 'j) AppendQueues" where
  "release_append p q =
     (case pending_appends q p of
        next_job # rest \<Rightarrow> (Some next_job, q\<lparr>pending_appends := (pending_appends q)(p := rest)\<rparr>)
      | [] \<Rightarrow> (None, q\<lparr>append_active := (append_active q)(p := False)\<rparr>))"

definition complete_append :: "'p \<Rightarrow> ('p, 'j) AppendQueues \<Rightarrow> ('p, 'j) AppendQueues" where
  "complete_append p q =
     (case release_append p q of (None, q1) \<Rightarrow> q1 | (Some next_job, q1) \<Rightarrow> schedule_append p next_job q1)"

section \<open>Append workers\<close>

text \<open>
  The state of the whole append path. \<open>handoff\<close> are the jobs that a thread holds between claiming the
  partition and scheduling the job. A worker holds a ready job, then a batch of jobs of one partition
  while the log is being written; \<open>appended\<close> records for each partition the jobs whose batch was handed to
  the log, and \<open>enqueued\<close> the jobs that were accepted, in the order in which that happened.
\<close>

record ('p, 'j) AppendPath =
  queues :: "('p, 'j) AppendQueues"
  handoff :: "('p \<times> 'j) list"
  picked :: "('p \<times> 'j) list"
  running :: "('p \<times> 'j list) list"
  appended :: "'p \<Rightarrow> 'j list"
  enqueued :: "'p \<Rightarrow> 'j list"

definition idle_path :: "('p, 'j) AppendPath" where
  "idle_path = AppendPath.make (AppendQueues.make (\<lambda>_. []) (\<lambda>_. False) []) [] [] [] (\<lambda>_. []) (\<lambda>_. [])"

definition held :: "'p \<Rightarrow> 'j option \<Rightarrow> ('p \<times> 'j) list" where
  "held p ready = (case ready of None \<Rightarrow> [] | Some job \<Rightarrow> [(p, job)])"

inductive append_path_step :: "u32 \<Rightarrow> nat \<Rightarrow> ('p, 'j) AppendPath \<Rightarrow> ('p, 'j) AppendPath \<Rightarrow> bool" for max_depth batch where
  step_enqueue:
    "claim_append max_depth p job (queues s) = (outcome, ready, q) \<Longrightarrow>
     append_path_step max_depth batch s
       (s\<lparr>queues := q, handoff := held p ready @ handoff s,
         enqueued := (if accepted outcome then (enqueued s)(p := enqueued s p @ [job]) else enqueued s)\<rparr>)"
| step_schedule:
    "handoff s = us @ (p, job) # vs \<Longrightarrow>
     append_path_step max_depth batch s (s\<lparr>queues := schedule_append p job (queues s), handoff := us @ vs\<rparr>)"
| step_pick:
    "take_ready (queues s) = Some ((p, job), q) \<Longrightarrow>
     append_path_step max_depth batch s (s\<lparr>queues := q, picked := (p, job) # picked s\<rparr>)"
| step_drain:
    "picked s = us @ (p, job) # vs \<Longrightarrow> drain_pending batch p [job] (queues s) = (jobs, q) \<Longrightarrow>
     append_path_step max_depth batch s (s\<lparr>queues := q, picked := us @ vs, running := (p, jobs) # running s\<rparr>)"
| step_finish:
    "running s = us @ (p, jobs) # vs \<Longrightarrow> release_append p (queues s) = (ready, q) \<Longrightarrow>
     append_path_step max_depth batch s
       (s\<lparr>queues := q, handoff := held p ready @ handoff s, running := us @ vs,
         appended := (appended s)(p := appended s p @ jobs)\<rparr>)"

inductive append_path_reach :: "u32 \<Rightarrow> nat \<Rightarrow> ('p, 'j) AppendPath \<Rightarrow> bool" for max_depth batch where
  path_start: "append_path_reach max_depth batch idle_path"
| path_step: "append_path_reach max_depth batch s \<Longrightarrow> append_path_step max_depth batch s s' \<Longrightarrow>
    append_path_reach max_depth batch s'"

section \<open>Long-poll waiters\<close>

type_synonym WaiterKey = "string \<times> u16"

record FetchWaiter =
  waiter_id :: u64
  callback :: nat

record Waiters =
  next_waiter_id :: u64
  active_long_poll_waiters :: u32
  waiters :: "(WaiterKey \<times> FetchWaiter list) list"

definition waiters_at :: "Waiters \<Rightarrow> WaiterKey \<Rightarrow> FetchWaiter list" where
  "waiters_at w k = (case map_of (waiters w) k of None \<Rightarrow> [] | Some ws \<Rightarrow> ws)"

definition register_fetch_waiter :: "u32 \<Rightarrow> string \<Rightarrow> u16 \<Rightarrow> nat \<Rightarrow> Waiters \<Rightarrow> u64 option \<times> Waiters" where
  "register_fetch_waiter max_waiters tpc part cb w =
     (if active_long_poll_waiters w \<ge> max_waiters then (None, w)
      else (Some (next_waiter_id w),
        w\<lparr>next_waiter_id := next_waiter_id w + 1,
          waiters := map_put (tpc, part)
            (waiters_at w (tpc, part) @ [FetchWaiter.make (next_waiter_id w) cb]) (waiters w),
          active_long_poll_waiters := active_long_poll_waiters w + 1\<rparr>))"

text \<open>\<open>active -= min(removed, active)\<close>.\<close>

definition release_waiters :: "nat \<Rightarrow> u32 \<Rightarrow> u32" where
  "release_waiters removed active = active - of_nat (min removed (unat active))"

fun cancel_loop :: "u64 \<Rightarrow> (WaiterKey \<times> FetchWaiter list) list \<Rightarrow> u32 \<Rightarrow> (WaiterKey \<times> FetchWaiter list) list \<times> u32" where
  "cancel_loop wid [] active = ([], active)"
| "cancel_loop wid ((k, callbacks) # rest) active =
     (let kept = filter (\<lambda>waiter. waiter_id waiter \<noteq> wid) callbacks;
          active' = release_waiters (length callbacks - length kept) active;
          (rest', active'') = cancel_loop wid rest active'
      in (if kept = [] then rest' else (k, kept) # rest', active''))"

definition cancel_fetch_waiter :: "u64 \<Rightarrow> Waiters \<Rightarrow> Waiters" where
  "cancel_fetch_waiter wid w =
     (let (ws, active) = cancel_loop wid (waiters w) (active_long_poll_waiters w) in
      w\<lparr>waiters := ws, active_long_poll_waiters := active\<rparr>)"

text \<open>Both notifications return the waiters whose callbacks are then run.\<close>

definition notify_fetch_waiters :: "string \<Rightarrow> u16 \<Rightarrow> Waiters \<Rightarrow> FetchWaiter list \<times> Waiters" where
  "notify_fetch_waiters tpc part w =
     (case map_of (waiters w) (tpc, part) of
        None \<Rightarrow> ([], w)
      | Some ws \<Rightarrow>
         (ws, w\<lparr>active_long_poll_waiters := release_waiters (length ws) (active_long_poll_waiters w),
                waiters := map_erase (tpc, part) (waiters w)\<rparr>))"

fun notify_loop ::
  "string \<Rightarrow> (WaiterKey \<times> FetchWaiter list) list \<Rightarrow> u32 \<Rightarrow>
   FetchWaiter list \<times> (WaiterKey \<times> FetchWaiter list) list \<times> u32" where
  "notify_loop tpc [] active = ([], [], active)"
| "notify_loop tpc ((k, ws) # rest) active =
     (if fst k \<noteq> tpc
      then let (woken, kept, active') = notify_loop tpc rest active in (woken, (k, ws) # kept, active')
      else let (woken, kept, active') = notify_loop tpc rest (release_waiters (length ws) active)
           in (ws @ woken, kept, active'))"

definition notify_topic_waiters :: "string \<Rightarrow> Waiters \<Rightarrow> FetchWaiter list \<times> Waiters" where
  "notify_topic_waiters tpc w =
     (let (woken, kept, active) = notify_loop tpc (waiters w) (active_long_poll_waiters w) in
      (woken, w\<lparr>waiters := kept, active_long_poll_waiters := active\<rparr>))"

end
