(* ===== verification/Bolt_Queue_Properties.thy ===== *)
theory Bolt_Queue_Properties
  imports Bolt_Queues "HOL-Library.Sublist"
begin

text \<open>
  Invariants of the append path and of the waiter registry by rule induction over their steps, and the
  properties that follow: per-partition order, bounded depth, no lost jobs, and an exact waiter count.
\<close>

section \<open>The append path\<close>

definition at_key :: "'p \<Rightarrow> ('p \<times> 'a) list \<Rightarrow> 'a list" where
  "at_key p xs = map snd (filter (\<lambda>x. fst x = p) xs)"

lemma at_key_simps [simp]:
  "at_key p [] = []" "at_key p (xs @ ys) = at_key p xs @ at_key p ys"
  "at_key p ((k, x) # xs) = (if k = p then x # at_key p xs else at_key p xs)"
  by (simp_all add: at_key_def)

definition partition_ok :: "u32 \<Rightarrow> ('p, 'j) AppendPath \<Rightarrow> 'p \<Rightarrow> bool" where
  "partition_ok max_depth s p \<longleftrightarrow>
     length (at_key p (handoff s)) + length (at_key p (ready_appends (queues s))) + length (at_key p (picked s)) + length (at_key p (running s)) =
       of_bool (append_active (queues s) p) \<and>
     (\<not> append_active (queues s) p \<longrightarrow> pending_appends (queues s) p = []) \<and>
     enqueued s p = appended s p @ concat (at_key p (running s)) @ at_key p (picked s) @
       at_key p (ready_appends (queues s)) @ at_key p (handoff s) @ pending_appends (queues s) p \<and>
     length (pending_appends (queues s) p) + of_bool (append_active (queues s) p) \<le> unat max_depth"

definition path_inv :: "u32 \<Rightarrow> nat \<Rightarrow> ('p, 'j) AppendPath \<Rightarrow> bool" where
  "path_inv max_depth batch s \<longleftrightarrow> (\<forall>p. partition_ok max_depth s p) \<and>
     (\<forall>(p, jobs) \<in> set (running s). jobs \<noteq> [] \<and> length jobs \<le> max 1 batch)"

lemma idle_path_inv: "path_inv max_depth batch idle_path"
  by (simp add: path_inv_def partition_ok_def idle_path_def AppendPath.make_def AppendQueues.make_def)

lemma enqueue_ok:
  assumes "\<forall>p. partition_ok max_depth s p" "claim_append max_depth p job (queues s) = (outcome, ready, q)"
  shows "partition_ok max_depth (s\<lparr>queues := q, handoff := held p ready @ handoff s,
    enqueued := (if accepted outcome then (enqueued s)(p := enqueued s p @ [job]) else enqueued s)\<rparr>) p'"
proof -
  have ok: "partition_ok max_depth s p" "partition_ok max_depth s p'" using assms(1) by blast+
  let ?d = "length (pending_appends (queues s) p) + of_bool (append_active (queues s) p)"
  have "?d \<le> unat max_depth" using ok(1) by (simp only: partition_ok_def)
  then have "?d < 2 ^ 32" using unat_u32_less [of max_depth] by (rule order_le_less_trans)
  then have "unat (of_nat ?d :: u32) = ?d" by (rule unat_of_nat_u32)
  then have full: "max_depth \<le> of_nat ?d \<longleftrightarrow> unat max_depth \<le> ?d" by (simp add: word_le_nat_alt)
  have d: "(if append_active (queues s) p then 1 else 0) = (of_bool (append_active (queues s) p) :: nat)" by simp
  show ?thesis
    using assms(2) ok full unfolding claim_append_def d Let_def
    by (auto simp: partition_ok_def held_def EnqueueOutcome.make_def split: if_splits)
qed

lemma schedule_ok:
  assumes "\<forall>p. partition_ok max_depth s p" "handoff s = us @ (p, job) # vs"
  shows "partition_ok max_depth (s\<lparr>queues := schedule_append p job (queues s), handoff := us @ vs\<rparr>) p'"
proof -
  have ok: "partition_ok max_depth s p'" using assms(1) by blast
  then show ?thesis
    using assms(2)
    by (cases "append_active (queues s) p'") (auto simp: partition_ok_def schedule_append_def split: if_splits)
qed

lemma pick_ok:
  assumes "\<forall>p. partition_ok max_depth s p" "take_ready (queues s) = Some ((p, job), q)"
  shows "partition_ok max_depth (s\<lparr>queues := q, picked := (p, job) # picked s\<rparr>) p'"
proof -
  have ok: "partition_ok max_depth s p'" using assms(1) by blast
  then show ?thesis
    using assms(2)
    by (cases "append_active (queues s) p'")
      (auto simp: partition_ok_def take_ready_def split: list.splits if_splits)
qed

lemma drain_ok:
  assumes "\<forall>p. partition_ok max_depth s p" "picked s = us @ (p, job) # vs"
    and "drain_pending batch p [job] (queues s) = (jobs, q)"
  shows "partition_ok max_depth (s\<lparr>queues := q, picked := us @ vs, running := (p, jobs) # running s\<rparr>) p'"
proof -
  have ok: "partition_ok max_depth s p'" using assms(1) by blast
  have q: "jobs = job # take (batch - 1) (pending_appends (queues s) p)"
    "q = (queues s)\<lparr>pending_appends := (pending_appends (queues s))(p := drop (batch - 1) (pending_appends (queues s) p))\<rparr>"
    using assms(3) by (auto simp: drain_pending_def Let_def)
  show ?thesis
    using ok assms(2)
    by (cases "append_active (queues s) p'") (auto simp: partition_ok_def q split: if_splits)
qed

lemma finish_ok:
  assumes "\<forall>p. partition_ok max_depth s p" "running s = us @ (p, jobs) # vs" "release_append p (queues s) = (ready, q)"
  shows "partition_ok max_depth (s\<lparr>queues := q, handoff := held p ready @ handoff s, running := us @ vs,
    appended := (appended s)(p := appended s p @ jobs)\<rparr>) p'"
proof -
  have ok: "partition_ok max_depth s p'" using assms(1) by blast
  then show ?thesis
    using assms(2,3)
    by (cases "append_active (queues s) p'")
      (auto simp: partition_ok_def release_append_def held_def split: list.splits if_splits)
qed

lemma path_step_inv:
  assumes "append_path_step max_depth batch s s'" "path_inv max_depth batch s"
  shows "path_inv max_depth batch s'"
  using assms
proof (cases rule: append_path_step.cases)
  case (step_enqueue p job outcome ready q)
  then show ?thesis using assms(2) enqueue_ok [of max_depth s p job outcome ready q] by (simp add: path_inv_def)
next
  case (step_schedule us p job vs)
  then show ?thesis using assms(2) schedule_ok [of max_depth s us p job vs] by (simp add: path_inv_def)
next
  case (step_pick p job q)
  then show ?thesis using assms(2) pick_ok [of max_depth s p job q] by (simp add: path_inv_def)
next
  case (step_drain us p job vs jobs q)
  then have "jobs \<noteq> [] \<and> length jobs \<le> max 1 batch" by (auto simp: drain_pending_def Let_def)
  then show ?thesis using step_drain assms(2) drain_ok [of max_depth s us p job vs batch jobs q] by (simp add: path_inv_def)
next
  case (step_finish us p jobs vs ready q)
  then show ?thesis using assms(2) finish_ok [of max_depth s us p jobs vs ready q] by (auto simp: path_inv_def)
qed

lemma path_reach_inv: "append_path_reach max_depth batch s \<Longrightarrow> path_inv max_depth batch s"
  by (induction rule: append_path_reach.induct) (auto intro: idle_path_inv path_step_inv)

text \<open>A worker can always move while a partition has work.\<close>

lemma path_not_stuck:
  assumes "path_inv max_depth batch s" "append_active (queues s) p"
  shows "handoff s \<noteq> [] \<or> ready_appends (queues s) \<noteq> [] \<or> picked s \<noteq> [] \<or> running s \<noteq> []"
proof (rule ccontr)
  assume "\<not> ?thesis"
  then have "length (at_key p (handoff s)) + length (at_key p (ready_appends (queues s))) + length (at_key p (picked s)) + length (at_key p (running s)) = 0"
    by simp
  moreover have "partition_ok max_depth s p" using assms(1) by (simp add: path_inv_def)
  ultimately show False using assms(2) by (simp add: partition_ok_def)
qed

section \<open>Waiters\<close>

definition waiter_total :: "(WaiterKey \<times> FetchWaiter list) list \<Rightarrow> nat" where
  "waiter_total ws = sum_list (map (\<lambda>(k, cs). length cs) ws)"

definition waiters_inv :: "u32 \<Rightarrow> Waiters \<Rightarrow> bool" where
  "waiters_inv max_waiters w \<longleftrightarrow> sorted_map (waiters w) \<and>
     unat (active_long_poll_waiters w) = waiter_total (waiters w) \<and>
     active_long_poll_waiters w \<le> max_waiters"

inductive waiters_reach :: "u32 \<Rightarrow> Waiters \<Rightarrow> bool" for max_waiters where
  waiters_start: "waiters_reach max_waiters (Waiters.make 1 0 [])"
| waiters_register: "waiters_reach max_waiters w \<Longrightarrow>
    waiters_reach max_waiters (snd (register_fetch_waiter max_waiters tpc part cb w))"
| waiters_cancel: "waiters_reach max_waiters w \<Longrightarrow> waiters_reach max_waiters (cancel_fetch_waiter wid w)"
| waiters_notify: "waiters_reach max_waiters w \<Longrightarrow>
    waiters_reach max_waiters (snd (notify_fetch_waiters tpc part w))"
| waiters_notify_topic: "waiters_reach max_waiters w \<Longrightarrow>
    waiters_reach max_waiters (snd (notify_topic_waiters tpc w))"

lemma waiter_total_simps [simp]:
  "waiter_total [] = 0" "waiter_total ((k, cs) # ws) = length cs + waiter_total ws"
  by (simp_all add: waiter_total_def)

lemma waiter_total_put:
  "sorted_map ws \<Longrightarrow> waiter_total (map_put k cs ws) + length (case map_of ws k of None \<Rightarrow> [] | Some old \<Rightarrow> old) =
     waiter_total ws + length cs"
proof (induction k cs ws rule: map_put.induct)
  case (2 k cs k' cs' ws)
  have "map_of ws k = None" if "k < k'"
    using 2(2) that by (force simp: sorted_map_Cons map_of_eq_None_iff)
  then show ?case using 2 by (auto simp: sorted_map_Cons)
qed simp

lemma waiter_total_erase:
  "sorted_map ws \<Longrightarrow> map_of ws k = Some cs \<Longrightarrow> waiter_total (map_erase k ws) + length cs = waiter_total ws"
proof (induction ws)
  case (Cons e ws)
  obtain k' cs' where e: "e = (k', cs')" by (cases e)
  have "map_erase k ws = ws" if "k = k'"
    using Cons.prems(1) that e unfolding map_erase_def
    by (intro map_erase_if_none) (force simp: sorted_map_Cons)
  then show ?case using Cons e by (auto simp: map_erase_def map_erase_if_def sorted_map_Cons split: if_splits)
qed simp

lemma release_waiters_exact: "n \<le> unat active \<Longrightarrow> unat (release_waiters n active) = unat active - n"
proof -
  assume n: "n \<le> unat active"
  then have "n < 2 ^ 32" using unat_u32_less [of active] by simp
  then have "of_nat n \<le> active" using n by (simp add: word_le_nat_alt)
  then show ?thesis using n \<open>n < 2 ^ 32\<close> by (simp add: release_waiters_def unat_sub)
qed

lemma cancel_loop_exact:
  assumes "waiter_total ws \<le> unat active" "cancel_loop wid ws active = (ws', active')"
  shows "unat active' + waiter_total ws = unat active + waiter_total ws' \<and> set (map fst ws') \<subseteq> set (map fst ws) \<and>
    (sorted_map ws \<longrightarrow> sorted_map ws')"
  using assms
proof (induction wid ws active arbitrary: ws' active' rule: cancel_loop.induct)
  case (2 wid k cs rest active)
  let ?kept = "filter (\<lambda>waiter. waiter_id waiter \<noteq> wid) cs"
  let ?a = "release_waiters (length cs - length ?kept) active"
  obtain rest' a' where r: "cancel_loop wid rest ?a = (rest', a')" by (cases "cancel_loop wid rest ?a")
  have le: "length ?kept \<le> length cs" by simp
  then have a: "unat ?a = unat active - (length cs - length ?kept)" using 2(2) by (simp add: release_waiters_exact)
  then have "waiter_total rest \<le> unat ?a" using 2(2) le by simp
  note ih = 2(1) [OF refl refl this r]
  have out: "ws' = (if ?kept = [] then rest' else (k, ?kept) # rest')" "active' = a'"
    using 2(3) r by (auto simp: Let_def)
  have "unat active' + waiter_total ((k, cs) # rest) = unat active + waiter_total ws'"
    using ih a le 2(2) by (auto simp: out)
  moreover have "sorted_map ws'" if "sorted_map ((k, cs) # rest)"
  proof -
    have "fst ` set rest' \<subseteq> fst ` set rest" using ih by simp
    then have "k < k'" if "k' \<in> fst ` set rest'" for k'
      using that \<open>sorted_map ((k, cs) # rest)\<close> unfolding sorted_map_Cons by blast
    then show ?thesis using ih that by (auto simp: out sorted_map_Cons)
  qed
  ultimately show ?case using ih by (auto simp: out)
qed simp

lemma notify_loop_exact:
  assumes "waiter_total ws \<le> unat active" "notify_loop tpc ws active = (woken, kept, active')"
  shows "unat active' + waiter_total ws = unat active + waiter_total kept \<and>
    kept = filter (\<lambda>(k, _). fst k \<noteq> tpc) ws \<and> woken = concat (map snd (filter (\<lambda>(k, _). fst k = tpc) ws))"
  using assms
proof (induction tpc ws active arbitrary: woken kept active' rule: notify_loop.induct)
  case (2 tpc k ws rest active)
  show ?case
  proof (cases "fst k = tpc")
    case True
    let ?a = "release_waiters (length ws) active"
    have a: "unat ?a = unat active - length ws" using 2(3) by (simp add: release_waiters_exact)
    then have "waiter_total rest \<le> unat ?a" using 2(3) by simp
    then show ?thesis using 2(2) 2(3,4) True a by (fastforce split: prod.splits)
  next
    case False
    then show ?thesis using 2(1) 2(3,4) by (fastforce split: prod.splits)
  qed
qed simp

lemma cancel_loop_fewer: "cancel_loop wid ws active = (ws', active') \<Longrightarrow> waiter_total ws' \<le> waiter_total ws"
proof (induction wid ws active arbitrary: ws' active' rule: cancel_loop.induct)
  case (2 wid k cs rest active)
  let ?kept = "filter (\<lambda>waiter. waiter_id waiter \<noteq> wid) cs"
  let ?a = "release_waiters (length cs - length ?kept) active"
  obtain rest' a' where r: "cancel_loop wid rest ?a = (rest', a')" by (cases "cancel_loop wid rest ?a")
  have "waiter_total rest' \<le> waiter_total rest" using 2(1) [OF refl refl r] .
  moreover have "ws' = (if ?kept = [] then rest' else (k, ?kept) # rest')" using 2(2) r by (auto simp: Let_def)
  moreover have "length ?kept \<le> length cs" by simp
  ultimately show ?case by (auto intro: add_mono trans_le_add2)
qed simp

lemma register_inv:
  assumes "waiters_inv mx w"
  shows "waiters_inv mx (snd (register_fetch_waiter mx tpc part cb w))"
proof (cases "active_long_poll_waiters w \<ge> mx")
  case False
  let ?a = "active_long_poll_waiters w" and ?k = "(tpc, part)"
  have a: "unat ?a < unat mx" using False by (simp add: word_le_nat_alt)
  then have "unat (?a + 1) = unat ?a + 1" using unat_u32_less [of mx] by (simp add: unat_word_ariths)
  moreover have "waiter_total (map_put ?k (waiters_at w ?k @ [x]) (waiters w)) = waiter_total (waiters w) + 1" for x
    using waiter_total_put [of "waiters w" ?k "waiters_at w ?k @ [x]"] assms
    by (simp add: waiters_inv_def waiters_at_def)
  ultimately show ?thesis
    using assms a False by (simp add: waiters_inv_def register_fetch_waiter_def word_le_nat_alt)
qed (use assms in \<open>simp add: register_fetch_waiter_def\<close>)

lemma cancel_inv:
  assumes "waiters_inv mx w"
  shows "waiters_inv mx (cancel_fetch_waiter wid w)"
proof -
  obtain ws active where c: "cancel_loop wid (waiters w) (active_long_poll_waiters w) = (ws, active)"
    by (cases "cancel_loop wid (waiters w) (active_long_poll_waiters w)")
  have inv: "sorted_map (waiters w)" "unat (active_long_poll_waiters w) = waiter_total (waiters w)"
    "unat (active_long_poll_waiters w) \<le> unat mx"
    using assms by (simp_all add: waiters_inv_def word_le_nat_alt)
  have total: "unat active = waiter_total ws" "sorted_map ws"
    using cancel_loop_exact [OF _ c] inv by simp_all
  have "waiter_total ws \<le> waiter_total (waiters w)" by (rule cancel_loop_fewer [OF c])
  then show ?thesis
    using total inv by (simp add: waiters_inv_def cancel_fetch_waiter_def c word_le_nat_alt)
qed

lemma notify_effect:
  assumes "waiters_inv mx w"
  shows "waiters_inv mx (snd (notify_fetch_waiters tpc part w))"
    and "fst (notify_fetch_waiters tpc part w) = waiters_at w (tpc, part)"
    and "waiters_at (snd (notify_fetch_waiters tpc part w)) = (waiters_at w)((tpc, part) := [])"
proof -
  let ?k = "(tpc, part)"
  show "fst (notify_fetch_waiters tpc part w) = waiters_at w ?k"
    "waiters_at (snd (notify_fetch_waiters tpc part w)) = (waiters_at w)(?k := [])"
    by (auto simp: notify_fetch_waiters_def waiters_at_def fun_eq_iff split: option.split)
  show "waiters_inv mx (snd (notify_fetch_waiters tpc part w))"
  proof (cases "map_of (waiters w) ?k")
    case (Some ws)
    then have "waiter_total (map_erase ?k (waiters w)) + length ws = waiter_total (waiters w)"
      using waiter_total_erase assms by (simp add: waiters_inv_def)
    then show ?thesis
      using assms Some release_waiters_exact [of "length ws" "active_long_poll_waiters w"]
      by (simp add: waiters_inv_def notify_fetch_waiters_def word_le_nat_alt) linarith
  qed (use assms in \<open>simp add: notify_fetch_waiters_def\<close>)
qed

lemma notify_topic_inv:
  assumes "waiters_inv mx w"
  shows "waiters_inv mx (snd (notify_topic_waiters tpc w))"
proof -
  obtain woken kept active where n: "notify_loop tpc (waiters w) (active_long_poll_waiters w) = (woken, kept, active)"
    by (cases "notify_loop tpc (waiters w) (active_long_poll_waiters w)")
  have inv: "sorted_map (waiters w)" "unat (active_long_poll_waiters w) = waiter_total (waiters w)"
    "unat (active_long_poll_waiters w) \<le> unat mx"
    using assms by (simp_all add: waiters_inv_def word_le_nat_alt)
  have "unat active = waiter_total kept" "kept = map_erase_if (\<lambda>k _. fst k = tpc) (waiters w)"
    using notify_loop_exact [OF _ n] inv by (simp_all add: map_erase_if_def)
  moreover have "waiter_total (map_erase_if p ws) \<le> waiter_total ws" for p ws
    by (induction ws) (auto simp: map_erase_if_def)
  ultimately show ?thesis
    using inv order_trans by (fastforce simp: waiters_inv_def notify_topic_waiters_def n word_le_nat_alt)
qed

lemma waiters_reach_inv: "waiters_reach mx w \<Longrightarrow> waiters_inv mx w"
proof (induction rule: waiters_reach.induct)
  case waiters_start
  show ?case by (simp add: waiters_inv_def Waiters.make_def)
qed (simp_all add: register_inv cancel_inv notify_effect(1) notify_topic_inv)

section \<open>Properties\<close>

text \<open>
  C39: the append path neither loses nor reorders a partition's jobs, and its queues are bounded. In every
  reachable interleaving of enqueuers and workers, the jobs handed to the log are a prefix of the
  accepted jobs, the missing ones are few (the batch being written, one waiting job and a queue below the
  configured depth), an idle partition has had all its jobs appended, and while a partition is not idle
  some worker can move.
\<close>

theorem append_path_fifo:
  assumes "append_path_reach max_depth batch s"
  shows "prefix (appended s p) (enqueued s p) \<and>
    length (pending_appends (queues s) p) \<le> unat max_depth \<and>
    length (at_key p (running s)) \<le> 1 \<and>
    (\<not> append_active (queues s) p \<longrightarrow> appended s p = enqueued s p) \<and>
    (append_active (queues s) p \<longrightarrow> handoff s \<noteq> [] \<or> ready_appends (queues s) \<noteq> [] \<or> picked s \<noteq> [] \<or> running s \<noteq> [])"
proof -
  have inv: "path_inv max_depth batch s" by (rule path_reach_inv [OF assms])
  then have ok: "partition_ok max_depth s p" by (simp add: path_inv_def)
  then show ?thesis
    using path_not_stuck [OF inv] by (cases "append_active (queues s) p") (auto simp: partition_ok_def)
qed

theorem append_path_fifo_witness:
  "let (outcome, ready, q) = claim_append 2 (0 :: nat) (7 :: nat) (queues idle_path);
       s = idle_path\<lparr>queues := q, handoff := held 0 ready, enqueued := (enqueued idle_path)(0 := [7])\<rparr>
   in prefix (appended s 0) (enqueued s 0) \<and> append_active (queues s) 0"
proof -
  let ?i = "idle_path :: (nat, nat) AppendPath"
  let ?q = "(queues ?i)\<lparr>append_active := (append_active (queues ?i))(0 := True)\<rparr>"
  let ?s = "?i\<lparr>queues := ?q, handoff := held 0 (Some 7), enqueued := (enqueued ?i)(0 := [7])\<rparr>"
  have r: "claim_append 2 (0 :: nat) (7 :: nat) (queues idle_path) = (EnqueueOutcome.make True 1, Some 7, ?q)"
    by (simp add: claim_append_def idle_path_def AppendPath.make_def AppendQueues.make_def)
  have "enqueued (idle_path :: (nat, nat) AppendPath) 0 = []" "handoff (idle_path :: (nat, nat) AppendPath) = []"
    by (simp_all add: idle_path_def AppendPath.make_def)
  then have "append_path_reach 2 4 ?s"
    using path_step [OF path_start append_path_step.step_enqueue [OF r], of 4] by (simp add: EnqueueOutcome.make_def)
  from append_path_fifo [OF this, of 0] show ?thesis by (simp add: Let_def r)
qed

text \<open>
  C40: long-poll waiters are counted exactly. In every reachable state the counter equals the number of
  registered waiters and never exceeds the configured limit; a notification for a partition wakes exactly
  the waiters registered for it, once, and leaves all others.
\<close>

theorem waiters_accounted:
  assumes "waiters_reach mx w"
  shows "unat (active_long_poll_waiters w) = waiter_total (waiters w) \<and> waiter_total (waiters w) \<le> unat mx \<and>
    fst (notify_fetch_waiters tpc part w) = waiters_at w (tpc, part) \<and>
    waiters_at (snd (notify_fetch_waiters tpc part w)) = (waiters_at w)((tpc, part) := [])"
  using waiters_reach_inv [OF assms] notify_effect(2,3) [OF waiters_reach_inv [OF assms]]
  by (auto simp: waiters_inv_def word_le_nat_alt)

theorem waiters_accounted_witness:
  "let w = snd (register_fetch_waiter 8 ''t'' 0 5 (Waiters.make 1 0 []))
   in waiter_total (waiters w) = 1 \<and> fst (notify_fetch_waiters ''t'' 0 w) = [FetchWaiter.make 1 5]"
proof -
  let ?w = "snd (register_fetch_waiter 8 ''t'' 0 5 (Waiters.make 1 0 []))"
  have "waiters_reach 8 ?w" by (intro waiters_reach.intros)
  from waiters_accounted [OF this, of "''t''" 0]
  show ?thesis by (simp add: Let_def register_fetch_waiter_def Waiters.make_def waiters_at_def)
qed

end
