(* ===== verification/Bolt_Broker.thy ===== *)
theory Bolt_Broker
  imports Bolt_Admin_Messages Bolt_Log Bolt_Groups Bolt_Offsets
begin

text \<open>
  The requests that \<open>BrokerRuntime\<close> (\<open>src/src/broker/server.cpp\<close>) serves, on top of the partition logs,
  the offset store and the group coordinator. A request runs under the lock of its topic (and of the log
  or the store it touches), so a request is one step of the model; where the code reads the clock, times
  are arguments, and where it meets the file system, failures are. Structured logging and metrics are
  left out: they do not feed back into the state.
\<close>

section \<open>State\<close>

record BrokerConfig =
  max_frame_bytes :: u32
  max_fetch_records :: u32
  max_fetch_bytes :: u32
  max_topic_partitions :: u32
  segment_bytes :: nat
  segment_max_age :: u64
  max_batch_bytes :: u32
  retention_policy :: RetentionPolicy
  broker_token :: string

record TopicState =
  topic_name :: string
  topic_partition_count :: u16
  next_round_robin_partition :: u16
  deleting :: bool
  topic_logs :: "PartitionLog list"

record BrokerRuntime =
  config :: BrokerConfig
  topics_map :: "(string \<times> TopicState) list"
  offset_store :: OffsetStore
  group_coordinator :: GroupCoordinator

text \<open>\<open>BrokerRequestError\<close>, and any other exception, which the session reports as an internal error.\<close>

datatype BrokerError = RequestError ErrorCode string | OtherError string

abbreviation reject :: "ErrorCode \<Rightarrow> string \<Rightarrow> BrokerError + 'a" where
  "reject err what \<equiv> Inl (RequestError err what)"

text \<open>Sequencing of checks that may throw.\<close>

definition checked :: "'e + 'a \<Rightarrow> ('a \<Rightarrow> 'e + 'b) \<Rightarrow> 'e + 'b" where
  "checked r f = (case r of Inl e \<Rightarrow> Inl e | Inr x \<Rightarrow> f x)"

lemma checked_simps [simp]: "checked (Inl e) f = Inl e" "checked (Inr x) f = f x"
  by (simp_all add: checked_def)

lemma checked_Inr: "checked r f = Inr y \<longleftrightarrow> (\<exists>x. r = Inr x \<and> f x = Inr y)"
  by (cases r) simp_all

section \<open>Topics and partitions\<close>

definition find_topic_or_throw :: "string \<Rightarrow> BrokerRuntime \<Rightarrow> BrokerError + TopicState" where
  "find_topic_or_throw tpc b =
     (case map_of (topics_map b) tpc of
        None \<Rightarrow> reject UnknownTopic ''topic does not exist'' | Some t \<Rightarrow> Inr t)"

text \<open>The check that every request makes once it holds the topic's lock.\<close>

definition live_topic :: "string \<Rightarrow> BrokerRuntime \<Rightarrow> BrokerError + TopicState" where
  "live_topic tpc b =
     checked (find_topic_or_throw tpc b)
       (\<lambda>t. if deleting t then reject UnknownTopic ''topic is being deleted'' else Inr t)"

text \<open>\<open>vector::at\<close> throws \<open>std::out_of_range\<close>.\<close>

definition log_at :: "TopicState \<Rightarrow> u16 \<Rightarrow> BrokerError + PartitionLog" where
  "log_at t part =
     (if unat part < length (topic_logs t) then Inr (topic_logs t ! unat part)
      else Inl (OtherError ''vector::_M_range_check''))"

definition partition_or_throw :: "TopicState \<Rightarrow> u16 \<Rightarrow> BrokerError + PartitionLog" where
  "partition_or_throw t part =
     (if part \<ge> topic_partition_count t then reject InvalidPartition ''partition does not exist for topic''
      else log_at t part)"

definition validate_group_or_throw :: "string \<Rightarrow> BrokerError + unit" where
  "validate_group_or_throw grp =
     (if is_valid_group_name grp then Inr () else reject InvalidGroup ''invalid consumer group name'')"

abbreviation put_topic :: "TopicState \<Rightarrow> BrokerRuntime \<Rightarrow> BrokerRuntime" where
  "put_topic t b \<equiv> b\<lparr>topics_map := map_put (topic_name t) t (topics_map b)\<rparr>"

abbreviation put_log :: "u16 \<Rightarrow> PartitionLog \<Rightarrow> TopicState \<Rightarrow> TopicState" where
  "put_log part log t \<equiv> t\<lparr>topic_logs := (topic_logs t)[unat part := log]\<rparr>"

text \<open>FNV-1a over the key, modulo the number of partitions.\<close>

definition key_hash :: "bytes \<Rightarrow> u64" where
  "key_hash k = fold (\<lambda>byte hash. (hash XOR ucast byte) * 1099511628211) k 14695981039346656037"

definition key_hash_partition :: "bytes \<Rightarrow> u16 \<Rightarrow> u16" where
  "key_hash_partition k count = ucast (key_hash k mod ucast count)"

definition advance_round_robin :: "TopicState \<Rightarrow> TopicState" where
  "advance_round_robin t =
     t\<lparr>next_round_robin_partition :=
        of_nat ((unat (next_round_robin_partition t) + 1) mod unat (topic_partition_count t))\<rparr>"

definition select_partition :: "TopicState \<Rightarrow> bytes \<Rightarrow> u16 \<times> TopicState" where
  "select_partition t k =
     (if k \<noteq> [] then (key_hash_partition k (topic_partition_count t), t)
      else (next_round_robin_partition t, advance_round_robin t))"

section \<open>Creating and opening topics\<close>

definition open_options :: "BrokerConfig \<Rightarrow> string \<Rightarrow> u16 \<Rightarrow> PartitionLogOptions" where
  "open_options cfg tpc part = PartitionLogOptions.make tpc part (segment_bytes cfg) (segment_max_age cfg) (max_batch_bytes cfg)"

fun open_logs :: "zstd \<Rightarrow> BrokerConfig \<Rightarrow> string \<Rightarrow> (u16 \<Rightarrow> files) \<Rightarrow> nat list \<Rightarrow> string + PartitionLog list" where
  "open_logs z cfg tpc contents [] = Inr []"
| "open_logs z cfg tpc contents (part # rest) =
     checked (open_log z (open_options cfg tpc (of_nat part)) (contents (of_nat part)))
       (\<lambda>log. checked (open_logs z cfg tpc contents rest) (\<lambda>logs. Inr (log # logs)))"

text \<open>The contents of the partition directories are those found on disk.\<close>

definition open_topic_state :: "zstd \<Rightarrow> BrokerConfig \<Rightarrow> string \<Rightarrow> u16 \<Rightarrow> (u16 \<Rightarrow> files) \<Rightarrow> string + TopicState" where
  "open_topic_state z cfg tpc count contents =
     checked (open_logs z cfg tpc contents [0..<unat count])
       (\<lambda>logs. Inr (TopicState.make tpc count 0 False logs))"

definition create_topic ::
  "zstd \<Rightarrow> string option \<Rightarrow> (u16 \<Rightarrow> files) \<Rightarrow> CreateTopicRequest \<Rightarrow> BrokerRuntime \<Rightarrow>
   (BrokerError + CreateTopicResponse) \<times> BrokerRuntime" where
  "create_topic z manifest_fault contents req b =
     (let tpc = CreateTopicRequest.topic req; count = CreateTopicRequest.partition_count req in
      if \<not> is_valid_topic_name tpc then (reject MalformedPayload ''invalid topic name'', b)
      else if count = 0 \<or> ucast count > max_topic_partitions (config b)
      then (reject InvalidPartition ''partition count exceeds configured maximum'', b)
      else case map_of (topics_map b) tpc of
        Some t \<Rightarrow>
          if topic_partition_count t \<noteq> count
          then (reject TopicConflict ''topic already exists with a different partition count'', b)
          else (Inr (CreateTopicResponse.make tpc count ''exists''), b)
      | None \<Rightarrow>
         (case manifest_fault of
            Some what \<Rightarrow> (Inl (OtherError what), b)
          | None \<Rightarrow>
             (case open_topic_state z (config b) tpc count contents of
                Inl what \<Rightarrow> (Inl (OtherError what), b)
              | Inr t \<Rightarrow> (Inr (CreateTopicResponse.make tpc count ''created''), put_topic t b))))"

section \<open>Producing\<close>

text \<open>
  The batch that an append worker hands to the log, followed by retention. The results have the order of
  the jobs. A failure of retention turns every result into a failure, although the records were appended.
\<close>

type_synonym produce_result = "(ErrorCode \<times> string) + ProduceResponse"

definition run_append_batch ::
  "AppendEnv \<Rightarrow> (string \<Rightarrow> u64) \<Rightarrow> (string \<Rightarrow> RemoveFault option) \<Rightarrow> RetentionPolicy \<Rightarrow> ProduceRequest list \<Rightarrow>
   PartitionLog \<Rightarrow> produce_result list \<times> PartitionLog" where
  "run_append_batch env age remove_fault policy jobs log =
     (let recs = map (\<lambda>job. AppendRecord.make (ProduceRequest.key job) (ProduceRequest.message job)) jobs;
          failed = (\<lambda>what. map (\<lambda>_. Inl (InternalError, what)) jobs) in
      case append_batch env recs log of
        (Inl what, log1) \<Rightarrow> (failed what, log1)
      | (Inr ms, log1) \<Rightarrow>
         (case apply_retention age remove_fault policy log1 of
            (Inl what, log2) \<Rightarrow> (failed what, log2)
          | (Inr _, log2) \<Rightarrow>
             (map (\<lambda>m. Inr (ProduceResponse.make (RecordMetadata.topic m) (RecordMetadata.partition m)
                (RecordMetadata.offset m) (RecordMetadata.offset m + 1) (RecordMetadata.encoded_byte_size m))) ms,
              log2)))"

text \<open>
  Routing of a single record. With append workers the job is offered to the queue of its partition, whose
  answer is the argument \<open>enqueue\<close>; without workers the batch of one job is run at once. Either way the
  round-robin position moves only after the job was taken.
\<close>

definition produce_target :: "ProduceRequest \<Rightarrow> TopicState \<Rightarrow> u16" where
  "produce_target req t =
     (if ProduceRequest.key req = [] then next_round_robin_partition t
      else key_hash_partition (ProduceRequest.key req) (topic_partition_count t))"

definition after_produce :: "ProduceRequest \<Rightarrow> TopicState \<Rightarrow> TopicState" where
  "after_produce req t = (if ProduceRequest.key req = [] then advance_round_robin t else t)"

definition async_produce :: "(u16 \<Rightarrow> bool) \<Rightarrow> ProduceRequest \<Rightarrow> BrokerRuntime \<Rightarrow> (BrokerError + u16) \<times> BrokerRuntime" where
  "async_produce enqueue req b =
     (case checked (live_topic (ProduceRequest.topic req) b) (\<lambda>t. checked (log_at t (produce_target req t)) (\<lambda>_. Inr t)) of
        Inl e \<Rightarrow> (Inl e, b)
      | Inr t \<Rightarrow>
          if \<not> enqueue (produce_target req t) then (reject Overloaded ''append queue is full'', b)
          else (Inr (produce_target req t), put_topic (after_produce req t) b))"

definition produce_inline ::
  "AppendEnv \<Rightarrow> (string \<Rightarrow> u64) \<Rightarrow> (string \<Rightarrow> RemoveFault option) \<Rightarrow> ProduceRequest \<Rightarrow> BrokerRuntime \<Rightarrow>
   (BrokerError + produce_result) \<times> BrokerRuntime" where
  "produce_inline env age remove_fault req b =
     (case checked (live_topic (ProduceRequest.topic req) b)
             (\<lambda>t. checked (log_at t (produce_target req t)) (\<lambda>log. Inr (t, log))) of
        Inl e \<Rightarrow> (Inl e, b)
      | Inr (t, log) \<Rightarrow>
         (let (results, log1) = run_append_batch env age remove_fault (retention_policy (config b)) [req] log in
          (Inr (hd results), put_topic (after_produce req (put_log (produce_target req t) log1 t)) b)))"

definition produce_batch ::
  "zstd \<Rightarrow> u64 \<Rightarrow> (string \<times> nat \<times> nat) option \<Rightarrow> ProduceBatchRequest \<Rightarrow> BatchRecord list \<Rightarrow> BrokerRuntime \<Rightarrow>
   (BrokerError + ProduceBatchResponse) \<times> BrokerRuntime" where
  "produce_batch z now fault req recs b =
     (case checked (live_topic (ProduceBatchRequest.topic req) b)
             (\<lambda>t. checked (partition_or_throw t (ProduceBatchRequest.partition req)) (\<lambda>log. Inr (t, log))) of
        Inl e \<Rightarrow> (Inl e, b)
      | Inr (t, log) \<Rightarrow>
         (let appends = map (\<lambda>r. AppendRecord.make (BatchRecord.key r) (BatchRecord.message r)) recs;
              (result, log1) = append_encoded_batch z now fault (ProduceBatchRequest.codec req)
                (ProduceBatchRequest.encoded_records req) (ProduceBatchRequest.uncompressed_bytes req) appends log;
              b1 = put_topic (put_log (ProduceBatchRequest.partition req) log1 t) b
          in case result of
               Inl what \<Rightarrow> (Inl (OtherError what), b1)
             | Inr m \<Rightarrow>
                 (Inr (ProduceBatchResponse.make (BatchMetadata.topic m) (BatchMetadata.partition m)
                    (BatchMetadata.base_offset m) (BatchMetadata.next_offset m) (BatchMetadata.record_count m)
                    (BatchMetadata.logical_bytes m) (BatchMetadata.encoded_bytes m) (BatchMetadata.stored_bytes m)), b1)))"

section \<open>Fetching\<close>

definition parse_u64 :: "string \<Rightarrow> u64 option" where
  "parse_u64 text =
     (if text = [] then None
      else case from_chars (2 ^ 64 - 1) text of Some (v, []) \<Rightarrow> Some (of_nat v) | _ \<Rightarrow> None)"

definition resolve_fetch_offset :: "FetchRequest \<Rightarrow> u64 \<Rightarrow> u64 \<Rightarrow> OffsetStore \<Rightarrow> BrokerError + u64" where
  "resolve_fetch_offset req earliest next_off store =
     (if from_selector req = ''beginning'' then Inr earliest
      else if from_selector req = ''latest'' then Inr next_off
      else if from_selector req = ''committed'' then
        checked (validate_group_or_throw (FetchRequest.group req))
          (\<lambda>_. let off = (case committed (FetchRequest.group req) (FetchRequest.topic req) (FetchRequest.partition req) store of
                          None \<Rightarrow> earliest | Some off \<Rightarrow> off) in
             if off < earliest then reject OffsetOutOfRange ''committed offset is below partition earliest offset''
             else if off > next_off then reject InvalidOffset ''committed offset is beyond partition next offset''
             else Inr off)
      else case parse_u64 (from_selector req) of
        None \<Rightarrow> reject MalformedPayload
          ''fetch offset selector must be beginning, latest, committed, or an unsigned offset''
      | Some off \<Rightarrow>
          if off < earliest then reject OffsetOutOfRange ''fetch offset is below partition earliest offset''
          else if off > next_off then reject InvalidOffset ''fetch offset is beyond partition next offset''
          else Inr off)"

definition max_fetch_payload_bytes :: "BrokerConfig \<Rightarrow> nat" where
  "max_fetch_payload_bytes cfg =
     (if max_frame_bytes cfg \<le> kFrameHeaderBytes then 0
      else unat (min (max_fetch_bytes cfg) (max_frame_bytes cfg - kFrameHeaderBytes)))"

definition fetch_payload_base_bytes :: "string \<Rightarrow> nat" where
  "fetch_payload_base_bytes tpc = 4 + length tpc + 2 + 8 + 8 + 4"

definition fetch_record_payload_bytes :: "Record \<Rightarrow> nat" where
  "fetch_record_payload_bytes r = 8 + 8 + 4 + length (Record.key r) + 4 + length (Record.val r) + 4"

definition fetch_record :: "Record \<Rightarrow> FetchRecord" where
  "fetch_record r = FetchRecord.make (RecordMetadata.offset (Record.metadata r))
     (RecordMetadata.timestamp_unix_ns (Record.metadata r)) (Record.key r) (Record.val r)
     (RecordMetadata.encoded_byte_size (Record.metadata r))"

text \<open>The loop that fills the response; the flag says whether it is still empty.\<close>

fun fill_response :: "nat \<Rightarrow> nat \<Rightarrow> bool \<Rightarrow> Record list \<Rightarrow> BrokerError + FetchRecord list" where
  "fill_response mx used is_empty [] = Inr []"
| "fill_response mx used is_empty (r # rs) =
     (if used + fetch_record_payload_bytes r > mx then
        if is_empty then reject InvalidLength ''single fetch record exceeds configured maximum response size''
        else Inr []
      else checked (fill_response mx (used + fetch_record_payload_bytes r) False rs)
             (\<lambda>out. Inr (fetch_record r # out)))"

definition fetch_log :: "zstd \<Rightarrow> BrokerConfig \<Rightarrow> FetchRequest \<Rightarrow> u64 \<Rightarrow> PartitionLog \<Rightarrow> BrokerError + FetchResponse" where
  "fetch_log z cfg req from_off log =
     (let mx = max_fetch_payload_bytes cfg; base = fetch_payload_base_bytes (FetchRequest.topic req) in
      if base > mx
      then reject InvalidLength ''fetch response metadata exceeds configured maximum size''
      else case read_from z from_off (unat (max_fetch_records cfg)) (unat (max_fetch_bytes cfg)) log of
        Inl what \<Rightarrow> Inl (OtherError what)
      | Inr recs \<Rightarrow>
          checked (fill_response mx base True recs)
            (\<lambda>out. Inr (FetchResponse.make (FetchRequest.topic req) (FetchRequest.partition req) from_off
               (if out = [] then from_off else FetchRecord.offset (last out) + 1) out)))"

definition fetch :: "zstd \<Rightarrow> FetchRequest \<Rightarrow> BrokerRuntime \<Rightarrow> BrokerError + FetchResponse" where
  "fetch z req b =
     checked (live_topic (FetchRequest.topic req) b)
       (\<lambda>t. checked (partition_or_throw t (FetchRequest.partition req))
         (\<lambda>log. checked (resolve_fetch_offset req (earliest_offset log) (next_offset' log) (offset_store b))
           (\<lambda>from_off. fetch_log z (config b) req from_off log)))"

definition fetch_encoded_batch :: "zstd \<Rightarrow> FetchRequest \<Rightarrow> BrokerRuntime \<Rightarrow> BrokerError + EncodedBatch option" where
  "fetch_encoded_batch z req b =
     checked (live_topic (FetchRequest.topic req) b)
       (\<lambda>t. checked (partition_or_throw t (FetchRequest.partition req))
         (\<lambda>log. checked (resolve_fetch_offset req (earliest_offset log) (next_offset' log) (offset_store b))
           (\<lambda>from_off. case read_encoded_batch z from_off log of
              Inl what \<Rightarrow> Inl (OtherError what)
            | Inr None \<Rightarrow> Inr None
            | Inr (Some batch) \<Rightarrow>
                if BatchMetadata.codec (EncodedBatch.metadata batch) \<noteq> Codec_Zstd \<or>
                   BatchMetadata.record_count (EncodedBatch.metadata batch) > max_fetch_records (config b) \<or>
                   BatchMetadata.encoded_bytes (EncodedBatch.metadata batch) > max_fetch_bytes (config b)
                then Inr None else Inr (Some batch))))"

section \<open>Offsets and groups\<close>

text \<open>A commit must lie between the earliest and the next offset of the partition.\<close>

definition check_offset_range :: "string \<Rightarrow> u64 \<Rightarrow> PartitionLog \<Rightarrow> BrokerError + unit" where
  "check_offset_range what off log =
     (if off < earliest_offset log
      then reject OffsetOutOfRange (what @ '' is below partition earliest offset'')
      else if off > next_offset' log
      then reject InvalidOffset (what @ '' is beyond partition next offset'')
      else Inr ())"

definition store_commit ::
  "CommitFault option \<Rightarrow> string \<Rightarrow> string \<Rightarrow> u16 \<Rightarrow> u64 \<Rightarrow> BrokerRuntime \<Rightarrow> (BrokerError + unit) \<times> BrokerRuntime" where
  "store_commit fault grp tpc part off b =
     (case commit fault grp tpc part off (offset_store b) of
        (Inl what, st) \<Rightarrow> (Inl (OtherError what), b\<lparr>offset_store := st\<rparr>)
      | (Inr _, st) \<Rightarrow> (Inr (), b\<lparr>offset_store := st\<rparr>))"

text \<open>Two readings of the clock: one to expire members, one to ask whether any are left.\<close>

definition commit_offset ::
  "CommitFault option \<Rightarrow> int \<Rightarrow> int \<Rightarrow> OffsetCommitRequest \<Rightarrow> BrokerRuntime \<Rightarrow>
   (BrokerError + OffsetCommitResponse) \<times> BrokerRuntime" where
  "commit_offset fault now1 now2 req b =
     (let grp = OffsetCommitRequest.group req; tpc = OffsetCommitRequest.topic req;
          part = OffsetCommitRequest.partition req; off = OffsetCommitRequest.next_offset req in
      case checked (validate_group_or_throw grp)
             (\<lambda>_. checked (live_topic tpc b) (\<lambda>t. partition_or_throw t part)) of
        Inl e \<Rightarrow> (Inl e, b)
      | Inr log \<Rightarrow>
         (let (_, c1) = expire grp tpc now1 (group_coordinator b);
              (active, c2) = has_active_members grp tpc now2 c1;
              b1 = b\<lparr>group_coordinator := c2\<rparr> in
          if active
          then (reject StaleMember ''legacy offset commit is fenced by active coordinated group'', b1)
          else case check_offset_range ''commit offset'' off log of
            Inl e \<Rightarrow> (Inl e, b1)
          | Inr _ \<Rightarrow>
             (case store_commit fault grp tpc part off b1 of
                (Inl e, b2) \<Rightarrow> (Inl e, b2)
              | (Inr _, b2) \<Rightarrow> (Inr (OffsetCommitResponse.make grp tpc part off), b2))))"

text \<open>The result of a coordinator operation, its error as a request error.\<close>

definition group_result ::
  "(GroupResult \<Rightarrow> 'a) \<Rightarrow> (group_error + GroupResult) \<times> GroupCoordinator \<Rightarrow> BrokerRuntime \<Rightarrow>
   (BrokerError + 'a) \<times> BrokerRuntime" where
  "group_result respond r b =
     (case r of
        (Inl (err, what), c) \<Rightarrow> (reject err what, b\<lparr>group_coordinator := c\<rparr>)
      | (Inr result, c) \<Rightarrow> (Inr (respond result), b\<lparr>group_coordinator := c\<rparr>))"

definition join_group :: "int \<Rightarrow> JoinGroupRequest \<Rightarrow> BrokerRuntime \<Rightarrow> (BrokerError + JoinGroupResponse) \<times> BrokerRuntime" where
  "join_group now req b =
     (case checked (validate_group_or_throw (JoinGroupRequest.group req)) (\<lambda>_. live_topic (JoinGroupRequest.topic req) b) of
        Inl e \<Rightarrow> (Inl e, b)
      | Inr t \<Rightarrow>
         (let (r, c) = join (JoinGroupRequest.group req) (JoinGroupRequest.topic req) (JoinGroupRequest.member_id req)
                (JoinGroupRequest.session_timeout_ms req) (topic_partition_count t) now (group_coordinator b)
          in group_result (\<lambda>r. JoinGroupResponse.make (GroupResult.group r) (GroupResult.topic r)
               (GroupResult.member_id r) (GroupResult.generation_id r)) (Inr r, c) b))"

definition sync_group :: "int \<Rightarrow> int \<Rightarrow> SyncGroupRequest \<Rightarrow> BrokerRuntime \<Rightarrow> (BrokerError + SyncGroupResponse) \<times> BrokerRuntime" where
  "sync_group now1 now2 req b =
     (case checked (validate_group_or_throw (SyncGroupRequest.group req)) (\<lambda>_. live_topic (SyncGroupRequest.topic req) b) of
        Inl e \<Rightarrow> (Inl e, b)
      | Inr _ \<Rightarrow>
         (let (_, c) = expire (SyncGroupRequest.group req) (SyncGroupRequest.topic req) now1 (group_coordinator b)
          in group_result (\<lambda>r. SyncGroupResponse.make (GroupResult.group r) (GroupResult.topic r)
               (GroupResult.member_id r) (GroupResult.generation_id r) (GroupResult.assignment r))
             (sync (SyncGroupRequest.group req) (SyncGroupRequest.topic req) (SyncGroupRequest.member_id req)
               (SyncGroupRequest.generation_id req) now2 c) b))"

definition heartbeat_group :: "int \<Rightarrow> int \<Rightarrow> HeartbeatRequest \<Rightarrow> BrokerRuntime \<Rightarrow> (BrokerError + HeartbeatResponse) \<times> BrokerRuntime" where
  "heartbeat_group now1 now2 req b =
     (case checked (validate_group_or_throw (HeartbeatRequest.group req)) (\<lambda>_. live_topic (HeartbeatRequest.topic req) b) of
        Inl e \<Rightarrow> (Inl e, b)
      | Inr _ \<Rightarrow>
         (let (_, c) = expire (HeartbeatRequest.group req) (HeartbeatRequest.topic req) now1 (group_coordinator b)
          in group_result (\<lambda>r. HeartbeatResponse.make (GroupResult.group r) (GroupResult.topic r)
               (GroupResult.member_id r) (GroupResult.generation_id r) ''ok'')
             (heartbeat (HeartbeatRequest.group req) (HeartbeatRequest.topic req) (HeartbeatRequest.member_id req)
               (HeartbeatRequest.generation_id req) now2 c) b))"

definition leave_group :: "int \<Rightarrow> int \<Rightarrow> LeaveGroupRequest \<Rightarrow> BrokerRuntime \<Rightarrow> (BrokerError + LeaveGroupResponse) \<times> BrokerRuntime" where
  "leave_group now1 now2 req b =
     (case checked (validate_group_or_throw (LeaveGroupRequest.group req)) (\<lambda>_. live_topic (LeaveGroupRequest.topic req) b) of
        Inl e \<Rightarrow> (Inl e, b)
      | Inr _ \<Rightarrow>
         (let (_, c) = expire (LeaveGroupRequest.group req) (LeaveGroupRequest.topic req) now1 (group_coordinator b)
          in group_result (\<lambda>r. LeaveGroupResponse.make (GroupResult.group r) (GroupResult.topic r)
               (GroupResult.member_id r) (GroupResult.generation_id r) ''left'')
             (leave (LeaveGroupRequest.group req) (LeaveGroupRequest.topic req) (LeaveGroupRequest.member_id req)
               (LeaveGroupRequest.generation_id req) now2 c) b))"

definition commit_group_offset ::
  "CommitFault option \<Rightarrow> int \<Rightarrow> int \<Rightarrow> GroupOffsetCommitRequest \<Rightarrow> BrokerRuntime \<Rightarrow>
   (BrokerError + GroupOffsetCommitResponse) \<times> BrokerRuntime" where
  "commit_group_offset fault now1 now2 req b =
     (let grp = GroupOffsetCommitRequest.group req; tpc = GroupOffsetCommitRequest.topic req;
          mid = GroupOffsetCommitRequest.member_id req; gen = GroupOffsetCommitRequest.generation_id req;
          part = GroupOffsetCommitRequest.partition req; off = GroupOffsetCommitRequest.next_offset req in
      case checked (validate_group_or_throw grp)
             (\<lambda>_. checked (live_topic tpc b) (\<lambda>t. checked (partition_or_throw t part)
               (\<lambda>log. check_offset_range ''commit offset'' off log))) of
        Inl e \<Rightarrow> (Inl e, b)
      | Inr _ \<Rightarrow>
         (let (_, c1) = expire grp tpc now1 (group_coordinator b) in
          case validate_commit grp tpc mid gen part now2 c1 of
            (Inl (err, what), c2) \<Rightarrow> (reject err what, b\<lparr>group_coordinator := c2\<rparr>)
          | (Inr result, c2) \<Rightarrow>
             (case store_commit fault grp tpc part off (b\<lparr>group_coordinator := c2\<rparr>) of
                (Inl e, b2) \<Rightarrow> (Inl e, b2)
              | (Inr _, b2) \<Rightarrow>
                  (Inr (GroupOffsetCommitResponse.make grp tpc mid (GroupResult.generation_id result) part off), b2))))"

definition reset_group_offset ::
  "CommitFault option \<Rightarrow> int \<Rightarrow> int \<Rightarrow> ResetGroupOffsetRequest \<Rightarrow> BrokerRuntime \<Rightarrow>
   (BrokerError + ResetGroupOffsetResponse) \<times> BrokerRuntime" where
  "reset_group_offset fault now1 now2 req b =
     (let grp = ResetGroupOffsetRequest.group req; tpc = ResetGroupOffsetRequest.topic req;
          part = ResetGroupOffsetRequest.partition req;
          busy = reject GroupActive ''consumer group has active members'' in
      case validate_group_or_throw grp of
        Inl e \<Rightarrow> (Inl e, b)
      | Inr _ \<Rightarrow>
         (let (active1, c1) = has_active_members grp tpc now1 (group_coordinator b);
              b1 = b\<lparr>group_coordinator := c1\<rparr> in
          if active1 then (busy, b1)
          else case live_topic tpc b1 of
            Inl e \<Rightarrow> (Inl e, b1)
          | Inr t \<Rightarrow>
             (let (active2, c2) = has_active_members grp tpc now2 c1; b2 = b1\<lparr>group_coordinator := c2\<rparr> in
              if active2 then (busy, b2)
              else case checked (partition_or_throw t part)
                     (\<lambda>log. checked
                        (if ResetGroupOffsetRequest.target req = ''beginning'' then Inr (earliest_offset log)
                         else if ResetGroupOffsetRequest.target req = ''latest'' then Inr (next_offset' log)
                         else case parse_u64 (ResetGroupOffsetRequest.target req) of
                           None \<Rightarrow> reject MalformedPayload ''reset target must be beginning, latest, or an unsigned offset''
                         | Some off \<Rightarrow> Inr off)
                        (\<lambda>tgt. checked (check_offset_range ''reset target'' tgt log) (\<lambda>_. Inr tgt))) of
                Inl e \<Rightarrow> (Inl e, b2)
              | Inr tgt \<Rightarrow>
                 (case store_commit fault grp tpc part tgt b2 of
                    (Inl e, b3) \<Rightarrow> (Inl e, b3)
                  | (Inr _, b3) \<Rightarrow> (Inr (ResetGroupOffsetResponse.make grp tpc part tgt ''reset''), b3)))))"

section \<open>Administration\<close>

definition describe_partition :: "PartitionLog \<Rightarrow> TopicPartitionDescription" where
  "describe_partition log =
     (let summaries = segment_summaries log in
      TopicPartitionDescription.make (partition_id (options' log)) (earliest_offset log) (next_offset' log)
        (of_nat (length summaries)) (of_nat (sum_list (map SegmentSummary.log_bytes summaries))))"

definition describe_topic_state :: "TopicState \<Rightarrow> BrokerError + TopicDescription" where
  "describe_topic_state t =
     (if deleting t then reject UnknownTopic ''topic is being deleted''
      else let ds = map describe_partition (topic_logs t) in
        Inr (TopicDescription.make (topic_name t) (topic_partition_count t)
          (sum_list (map TopicPartitionDescription.log_bytes ds)) ds))"

definition describe_topic :: "DescribeTopicRequest \<Rightarrow> BrokerRuntime \<Rightarrow> BrokerError + DescribeTopicResponse" where
  "describe_topic req b =
     (if \<not> is_valid_topic_name (DescribeTopicRequest.topic req) then reject MalformedPayload ''invalid topic name''
      else checked (find_topic_or_throw (DescribeTopicRequest.topic req) b)
        (\<lambda>t. checked (describe_topic_state t) (\<lambda>d. Inr (DescribeTopicResponse.make d))))"

definition list_topics :: "BrokerRuntime \<Rightarrow> ListTopicsResponse" where
  "list_topics b = ListTopicsResponse.make
     (List.map_filter (\<lambda>(_, t). case describe_topic_state t of Inl _ \<Rightarrow> None | Inr d \<Rightarrow> Some d) (topics_map b))"

text \<open>The codec masks of the response are filled in by the session.\<close>

definition metadata_topics :: "BrokerRuntime \<Rightarrow> MetadataTopic list" where
  "metadata_topics b = concat (map (\<lambda>(name, t).
     map (\<lambda>log. MetadataTopic.make name (partition_id (options' log)) (next_offset' log)) (topic_logs t)) (topics_map b))"

definition describe_group_offset :: "string \<Rightarrow> string \<Rightarrow> OffsetStore \<Rightarrow> PartitionLog \<Rightarrow> GroupOffsetDescription" where
  "describe_group_offset grp tpc store log =
     (let part = partition_id (options' log); earliest = earliest_offset log; next_off = next_offset' log;
          known = committed grp tpc part store;
          off = (case known of None \<Rightarrow> 0 | Some off \<Rightarrow> off);
          out = (known \<noteq> None \<and> (off < earliest \<or> off > next_off)) in
      GroupOffsetDescription.make part (known \<noteq> None) off earliest next_off
        (if known \<noteq> None \<and> \<not> out \<and> off \<le> next_off then next_off - off else next_off - earliest) out)"

definition describe_group :: "int \<Rightarrow> DescribeGroupRequest \<Rightarrow> BrokerRuntime \<Rightarrow> (BrokerError + DescribeGroupResponse) \<times> BrokerRuntime" where
  "describe_group now req b =
     (let grp = DescribeGroupRequest.group req; tpc = DescribeGroupRequest.topic req in
      case checked (validate_group_or_throw grp) (\<lambda>_. find_topic_or_throw tpc b) of
        Inl e \<Rightarrow> (Inl e, b)
      | Inr t \<Rightarrow>
         (let (n, c) = active_member_count grp tpc now (group_coordinator b);
              b1 = b\<lparr>group_coordinator := c\<rparr> in
          if deleting t then (reject UnknownTopic ''topic is being deleted'', b1)
          else (Inr (DescribeGroupResponse.make grp tpc (of_nat n)
                  (map (describe_group_offset grp tpc (offset_store b1)) (topic_logs t))), b1)))"

text \<open>
  Deleting a topic. Waiters of the topic are woken and its append queues drained before the directory is
  removed; a failure to remove the directory leaves the topic out of the map.
\<close>

definition delete_topic ::
  "int \<Rightarrow> int \<Rightarrow> string option \<Rightarrow> (string \<Rightarrow> RewriteFault option) \<Rightarrow> DeleteTopicRequest \<Rightarrow> BrokerRuntime \<Rightarrow>
   (BrokerError + DeleteTopicResponse) \<times> BrokerRuntime" where
  "delete_topic now1 now2 dir_fault rewrite_fault req b =
     (let tpc = DeleteTopicRequest.topic req;
          busy = reject GroupActive ''topic has active coordinated consumer group members'' in
      if \<not> is_valid_topic_name tpc then (reject MalformedPayload ''invalid topic name'', b)
      else let (active1, c1) = topic_has_active_members tpc now1 (group_coordinator b);
               b1 = b\<lparr>group_coordinator := c1\<rparr> in
        if active1 then (busy, b1)
        else case map_of (topics_map b1) tpc of
          None \<Rightarrow> (reject UnknownTopic ''topic does not exist'', b1)
        | Some t \<Rightarrow>
           (let (active2, c2) = topic_has_active_members tpc now2 c1;
                b2 = b1\<lparr>group_coordinator := c2\<rparr> in
            if active2 then (busy, b2)
            else let b3 = b2\<lparr>topics_map := map_erase tpc (topics_map b2)\<rparr>;
                     summaries = concat (map segment_summaries (topic_logs t)) in
              case dir_fault of
                Some what \<Rightarrow> (reject InternalError (''failed to delete topic directory: '' @ what), b3)
              | None \<Rightarrow>
                 (case remove_topic_offsets rewrite_fault tpc (offset_store b3) of
                    (Inl what, st) \<Rightarrow> (Inl (OtherError what), b3\<lparr>offset_store := st\<rparr>)
                  | (Inr stats, st) \<Rightarrow>
                      (Inr (DeleteTopicResponse.make tpc ''deleted'' (topic_partition_count t)
                         (of_nat (length summaries)) (of_nat (sum_list (map SegmentSummary.log_bytes summaries)))
                         (of_nat (OffsetCleanupStats.offsets_removed stats))),
                       b3\<lparr>offset_store := st,
                         group_coordinator := remove_topic_groups tpc (group_coordinator b3)\<rparr>))))"

text \<open>Retention over the partitions of a topic, and over the topics that a filter selects.\<close>

fun retain_logs ::
  "(u16 \<Rightarrow> string \<Rightarrow> u64) \<Rightarrow> (u16 \<Rightarrow> string \<Rightarrow> RemoveFault option) \<Rightarrow> RetentionPolicy \<Rightarrow> string \<Rightarrow>
   PartitionLog list \<Rightarrow> (string + RetentionPartitionResult list) \<times> PartitionLog list" where
  "retain_logs age fault policy name [] = (Inr [], [])"
| "retain_logs age fault policy name (log # rest) =
     (case apply_retention (age (partition_id (options' log))) (fault (partition_id (options' log))) policy log of
        (Inl what, log1) \<Rightarrow> (Inl what, log1 # rest)
      | (Inr stats, log1) \<Rightarrow>
         (let (results, rest1) = retain_logs age fault policy name rest in
          (checked results (\<lambda>rs. Inr (RetentionPartitionResult.make name (partition_id (options' log1))
             (of_nat (RetentionStats.segments_deleted stats)) (of_nat (RetentionStats.bytes_deleted stats))
             (retained_earliest_offset stats) (retained_next_offset stats) # rs)), log1 # rest1)))"

fun retain_topics ::
  "(string \<Rightarrow> u16 \<Rightarrow> string \<Rightarrow> u64) \<Rightarrow> (string \<Rightarrow> u16 \<Rightarrow> string \<Rightarrow> RemoveFault option) \<Rightarrow> RetentionPolicy \<Rightarrow> string \<Rightarrow>
   (string \<times> TopicState) list \<Rightarrow> (string + RetentionPartitionResult list) \<times> (string \<times> TopicState) list" where
  "retain_topics age fault policy filt [] = (Inr [], [])"
| "retain_topics age fault policy filt ((name, t) # rest) =
     (if filt \<noteq> [] \<and> name \<noteq> filt \<or> deleting t
      then let (results, rest1) = retain_topics age fault policy filt rest in (results, (name, t) # rest1)
      else case retain_logs (age name) (fault name) policy (topic_name t) (topic_logs t) of
        (Inl what, logs) \<Rightarrow> (Inl what, (name, t\<lparr>topic_logs := logs\<rparr>) # rest)
      | (Inr rs, logs) \<Rightarrow>
         (let (results, rest1) = retain_topics age fault policy filt rest in
          (checked results (\<lambda>more. Inr (rs @ more)), (name, t\<lparr>topic_logs := logs\<rparr>) # rest1)))"

definition run_retention ::
  "(string \<Rightarrow> u16 \<Rightarrow> string \<Rightarrow> u64) \<Rightarrow> (string \<Rightarrow> u16 \<Rightarrow> string \<Rightarrow> RemoveFault option) \<Rightarrow> string \<Rightarrow> BrokerRuntime \<Rightarrow>
   (BrokerError + RunRetentionResponse) \<times> BrokerRuntime" where
  "run_retention age fault filt b =
     (let chosen = filter (\<lambda>(name, _). filt = [] \<or> name = filt) (topics_map b) in
      if filt \<noteq> [] \<and> \<not> is_valid_topic_name filt then (reject MalformedPayload ''invalid topic name'', b)
      else if filt \<noteq> [] \<and> chosen = [] then (reject UnknownTopic ''topic does not exist'', b)
      else case retain_topics age fault (retention_policy (config b)) filt (topics_map b) of
        (Inl what, ts) \<Rightarrow> (Inl (OtherError what), b\<lparr>topics_map := ts\<rparr>)
      | (Inr rs, ts) \<Rightarrow>
          (Inr (RunRetentionResponse.make filt (of_nat (length chosen)) (of_nat (length rs))
             (sum_list (map RetentionPartitionResult.segments_deleted rs))
             (sum_list (map RetentionPartitionResult.bytes_deleted rs)) rs),
           b\<lparr>topics_map := ts\<rparr>))"

definition authenticate :: "string \<Rightarrow> BrokerRuntime \<Rightarrow> bool" where
  "authenticate tok b \<longleftrightarrow> broker_token (config b) = [] \<or> tok = broker_token (config b)"

end
