(* ===== verification/Bolt_Session.thy ===== *)
theory Bolt_Session
  imports Bolt_Broker Bolt_Queues
begin

text \<open>
  \<open>BrokerProtocolSession\<close> (\<open>src/src/broker/server.cpp\<close>): what the broker does with the frames of one
  connection. A handler takes a frame and the state it can reach (the session, the registry of long-poll
  waiters and the runtime) and returns the reply it starts: a response frame, or the wait for an append or
  for new records. Reads and writes of the socket, the timer and the append workers are the events of a
  step relation. Metrics and structured logs are left out.
\<close>

section \<open>State\<close>

record SessionLimits =
  max_produce_batch_records :: u32
  max_wait_limit_ms :: u32
  append_workers_configured :: u32
  max_long_poll_waiters :: u32

record Session =
  connection :: nat
  authenticated :: bool
  protocol_version :: u16
  session_codecs :: u32
  active_waiter_id :: "u64 option"

record World =
  session :: Session
  registry :: Waiters
  runtime :: BrokerRuntime

text \<open>What the handlers observe: readiness, zstd, clocks, queues, and the failures of the file system.\<close>

record RequestEnv =
  ready :: bool
  ready_detail :: string
  zstd_library :: zstd
  clock_first :: int
  clock_second :: int
  manifest_fault :: "string option"
  partition_files :: "u16 \<Rightarrow> files"
  queue_accepts :: "u16 \<Rightarrow> bool"
  append_env :: AppendEnv
  file_ages :: "string \<Rightarrow> u64"
  remove_faults :: "string \<Rightarrow> RemoveFault option"
  batch_clock :: u64
  batch_write_fault :: "(string \<times> nat \<times> nat) option"
  commit_fault :: "CommitFault option"
  directory_fault :: "string option"
  rewrite_faults :: "string \<Rightarrow> RewriteFault option"
  topic_ages :: "string \<Rightarrow> u16 \<Rightarrow> string \<Rightarrow> u64"
  topic_remove_faults :: "string \<Rightarrow> u16 \<Rightarrow> string \<Rightarrow> RemoveFault option"

text \<open>
  The reply that a handler starts: a frame (version, type, correlation id, payload, and whether the
  connection is closed after it), the completion of a queued append, or a long poll.
\<close>

datatype Reply =
    Respond u16 FrameType u64 bytes bool
  | AwaitAppend u64
  | AwaitRecords u64 FetchRequest u64

section \<open>Writing\<close>

definition write_frame :: "World \<Rightarrow> FrameType \<Rightarrow> u64 \<Rightarrow> bytes \<Rightarrow> bool \<Rightarrow> Reply" where
  "write_frame w ft cid pl close_after_write =
     Respond (if protocol_version (session w) = 0 then kProtocolVersion else protocol_version (session w))
       ft cid pl close_after_write"

definition write_error :: "World \<Rightarrow> u64 \<Rightarrow> ErrorCode \<Rightarrow> string \<Rightarrow> bool \<Rightarrow> Reply" where
  "write_error w cid err what close_after_write =
     (let mx = max_frame_bytes (config (runtime w)); full = encode_error_response err what;
          pl = (if mx > kFrameHeaderBytes \<and> length full > unat (mx - kFrameHeaderBytes)
                then encode_error_response err (error_code_name err) else full)
      in write_frame w ErrorResponse cid pl close_after_write)"

text \<open>The checks that the handlers share, and the exceptions they turn into error frames.\<close>

definition decoded_or_error ::
  "World \<Rightarrow> u64 \<Rightarrow> 'a decode_result \<Rightarrow> ('a \<Rightarrow> Reply \<times> World) \<Rightarrow> Reply \<times> World" where
  "decoded_or_error w cid decoded k =
     (case decoded of Inl (err, what) \<Rightarrow> (write_error w cid err what True, w) | Inr request \<Rightarrow> k request)"

definition require_topic :: "World \<Rightarrow> u64 \<Rightarrow> string \<Rightarrow> Reply \<times> World \<Rightarrow> Reply \<times> World" where
  "require_topic w cid tpc rest =
     (if \<not> is_valid_topic_name tpc then (write_error w cid MalformedPayload ''invalid topic name'' True, w) else rest)"

definition require_group :: "World \<Rightarrow> u64 \<Rightarrow> string \<Rightarrow> Reply \<times> World \<Rightarrow> Reply \<times> World" where
  "require_group w cid grp rest =
     (if \<not> is_valid_group_name grp
      then (write_error w cid InvalidGroup ''invalid consumer group name'' True, w) else rest)"

definition require_auth :: "World \<Rightarrow> u64 \<Rightarrow> Reply \<times> World \<Rightarrow> Reply \<times> World" where
  "require_auth w cid rest =
     (if authenticated (session w) then rest
      else (write_error w cid Unauthorized ''authentication required'' True, w))"

fun error_reply :: "World \<Rightarrow> u64 \<Rightarrow> BrokerError \<Rightarrow> Reply" where
  "error_reply w cid (RequestError err what) = write_error w cid err what False"
| "error_reply w cid (OtherError what) = write_error w cid InternalError what False"

definition answer ::
  "World \<Rightarrow> u64 \<Rightarrow> FrameType \<Rightarrow> ('r \<Rightarrow> bytes) \<Rightarrow> (BrokerError + 'r) \<times> BrokerRuntime \<Rightarrow> Reply \<times> World" where
  "answer w cid ft enc result =
     (let w1 = w\<lparr>runtime := snd result\<rparr> in
      case fst result of
        Inl e \<Rightarrow> (error_reply w1 cid e, w1)
      | Inr response \<Rightarrow> (write_frame w1 ft cid (enc response) False, w1))"

abbreviation frame_cid :: "Frame \<Rightarrow> u64" where
  "frame_cid f \<equiv> correlation_id (header f)"

section \<open>Health, authentication, metadata and topics\<close>

definition handle_health :: "RequestEnv \<Rightarrow> Frame \<Rightarrow> World \<Rightarrow> Reply \<times> World" where
  "handle_health env f w =
     decoded_or_error w (frame_cid f) (validate_empty_payload (payload f))
       (\<lambda>_. (write_frame w HealthResponse (frame_cid f)
               (encode_health_response (if ready env then ''ready'' else ''not_ready'') (ready_detail env)) False, w))"

definition auth_required :: "BrokerRuntime \<Rightarrow> bool" where
  "auth_required b \<longleftrightarrow> broker_token (config b) \<noteq> []"

definition handle_auth :: "Frame \<Rightarrow> World \<Rightarrow> Reply \<times> World" where
  "handle_auth f w =
     decoded_or_error w (frame_cid f) (decode_auth_request (payload f))
       (\<lambda>request.
          if \<not> authenticate (AuthRequest.token request) (runtime w)
          then (write_error w (frame_cid f) Unauthorized ''invalid broker token'' True, w)
          else let w1 = w\<lparr>session := (session w)\<lparr>authenticated := True\<rparr>\<rparr> in
            (write_frame w1 AuthResponse (frame_cid f)
               (encode_auth_response (if auth_required (runtime w) then ''authenticated'' else ''disabled'')) False, w1))"

definition handle_metadata :: "Frame \<Rightarrow> World \<Rightarrow> Reply \<times> World" where
  "handle_metadata f w =
     decoded_or_error w (frame_cid f)
       (if protocol_version (session w) \<ge> 5 then decode_metadata_request (payload f)
        else map_sum id (\<lambda>_. kNoneMask) (validate_empty_payload (payload f)))
       (\<lambda>requested_codecs. require_auth w (frame_cid f)
          (let codecs = (requested_codecs AND kSupportedCodecMask) OR kNoneMask;
               w1 = w\<lparr>session := (session w)\<lparr>session_codecs := codecs\<rparr>\<rparr> in
           (write_frame w1 MetadataResponse (frame_cid f)
              (encode_metadata_response (MetadataResponse.make kSupportedCodecMask codecs (metadata_topics (runtime w)))
                 (protocol_version (session w))) False, w1)))"

definition handle_create_topic :: "RequestEnv \<Rightarrow> Frame \<Rightarrow> World \<Rightarrow> Reply \<times> World" where
  "handle_create_topic env f w =
     decoded_or_error w (frame_cid f) (decode_create_topic_request (payload f))
       (\<lambda>request. require_auth w (frame_cid f)
          (answer w (frame_cid f) CreateTopicResponse encode_create_topic_response
             (create_topic (zstd_library env) (manifest_fault env) (partition_files env) request (runtime w))))"

section \<open>Producing\<close>

text \<open>The completion of an append, on the strand of the session.\<close>

definition produce_completed :: "u64 \<Rightarrow> produce_result \<Rightarrow> World \<Rightarrow> Reply" where
  "produce_completed cid result w =
     (case result of
        Inl (err, what) \<Rightarrow> write_error w cid err what False
      | Inr response \<Rightarrow> write_frame w ProduceResponse cid (encode_produce_response response) False)"

text \<open>Without append workers the batch of one record is written, and its waiters woken, before the handler returns.\<close>

definition handle_produce :: "SessionLimits \<Rightarrow> RequestEnv \<Rightarrow> Frame \<Rightarrow> World \<Rightarrow> Reply \<times> World" where
  "handle_produce limits env f w =
     decoded_or_error w (frame_cid f) (decode_produce_request (payload f))
       (\<lambda>request. require_topic w (frame_cid f) (ProduceRequest.topic request) (require_auth w (frame_cid f)
          (if append_workers_configured limits = 0 then
             (case produce_inline (append_env env) (file_ages env) (remove_faults env) request (runtime w) of
                (Inl e, b) \<Rightarrow> (error_reply w (frame_cid f) e, w\<lparr>runtime := b\<rparr>)
              | (Inr result, b) \<Rightarrow>
                 (let woken = (case result of Inl _ \<Rightarrow> registry w
                        | Inr r \<Rightarrow> snd (notify_fetch_waiters (ProduceResponse.topic r) (ProduceResponse.partition r) (registry w)));
                      w1 = w\<lparr>runtime := b, registry := woken\<rparr> in
                  (produce_completed (frame_cid f) result w1, w1)))
           else
             (case async_produce (queue_accepts env) request (runtime w) of
                (Inl e, b) \<Rightarrow> (error_reply w (frame_cid f) e, w\<lparr>runtime := b\<rparr>)
              | (Inr _, b) \<Rightarrow> (AwaitAppend (frame_cid f), w\<lparr>runtime := b\<rparr>)))))"

definition handle_produce_batch :: "SessionLimits \<Rightarrow> RequestEnv \<Rightarrow> Frame \<Rightarrow> World \<Rightarrow> Reply \<times> World" where
  "handle_produce_batch limits env f w =
     (let cid = frame_cid f; mx = max_batch_bytes (config (runtime w)) in
      if protocol_version (session w) < 5
      then (write_error w cid UnsupportedRequest ''batch produce requires protocol version 5'' True, w)
      else decoded_or_error w cid (decode_produce_batch_request (payload f))
        (\<lambda>request. require_auth w cid
          (if session_codecs (session w) AND push_bit (unat (codec_value (ProduceBatchRequest.codec request))) 1 = 0
           then (write_error w cid UnsupportedCodec ''compression codec was not negotiated'' False, w)
           else if ProduceBatchRequest.record_count request > max_produce_batch_records limits \<or>
                   ProduceBatchRequest.uncompressed_bytes request > mx
           then (write_error w cid InvalidLength ''produce batch exceeds configured limits'' False, w)
           else case decompress (zstd_library env) (ProduceBatchRequest.codec request)
                       (ProduceBatchRequest.encoded_records request)
                       (unat (ProduceBatchRequest.uncompressed_bytes request)) (unat mx) of
             Inl what \<Rightarrow> (write_error w cid InvalidBatch what True, w)
           | Inr raw \<Rightarrow>
              (case decode_record_set raw (ProduceBatchRequest.record_count request) of
                 Inl (err, what) \<Rightarrow> (write_error w cid err what True, w)
               | Inr recs \<Rightarrow>
                  (case produce_batch (zstd_library env) (batch_clock env) (batch_write_fault env) request recs
                          (runtime w) of
                     (Inl (RequestError err what), b) \<Rightarrow>
                       (write_error w cid err what False, w\<lparr>runtime := b\<rparr>)
                   | (Inl (OtherError what), b) \<Rightarrow>
                       (write_error w cid InvalidBatch what True, w\<lparr>runtime := b\<rparr>)
                   | (Inr response, b) \<Rightarrow>
                      (let w1 = w\<lparr>runtime := b, registry := snd (notify_fetch_waiters (ProduceBatchRequest.topic request)
                             (ProduceBatchRequest.partition request) (registry w))\<rparr> in
                       (write_frame w1 ProduceBatchResponse cid (encode_produce_batch_response response) False, w1)))))))"

section \<open>Fetching\<close>

definition write_fetch_response :: "World \<Rightarrow> u64 \<Rightarrow> FetchResponse \<Rightarrow> Reply" where
  "write_fetch_response w cid response =
     (let pl = encode_fetch_response response; mx = max_frame_bytes (config (runtime w));
          max_payload_bytes = (if mx \<le> kFrameHeaderBytes then 0 else unat (mx - kFrameHeaderBytes)) in
      if length pl > max_payload_bytes
      then write_error w cid InvalidLength ''fetch response exceeds configured maximum frame size'' False
      else write_frame w FetchResponse cid pl False)"

definition register_long_poll :: "SessionLimits \<Rightarrow> u64 \<Rightarrow> FetchRequest \<Rightarrow> u64 \<Rightarrow> World \<Rightarrow> Reply \<times> World" where
  "register_long_poll limits cid request from_off w =
     (if active_waiter_id (session w) \<noteq> None
      then (write_error w cid InternalError ''session already has an active long-poll waiter'' False, w)
      else let polled = request\<lparr>FetchRequest.max_wait_ms := 0, from_selector := decimal (unat from_off)\<rparr> in
        case register_fetch_waiter (max_long_poll_waiters limits) (FetchRequest.topic request)
               (FetchRequest.partition request) (connection (session w)) (registry w) of
          (None, ws) \<Rightarrow> (write_error w cid Overloaded ''long-poll waiter limit reached'' False, w\<lparr>registry := ws\<rparr>)
        | (Some wid, ws) \<Rightarrow>
            (AwaitRecords cid polled wid,
             w\<lparr>registry := ws, session := (session w)\<lparr>active_waiter_id := Some wid\<rparr>\<rparr>))"

text \<open>
  A stored batch goes out as it is to a client that negotiated zstd, if it fits a frame; otherwise its records
  are read, and an empty answer at the end of the log becomes a long poll.
\<close>

definition passthrough_payload :: "EncodedBatch \<Rightarrow> bytes" where
  "passthrough_payload batch =
     (let m = EncodedBatch.metadata batch in
      encode_compressed_fetch_response (BatchMetadata.topic m) (BatchMetadata.partition m) (BatchMetadata.base_offset m)
        (BatchMetadata.next_offset m) (BatchMetadata.timestamp_unix_ns m) (BatchMetadata.codec m)
        (BatchMetadata.record_count m) (BatchMetadata.logical_bytes m) (EncodedBatch.encoded_records batch))"

definition fetch_plain :: "SessionLimits \<Rightarrow> RequestEnv \<Rightarrow> u64 \<Rightarrow> FetchRequest \<Rightarrow> World \<Rightarrow> Reply \<times> World" where
  "fetch_plain limits env cid request w =
     (case fetch (zstd_library env) request (runtime w) of
        Inl e \<Rightarrow> (error_reply w cid e, w)
      | Inr response \<Rightarrow>
          if FetchResponse.records response = [] \<and> FetchRequest.max_wait_ms request > 0 \<and>
             FetchResponse.from_offset response = FetchResponse.next_offset response
          then register_long_poll limits cid request (FetchResponse.from_offset response) w
          else (write_fetch_response w cid response, w))"

definition fetch_or_wait :: "SessionLimits \<Rightarrow> RequestEnv \<Rightarrow> u64 \<Rightarrow> FetchRequest \<Rightarrow> World \<Rightarrow> Reply \<times> World" where
  "fetch_or_wait limits env cid request w =
     (case (if protocol_version (session w) \<ge> 5 \<and> session_codecs (session w) AND kZstdMask \<noteq> 0
            then fetch_encoded_batch (zstd_library env) request (runtime w) else Inr None) of
        Inl e \<Rightarrow> (error_reply w cid e, w)
      | Inr (Some batch) \<Rightarrow>
          if length (passthrough_payload batch) + unat kFrameHeaderBytes \<le> unat (max_frame_bytes (config (runtime w)))
          then (write_frame w FetchResponse cid (passthrough_payload batch) False, w)
          else fetch_plain limits env cid request w
      | Inr None \<Rightarrow> fetch_plain limits env cid request w)"

definition handle_fetch :: "SessionLimits \<Rightarrow> RequestEnv \<Rightarrow> Frame \<Rightarrow> World \<Rightarrow> Reply \<times> World" where
  "handle_fetch limits env f w =
     decoded_or_error w (frame_cid f) (decode_fetch_request (payload f))
       (\<lambda>request. require_topic w (frame_cid f) (FetchRequest.topic request)
          (if FetchRequest.group request \<noteq> [] \<and> \<not> is_valid_group_name (FetchRequest.group request)
           then (write_error w (frame_cid f) InvalidGroup ''invalid consumer group name'' True, w)
           else require_auth w (frame_cid f)
             (fetch_or_wait limits env (frame_cid f)
                (if FetchRequest.max_wait_ms request > max_wait_limit_ms limits
                 then request\<lparr>FetchRequest.max_wait_ms := max_wait_limit_ms limits\<rparr> else request) w)))"

text \<open>The end of a long poll: its waiter was woken, or its timer fired first and cancels the waiter.\<close>

definition poll_reply :: "RequestEnv \<Rightarrow> u64 \<Rightarrow> FetchRequest \<Rightarrow> World \<Rightarrow> Reply \<times> World" where
  "poll_reply env cid request w =
     (let w1 = w\<lparr>session := (session w)\<lparr>active_waiter_id := None\<rparr>\<rparr> in
      case fetch (zstd_library env) request (runtime w1) of
        Inl e \<Rightarrow> (error_reply w1 cid e, w1)
      | Inr response \<Rightarrow> (write_fetch_response w1 cid response, w1))"

definition poll_expired :: "RequestEnv \<Rightarrow> u64 \<Rightarrow> FetchRequest \<Rightarrow> u64 \<Rightarrow> World \<Rightarrow> Reply \<times> World" where
  "poll_expired env cid request wid w =
     poll_reply env cid request (w\<lparr>registry := cancel_fetch_waiter wid (registry w)\<rparr>)"

definition cancel_active_waiter :: "World \<Rightarrow> World" where
  "cancel_active_waiter w =
     (case active_waiter_id (session w) of
        None \<Rightarrow> w
      | Some wid \<Rightarrow> w\<lparr>registry := cancel_fetch_waiter wid (registry w), session := (session w)\<lparr>active_waiter_id := None\<rparr>\<rparr>)"

section \<open>Offsets and groups\<close>

definition handle_offset_commit :: "RequestEnv \<Rightarrow> Frame \<Rightarrow> World \<Rightarrow> Reply \<times> World" where
  "handle_offset_commit env f w =
     decoded_or_error w (frame_cid f) (decode_offset_commit_request (payload f))
       (\<lambda>request. require_group w (frame_cid f) (OffsetCommitRequest.group request)
         (require_topic w (frame_cid f) (OffsetCommitRequest.topic request) (require_auth w (frame_cid f)
           (answer w (frame_cid f) OffsetCommitResponse encode_offset_commit_response
             (commit_offset (commit_fault env) (clock_first env) (clock_second env) request (runtime w))))))"

definition handle_join_group :: "RequestEnv \<Rightarrow> Frame \<Rightarrow> World \<Rightarrow> Reply \<times> World" where
  "handle_join_group env f w =
     decoded_or_error w (frame_cid f) (decode_join_group_request (payload f))
       (\<lambda>request. require_group w (frame_cid f) (JoinGroupRequest.group request)
         (require_topic w (frame_cid f) (JoinGroupRequest.topic request) (require_auth w (frame_cid f)
           (answer w (frame_cid f) JoinGroupResponse encode_join_group_response
             (join_group (clock_first env) request (runtime w))))))"

definition handle_sync_group :: "RequestEnv \<Rightarrow> Frame \<Rightarrow> World \<Rightarrow> Reply \<times> World" where
  "handle_sync_group env f w =
     decoded_or_error w (frame_cid f) (decode_sync_group_request (payload f))
       (\<lambda>request. require_group w (frame_cid f) (SyncGroupRequest.group request)
         (require_topic w (frame_cid f) (SyncGroupRequest.topic request) (require_auth w (frame_cid f)
           (answer w (frame_cid f) SyncGroupResponse encode_sync_group_response
             (sync_group (clock_first env) (clock_second env) request (runtime w))))))"

definition handle_heartbeat :: "RequestEnv \<Rightarrow> Frame \<Rightarrow> World \<Rightarrow> Reply \<times> World" where
  "handle_heartbeat env f w =
     decoded_or_error w (frame_cid f) (decode_heartbeat_request (payload f))
       (\<lambda>request. require_group w (frame_cid f) (HeartbeatRequest.group request)
         (require_topic w (frame_cid f) (HeartbeatRequest.topic request) (require_auth w (frame_cid f)
           (answer w (frame_cid f) HeartbeatResponse encode_heartbeat_response
             (heartbeat_group (clock_first env) (clock_second env) request (runtime w))))))"

definition handle_leave_group :: "RequestEnv \<Rightarrow> Frame \<Rightarrow> World \<Rightarrow> Reply \<times> World" where
  "handle_leave_group env f w =
     decoded_or_error w (frame_cid f) (decode_leave_group_request (payload f))
       (\<lambda>request. require_group w (frame_cid f) (LeaveGroupRequest.group request)
         (require_topic w (frame_cid f) (LeaveGroupRequest.topic request) (require_auth w (frame_cid f)
           (answer w (frame_cid f) LeaveGroupResponse encode_leave_group_response
             (leave_group (clock_first env) (clock_second env) request (runtime w))))))"

definition handle_group_offset_commit :: "RequestEnv \<Rightarrow> Frame \<Rightarrow> World \<Rightarrow> Reply \<times> World" where
  "handle_group_offset_commit env f w =
     decoded_or_error w (frame_cid f) (decode_group_offset_commit_request (payload f))
       (\<lambda>request. require_group w (frame_cid f) (GroupOffsetCommitRequest.group request)
         (require_topic w (frame_cid f) (GroupOffsetCommitRequest.topic request) (require_auth w (frame_cid f)
           (answer w (frame_cid f) GroupOffsetCommitResponse encode_group_offset_commit_response
             (commit_group_offset (commit_fault env) (clock_first env) (clock_second env) request (runtime w))))))"

section \<open>Administration\<close>

definition handle_list_topics :: "Frame \<Rightarrow> World \<Rightarrow> Reply \<times> World" where
  "handle_list_topics f w =
     decoded_or_error w (frame_cid f) (validate_empty_payload (payload f))
       (\<lambda>_. require_auth w (frame_cid f)
         (answer w (frame_cid f) ListTopicsResponse encode_list_topics_response
           (Inr (list_topics (runtime w)), runtime w)))"

definition handle_describe_topic :: "Frame \<Rightarrow> World \<Rightarrow> Reply \<times> World" where
  "handle_describe_topic f w =
     decoded_or_error w (frame_cid f) (decode_describe_topic_request (payload f))
       (\<lambda>request. require_topic w (frame_cid f) (DescribeTopicRequest.topic request) (require_auth w (frame_cid f)
         (answer w (frame_cid f) DescribeTopicResponse encode_describe_topic_response
           (describe_topic request (runtime w), runtime w))))"

text \<open>The waiters of a topic are woken once it has left the map, whatever the rest of the deletion meets.\<close>

definition handle_delete_topic :: "RequestEnv \<Rightarrow> Frame \<Rightarrow> World \<Rightarrow> Reply \<times> World" where
  "handle_delete_topic env f w =
     decoded_or_error w (frame_cid f) (decode_delete_topic_request (payload f))
       (\<lambda>request. let tpc = DeleteTopicRequest.topic request in
         require_topic w (frame_cid f) tpc (require_auth w (frame_cid f)
           (let result = delete_topic (clock_first env) (clock_second env) (directory_fault env) (rewrite_faults env)
                  request (runtime w);
                erased = (map_of (topics_map (runtime w)) tpc \<noteq> None \<and> map_of (topics_map (snd result)) tpc = None);
                w1 = (if erased then w\<lparr>registry := snd (notify_topic_waiters tpc (registry w))\<rparr> else w)
            in answer w1 (frame_cid f) DeleteTopicResponse encode_delete_topic_response result)))"

definition handle_run_retention :: "RequestEnv \<Rightarrow> Frame \<Rightarrow> World \<Rightarrow> Reply \<times> World" where
  "handle_run_retention env f w =
     decoded_or_error w (frame_cid f) (decode_run_retention_request (payload f))
       (\<lambda>request. let tpc = RunRetentionRequest.topic request in
         if tpc \<noteq> [] \<and> \<not> is_valid_topic_name tpc
         then (write_error w (frame_cid f) MalformedPayload ''invalid topic name'' True, w)
         else require_auth w (frame_cid f)
           (answer w (frame_cid f) RunRetentionResponse encode_run_retention_response
             (run_retention (topic_ages env) (topic_remove_faults env) tpc (runtime w))))"

definition handle_describe_group :: "RequestEnv \<Rightarrow> Frame \<Rightarrow> World \<Rightarrow> Reply \<times> World" where
  "handle_describe_group env f w =
     decoded_or_error w (frame_cid f) (decode_describe_group_request (payload f))
       (\<lambda>request. require_group w (frame_cid f) (DescribeGroupRequest.group request)
         (require_topic w (frame_cid f) (DescribeGroupRequest.topic request) (require_auth w (frame_cid f)
           (answer w (frame_cid f) DescribeGroupResponse encode_describe_group_response
             (describe_group (clock_first env) request (runtime w))))))"

definition handle_reset_group_offset :: "RequestEnv \<Rightarrow> Frame \<Rightarrow> World \<Rightarrow> Reply \<times> World" where
  "handle_reset_group_offset env f w =
     decoded_or_error w (frame_cid f) (decode_reset_group_offset_request (payload f))
       (\<lambda>request. require_group w (frame_cid f) (ResetGroupOffsetRequest.group request)
         (require_topic w (frame_cid f) (ResetGroupOffsetRequest.topic request) (require_auth w (frame_cid f)
           (answer w (frame_cid f) ResetGroupOffsetResponse encode_reset_group_offset_response
             (reset_group_offset (commit_fault env) (clock_first env) (clock_second env) request (runtime w))))))"

section \<open>Dispatch\<close>

definition handle_frame :: "SessionLimits \<Rightarrow> RequestEnv \<Rightarrow> Frame \<Rightarrow> World \<Rightarrow> Reply \<times> World" where
  "handle_frame limits env f w =
     (if \<not> is_request_type (frame_type (header f))
      then (write_error w (frame_cid f) UnsupportedRequest ''frame type is not a client request'' False, w)
      else case frame_type (header f) of
        HealthRequest \<Rightarrow> handle_health env f w
      | MetadataRequest \<Rightarrow> handle_metadata f w
      | ProduceRequest \<Rightarrow> handle_produce limits env f w
      | ProduceBatchRequest \<Rightarrow> handle_produce_batch limits env f w
      | FetchRequest \<Rightarrow> handle_fetch limits env f w
      | OffsetCommitRequest \<Rightarrow> handle_offset_commit env f w
      | AuthRequest \<Rightarrow> handle_auth f w
      | CreateTopicRequest \<Rightarrow> handle_create_topic env f w
      | JoinGroupRequest \<Rightarrow> handle_join_group env f w
      | SyncGroupRequest \<Rightarrow> handle_sync_group env f w
      | HeartbeatRequest \<Rightarrow> handle_heartbeat env f w
      | LeaveGroupRequest \<Rightarrow> handle_leave_group env f w
      | GroupOffsetCommitRequest \<Rightarrow> handle_group_offset_commit env f w
      | ListTopicsRequest \<Rightarrow> handle_list_topics f w
      | DescribeTopicRequest \<Rightarrow> handle_describe_topic f w
      | DeleteTopicRequest \<Rightarrow> handle_delete_topic env f w
      | RunRetentionRequest \<Rightarrow> handle_run_retention env f w
      | DescribeGroupRequest \<Rightarrow> handle_describe_group env f w
      | ResetGroupOffsetRequest \<Rightarrow> handle_reset_group_offset env f w
      | _ \<Rightarrow> (write_error w (frame_cid f) UnsupportedRequest ''unsupported request frame type'' False, w))"

text \<open>A header is rejected with an error frame, or selects the payload to read.\<close>

definition read_header :: "bytes \<Rightarrow> World \<Rightarrow> (Reply + FrameHeader) \<times> World" where
  "read_header bs w =
     (let decoded = decode_header bs (max_frame_bytes (config (runtime w))); h = decoded_header decoded;
          ver = protocol_version (session w) in
      if \<not> ok decoded
      then (Inl (write_error w (correlation_id h) (error decoded) (message_text decoded) True), w)
      else if ver = 0 then (Inr h, w\<lparr>session := (session w)\<lparr>protocol_version := version h\<rparr>\<rparr>)
      else if ver \<noteq> version h
      then (Inl (write_error w (correlation_id h) UnsupportedVersion ''protocol version changed within one connection'' True), w)
      else (Inr h, w))"

definition new_session :: "nat \<Rightarrow> BrokerRuntime \<Rightarrow> Session" where
  "new_session conn b = Session.make conn (\<not> auth_required b) 0 kNoneMask None"

section \<open>The connection as a state machine\<close>

datatype Phase =
    ReadingHeader
  | ReadingPayload FrameHeader
  | AwaitingAppend u64
  | Polling u64 FetchRequest u64
  | Writing bytes bool
  | Closed

text \<open>
  One connection and what it shares with the others. \<open>received\<close> and \<open>responses\<close> record the types and
  correlation ids of the headers that were read and of the frames whose write was started.
\<close>

record Connection =
  world :: World
  phase :: Phase
  received :: "(FrameType \<times> u64) list"
  responses :: "(FrameType \<times> u64) list"

fun start_reply :: "Reply \<Rightarrow> World \<Rightarrow> Connection \<Rightarrow> Connection" where
  "start_reply (Respond ver ft cid pl close_after_write) w c =
     c\<lparr>world := w, phase := Writing (encode_frame ver ft cid pl 0) close_after_write,
       responses := responses c @ [(ft, cid)]\<rparr>"
| "start_reply (AwaitAppend cid) w c = c\<lparr>world := w, phase := AwaitingAppend cid\<rparr>"
| "start_reply (AwaitRecords cid request wid) w c = c\<lparr>world := w, phase := Polling cid request wid\<rparr>"

inductive connection_step :: "SessionLimits \<Rightarrow> Connection \<Rightarrow> Connection \<Rightarrow> bool" for limits where
  header_rejected: "phase c = ReadingHeader \<Longrightarrow> length bs = unat kFrameHeaderBytes \<Longrightarrow>
    read_header bs (world c) = (Inl reply, w) \<Longrightarrow>
    connection_step limits c (start_reply reply w
      (c\<lparr>received := received c @ [(frame_type_cast (read_u16_be bs 6), read_u64_be bs 16)]\<rparr>))"
| header_read: "phase c = ReadingHeader \<Longrightarrow> length bs = unat kFrameHeaderBytes \<Longrightarrow>
    read_header bs (world c) = (Inr h, w) \<Longrightarrow>
    connection_step limits c (c\<lparr>world := w, phase := ReadingPayload h, received := received c @ [(frame_type h, correlation_id h)]\<rparr>)"
| frame_read: "phase c = ReadingPayload h \<Longrightarrow> length pl = unat (payload_bytes h) \<Longrightarrow>
    handle_frame limits env (Frame.make h pl) (world c) = (reply, w) \<Longrightarrow>
    connection_step limits c (start_reply reply w c)"
| append_completed: "phase c = AwaitingAppend cid \<Longrightarrow>
    connection_step limits c (start_reply (produce_completed cid result (world c)) (world c) c)"
| poll_woken: "phase c = Polling cid request wid \<Longrightarrow> poll_reply env cid request (world c) = (reply, w) \<Longrightarrow>
    connection_step limits c (start_reply reply w c)"
| poll_timed_out: "phase c = Polling cid request wid \<Longrightarrow> poll_expired env cid request wid (world c) = (reply, w) \<Longrightarrow>
    connection_step limits c (start_reply reply w c)"
| written: "phase c = Writing bs False \<Longrightarrow> connection_step limits c (c\<lparr>phase := ReadingHeader\<rparr>)"
| written_last: "phase c = Writing bs True \<Longrightarrow> connection_step limits c (c\<lparr>phase := Closed\<rparr>)"
| write_failed: "phase c = Writing bs close_after_write \<Longrightarrow>
    connection_step limits c (c\<lparr>world := cancel_active_waiter (world c), phase := Closed\<rparr>)"
| read_failed: "phase c = ReadingHeader \<or> phase c = ReadingPayload h \<Longrightarrow>
    connection_step limits c (c\<lparr>world := cancel_active_waiter (world c), phase := Closed\<rparr>)"
| others: "config b = config (runtime (world c)) \<Longrightarrow>
    connection_step limits c (c\<lparr>world := (world c)\<lparr>runtime := b, registry := ws\<rparr>\<rparr>)"

definition opened :: "nat \<Rightarrow> Waiters \<Rightarrow> BrokerRuntime \<Rightarrow> Connection" where
  "opened conn ws b = Connection.make (World.make (new_session conn b) ws b) ReadingHeader [] []"

inductive connection_reach :: "SessionLimits \<Rightarrow> Connection \<Rightarrow> Connection \<Rightarrow> bool" for limits c0 where
  connection_start: "connection_reach limits c0 c0"
| connection_next: "connection_reach limits c0 c \<Longrightarrow> connection_step limits c c' \<Longrightarrow> connection_reach limits c0 c'"

end
