(* ===== verification/Bolt_Retention.thy ===== *)
theory Bolt_Retention
  imports Bolt_Log_Properties "HOL-Library.Multiset"
begin

text \<open>
  Retention (\<open>PartitionLog::segment_summaries\<close> and \<open>apply_retention\<close>): the summaries list the segments of
  the directory in the order of their base offsets, and deleting by age and by size removes the oldest
  records and nothing else. Files that are older have smaller base offsets, which is how segments come to
  be; it is the hypothesis \<open>older_first\<close>.
\<close>

section \<open>Summaries\<close>

text \<open>What a summary says of its segment, apart from the range of offsets that is only reported.\<close>

definition summarises :: "PartitionLog \<Rightarrow> SegmentSummary \<Rightarrow> bool" where
  "summarises s sm \<longleftrightarrow>
     log_path sm = segment_path (base_offset sm) \<and>
     log_bytes sm = file_size_or_zero (directory s) (log_path sm) \<and>
     (active sm \<longleftrightarrow> base_offset sm = active_base s)"

definition summary_table :: "PartitionLog \<Rightarrow> (string \<times> SegmentSummary) list \<Rightarrow> bool" where
  "summary_table s m \<longleftrightarrow>
     map fst m = map segment_path (sorted_list_of_set (segment_bases (directory s))) \<and>
     (\<forall>(p, sm) \<in> set m. log_path sm = p \<and> summarises s sm)"

lemma summary_table_update:
  assumes m: "summary_table s m" and k: "map_of m k = Some sm"
    and sm': "summarises s sm'" "log_path sm' = log_path sm"
  shows "summary_table s (AList.update k sm' m)"
proof -
  have "(k, sm) \<in> set m" using k by (rule map_of_SomeD)
  then have path: "log_path sm' = k" using m sm'(2) by (auto simp: summary_table_def)
  have keys: "k \<in> set (map fst m)" using \<open>(k, sm) \<in> set m\<close> by (force simp: image_iff)
  have "map fst (AList.update k sm' m) = map fst m" using keys by (simp add: AList.update_keys)
  moreover have sub: "set (AList.update k sm' m) \<subseteq> insert (k, sm') (set m)"
    by (induction m) (auto split: if_splits)
  have "log_path (snd x) = fst x \<and> summarises s (snd x)" if "x \<in> insert (k, sm') (set m)" for x
    using that m sm'(1) path by (auto simp: summary_table_def)
  then have "\<forall>x \<in> set (AList.update k sm' m). log_path (snd x) = fst x \<and> summarises s (snd x)"
    using sub by blast
  ultimately show ?thesis using m by (simp add: summary_table_def case_prod_beta)
qed

lemma segment_summaries_fold:
  assumes "\<And>e. e \<in> set es \<Longrightarrow> segment e \<in> segment_path ` segment_bases (directory s)" "summary_table s m"
  shows "summary_table s (foldl (\<lambda>m entry.
    case map_of m (segment entry) of
      None \<Rightarrow>
        (let base = (case parse_base_offset (segment entry) of None \<Rightarrow> 0 | Some b \<Rightarrow> b) in
         AList.update (segment entry) (SegmentSummary.make base (IndexEntry.offset entry)
           (IndexEntry.offset entry) (file_size_or_zero (directory s) (segment entry))
           (base = active_base s) (segment entry)) m)
    | Some summary \<Rightarrow>
        AList.update (segment entry) (summary
          \<lparr>first_offset := min (first_offset summary) (IndexEntry.offset entry),
           last_offset := max (last_offset summary) (IndexEntry.offset entry)\<rparr>) m) m es)"
  using assms
proof (induction es arbitrary: m)
  case (Cons e es)
  have "segment e \<in> set (map fst m)"
    using Cons.prems by (auto simp: summary_table_def)
  then obtain sm where sm: "map_of m (segment e) = Some sm" by (cases "map_of m (segment e)") (auto simp: map_of_eq_None_iff)
  then have "summarises s sm" using Cons.prems(2) map_of_SomeD by (fastforce simp: summary_table_def)
  then have "summary_table s (AList.update (segment e) (sm\<lparr>first_offset := a, last_offset := b\<rparr>) m)" for a b
    by (intro summary_table_update [OF Cons.prems(2) sm]) (simp_all add: summarises_def)
  then show ?case using Cons sm by simp
qed simp

lemma segment_summaries_shape:
  assumes inv: "log_inv z s"
  shows "map base_offset (segment_summaries s) = sorted_list_of_set (segment_bases (directory s))"
    and "sm \<in> set (segment_summaries s) \<Longrightarrow> summarises s sm"
proof -
  note fi = inv [unfolded log_inv_def]
  let ?bs = "sorted_list_of_set (segment_bases (directory s))"
  let ?listed = "map (\<lambda>(base, path). (path, SegmentSummary.make base base base
    (file_size_or_zero (directory s) path) (base = active_base s) path)) (list_segments (directory s))"
  have "summary_table s ?listed"
    unfolding list_segments_eq [OF files_invD(1) [OF fi]]
    by (auto simp: summary_table_def summarises_def SegmentSummary.make_def comp_def)
  moreover have "segment e \<in> segment_path ` segment_bases (directory s)" if "e \<in> set (index' s)" for e
    using inv_segment_path [OF fi that] by blast
  ultimately obtain m where m: "summary_table s m"
    and eq: "segment_summaries s = sort_key base_offset (map snd (sort_key fst m))"
    using segment_summaries_fold [of "index' s" s ?listed] unfolding segment_summaries_def Let_def by blast
  show "summarises s sm" if "sm \<in> set (segment_summaries s)"
    using that m by (auto simp: eq summary_table_def)
  have "map segment_path (map (base_offset \<circ> snd) m) = map fst m"
    unfolding map_map by (rule map_cong [OF refl]) (use m in \<open>auto simp: summary_table_def summarises_def\<close>)
  also have "\<dots> = map segment_path ?bs" using m unfolding summary_table_def by blast
  finally have "map segment_path (map (base_offset \<circ> snd) m) = map segment_path ?bs" .
  then have bs: "map (base_offset \<circ> snd) m = ?bs" by (rule map_injective) (simp add: inj_def)
  have "mset (map base_offset (segment_summaries s)) = mset (map (base_offset \<circ> snd) m)"
    by (simp add: eq multiset.map_comp comp_def)
  then have "mset (map base_offset (segment_summaries s)) = mset ?bs" unfolding bs .
  moreover have "sorted (map base_offset (segment_summaries s))" by (simp add: eq)
  ultimately show "map base_offset (segment_summaries s) = ?bs"
    by (metis properties_for_sort sorted_sort_id sorted_list_of_set(2) sorted_sorted_list_of_set)
qed

section \<open>The segments that retention deletes\<close>

definition too_old :: "(string \<Rightarrow> u64) \<Rightarrow> RetentionPolicy \<Rightarrow> SegmentSummary \<Rightarrow> bool" where
  "too_old age policy sm \<longleftrightarrow> max_age_seconds policy > 0 \<and> age (log_path sm) \<ge> max_age_seconds policy"

definition too_large :: "RetentionPolicy \<Rightarrow> nat \<Rightarrow> bool" where
  "too_large policy tot \<longleftrightarrow> max_bytes policy > 0 \<and> tot > max_bytes policy"

fun doomed :: "(string \<Rightarrow> u64) \<Rightarrow> RetentionPolicy \<Rightarrow> SegmentSummary list \<Rightarrow> nat \<Rightarrow> SegmentSummary list" where
  "doomed age policy [] tot = []"
| "doomed age policy (sm # rest) tot =
     (if active sm \<or> \<not> too_old age policy sm \<and> \<not> too_large policy tot then doomed age policy rest tot
      else sm # doomed age policy rest (tot - log_bytes sm))"

definition remove_segment :: "SegmentSummary \<Rightarrow> files \<Rightarrow> files" where
  "remove_segment sm fs = remove_file (remove_file fs (log_path sm)) (index_path (base_offset sm))"

lemma retention_loop_doomed:
  assumes "\<And>p. fault p = None"
  shows "retention_loop age fault policy ss (fs, logs, n, bytes, tot) =
    (let ds = doomed age policy ss tot in
     Inr (fold remove_segment ds fs, logs @ map log_path ds, n + length ds,
       bytes + sum_list (map log_bytes ds), tot - sum_list (map log_bytes ds)))"
  using assms
proof (induction ss arbitrary: fs logs n bytes tot)
  case (Cons sm ss)
  have "(if log_bytes sm > tot then 0 else tot - log_bytes sm) = tot - log_bytes sm" by simp
  then show ?case
    using Cons by (auto simp: Let_def too_old_def too_large_def remove_segment_def simp del: not_less)
qed simp

lemma doomed_subset: "set (doomed age policy ss tot) \<subseteq> {sm \<in> set ss. \<not> active sm}"
  by (induction ss arbitrary: tot) (auto split: if_splits)

lemma doomed_old:
  "sm \<in> set ss \<Longrightarrow> \<not> active sm \<Longrightarrow> too_old age policy sm \<Longrightarrow> sm \<in> set (doomed age policy ss tot)"
  by (induction ss arbitrary: tot) auto

lemma doomed_none:
  assumes "\<not> too_large policy tot" "\<And>sm. sm \<in> set ss \<Longrightarrow> \<not> too_old age policy sm"
  shows "doomed age policy ss tot = []"
  using assms by (induction ss) auto

lemma doomed_budget:
  "max_bytes policy > 0 \<Longrightarrow> tot - sum_list (map log_bytes (doomed age policy ss tot)) \<le> max_bytes policy \<or>
     {sm \<in> set ss. \<not> active sm} \<subseteq> set (doomed age policy ss tot)"
proof (induction ss arbitrary: tot)
  case (Cons sm ss)
  show ?case
  proof (cases "active sm \<or> \<not> too_old age policy sm \<and> \<not> too_large policy tot")
    case True
    moreover have "tot - n \<le> max_bytes policy" if "\<not> too_large policy tot" for n
      using that Cons.prems by (auto simp: too_large_def)
    ultimately show ?thesis using Cons.IH [OF Cons.prems, of tot] by auto
  next
    case False
    then show ?thesis using Cons.IH [OF Cons.prems, of "tot - log_bytes sm"] by auto
  qed
qed simp

text \<open>With older files first, deletion stops at the first segment that it keeps.\<close>

definition older_first :: "(string \<Rightarrow> u64) \<Rightarrow> bool" where
  "older_first age \<longleftrightarrow> (\<forall>b b'. b \<le> b' \<longrightarrow> age (segment_path b') \<le> age (segment_path b))"

lemma doomed_downward:
  assumes "older_first age" "distinct ss" "sorted_wrt (\<lambda>x y. base_offset x \<le> base_offset y) ss"
    and "\<And>sm. sm \<in> set ss \<Longrightarrow> log_path sm = segment_path (base_offset sm)"
  shows "sorted_wrt (\<lambda>x y. y \<in> set (doomed age policy ss tot) \<and> \<not> active x \<longrightarrow> x \<in> set (doomed age policy ss tot)) ss"
  using assms(2-4)
proof (induction ss arbitrary: tot)
  case (Cons sm ss)
  let ?D = "\<lambda>tot. set (doomed age policy ss tot)"
  have keep: "?D tot = {}" if "\<not> too_old age policy sm" "\<not> too_large policy tot"
  proof -
    have "\<not> too_old age policy x" if x: "x \<in> set ss" for x
    proof -
      have "base_offset sm \<le> base_offset x" using Cons.prems(2) x by simp
      then have "age (log_path x) \<le> age (log_path sm)"
        using assms(1) Cons.prems(3) [of x] Cons.prems(3) [of sm] x by (simp add: older_first_def)
      then show ?thesis using \<open>\<not> too_old age policy sm\<close> by (auto simp: too_old_def)
    qed
    then show ?thesis using doomed_none [OF that(2), of ss age] by simp
  qed
  have IH: "sorted_wrt (\<lambda>x y. y \<in> ?D t \<and> \<not> active x \<longrightarrow> x \<in> ?D t) ss" for t
    using Cons by simp
  have ne: "x \<noteq> sm" if "x \<in> set ss" for x using that Cons.prems(1) by auto
  show ?case
  proof (cases "active sm \<or> \<not> too_old age policy sm \<and> \<not> too_large policy tot")
    case True
    then show ?thesis using IH [of tot] keep by auto
  next
    case False
    have "sorted_wrt (\<lambda>x y. y \<in> insert sm (?D t) \<and> \<not> active x \<longrightarrow> x \<in> insert sm (?D t)) ss" for t
      by (rule sorted_wrt_mono_rel [OF _ IH [of t]]) (use ne in auto)
    then show ?thesis using False by auto
  qed
qed simp

section \<open>Deleting old segments keeps the invariant\<close>

lemma filter_upward:
  "sorted_wrt (\<lambda>x y. P x \<longrightarrow> P y) xs \<Longrightarrow> \<exists>k. filter P xs = drop k xs"
proof (induction xs)
  case (Cons x xs)
  show ?case
  proof (cases "P x")
    case True
    then have "filter P xs = xs" using Cons.prems by (auto simp: filter_id_conv)
    then show ?thesis using True by (intro exI [of _ 0]) simp
  next
    case False
    obtain k where "filter P xs = drop k xs" using Cons by auto
    then show ?thesis using False by (intro exI [of _ "Suc k"]) simp
  qed
qed simp

lemma consecutive_drop: "consecutive index n \<Longrightarrow> consecutive (drop k index) n"
  unfolding consecutive_def drop_map [symmetric] by (cases "k \<le> length index") (auto simp: drop_upt)

lemma sorted_wrt_concat:
  assumes "sorted_wrt (<) bs" "\<And>b e. b \<in> set bs \<Longrightarrow> e \<in> set (f b) \<Longrightarrow> g e = (b :: 'a::linorder)"
  shows "sorted_wrt (\<lambda>x y. g x \<le> g y) (concat (map f bs))"
  using assms
proof (induction bs)
  case (Cons b bs)
  have "sorted_wrt (\<lambda>x y. g x \<le> g y) (f b)"
    using Cons.prems(2) [of b] by (auto simp: sorted_wrt_iff_nth_less) 
  moreover have "g x \<le> g y" if "x \<in> set (f b)" "b' \<in> set bs" "y \<in> set (f b')" for x y b'
    using that Cons.prems by fastforce
  ultimately show ?case using Cons by (auto simp: sorted_wrt_append)
qed simp

lemma filter_concat:
  assumes "\<And>b e. b \<in> set bs \<Longrightarrow> e \<in> set (f b) \<Longrightarrow> P e = Q b"
  shows "concat (map f (filter Q bs)) = filter P (concat (map f bs))"
  using assms
proof (induction bs)
  case (Cons b bs)
  then have "filter P (f b) = (if Q b then f b else [])" by (auto simp: filter_id_conv filter_empty_conv)
  then show ?case using Cons by simp
qed simp

text \<open>The base offset in the name of an entry's segment.\<close>

definition entry_base :: "IndexEntry \<Rightarrow> u64" where
  "entry_base e = (case parse_base_offset (segment e) of None \<Rightarrow> 0 | Some b \<Rightarrow> b)"

lemma entry_base_segment: "e \<in> set (segment_entries z opts fs b) \<Longrightarrow> entry_base e = b"
  by (simp add: entry_base_def segment_entries_def segment_of_entries(2) parse_base_offset_iff [THEN iffD2])

text \<open>A set of segments that retention may delete: not the active one, and downward closed.\<close>

definition deletable :: "PartitionLog \<Rightarrow> u64 set \<Rightarrow> bool" where
  "deletable s D \<longleftrightarrow> active_base s \<notin> D \<and>
     (\<forall>b \<in> segment_bases (directory s). \<forall>b' \<in> D. b \<le> b' \<and> b \<noteq> active_base s \<longrightarrow> b \<in> D)"

lemma deletable_index:
  assumes inv: "log_inv z s" and del: "deletable s D"
  shows "\<exists>k. filter (\<lambda>e. entry_base e \<notin> D) (index' s) = drop k (index' s)"
    and "index' s \<noteq> [] \<Longrightarrow> entry_base (last (index' s)) = active_base s"
proof -
  note fi = inv [unfolded log_inv_def]
  let ?bs = "sorted_list_of_set (segment_bases (directory s))"
  let ?f = "segment_entries z (options' s) (directory s)"
  have index: "index' s = concat (map ?f ?bs)"
    using files_invD(2) [OF fi] by (simp add: disk_index_def list_segments_eq [OF files_invD(1) [OF fi]] comp_def)
  have base: "entry_base e \<in> segment_bases (directory s) \<and> entry_base e \<le> active_base s" if e: "e \<in> set (index' s)" for e
  proof -
    obtain b where b: "b \<in> segment_bases (directory s)" "e \<in> set (?f b)"
      using e unfolding index by auto
    then have "file_content (directory s) (segment_path b) \<noteq> []"
      by (auto simp: segment_entries_def items_of_def scan_segment.simps item_entries_def)
    then show ?thesis using files_invD(7) [OF fi, of b] b entry_base_segment [OF b(2)] by force
  qed
  have "sorted_wrt (\<lambda>x y. entry_base x \<le> entry_base y) (index' s)"
    unfolding index by (rule sorted_wrt_concat) (simp_all add: entry_base_segment)
  then have "sorted_wrt (\<lambda>x y. entry_base x \<notin> D \<longrightarrow> entry_base y \<notin> D) (index' s)"
  proof (rule sorted_wrt_mono_rel [rotated])
    fix x y assume xy: "x \<in> set (index' s)" "y \<in> set (index' s)" "entry_base x \<le> entry_base y"
    have "entry_base x \<in> D" if y: "entry_base y \<in> D"
    proof (cases "entry_base x = active_base s")
      case True
      then have "entry_base y = active_base s" using base [OF xy(2)] xy(3) by simp
      then show ?thesis using y del by (simp add: deletable_def)
    qed (use base [OF xy(1)] xy(3) y del in \<open>auto simp: deletable_def\<close>)
    then show "entry_base x \<notin> D \<longrightarrow> entry_base y \<notin> D" by blast
  qed
  then show "\<exists>k. filter (\<lambda>e. entry_base e \<notin> D) (index' s) = drop k (index' s)" by (rule filter_upward)
  show "entry_base (last (index' s)) = active_base s" if ne: "index' s \<noteq> []"
  proof -
    obtain b where "segment (last (index' s)) = segment_path b"
      using inv_segment_path [OF fi last_in_set [OF ne]] by metis
    then show ?thesis
      using ne by (simp add: active_segment_base_def entry_base_def parse_base_offset_iff [THEN iffD2])
  qed
qed

lemma delete_segments_inv:
  assumes inv: "log_inv z s" and del: "deletable s D" and dist: "distinct (map fst fs)"
    and fs: "\<And>b. map_of fs (segment_path b) = (if b \<in> D then None else map_of (directory s) (segment_path b))"
    and s': "s' = s\<lparr>directory := fs, index' := filter (\<lambda>e. entry_base e \<notin> D) (index' s)\<rparr>"
  shows "log_inv z s'" "active_base s' = active_base s"
    and "\<exists>k. readable z s' = drop k (readable z s) \<and> (readable z s \<noteq> [] \<longrightarrow> k < length (readable z s))"
proof -
  note fi = inv [unfolded log_inv_def]
  let ?S = "segment_bases (directory s)" and ?index = "filter (\<lambda>e. entry_base e \<notin> D) (index' s)"
  obtain k where k: "?index = drop k (index' s)" using deletable_index(1) [OF inv del] by blast
  have last: "?index \<noteq> [] \<and> last ?index = last (index' s)" if "index' s \<noteq> []"
  proof -
    have "last (index' s) \<in> set ?index"
      using deletable_index(2) [OF inv del that] del that by (simp add: deletable_def)
    then have "?index \<noteq> []" by (metis empty_iff list.set(1))
    then show ?thesis unfolding k by (simp add: last_drop)
  qed
  show active: "active_base s' = active_base s"
    using last by (cases "index' s = []") (simp_all add: s' active_segment_base_def)
  have bases: "segment_bases fs = ?S - D" by (auto simp: segment_bases_def fs)
  have content: "file_content fs (segment_path b) = (if b \<in> D then [] else file_content (directory s) (segment_path b))" for b
    by (simp add: file_content_def fs)
  then have entries: "segment_entries z (options' s) fs b = segment_entries z (options' s) (directory s) b" if "b \<notin> D" for b
    using that by (simp add: segment_entries_def)
  have "disk_index z (options' s) fs =
      concat (map (segment_entries z (options' s) (directory s)) (filter (\<lambda>b. b \<notin> D) (sorted_list_of_set ?S)))"
  proof -
    have "sorted_list_of_set (?S - D) = filter (\<lambda>b. b \<notin> D) (sorted_list_of_set ?S)"
      by (rule sorted_distinct_set_unique) (auto intro: sorted_filter [of id, simplified])
    then show ?thesis
      unfolding disk_index_def list_segments_eq [OF dist] bases map_map comp_def prod.case
      by (intro arg_cong [where f = concat] map_cong) (auto intro: entries)
  qed
  also have "\<dots> = filter (\<lambda>e. entry_base e \<notin> D)
      (concat (map (segment_entries z (options' s) (directory s)) (sorted_list_of_set ?S)))"
    by (rule filter_concat) (simp add: entry_base_segment)
  also have "\<dots> = ?index"
    using files_invD(2) [OF fi] by (simp add: disk_index_def list_segments_eq [OF files_invD(1) [OF fi]] comp_def)
  finally have disk: "?index = disk_index z (options' s) fs" by simp
  have "consecutive ?index (next_offset' s)" unfolding k by (rule consecutive_drop [OF files_invD(3) [OF fi]])
  then have "files_inv z (options' s) fs ?index (next_offset' s)"
    using active disk dist last files_invD(4-7) [OF fi] bases content entries
    unfolding files_inv_def s' by (auto simp: segment_entries_def)
  then show log: "log_inv z s'" by (simp add: log_inv_def s')
  have "entry_records z (options' s) fs e = entry_records z (options' s) (directory s) e" if "e \<in> set ?index" for e
  proof -
    have "e \<in> set (index' s)" using that by simp
    then obtain b where "segment e = segment_path b" using inv_segment_path [OF fi] by metis
    moreover from this have "b \<notin> D" using that by (simp add: entry_base_def parse_base_offset_iff [THEN iffD2])
    ultimately show ?thesis by (simp add: entry_records_def read_entry_def fs)
  qed
  then have "readable z s' = map (\<lambda>e. hd (entry_records z (options' s) (directory s) e)) ?index"
    unfolding readable_map [OF log] by (simp add: s')
  then have "readable z s' = drop k (readable z s)" unfolding k readable_map [OF inv] by (simp add: drop_map)
  moreover have "k < length (readable z s)" if "readable z s \<noteq> []"
    using that last k by (auto simp: readable_map [OF inv] not_le [symmetric])
  ultimately show "\<exists>k. readable z s' = drop k (readable z s) \<and> (readable z s \<noteq> [] \<longrightarrow> k < length (readable z s))"
    by blast
qed

section \<open>Applying a policy\<close>

lemma fold_remove_segment:
  assumes "\<And>sm. sm \<in> set ds \<Longrightarrow> log_path sm = segment_path (base_offset sm)"
  shows "map_of (fold remove_segment ds fs) (segment_path b) =
      (if b \<in> base_offset ` set ds then None else map_of fs (segment_path b))"
    and "distinct (map fst fs) \<Longrightarrow> distinct (map fst (fold remove_segment ds fs))"
  using assms by (induction ds arbitrary: fs) (auto simp: remove_segment_def)

lemma doomed_distinct: "distinct ss \<Longrightarrow> distinct (doomed age policy ss tot)"
  using doomed_subset by (induction ss arbitrary: tot) fastforce+

lemma doomed_deletable:
  assumes inv: "log_inv z s" and age: "older_first age"
  shows "deletable s (base_offset ` set (doomed age policy (segment_summaries s) tot))"
proof -
  let ?ss = "segment_summaries s" and ?ds = "doomed age policy (segment_summaries s) tot"
  note shape = segment_summaries_shape [OF inv]
  have dist: "distinct (map base_offset ?ss)" unfolding shape(1) by simp
  have inj: "x = y" if "x \<in> set ?ss" "y \<in> set ?ss" "base_offset x = base_offset y" for x y
    using dist that by (simp add: distinct_map inj_on_def)
  have sorted: "sorted_wrt (\<lambda>x y. base_offset x \<le> base_offset y) ?ss"
    using sorted_sorted_list_of_set [of "segment_bases (directory s)"] by (simp add: sorted_map flip: shape(1))
  have "log_path sm = segment_path (base_offset sm)" if "sm \<in> set ?ss" for sm
    using shape(2) [OF that] by (simp add: summarises_def)
  then have down: "sorted_wrt (\<lambda>x y. y \<in> set ?ds \<and> \<not> active x \<longrightarrow> x \<in> set ?ds) ?ss"
    using doomed_downward [OF age _ sorted] dist by (simp add: distinct_map)
  have "x \<in> set ?ds" if x: "x \<in> set ?ss" "\<not> active x" and y: "y \<in> set ?ds" "base_offset x \<le> base_offset y" for x y
  proof (cases "x = y")
    case False
    have "y \<in> set ?ss" using y(1) doomed_subset [of age policy ?ss tot] by auto
    then obtain i j where ij: "i < length ?ss" "?ss ! i = x" "j < length ?ss" "?ss ! j = y"
      using x(1) by (metis in_set_conv_nth)
    then have "\<not> j < i"
      using sorted_wrt_nth_less [OF sorted, of j i] y(2) inj [OF x(1) \<open>y \<in> set ?ss\<close>] False by auto
    then have "i < j" using ij False by (metis nat_neq_iff)
    then show ?thesis using sorted_wrt_nth_less [OF down, of i j] ij x(2) y(1) by simp
  qed (use y in simp)
  moreover have "\<exists>x \<in> set ?ss. base_offset x = b" if "b \<in> segment_bases (directory s)" for b
  proof -
    have "b \<in> set (map base_offset ?ss)" unfolding shape(1) using that by simp
    then show ?thesis by auto
  qed
  moreover have "active x \<longleftrightarrow> base_offset x = active_base s" if "x \<in> set ?ss" for x
    using shape(2) [OF that] by (simp add: summarises_def)
  ultimately show ?thesis
    using doomed_subset [of age policy ?ss tot] unfolding deletable_def by (auto simp: image_iff) blast+
qed

lemma apply_retention_deletes:
  assumes inv: "log_inv z s" and age: "older_first age" and fault: "\<And>p. fault p = None"
    and ds_def: "ds = doomed age policy (segment_summaries s) (sum_list (map log_bytes (segment_summaries s)))"
    and D_def: "D = base_offset ` set ds"
  obtains stats s' where "apply_retention age fault policy s = (Inr stats, s')"
    and "segments_deleted stats = length ds" "log_inv z s'" "active_base s' = active_base s"
    and "next_offset' s' = next_offset' s" "options' s' = options' s"
      "\<exists>k. readable z s' = drop k (readable z s) \<and> (readable z s \<noteq> [] \<longrightarrow> k < length (readable z s))"
    and "\<And>b. map_of (directory s') (segment_path b) =
      (if b \<in> D then None else map_of (directory s) (segment_path b))"
proof -
  note fi = inv [unfolded log_inv_def] and shape = segment_summaries_shape [OF inv]
  let ?fs = "fold remove_segment ds (directory s)"
  define s' where "s' = s\<lparr>directory := ?fs,
    index' := filter (\<lambda>entry. segment entry \<notin> set (map log_path ds)) (index' s)\<rparr>"
  have path: "log_path sm = segment_path (base_offset sm)" if "sm \<in> set ds" for sm
    using that doomed_subset [of age policy "segment_summaries s"] shape(2) [of sm]
    by (auto simp: ds_def summarises_def)
  note removed = fold_remove_segment [OF path, of ds "directory s"]
  have "segment e \<in> set (map log_path ds) \<longleftrightarrow> entry_base e \<in> D" if e: "e \<in> set (index' s)" for e
  proof -
    obtain b where b: "segment e = segment_path b" using inv_segment_path [OF fi e] by metis
    then have "entry_base e = b" by (simp add: entry_base_def parse_base_offset_iff [THEN iffD2])
    moreover have "set (map log_path ds) = segment_path ` D" using path by (auto simp: D_def image_image)
    ultimately show ?thesis using b by auto
  qed
  then have "filter (\<lambda>entry. segment entry \<notin> set (map log_path ds)) (index' s) =
      filter (\<lambda>e. entry_base e \<notin> D) (index' s)" by (intro filter_cong) auto
  then have s': "s' = s\<lparr>directory := ?fs, index' := filter (\<lambda>e. entry_base e \<notin> D) (index' s)\<rparr>"
    unfolding s'_def by (simp only:)
  have run: "apply_retention age fault policy s =
      (Inr (RetentionStats.make (length ds) (sum_list (map log_bytes ds)) (length (segment_summaries s'))
        (sum_list (map log_bytes (segment_summaries s'))) (earliest_offset s') (next_offset' s')), s')"
    by (simp add: apply_retention_def Let_def retention_loop_doomed [OF fault] s'_def ds_def)
  have del: "deletable s D" unfolding D_def ds_def by (rule doomed_deletable [OF inv age])
  note kept = delete_segments_inv [OF inv del removed(2) [OF _ files_invD(1) [OF fi]] removed(1) [folded D_def] s']
  show thesis
    by (rule that [OF run]) (use kept removed(1) in \<open>simp_all add: s'_def D_def RetentionStats.make_def\<close>)
qed

section \<open>Properties\<close>

definition directory_bytes :: "files \<Rightarrow> nat" where
  "directory_bytes fs = (\<Sum>b \<in> segment_bases fs. file_size_or_zero fs (segment_path b))"

lemma summary_of_base:
  assumes "log_inv z s" "b \<in> segment_bases (directory s)"
  obtains sm where "sm \<in> set (segment_summaries s)" "base_offset sm = b" "log_path sm = segment_path b"
    "active sm \<longleftrightarrow> b = active_base s" "log_bytes sm = file_size_or_zero (directory s) (segment_path b)"
proof -
  note shape = segment_summaries_shape [OF assms(1)]
  have "b \<in> set (map base_offset (segment_summaries s))" unfolding shape(1) using assms(2) by simp
  then show thesis using shape(2) that by (auto simp: summarises_def)
qed

lemma directory_bytes_deleted:
  assumes inv: "log_inv z s" and sub: "set ds \<subseteq> set (segment_summaries s)" "distinct ds"
    and dir: "\<And>b. map_of fs (segment_path b) =
      (if b \<in> base_offset ` set ds then None else map_of (directory s) (segment_path b))"
  shows "directory_bytes fs =
    sum_list (map log_bytes (segment_summaries s)) - sum_list (map log_bytes ds)"
proof -
  let ?ss = "segment_summaries s" and ?S = "segment_bases (directory s)" and ?D = "base_offset ` set ds"
  note shape = segment_summaries_shape [OF inv]
  have "distinct (map base_offset ?ss)" unfolding shape(1) by simp
  then have dist: "distinct ?ss" and inj: "inj_on base_offset (set ?ss)" by (simp_all add: distinct_map)
  have "base_offset ` set ?ss = ?S" using arg_cong [OF shape(1), of set] by simp
  then have image: "base_offset ` (set ?ss - set ds) = ?S - ?D"
    using inj sub(1) by (simp add: inj_on_image_set_diff)
  have "segment_bases fs = ?S - ?D" by (auto simp: segment_bases_def dir)
  then have "directory_bytes fs = (\<Sum>b \<in> ?S - ?D. file_size_or_zero (directory s) (segment_path b))"
    unfolding directory_bytes_def by (intro sum.cong) (auto simp: file_size_or_zero_def dir)
  also have "\<dots> = (\<Sum>sm \<in> set ?ss - set ds. log_bytes sm)"
    unfolding image [symmetric] using inj_on_subset [OF inj Diff_subset] shape(2)
    by (subst sum.reindex) (auto simp: summarises_def intro!: sum.cong)
  also have "\<dots> = (\<Sum>sm \<in> set ?ss. log_bytes sm) - (\<Sum>sm \<in> set ds. log_bytes sm)"
    by (rule sum_diff_nat) (simp_all add: sub(1))
  finally show ?thesis using dist sub(2) by (simp add: sum_list_distinct_conv_sum_set)
qed

text \<open>What is left is young enough, and small enough.\<close>

lemma retained_young:
  assumes inv: "log_inv z s" and "max_age_seconds policy > 0"
    and ds_def: "ds = doomed age policy (segment_summaries s) tot"
    and b: "b \<in> segment_bases (directory s) - base_offset ` set ds" "b \<noteq> active_base s"
  shows "age (segment_path b) < max_age_seconds policy"
proof (rule ccontr)
  assume old: "\<not> ?thesis"
  obtain sm where sm: "sm \<in> set (segment_summaries s)" "base_offset sm = b" "log_path sm = segment_path b" "\<not> active sm"
    using summary_of_base [OF inv, of b] b by blast
  then have "sm \<in> set ds" using old assms(2) unfolding ds_def by (intro doomed_old) (simp_all add: too_old_def not_less)
  then show False using b(1) sm(2) by auto
qed

lemma retained_budget:
  assumes inv: "log_inv z s" and limit: "max_bytes policy > 0"
    and ds_def: "ds = doomed age policy (segment_summaries s) (sum_list (map log_bytes (segment_summaries s)))"
    and dir: "\<And>b. map_of fs (segment_path b) =
      (if b \<in> base_offset ` set ds then None else map_of (directory s) (segment_path b))"
  shows "directory_bytes fs \<le> max_bytes policy \<or>
    segment_bases (directory s) - base_offset ` set ds \<subseteq> {active_base s}"
  using doomed_budget [OF limit, of "sum_list (map log_bytes (segment_summaries s))" age "segment_summaries s", folded ds_def]
proof
  let ?ss = "segment_summaries s"
  have "distinct (map base_offset ?ss)" unfolding segment_summaries_shape(1) [OF inv] by simp
  then have "distinct ds" unfolding ds_def by (intro doomed_distinct) (simp add: distinct_map)
  moreover have "set ds \<subseteq> set ?ss" using doomed_subset [of age policy ?ss] by (auto simp: ds_def)
  ultimately have "directory_bytes fs = sum_list (map log_bytes ?ss) - sum_list (map log_bytes ds)"
    using directory_bytes_deleted [OF inv _ _ dir] by blast
  moreover assume "sum_list (map log_bytes ?ss) - sum_list (map log_bytes ds) \<le> max_bytes policy"
  ultimately show ?thesis by simp
next
  assume all: "{sm \<in> set (segment_summaries s). \<not> active sm} \<subseteq> set ds"
  have "b = active_base s" if b: "b \<in> segment_bases (directory s) - base_offset ` set ds" for b
  proof -
    obtain sm where "sm \<in> set (segment_summaries s)" "base_offset sm = b" "active sm \<longleftrightarrow> b = active_base s"
      using summary_of_base [OF inv, of b] b by blast
    then show ?thesis using all b by auto
  qed
  then show ?thesis by blast
qed

text \<open>
  C16: retention drops the oldest records and nothing else. With older files first and no I/O failure,
  applying a policy succeeds and keeps the log's invariant, the next offset and the active segment; the
  readable records are the old ones without a prefix, and the newest record stays. Afterwards every file other than the active
  segment's is younger than the age limit, and the segments fit into the size limit unless only the
  active one is left. A policy without limits changes no record.
\<close>

theorem retention_keeps_suffix:
  assumes inv: "log_inv z s" and age: "older_first age" and fault: "\<And>p. fault p = None"
  shows "\<exists>stats s' k. apply_retention age fault policy s = (Inr stats, s') \<and> log_inv z s' \<and>
    next_offset' s' = next_offset' s \<and> readable z s' = drop k (readable z s) \<and>
    (readable z s \<noteq> [] \<longrightarrow> k < length (readable z s)) \<and>
    map_of (directory s') (segment_path (active_base s)) = map_of (directory s) (segment_path (active_base s)) \<and>
    (max_age_seconds policy > 0 \<longrightarrow> (\<forall>b \<in> segment_bases (directory s') - {active_base s}.
       age (segment_path b) < max_age_seconds policy)) \<and>
    (max_bytes policy > 0 \<longrightarrow> directory_bytes (directory s') \<le> max_bytes policy \<or>
       segment_bases (directory s') \<subseteq> {active_base s}) \<and>
    (max_age_seconds policy = 0 \<and> max_bytes policy = 0 \<longrightarrow> readable z s' = readable z s)"
proof -
  note shape = segment_summaries_shape [OF inv]
  let ?ss = "segment_summaries s" and ?S = "segment_bases (directory s)"
  define ds where "ds = doomed age policy ?ss (sum_list (map log_bytes ?ss))"
  define D where "D = base_offset ` set ds"
  obtain stats s' where run: "apply_retention age fault policy s = (Inr stats, s')"
    "segments_deleted stats = length ds" "log_inv z s'" "active_base s' = active_base s"
    "next_offset' s' = next_offset' s" "options' s' = options' s"
      "\<exists>k. readable z s' = drop k (readable z s) \<and> (readable z s \<noteq> [] \<longrightarrow> k < length (readable z s))"
    and dir: "\<And>b. map_of (directory s') (segment_path b) = (if b \<in> D then None else map_of (directory s) (segment_path b))"
    by (rule apply_retention_deletes [where fault = fault, OF inv age fault ds_def D_def]) (rule that)
  have bases: "segment_bases (directory s') = ?S - D" by (auto simp: segment_bases_def dir)
  have sub: "set ds \<subseteq> {sm \<in> set ?ss. \<not> active sm}" unfolding ds_def by (rule doomed_subset)
  have active: "active_base s \<notin> D" using sub shape(2) by (auto simp: D_def summarises_def)
  note retained_young [OF inv _ ds_def, folded D_def]
  moreover note retained_budget [OF inv _ ds_def dir [unfolded D_def], folded D_def]
  moreover have "readable z s' = readable z s" if "max_age_seconds policy = 0" "max_bytes policy = 0"
  proof -
    have "ds = []" unfolding ds_def by (rule doomed_none) (simp_all add: that too_large_def too_old_def)
    then have "s' = s"
      using run(1) by (simp add: apply_retention_def Let_def retention_loop_doomed [OF fault] flip: ds_def)
    then show ?thesis by simp
  qed
  moreover have "map_of (directory s') (segment_path (active_base s)) = map_of (directory s) (segment_path (active_base s))"
    using dir active by simp
  moreover obtain k where "readable z s' = drop k (readable z s)" "readable z s \<noteq> [] \<longrightarrow> k < length (readable z s)"
    using run(7) by blast
  ultimately show ?thesis using run(1,3,5)
    by (intro exI [of _ stats] exI [of _ s'] exI [of _ k], unfold bases) blast
qed

theorem retention_keeps_suffix_witness:
  "\<exists>stats s' k. apply_retention (\<lambda>_. 9) (\<lambda>_. None) (RetentionPolicy.make 5 100) (fresh_log sample_options) = (Inr stats, s') \<and>
     readable zstd_stored s' = drop k (readable zstd_stored (fresh_log sample_options))"
proof -
  have "older_first (\<lambda>_. 9)" by (simp add: older_first_def)
  from retention_keeps_suffix [OF fresh_log_inv this, of "\<lambda>_. None" "RetentionPolicy.make 5 100" sample_options zstd_stored]
  show ?thesis by blast
qed

end
