(* ===== verification/Bolt_Fetch_Properties.thy ===== *)
theory Bolt_Fetch_Properties
  imports Bolt_Broker Bolt_Retention
begin

text \<open>
  The read path of the broker (\<open>BrokerRuntime::fetch\<close>, \<open>resolve_fetch_offset\<close>): which records a response
  holds, that it fits into a frame, and that a consumer that follows \<open>next_offset\<close> sees every record once.
\<close>

section \<open>The records from an offset on\<close>

abbreviation records_from :: "zstd \<Rightarrow> u64 \<Rightarrow> PartitionLog \<Rightarrow> Record list" where
  "records_from z off log \<equiv> filter (\<lambda>r. off \<le> RecordMetadata.offset (Record.metadata r)) (readable z log)"

lemma earliest_offset_readable:
  assumes "log_inv z log"
  shows "unat (earliest_offset log) = unat (next_offset' log) - length (readable z log)"
proof (cases "index' log")
  case Nil
  then show ?thesis by (simp add: earliest_offset_def readable_def)
next
  case (Cons e es)
  have c: "consecutive (index' log) (next_offset' log)"
    using files_invD(3) assms by (simp add: log_inv_def)
  then have "hd (map (\<lambda>e. unat (IndexEntry.offset e)) (index' log)) = unat (next_offset' log) - length (index' log)"
    using Cons unfolding consecutive_def by (simp add: upt_rec)
  then show ?thesis using Cons by (simp add: earliest_offset_def readable_map [OF assms])
qed

lemma earliest_le_next: "log_inv z log \<Longrightarrow> earliest_offset log \<le> next_offset' log"
  by (simp add: word_le_nat_alt earliest_offset_readable)

lemma records_from_offsets:
  assumes inv: "log_inv z log" and off: "earliest_offset log \<le> off" "off \<le> next_offset' log"
  shows "map (\<lambda>r. unat (RecordMetadata.offset (Record.metadata r))) (records_from z off log) =
    [unat off..<unat (next_offset' log)]"
proof -
  let ?o = "\<lambda>r. unat (RecordMetadata.offset (Record.metadata r))"
  have "map ?o (records_from z off log) = filter (\<lambda>n. unat off \<le> n) (map ?o (readable z log))"
    by (simp add: filter_map comp_def word_le_nat_alt)
  also have "\<dots> = filter (\<lambda>n. unat off \<le> n) [unat (earliest_offset log)..<unat (next_offset' log)]"
    unfolding readable_offsets [OF inv] earliest_offset_readable [OF inv] ..
  also have "\<dots> = [unat off..<unat (next_offset' log)]"
  proof -
    have "[unat (earliest_offset log)..<unat (next_offset' log)] =
        [unat (earliest_offset log)..<unat off] @ [unat off..<unat (next_offset' log)]"
      using off upt_add_eq_append [of "unat (earliest_offset log)" "unat off" "unat (next_offset' log) - unat off"]
      by (simp add: word_le_nat_alt)
    then show ?thesis by (auto simp: filter_empty_conv filter_id_conv)
  qed
  finally show ?thesis .
qed

section \<open>Filling the response\<close>

lemma length_write_fetch_record:
  "length (write_fetch_record (fetch_record r)) = fetch_record_payload_bytes r"
  by (simp add: write_fetch_record_def fetch_record_def FetchRecord.make_def fetch_record_payload_bytes_def)

lemma fill_response_prefix:
  assumes "fill_response mx used fresh rs = Inr out"
  shows "\<exists>k \<le> length rs. out = map fetch_record (take k rs) \<and>
    (used \<le> mx \<longrightarrow> used + length (concat (map write_fetch_record out)) \<le> mx) \<and> (fresh \<and> rs \<noteq> [] \<longrightarrow> 0 < k)"
  using assms
proof (induction mx used fresh rs arbitrary: out rule: fill_response.induct)
  case (2 mx used fresh r rs)
  show ?case
  proof (cases "used + fetch_record_payload_bytes r > mx")
    case True
    then show ?thesis using 2(2) by (auto split: if_splits)
  next
    case False
    then obtain out' where out: "out = fetch_record r # out'"
      and rest: "fill_response mx (used + fetch_record_payload_bytes r) False rs = Inr out'"
      using 2(2) by (auto simp: checked_Inr)
    obtain k where "k \<le> length rs" "out' = map fetch_record (take k rs)"
      "used + fetch_record_payload_bytes r + length (concat (map write_fetch_record out')) \<le> mx"
      using 2(1) [OF False rest] False by auto
    then show ?thesis
      by (intro exI [of _ "Suc k"]) (simp add: out length_write_fetch_record add.assoc)
  qed
qed simp

lemma encoded_response_length:
  "length (encode_fetch_response (FetchResponse.make tpc part from_off next_off out)) =
     fetch_payload_base_bytes tpc + length (concat (map write_fetch_record out))"
  by (simp add: encode_fetch_response_def FetchResponse.make_def fetch_payload_base_bytes_def)

lemma fetch_log_prefix:
  assumes inv: "log_inv z log" and off: "earliest_offset log \<le> off" "off \<le> next_offset' log"
    and run: "fetch_log z cfg req off log = Inr resp"
  shows "\<exists>k. FetchResponse.records resp = map fetch_record (take k (records_from z off log)) \<and>
    k \<le> length (records_from z off log) \<and> k \<le> unat (max_fetch_records cfg) \<and>
    FetchResponse.topic resp = FetchRequest.topic req \<and> FetchResponse.partition resp = FetchRequest.partition req \<and>
    FetchResponse.from_offset resp = off \<and> FetchResponse.next_offset resp = off + of_nat k \<and>
    length (encode_fetch_response resp) \<le> max_fetch_payload_bytes cfg \<and>
    (max_fetch_records cfg \<noteq> 0 \<and> off < next_offset' log \<longrightarrow> 0 < k)"
proof -
  let ?w = "records_from z off log"
  obtain n where n: "read_from z off (unat (max_fetch_records cfg)) (unat (max_fetch_bytes cfg)) log = Inr (take n ?w)"
    "n \<le> unat (max_fetch_records cfg)" "0 < unat (max_fetch_records cfg) \<and> ?w \<noteq> [] \<longrightarrow> 0 < n"
    using read_from_prefix [OF inv refl] by blast
  obtain out where base: "fetch_payload_base_bytes (FetchRequest.topic req) \<le> max_fetch_payload_bytes cfg"
    and fill: "fill_response (max_fetch_payload_bytes cfg) (fetch_payload_base_bytes (FetchRequest.topic req)) True
      (take n ?w) = Inr out"
    and resp: "resp = FetchResponse.make (FetchRequest.topic req) (FetchRequest.partition req) off
      (if out = [] then off else FetchRecord.offset (last out) + 1) out"
    using run n(1) by (auto simp: fetch_log_def Let_def checked_Inr split: if_splits)
  obtain k where k: "k \<le> length (take n ?w)" "out = map fetch_record (take k (take n ?w))"
    "fetch_payload_base_bytes (FetchRequest.topic req) + length (concat (map write_fetch_record out)) \<le> max_fetch_payload_bytes cfg"
    "take n ?w \<noteq> [] \<longrightarrow> 0 < k"
    using fill_response_prefix [OF fill] base by blast
  have out: "out = map fetch_record (take k ?w)" using k(1,2) by (simp add: min_absorb1)
  note offs = records_from_offsets [OF inv off]
  have len: "length ?w = unat (next_offset' log) - unat off" using arg_cong [OF offs, of length] by simp
  have last: "FetchRecord.offset (last out) + 1 = off + of_nat k" if "out \<noteq> []"
  proof -
    have k0: "0 < k" "k \<le> length ?w" using that k(1) by (auto simp: out)
    then have "last out = fetch_record (?w ! (k - 1))"
      using that by (subst last_conv_nth) (simp_all add: out min_absorb2)
    moreover have "unat (RecordMetadata.offset (Record.metadata (?w ! (k - 1)))) = unat off + (k - 1)"
      using arg_cong [OF offs, of "\<lambda>xs. xs ! (k - 1)"] k0 len by simp
    from arg_cong [OF this, of "of_nat :: nat \<Rightarrow> u64"]
    have "RecordMetadata.offset (Record.metadata (?w ! (k - 1))) = off + of_nat (k - 1)" by simp
    ultimately show ?thesis using k0 by (simp add: fetch_record_def FetchRecord.make_def of_nat_diff)
  qed
  have "k = 0" if "out = []" using that k(1) by (auto simp: out)
  then have "(if out = [] then off else FetchRecord.offset (last out) + 1) = off + of_nat k" using last by simp
  note resp = resp [unfolded this]
  have progress: "0 < k" if "max_fetch_records cfg \<noteq> 0" "off < next_offset' log"
  proof -
    have "?w \<noteq> []" using len that(2) by (auto simp: word_less_nat_alt)
    moreover have "0 < unat (max_fetch_records cfg)" using that(1) by (simp add: unat_gt_0)
    ultimately show ?thesis using n(3) k(4) by simp
  qed
  have "length (encode_fetch_response resp) \<le> max_fetch_payload_bytes cfg"
    unfolding resp encoded_response_length by (rule k(3))
  moreover have "FetchResponse.records resp = map fetch_record (take k ?w)" "FetchResponse.topic resp = FetchRequest.topic req"
    "FetchResponse.partition resp = FetchRequest.partition req" "FetchResponse.from_offset resp = off"
    "FetchResponse.next_offset resp = off + of_nat k"
    by (simp_all add: resp FetchResponse.make_def flip: out)
  moreover have "k \<le> length ?w" "k \<le> unat (max_fetch_records cfg)" using k(1) n(2) by simp_all
  ultimately show ?thesis using progress by blast
qed

section \<open>Resolving the offset\<close>

text \<open>The log that a request for a partition of a live topic reaches.\<close>

definition partition_of :: "string \<Rightarrow> u16 \<Rightarrow> BrokerRuntime \<Rightarrow> BrokerError + PartitionLog" where
  "partition_of tpc part b = checked (live_topic tpc b) (\<lambda>t. partition_or_throw t part)"

lemma resolve_fetch_offset_range:
  assumes "resolve_fetch_offset req earliest next_off store = Inr off" "earliest \<le> next_off"
  shows "earliest \<le> off \<and> off \<le> next_off"
  using assms unfolding resolve_fetch_offset_def
  by (auto simp: checked_Inr Let_def split: if_splits option.splits)

lemma resolve_fetch_offset_error:
  assumes "resolve_fetch_offset req earliest next_off store = Inl e"
  shows "\<exists>err what. e = RequestError err what"
  using assms unfolding resolve_fetch_offset_def validate_group_or_throw_def
  by (auto simp: Let_def split: if_splits option.splits)

lemma fill_response_error: "fill_response mx used fresh rs = Inl e \<Longrightarrow> \<exists>err what. e = RequestError err what"
proof (induction mx used fresh rs rule: fill_response.induct)
  case (2 mx used fresh r rs)
  then show ?case
    by (cases "fill_response mx (used + fetch_record_payload_bytes r) False rs") (auto split: if_splits)
qed simp

lemma fetch_log_error:
  assumes "log_inv z log" "fetch_log z cfg req off log = Inl e"
  shows "\<exists>err what. e = RequestError err what"
proof -
  obtain rs where "read_from z off (unat (max_fetch_records cfg)) (unat (max_fetch_bytes cfg)) log = Inr rs"
    using read_from_prefix [OF assms(1) refl] by blast
  then show ?thesis
    using assms(2) fill_response_error
    by (cases "fill_response (max_fetch_payload_bytes cfg) (fetch_payload_base_bytes (FetchRequest.topic req)) True rs")
      (auto simp: fetch_log_def Let_def split: if_splits)
qed

lemma fetch_partition:
  assumes "partition_of (FetchRequest.topic req) (FetchRequest.partition req) b = Inr log"
  shows "fetch z req b =
    checked (resolve_fetch_offset req (earliest_offset log) (next_offset' log) (offset_store b))
      (\<lambda>from_off. fetch_log z (config b) req from_off log)"
  using assms by (auto simp: fetch_def partition_of_def checked_Inr)

section \<open>Properties\<close>

text \<open>
  C15: what a fetch returns. On a live partition whose log satisfies its invariant, a fetch either rejects
  the request with a protocol error, never with an internal one, or answers with the records from the
  resolved offset on: a prefix of what is readable there, at most the configured number, encoded within
  the configured response size; \<open>next_offset\<close> is the offset after the last record of the response, so the
  next fetch misses nothing and repeats nothing, and a response is empty only at the end of the log.
\<close>

theorem fetch_exact:
  assumes "partition_of (FetchRequest.topic req) (FetchRequest.partition req) b = Inr log" "log_inv z log"
  shows "case fetch z req b of
      Inl e \<Rightarrow> \<exists>err what. e = RequestError err what
    | Inr resp \<Rightarrow> \<exists>off k.
        resolve_fetch_offset req (earliest_offset log) (next_offset' log) (offset_store b) = Inr off \<and>
        earliest_offset log \<le> off \<and> off \<le> next_offset' log \<and>
        FetchResponse.from_offset resp = off \<and> FetchResponse.next_offset resp = off + of_nat k \<and>
        FetchResponse.records resp = map fetch_record (take k (records_from z off log)) \<and>
        k \<le> length (records_from z off log) \<and> k \<le> unat (max_fetch_records (config b)) \<and>
        length (encode_fetch_response resp) \<le> max_fetch_payload_bytes (config b) \<and>
        (max_fetch_records (config b) \<noteq> 0 \<and> off < next_offset' log \<longrightarrow> 0 < k)"
proof -
  note run = fetch_partition [OF assms(1), of z]
  show ?thesis
  proof (cases "resolve_fetch_offset req (earliest_offset log) (next_offset' log) (offset_store b)")
    case (Inl e)
    then show ?thesis using run resolve_fetch_offset_error [OF Inl] by simp
  next
    case (Inr off)
    note range = resolve_fetch_offset_range [OF Inr earliest_le_next [OF assms(2)]]
    show ?thesis
    proof (cases "fetch_log z (config b) req off log")
      case (Inl e)
      then show ?thesis using run Inr fetch_log_error [OF assms(2) Inl] by simp
    next
      case resp: (Inr resp)
      then show ?thesis using run Inr range fetch_log_prefix [OF assms(2) _ _ resp] by auto
    qed
  qed
qed

text \<open>A broker with one topic of three partitions.\<close>

definition sample_config :: BrokerConfig where
  "sample_config = BrokerConfig.make 1048576 100 65536 8 1024 3600 1048576 (RetentionPolicy.make 0 0) []"

definition sample_store :: OffsetStore where
  "sample_store = open_offsets []"

definition sample_broker :: "PartitionLog \<Rightarrow> GroupCoordinator \<Rightarrow> BrokerRuntime" where
  "sample_broker log coord = BrokerRuntime.make sample_config
     [(''t'', TopicState.make ''t'' 3 0 False [log, log, log])] sample_store coord"

lemma sample_broker_partition: "part < 3 \<Longrightarrow> partition_of ''t'' part (sample_broker log coord) = Inr log"
proof -
  assume "part < 3"
  then have "unat part < 3" by (simp add: word_less_nat_alt)
  then have "[log, log, log] ! unat part = log" by (auto simp: less_Suc_eq numeral_eq_Suc nth_Cons')
  then show ?thesis
    using \<open>part < 3\<close> \<open>unat part < 3\<close>
    by (simp add: partition_of_def live_topic_def find_topic_or_throw_def sample_broker_def BrokerRuntime.make_def
        TopicState.make_def partition_or_throw_def log_at_def not_le)
qed

theorem fetch_exact_witness:
  "let req = FetchRequest.make ''t'' 1 ''beginning'' [] 0; log = fresh_log sample_options;
       b = sample_broker log (GroupCoordinator.make [] 1)
   in case fetch zstd_stored req b of
        Inl e \<Rightarrow> \<exists>err what. e = RequestError err what
      | Inr resp \<Rightarrow> FetchResponse.from_offset resp = 0 \<and>
          length (encode_fetch_response resp) \<le> max_fetch_payload_bytes (config b)"
proof -
  let ?req = "FetchRequest.make ''t'' 1 ''beginning'' [] 0" and ?log = "fresh_log sample_options"
  let ?b = "sample_broker ?log (GroupCoordinator.make [] 1)"
  have "partition_of (FetchRequest.topic ?req) (FetchRequest.partition ?req) ?b = Inr ?log"
    by (simp add: FetchRequest.make_def sample_broker_partition)
  moreover have "resolve_fetch_offset ?req (earliest_offset ?log) (next_offset' ?log) (offset_store ?b) = Inr 0"
    by (simp add: earliest_offset_def resolve_fetch_offset_def FetchRequest.make_def)
  ultimately show ?thesis
    using fetch_exact [OF _ fresh_log_inv, of ?req ?b sample_options zstd_stored]
    unfolding Let_def by (cases "fetch zstd_stored ?req ?b") auto
qed

end
