(* ===== verification/Bolt_Commit_Properties.thy ===== *)
theory Bolt_Commit_Properties
  imports Bolt_Fetch_Properties Bolt_Group_Properties Bolt_Offset_Properties
begin

text \<open>
  Commits through the broker (\<open>BrokerRuntime::commit_group_offset\<close>, \<open>commit_offset\<close>): the composition of the
  partition log, the group coordinator and the offset store.
\<close>

section \<open>The store behind a commit\<close>

lemma commit_cases:
  assumes "commit fault grp tpc part off st = (r, st')"
  obtains "r = Inr ()" "fault = None" "\<And>g t p. committed g t p st' = (if g = grp \<and> t = tpc \<and> p = part then Some off else committed g t p st)"
  | what where "r = Inl what" "\<And>g t p. committed g t p st' = committed g t p st"
proof (cases "is_valid_group_name grp \<and> is_valid_topic_name tpc")
  case False
  then show thesis using assms that(2) by (auto simp: commit_def split: if_splits)
next
  case valid: True
  show thesis
  proof (cases fault)
    case None
    then have "r = Inr ()" "offsets' st' = set_offset grp (tpc, part) off (offsets' st)"
      using assms valid by (auto simp: commit_def Let_def)
    then show thesis
      using that(1) None by (auto simp: committed_offsets_of offsets_of_set_offset)
  next
    case (Some f)
    then have "offsets' st' = offsets' st" "\<exists>what. r = Inl what"
      using assms valid by (cases f; auto simp: commit_def Let_def)+
    then show thesis using that(2) by (auto simp: committed_def)
  qed
qed

lemma store_commit_frame:
  "store_commit fault grp tpc part off b = (r, b') \<Longrightarrow>
   topics_map b' = topics_map b \<and> config b' = config b \<and> group_coordinator b' = group_coordinator b"
  by (auto simp: store_commit_def split: prod.splits sum.splits)

lemma store_commit_effect:
  assumes "store_commit fault grp tpc part off b = (r, b')"
  shows "case r of
      Inr _ \<Rightarrow> fault = None \<and> (\<forall>g t p. committed g t p (offset_store b') =
        (if g = grp \<and> t = tpc \<and> p = part then Some off else committed g t p (offset_store b)))
    | Inl e \<Rightarrow> (\<exists>what. e = OtherError what) \<and>
        (\<forall>g t p. committed g t p (offset_store b') = committed g t p (offset_store b))"
proof -
  obtain r0 st where c: "commit fault grp tpc part off (offset_store b) = (r0, st)"
    by (cases "commit fault grp tpc part off (offset_store b)")
  have b': "offset_store b' = st" "r = (case r0 of Inl what \<Rightarrow> Inl (OtherError what) | Inr _ \<Rightarrow> Inr ())"
    using assms by (auto simp: store_commit_def c split: sum.splits)
  from c show ?thesis
    by (rule commit_cases) (simp_all add: b')
qed

section \<open>Commits of a group member\<close>

text \<open>The checks before the coordinator is asked.\<close>

lemma commit_checks:
  "checked (validate_group_or_throw grp) (\<lambda>_. checked (live_topic tpc b) (\<lambda>t. checked (partition_or_throw t part)
     (\<lambda>log. check_offset_range what off log))) = Inr () \<longleftrightarrow>
   is_valid_group_name grp \<and> (\<exists>log. partition_of tpc part b = Inr log \<and>
     earliest_offset log \<le> off \<and> off \<le> next_offset' log)"
  by (auto simp: checked_Inr validate_group_or_throw_def partition_of_def check_offset_range_def split: if_splits)

lemma commit_group_offset_eq:
  assumes grp: "grp = GroupOffsetCommitRequest.group req" and tpc: "tpc = GroupOffsetCommitRequest.topic req"
    and part: "part = GroupOffsetCommitRequest.partition req" and off: "off = GroupOffsetCommitRequest.next_offset req"
  shows "commit_group_offset fault now1 now2 req b =
      (case checked (validate_group_or_throw grp) (\<lambda>_. checked (live_topic tpc b) (\<lambda>t.
    checked (partition_or_throw t part) (\<lambda>log. check_offset_range ''commit offset'' off log))) of
         Inl e \<Rightarrow> (Inl e, b)
       | Inr _ \<Rightarrow>
          (case validate_commit grp tpc (GroupOffsetCommitRequest.member_id req) (GroupOffsetCommitRequest.generation_id req)
    part now2 (snd (expire grp tpc now1 (group_coordinator b))) of
             (Inl (err, what), c) \<Rightarrow> (reject err what, b\<lparr>group_coordinator := c\<rparr>)
           | (Inr r, c) \<Rightarrow>
              (case store_commit fault grp tpc part off (b\<lparr>group_coordinator := c\<rparr>) of
                 (Inl e, b2) \<Rightarrow> (Inl e, b2)
               | (Inr _, b2) \<Rightarrow> (Inr (GroupOffsetCommitResponse.make grp tpc
                   (GroupOffsetCommitRequest.member_id req) (GroupResult.generation_id r) part off), b2))))"
    unfolding commit_group_offset_def Let_def grp tpc part off
    by (cases "expire (GroupOffsetCommitRequest.group req) (GroupOffsetCommitRequest.topic req) now1 (group_coordinator b)")
      (simp only: prod.case snd_conv)

lemma commit_group_offset_cases:
  assumes run: "commit_group_offset fault now1 now2 req b = (result, b')"
    and grp: "grp = GroupOffsetCommitRequest.group req" and tpc: "tpc = GroupOffsetCommitRequest.topic req"
    and part: "part = GroupOffsetCommitRequest.partition req" and off: "off = GroupOffsetCommitRequest.next_offset req"
  obtains (rejected) e where "result = Inl e" "offset_store b' = offset_store b" "topics_map b' = topics_map b"
  | (stored) log r c b1 where "is_valid_group_name grp" "partition_of tpc part b = Inr log"
      "earliest_offset log \<le> off" "off \<le> next_offset' log"
      "validate_commit grp tpc (GroupOffsetCommitRequest.member_id req) (GroupOffsetCommitRequest.generation_id req)
         part now2 (snd (expire grp tpc now1 (group_coordinator b))) = (Inr r, c)"
      "b1 = b\<lparr>group_coordinator := c\<rparr>" "map_sum id (\<lambda>_. ()) result = fst (store_commit fault grp tpc part off b1)"
      "b' = snd (store_commit fault grp tpc part off b1)"
proof -
  let ?checks = "checked (validate_group_or_throw grp) (\<lambda>_. checked (live_topic tpc b) (\<lambda>t.
    checked (partition_or_throw t part) (\<lambda>log. check_offset_range ''commit offset'' off log)))"
  let ?v = "validate_commit grp tpc (GroupOffsetCommitRequest.member_id req) (GroupOffsetCommitRequest.generation_id req)
    part now2 (snd (expire grp tpc now1 (group_coordinator b)))"
  note eq = commit_group_offset_eq [OF grp tpc part off, of fault now1 now2 b]
  show thesis
  proof (cases ?checks)
    case (Inl e)
    then have "result = Inl e" "b' = b" using run by (simp_all add: eq)
    then show thesis using rejected by simp
  next
    case (Inr u)
    then have checks: "?checks = Inr ()" by simp
    then obtain log where ok: "is_valid_group_name grp" "partition_of tpc part b = Inr log"
      "earliest_offset log \<le> off" "off \<le> next_offset' log" unfolding commit_checks by blast
    obtain v c where v: "?v = (v, c)" by (cases ?v)
    obtain r0 b2 where st: "store_commit fault grp tpc part off (b\<lparr>group_coordinator := c\<rparr>) = (r0, b2)"
      by (cases "store_commit fault grp tpc part off (b\<lparr>group_coordinator := c\<rparr>)")
    show thesis
    proof (cases v)
      case (Inl e)
      obtain err what where e: "e = (err, what)" by (cases e)
      have "result = reject err what" "b' = b\<lparr>group_coordinator := c\<rparr>"
        using run unfolding eq checks v Inl e sum.case prod.case by blast+
      then show thesis using rejected by simp
    next
      case (Inr r)
      have "map_sum id (\<lambda>_. ()) result = r0" "b' = b2"
        using run unfolding eq checks v Inr st sum.case prod.case by (cases r0; auto)+
      then show thesis using stored [OF ok v [unfolded Inr] refl] st by simp
    qed
  qed
qed

section \<open>Properties\<close>

text \<open>
  C17: a member's commit is checked and then durable in the broker. A success means that the offset lies
  in the log of a live partition, that the coordinator has the member in the request's generation as the
  owner of the partition, and that the store holds the offset under that key and nothing else changed;
  a fetch that starts at the committed offset then starts there. A rejection leaves the store as it was,
  and an I/O error leaves every committed offset as it was.
\<close>

theorem group_commit_safe:
  assumes run: "commit_group_offset fault now1 now2 req b = (result, b')"
    and grp: "grp = GroupOffsetCommitRequest.group req" and tpc: "tpc = GroupOffsetCommitRequest.topic req"
    and part: "part = GroupOffsetCommitRequest.partition req" and off: "off = GroupOffsetCommitRequest.next_offset req"
  shows "topics_map b' = topics_map b \<and>
    (case result of
       Inr resp \<Rightarrow>
         (\<exists>log. partition_of tpc part b = Inr log \<and> earliest_offset log \<le> off \<and> off \<le> next_offset' log \<and>
            (\<forall>w. resolve_fetch_offset (FetchRequest.make tpc part ''committed'' grp w)
               (earliest_offset log) (next_offset' log) (offset_store b') = Inr off)) \<and>
         (\<exists>st m. map_of (groups (group_coordinator b')) (GroupKey grp tpc) = Some st \<and>
            map_of (members st) (GroupOffsetCommitRequest.member_id req) = Some m \<and> owns_partition m part \<and>
            GroupState.generation_id st = GroupOffsetCommitRequest.generation_id req) \<and>
         (\<forall>g t p. committed g t p (offset_store b') =
            (if g = grp \<and> t = tpc \<and> p = part then Some off else committed g t p (offset_store b)))
     | Inl (RequestError err what) \<Rightarrow> offset_store b' = offset_store b
     | Inl (OtherError what) \<Rightarrow>
         (\<forall>g t p. committed g t p (offset_store b') = committed g t p (offset_store b)))"
proof (cases rule: commit_group_offset_cases [OF assms, case_names rejected stored])
  case (rejected e)
  then show ?thesis by (cases e) simp_all
next
  case (stored log r c b1)
  obtain r0 where st: "store_commit fault grp tpc part off b1 = (r0, b')" "map_sum id (\<lambda>_. ()) result = r0"
    using stored by (metis prod.collapse)
  note frame = store_commit_frame [OF st(1)] and effect = store_commit_effect [OF st(1)]
  obtain g m where owner: "map_of (groups c) (GroupKey grp tpc) = Some g"
    "map_of (members g) (GroupOffsetCommitRequest.member_id req) = Some m"
    "owns_partition m part" "GroupState.generation_id g = GroupOffsetCommitRequest.generation_id req"
    by (rule validate_commit_ok [OF stored(5)])
  show ?thesis
  proof (cases result)
    case (Inl e)
    then show ?thesis using frame effect st(2) stored(6) by (cases e) auto
  next
    case (Inr resp)
    then have committed: "committed g t p (offset_store b') =
        (if g = grp \<and> t = tpc \<and> p = part then Some off else committed g t p (offset_store b))" for g t p
      using effect st(2) stored(6) by auto
    have "resolve_fetch_offset (FetchRequest.make tpc part ''committed'' grp w)
        (earliest_offset log) (next_offset' log) (offset_store b') = Inr off" for w
      using stored(1,3,4) by (simp add: resolve_fetch_offset_def FetchRequest.make_def committed
          validate_group_or_throw_def Let_def not_less)
    then show ?thesis using Inr stored(2-4,6) owner frame committed by auto
  qed
qed

theorem group_commit_safe_witness:
  "let b = sample_broker (fresh_log sample_options) sample_group;
       r = commit_group_offset None 10 11 (GroupOffsetCommitRequest.make ''g'' ''t'' ''b'' 2 2 0) b
   in (\<exists>resp. fst r = Inr resp) \<and> committed ''g'' ''t'' 2 (offset_store (snd r)) = Some 0"
proof -
  let ?req = "GroupOffsetCommitRequest.make ''g'' ''t'' ''b'' 2 2 0"
  let ?b = "sample_broker (fresh_log sample_options) sample_group"
  define r where "r = commit_group_offset None 10 11 ?req ?b"
  have "\<not> isl (fst (validate_commit ''g'' ''t'' ''b'' 2 2 11 (snd (expire ''g'' ''t'' 10 sample_group))))" by code_simp
  then obtain v c where v: "validate_commit ''g'' ''t'' ''b'' 2 2 11 (snd (expire ''g'' ''t'' 10 sample_group)) = (Inr v, c)"
    by (metis prod.collapse sum.collapse(2))
  have names: "is_valid_topic_name ''g''" "is_valid_topic_name ''t''"
    by (simp_all add: is_valid_topic_name_def less_eq_char_def)
  have checks: "checked (validate_group_or_throw ''g'') (\<lambda>_. checked (live_topic ''t'' ?b) (\<lambda>t. checked (partition_or_throw t 2)
      (\<lambda>log. check_offset_range ''commit offset'' 0 log))) = Inr ()"
    unfolding commit_checks using names
    by (simp add: is_valid_group_name_def sample_broker_partition earliest_offset_def)
  have coord: "group_coordinator ?b = sample_group" by (simp add: sample_broker_def BrokerRuntime.make_def)
  have req: "GroupOffsetCommitRequest.group ?req = ''g''" "GroupOffsetCommitRequest.topic ?req = ''t''"
    "GroupOffsetCommitRequest.member_id ?req = ''b''" "GroupOffsetCommitRequest.generation_id ?req = 2"
    "GroupOffsetCommitRequest.partition ?req = 2" "GroupOffsetCommitRequest.next_offset ?req = 0"
    by (simp_all add: GroupOffsetCommitRequest.make_def)
  have "\<not> isl (fst r)"
    unfolding r_def commit_group_offset_eq [OF refl refl refl refl] req checks coord v sum.case prod.case
    using names by (simp add: store_commit_def commit_None is_valid_group_name_def)
  then obtain resp where resp: "fst r = Inr resp" by (metis sum.collapse(2))
  then have "commit_group_offset None 10 11 ?req ?b = (Inr resp, snd r)"
    by (metis prod.collapse r_def)
  from group_commit_safe [OF this refl refl refl refl] resp
  show ?thesis unfolding Let_def r_def [symmetric] by (simp add: GroupOffsetCommitRequest.make_def)
qed

end
