(* ===== verification/Bolt_Batches.thy ===== *)
theory Bolt_Batches
  imports Bolt_Log_Properties
begin

text \<open>
  Correctness of \<open>PartitionLog::append_encoded_batch\<close>: a batch that the producer compressed is stored as
  it came, after the broker has checked that it decompresses to the records it claims to hold. A
  success extends the readable records by the batch, a failure changes nothing readable.
\<close>

section \<open>The stored batch\<close>

abbreviation batch_records :: "AppendRecord list \<Rightarrow> BatchRecord list" where
  "batch_records recs \<equiv> map (\<lambda>rec. BatchRecord.make (AppendRecord.key rec) (AppendRecord.val rec)) recs"

lemma record_set_member_bounds:
  assumes "rec \<in> set brs"
  shows "length (BatchRecord.key rec) + length (BatchRecord.message rec) \<le> length (encode_record_set brs)"
proof -
  have "length (write_batch_record rec) \<le> length (concat (map write_batch_record brs))"
    using assms by (auto simp: length_concat intro!: member_le_sum_list)
  then show ?thesis by (simp add: encode_record_set_def write_batch_record_def write_bytes_def)
qed

lemma encoded_batch_stored:
  assumes count: "recs \<noteq> []" "length recs < 2 ^ 32"
    and canonical: "length (encode_record_set (batch_records recs)) = unat u"
    and unpack: "decompress z c encoded (unat u) (unat (max_uncompressed_batch_bytes opts)) =
      Inr (encode_record_set (batch_records recs))"
    and size: "40 + length encoded < 2 ^ 32" and filled: "\<forall>rec \<in> set recs. AppendRecord.val rec \<noteq> []"
  shows "stored_bytes_of z opts (of_nat (40 + length encoded))
      (sealed (batch_body (codec_wire c) off ts (of_nat (length recs)) u encoded))
      (StoredBatch (decoded_batch (PartitionLogOptions.topic opts) (partition_id opts) (codec_wire c) off ts
        (of_nat (length recs)) u encoded (batch_records recs)))"
proof -
  let ?brs = "batch_records recs" and ?n = "of_nat (40 + length encoded) :: u32"
  have n: "unat ?n = 40 + length encoded" using size by (rule unat_of_nat_u32)
  have c: "is_supported c" using decompress_bounds(3) [OF unpack] .
  have len: "unat (of_nat (length recs) :: u32) = length recs" using count(2) by (rule unat_of_nat_u32)
  have "length (BatchRecord.key rec) < 2 ^ 32 \<and> length (BatchRecord.message rec) < 2 ^ 32" if "rec \<in> set ?brs" for rec
    using record_set_member_bounds [OF that] canonical unat_u32_less [of u] by linarith
  then have valid: "valid_record_set (of_nat (length recs)) ?brs"
    using filled len by (auto simp: valid_record_set_def valid_batch_record_def BatchRecord.make_def)
  have "(of_nat (length recs) :: u32) \<noteq> 0" using len count(1) by (metis length_0_conv unat_0)
  moreover have "u \<noteq> 0" using canonical by (auto simp: encode_record_set_def)
  ultimately have acc: "batch_acceptable z (unat (max_uncompressed_batch_bytes opts)) (codec_wire c)
      (of_nat (length recs)) u encoded ?brs"
    using c valid unpack by (simp add: batch_acceptable_def)
  have "decode_batch z (PartitionLogOptions.topic opts) (partition_id opts) ?n
      (sealed (batch_body (codec_wire c) off ts (of_nat (length recs)) u encoded))
      (unat (max_uncompressed_batch_bytes opts)) =
      Inr (decoded_batch (PartitionLogOptions.topic opts) (partition_id opts) (codec_wire c) off ts
        (of_nat (length recs)) u encoded ?brs)"
    unfolding decode_batch_iff using acc n by (intro exI conjI) (auto simp: add.commute)
  then show ?thesis
    unfolding stored_bytes_of_def decode_stored_iff
    using n by (simp add: version_of_body(2) storage_constants word_le_nat_alt del: of_nat_add)
qed

section \<open>What the append writes\<close>

text \<open>The record that a reader gets for position \<open>j\<close> of a batch with metadata \<open>m\<close>.\<close>

definition batch_record_at :: "BatchMetadata \<Rightarrow> nat \<Rightarrow> AppendRecord \<Rightarrow> Record" where
  "batch_record_at m j rec =
     Record.make (RecordMetadata.make (BatchMetadata.topic m) (BatchMetadata.partition m)
       (BatchMetadata.base_offset m + of_nat j) (BatchMetadata.timestamp_unix_ns m)
       (BatchMetadata.stored_bytes m div BatchMetadata.record_count m))
     (AppendRecord.key rec) (AppendRecord.val rec)"

definition stored_batch_records :: "BatchMetadata \<Rightarrow> AppendRecord list \<Rightarrow> Record list" where
  "stored_batch_records m recs = map2 (batch_record_at m) [0..<length recs] recs"

text \<open>The segment that receives the batch, and the position in it.\<close>

definition batch_segment :: "nat \<Rightarrow> PartitionLog \<Rightarrow> u64" where
  "batch_segment n s =
     (let size = file_size_or_zero (directory s) (segment_path (active_base s)) in
      if size > 0 \<and> size + n > max_segment_bytes (options' s) then next_offset' s else active_base s)"

lemma batch_segment_fold:
  "(if file_size_or_zero (directory s) (segment_path (active_base s)) > 0 \<and>
       file_size_or_zero (directory s) (segment_path (active_base s)) + n > max_segment_bytes (options' s)
    then next_offset' s else active_base s) = batch_segment n s"
  by (simp add: batch_segment_def Let_def)

lemma batch_segment_inv:
  assumes "log_inv z s"
  shows "active_base s \<le> batch_segment n s" "batch_segment n s \<le> next_offset' s"
    and "(if file_size_or_zero (directory s) (segment_path (active_base s)) > 0 \<and>
        file_size_or_zero (directory s) (segment_path (active_base s)) + n > max_segment_bytes (options' s)
      then 0 else file_size_or_zero (directory s) (segment_path (active_base s))) =
      length (file_content (directory s) (segment_path (batch_segment n s)))"
proof -
  note fi = assms [unfolded log_inv_def]
  let ?size = "file_size_or_zero (directory s) (segment_path (active_base s))"
  have le: "active_base s \<le> next_offset' s"
    using active_less_next [OF fi] by (cases "index' s = []") (auto simp: active_segment_base_def)
  have less: "active_base s < next_offset' s" if "?size > 0"
    using active_content_less_next [OF fi] that by (simp add: file_size_content)
  show "active_base s \<le> batch_segment n s" "batch_segment n s \<le> next_offset' s"
    using le by (simp_all add: batch_segment_def Let_def)
  show "(if ?size > 0 \<and> ?size + n > max_segment_bytes (options' s) then 0 else ?size) =
      length (file_content (directory s) (segment_path (batch_segment n s)))"
    using files_invD(7) [OF fi, of "next_offset' s"] less
    by (auto simp: file_size_content batch_segment_def Let_def)
qed

lemma append_encoded_success:
  assumes inv: "log_inv z s" and run: "append_encoded_batch z ts fault c encoded u recs s = (Inr m, s')"
  defines "off \<equiv> next_offset' s" and "bytes \<equiv> encode_batch (next_offset' s) ts c (of_nat (length recs)) u encoded"
  defines "base \<equiv> batch_segment (length bytes) s"
  defines "pos \<equiv> length (file_content (directory s) (segment_path base))"
  defines "n \<equiv> of_nat (length bytes - 4) :: u32"
  shows "recs \<noteq> []" "length recs < 2 ^ 32" "length (encode_record_set (batch_records recs)) = unat u"
    and "decompress z c encoded (unat u) (unat (max_uncompressed_batch_bytes (options' s))) =
      Inr (encode_record_set (batch_records recs))"
    and "m = BatchMetadata.make (PartitionLogOptions.topic (options' s)) (partition_id (options' s)) off
      (off + of_nat (length recs)) ts (of_nat (length recs)) u (of_nat (length encoded)) (of_nat (length bytes)) c"
    and "\<exists>eb. s' = s\<lparr>directory := write_item base bytes eb (directory s),
      index' := index' s @ map (\<lambda>i. IndexEntry.make (off + of_nat i) pos n (segment_path base) (of_nat i)
        (of_nat (length recs))) [0..<length recs],
      next_offset' := off + of_nat (length recs)\<rparr>"
proof -
  have guards: "recs \<noteq> [] \<and> \<not> length recs > 2 ^ 32 - 1 \<and>
      length (encode_record_set (batch_records recs)) = unat u \<and>
      decompress z c encoded (unat u) (unat (max_uncompressed_batch_bytes (options' s))) =
        Inr (encode_record_set (batch_records recs)) \<and> fault = None"
    using run unfolding append_encoded_batch_def Let_def
    by (auto split: if_splits sum.splits option.splits prod.splits)
  then show "recs \<noteq> []" "length recs < 2 ^ 32" "length (encode_record_set (batch_records recs)) = unat u"
    "decompress z c encoded (unat u) (unat (max_uncompressed_batch_bytes (options' s))) =
      Inr (encode_record_set (batch_records recs))"
    by auto
  have "append_encoded_batch z ts fault c encoded u recs s =
      (Inr (BatchMetadata.make (PartitionLogOptions.topic (options' s)) (partition_id (options' s)) off
         (off + of_nat (length recs)) ts (of_nat (length recs)) u (of_nat (length encoded)) (of_nat (length bytes)) c),
       s\<lparr>directory := write_item base bytes
           (concat (map (\<lambda>i. index_entry_bytes (off + of_nat i) pos n) [0..<length recs])) (directory s),
         index' := index' s @ map (\<lambda>i. IndexEntry.make (off + of_nat i) pos n (segment_path base) (of_nat i)
           (of_nat (length recs))) [0..<length recs],
         next_offset' := off + of_nat (length recs)\<rparr>)"
    using guards
    unfolding append_encoded_batch_def Let_def pos_def n_def base_def off_def bytes_def
      batch_segment_fold batch_segment_inv(3) [OF inv] by simp
  then show "m = BatchMetadata.make (PartitionLogOptions.topic (options' s)) (partition_id (options' s)) off
      (off + of_nat (length recs)) ts (of_nat (length recs)) u (of_nat (length encoded)) (of_nat (length bytes)) c"
    and "\<exists>eb. s' = s\<lparr>directory := write_item base bytes eb (directory s),
      index' := index' s @ map (\<lambda>i. IndexEntry.make (off + of_nat i) pos n (segment_path base) (of_nat i)
        (of_nat (length recs))) [0..<length recs],
      next_offset' := off + of_nat (length recs)\<rparr>"
    using run by auto
qed

text \<open>The index entries of the batch read back as its records.\<close>

lemma batch_entry_records:
  assumes stored: "stored_bytes_of z opts n body (StoredBatch d)"
    and d: "d = decoded_batch (PartitionLogOptions.topic opts) (partition_id opts) w off ts (of_nat (length recs)) u
      encoded (batch_records recs)"
    and seg: "map_of fs (segment_path base) = Some (c @ write_u32 n @ body)"
    and j: "j < length recs" "length recs < 2 ^ 32"
  shows "entry_records z opts fs (IndexEntry.make (off + of_nat j) (length c) n (segment_path base) (of_nat j)
      (of_nat (length recs))) = [batch_record_at (DecodedBatch.metadata d) j (recs ! j)]"
proof -
  let ?e = "IndexEntry.make (off + of_nat j) (length c) n (segment_path base) (of_nat j) (of_nat (length recs))"
  have "read_entry z opts fs ?e = pick_record opts ?e n (StoredBatch d)"
    using read_entry_item [of fs ?e c n body "[]" z opts "StoredBatch d"] seg stored
    by (simp add: IndexEntry.make_def)
  moreover have "unat (of_nat j :: u32) = j" using j by (simp add: unat_of_nat_u32)
  ultimately show ?thesis
    using j by (simp add: entry_records_def pick_record_def d decoded_batch_def DecodedBatch.make_def Let_def
        batch_record_at_def IndexEntry.make_def BatchMetadata.make_def BatchRecord.make_def)
qed

lemma encoded_batch_ok:
  assumes inv: "log_inv z s" and run: "append_encoded_batch z ts fault c encoded u recs s = (Inr m, s')"
    and range: "unat (next_offset' s) + length recs < 2 ^ 64"
    and size: "40 + length encoded < 2 ^ 32" and filled: "\<forall>rec \<in> set recs. AppendRecord.val rec \<noteq> []"
  shows "log_inv z s' \<and> next_offset' s' = next_offset' s + of_nat (length recs) \<and> options' s' = options' s \<and>
    readable z s' = readable z s @ stored_batch_records m recs"
proof -
  define bytes where "bytes = encode_batch (next_offset' s) ts c (of_nat (length recs)) u encoded"
  define base where "base = batch_segment (length bytes) s"
  define n where "n = (of_nat (40 + length encoded) :: u32)"
  define body where "body = sealed (batch_body (codec_wire c) (next_offset' s) ts (of_nat (length recs)) u encoded)"
  define d where "d = decoded_batch (PartitionLogOptions.topic (options' s)) (partition_id (options' s)) (codec_wire c)
    (next_offset' s) ts (of_nat (length recs)) u encoded (batch_records recs)"
  let ?c = "file_content (directory s) (segment_path base)"
  define es where "es = map (\<lambda>i. IndexEntry.make (next_offset' s + of_nat i) (length ?c) n (segment_path base)
    (of_nat i) (of_nat (length recs))) [0..<length recs]"
  note ok = append_encoded_success [OF inv run]
  have bytes: "bytes = write_u32 n @ body" "length bytes - 4 = 40 + length encoded"
    by (simp_all add: bytes_def n_def body_def encode_batch_sealed)
  have "\<exists>eb. s' = s\<lparr>directory := write_item base bytes eb (directory s), index' := index' s @ es,
      next_offset' := next_offset' s + of_nat (length recs)\<rparr>"
    using ok(6) unfolding bytes(2) [unfolded bytes_def] es_def base_def n_def bytes_def .
  then obtain eb where s': "s' = s\<lparr>directory := write_item base bytes eb (directory s), index' := index' s @ es,
      next_offset' := next_offset' s + of_nat (length recs)\<rparr>" by blast
  have stored: "stored_bytes_of z (options' s) n body (StoredBatch d)"
    unfolding n_def body_def d_def by (rule encoded_batch_stored [OF ok(1-4) size filled])
  have len: "unat (of_nat (length recs) :: u32) = length recs" using ok(2) by (rule unat_of_nat_u32)
  have es: "es = stored_entries (segment_path base) (length ?c) n (StoredBatch d)"
    using len by (simp add: es_def d_def decoded_batch_def DecodedBatch.make_def BatchMetadata.make_def)
  have "map (\<lambda>e. unat (IndexEntry.offset e)) es = map (\<lambda>i. unat (next_offset' s) + i) [0..<length recs]"
    using range by (auto simp: es_def IndexEntry.make_def unat_add_of_nat)
  also have "\<dots> = [unat (next_offset' s)..<unat (next_offset' s) + length es]"
    by (simp add: es_def map_add_upt add.commute)
  finally have offs: "map (\<lambda>e. unat (IndexEntry.offset e)) es = [unat (next_offset' s)..<unat (next_offset' s) + length es]" .
  have les: "length es = length recs" by (simp add: es_def)
  have seg: "active_base s \<le> base" "base \<le> next_offset' s"
    using batch_segment_inv(1,2) [OF inv] by (simp_all add: base_def)
  have "files_inv z (options' s) (write_item base (write_u32 n @ body) eb (directory s)) (index' s @ es)
      (next_offset' s + of_nat (length es))"
    by (rule append_item_inv [OF inv [unfolded log_inv_def] stored seg es offs]) (use range les in simp)
  then have "log_inv z s'" unfolding log_inv_def by (simp add: s' bytes(1) les)
  moreover have "map (entry_records z (options' s) (directory s')) es = map (\<lambda>r. [r]) (stored_batch_records m recs)"
  proof -
    have "map_of (directory s') (segment_path base) = Some (?c @ write_u32 n @ body)"
      by (simp add: s' write_item_def bytes(1))
    then have "entry_records z (options' s) (directory s') (es ! j) =
        [batch_record_at (DecodedBatch.metadata d) j (recs ! j)]" if "j < length recs" for j
      using batch_entry_records [OF stored d_def _ that ok(2)] that by (simp add: es_def)
    moreover have "batch_record_at (DecodedBatch.metadata d) j r = batch_record_at m j r" for j r
      by (simp add: ok(5) d_def decoded_batch_def DecodedBatch.make_def BatchMetadata.make_def batch_record_at_def
          encode_batch_sealed)
    ultimately show ?thesis by (intro nth_equalityI) (simp_all add: stored_batch_records_def es_def)
  qed
  moreover have "map (entry_records z (options' s) (directory s')) (index' s) =
      map (entry_records z (options' s) (directory s)) (index' s)"
    by (intro map_cong refl entry_records_extends [OF inv [unfolded log_inv_def]]) (simp_all add: s')
  moreover have "readable z s' = concat (map (entry_records z (options' s) (directory s')) (index' s @ es))"
    by (simp add: readable_def s')
  ultimately have "readable z s' = readable z s @ stored_batch_records m recs"
    by (simp only: map_append concat_append concat_map_singleton map_ident readable_def)
  then show ?thesis using \<open>log_inv z s'\<close> by (simp add: s')
qed

section \<open>Undoing a failed batch\<close>

text \<open>The handler of a failed write: a file that was empty is removed, another one cut back.\<close>

definition undo_write :: "string \<Rightarrow> nat \<Rightarrow> files \<Rightarrow> files" where
  "undo_write path n fs = (if n = 0 then remove_file fs path else resize_file fs path n)"

lemma undo_write_simps [simp]:
  "path' \<noteq> path \<Longrightarrow> map_of (undo_write path n fs) path' = map_of fs path'"
  "distinct (map fst fs) \<Longrightarrow> distinct (map fst (undo_write path n fs))"
  by (simp_all add: undo_write_def map_of_resize_file)

lemma undo_write_content:
  assumes "map_of fs path = Some (c @ t)"
  shows "map_of (undo_write path (length c) fs) path = (if c = [] then None else Some c)"
  using assms by (simp add: undo_write_def map_of_resize_file)

lemma append_encoded_failure:
  assumes inv: "log_inv z s" and run: "append_encoded_batch z ts fault c encoded u recs s = (Inl what, s')"
  obtains "s' = s"
  | base l i n where "s' = s\<lparr>directory := undo_write (index_path base) n (undo_write (segment_path base)
      (length (file_content (directory s) (segment_path base))) (write_item base l i (directory s)))\<rparr>"
  using run unfolding append_encoded_batch_def Let_def batch_segment_fold batch_segment_inv(3) [OF inv]
    undo_write_def [symmetric]
  by (auto split: if_splits sum.splits option.splits prod.splits)

lemma encoded_batch_fail:
  assumes inv: "log_inv z s" and run: "append_encoded_batch z ts fault c encoded u recs s = (Inl what, s')"
  shows "log_inv z s' \<and> index' s' = index' s \<and> next_offset' s' = next_offset' s \<and> options' s' = options' s \<and>
    (\<forall>b. file_content (directory s') (segment_path b) = file_content (directory s) (segment_path b)) \<and>
    readable z s' = readable z s"
  using append_encoded_failure [OF inv run]
proof cases
  case 1
  then show ?thesis using inv by simp
next
  case (2 base l i n)
  let ?c = "\<lambda>b. file_content (directory s) (segment_path b)"
  have base: "map_of (directory s') (segment_path base) = (if ?c base = [] then None else Some (?c base))"
    using undo_write_content [of "write_item base l i (directory s)" "segment_path base" "?c base" l]
    by (simp add: 2 write_item_def)
  have other: "map_of (directory s') (segment_path b) = map_of (directory s) (segment_path b)" if "b \<noteq> base" for b
    using that by (simp add: 2 write_item_def)
  have content: "file_content (directory s') (segment_path b) = ?c b" for b
    using base other [of b] by (cases "b = base") (auto simp: file_content_def)
  have "distinct (map fst (directory s'))"
    using files_invD(1) [OF inv [unfolded log_inv_def]] by (simp add: 2 write_item_def)
  then have "log_inv z s'"
    using files_inv_content [OF inv [unfolded log_inv_def] _ content] by (simp add: log_inv_def 2)
  moreover have "readable z s' = readable z s"
  proof (rule readable_cong [OF inv])
    show "map_of (directory s') (segment_path b) = map_of (directory s) (segment_path b)"
      if "b \<in> segment_bases (directory s)" "?c b \<noteq> []" for b
      using that base other [of b] by (cases "b = base") (auto simp: segment_bases_def file_content_def)
  qed (simp_all add: 2)
  ultimately show ?thesis using content by (simp add: 2)
qed

section \<open>Properties\<close>



end
