(* ===== verification/Bolt_Broker_Invariant.thy ===== *)
theory Bolt_Broker_Invariant
  imports Bolt_Commit_Properties Bolt_Batches
begin

text \<open>
  The broker as a state machine: its requests and the append workers as steps, and the invariant that they
  keep. Every topic has as many open logs as partitions, each log satisfies its invariant under the options
  of its partition, and the round-robin position is a partition.
\<close>

section \<open>The invariant\<close>

definition topic_inv :: "zstd \<Rightarrow> BrokerConfig \<Rightarrow> string \<Rightarrow> TopicState \<Rightarrow> bool" where
  "topic_inv z cfg name t \<longleftrightarrow>
     topic_name t = name \<and> \<not> deleting t \<and> is_valid_topic_name name \<and>
     length (topic_logs t) = unat (topic_partition_count t) \<and>
     next_round_robin_partition t < topic_partition_count t \<and>
     (\<forall>i < length (topic_logs t). log_inv z (topic_logs t ! i) \<and>
        options' (topic_logs t ! i) = open_options cfg name (of_nat i))"

definition broker_inv :: "zstd \<Rightarrow> BrokerRuntime \<Rightarrow> bool" where
  "broker_inv z b \<longleftrightarrow> sorted_map (topics_map b) \<and>
     (\<forall>(name, t) \<in> set (topics_map b). topic_inv z (config b) name t)"

text \<open>No log of the broker is within a batch of the end of the offset space.\<close>

definition offsets_room :: "nat \<Rightarrow> BrokerRuntime \<Rightarrow> bool" where
  "offsets_room n b \<longleftrightarrow> (\<forall>(name, t) \<in> set (topics_map b). \<forall>log \<in> set (topic_logs t).
     unat (next_offset' log) + n < 2 ^ 64)"

lemma broker_inv_find:
  "broker_inv z b \<Longrightarrow> map_of (topics_map b) name = Some t \<Longrightarrow> topic_inv z (config b) name t"
  by (auto simp: broker_inv_def dest: map_of_SomeD)

lemma broker_inv_put:
  assumes "broker_inv z b" "topic_inv z (config b) name t"
  shows "broker_inv z (put_topic t b)"
proof -
  have "topic_inv z (config b) (topic_name t) t" using assms(2) by (simp add: topic_inv_def)
  then show ?thesis using assms(1) by (auto simp: broker_inv_def dest!: set_map_put [THEN subsetD])
qed

lemma broker_inv_frame:
  "broker_inv z b \<Longrightarrow> topics_map b' = topics_map b \<Longrightarrow> config b' = config b \<Longrightarrow> broker_inv z b'"
  by (simp add: broker_inv_def)

lemma topic_inv_put_log:
  assumes t: "topic_inv z cfg name t" and i: "unat part < length (topic_logs t)"
    and log: "log_inv z log" "options' log = options' (topic_logs t ! unat part)"
  shows "topic_inv z cfg name (put_log part log t)"
  using assms by (auto simp: topic_inv_def nth_list_update)

text \<open>Routing stays inside the topic: a key's hash is reduced modulo the partition cnt, and the
  round-robin position wraps.\<close>

lemma unat_u16_bound: "unat (w :: u16) < 2 ^ 16"
  using unsigned_less [of w, where ?'a = nat] by simp

lemma key_hash_partition_less:
  assumes "cnt \<noteq> 0"
  shows "unat (key_hash_partition k cnt) = unat (key_hash k) mod unat cnt" "key_hash_partition k cnt < cnt"
proof -
  have pos: "0 < unat cnt" using assms by (simp add: unat_gt_0)
  have c: "unat (ucast cnt :: u64) = unat cnt"
    using unat_u16_bound [of cnt] by (simp add: unsigned_ucast_eq take_bit_eq_mod)
  have "unat (key_hash k) mod unat cnt < 2 ^ 16"
    using mod_less_divisor [OF pos, of "unat (key_hash k)"] unat_u16_bound [of cnt] by simp
  then show eq: "unat (key_hash_partition k cnt) = unat (key_hash k) mod unat cnt"
    unfolding key_hash_partition_def unsigned_ucast_eq [of "key_hash k mod ucast cnt", where ?'a = nat] unat_mod_distrib c
    by (simp add: take_bit_eq_mod)
  show "key_hash_partition k cnt < cnt" unfolding word_less_nat_alt eq using pos by simp
qed

lemma topic_inv_routing:
  assumes t: "topic_inv z cfg name t"
  shows "produce_target req t < topic_partition_count t" "topic_inv z cfg name (after_produce req t)"
proof -
  let ?n = "topic_partition_count t"
  have rr: "next_round_robin_partition t < ?n" using t by (simp add: topic_inv_def)
  then have n: "?n \<noteq> 0" by auto
  show "produce_target req t < ?n"
    using rr key_hash_partition_less(2) [OF n] by (simp add: produce_target_def)
  let ?next = "(unat (next_round_robin_partition t) + 1) mod unat ?n"
  have "?next < unat ?n" using n by (simp add: unat_gt_0)
  moreover from this have "?next < 2 ^ 16" using unat_u16_bound [of ?n] by simp
  ultimately have "(of_nat ?next :: u16) < ?n"
    by (simp add: word_less_nat_alt unsigned_of_nat take_bit_eq_mod)
  then show "topic_inv z cfg name (after_produce req t)"
    using t by (simp add: after_produce_def advance_round_robin_def topic_inv_def)
qed

section \<open>Requests on partitions\<close>

lemma live_topic_Inr: "live_topic name b = Inr t \<longleftrightarrow> map_of (topics_map b) name = Some t \<and> \<not> deleting t"
  by (auto simp: live_topic_def find_topic_or_throw_def checked_Inr split: option.splits if_splits)

lemma log_at_Inr: "log_at t part = Inr log \<longleftrightarrow> unat part < length (topic_logs t) \<and> log = topic_logs t ! unat part"
  by (auto simp: log_at_def)

lemma partition_or_throw_Inr:
  "partition_or_throw t part = Inr log \<longleftrightarrow> part < topic_partition_count t \<and> log_at t part = Inr log"
  by (auto simp: partition_or_throw_def)

lemma topic_inv_log:
  "topic_inv z cfg name t \<Longrightarrow> unat part < length (topic_logs t) \<Longrightarrow> log_inv z (topic_logs t ! unat part)"
  by (simp add: topic_inv_def)

lemma run_append_batch_inv:
  assumes inv: "log_inv z log" and room: "unat (next_offset' log) + length jobs < 2 ^ 64" and age: "older_first age"
  shows "log_inv z (snd (run_append_batch env age (\<lambda>_. None) policy jobs log)) \<and>
    options' (snd (run_append_batch env age (\<lambda>_. None) policy jobs log)) = options' log"
proof -
  let ?recs = "map (\<lambda>job. AppendRecord.make (ProduceRequest.key job) (ProduceRequest.message job)) jobs"
  obtain r log1 where a: "append_batch env ?recs log = (r, log1)" by (cases "append_batch env ?recs log")
  have log1: "log_inv z log1" "options' log1 = options' log"
    using plog.step_inv [OF inv, of "(env, ?recs)"] append_step_options [of "(env, ?recs)" log] room a
    by (simp_all add: append_room_def append_step_def)
  obtain stats log2 where r: "apply_retention age (\<lambda>_. None) policy log1 = (Inr stats, log2)" "log_inv z log2"
    "options' log2 = options' log1"
    using apply_retention_deletes [OF log1(1) age refl refl refl, of policy] by metis
  show ?thesis
    using a log1 r by (cases r) (simp_all add: run_append_batch_def Let_def)
qed

lemma broker_inv_put_log:
  assumes inv: "broker_inv z b" and t: "map_of (topics_map b) name = Some t" and p: "unat part < length (topic_logs t)"
    and log: "log_inv z log" "options' log = options' (topic_logs t ! unat part)"
  shows "broker_inv z (put_topic (put_log part log t) b)"
    and "topic_inv z (config b) name (put_log part log t)"
proof -
  show *: "topic_inv z (config b) name (put_log part log t)"
    by (rule topic_inv_put_log [OF broker_inv_find [OF inv t] p log])
  show "broker_inv z (put_topic (put_log part log t) b)"
    using broker_inv_put [OF inv *] by simp
qed

lemma broker_room:
  "offsets_room n b \<Longrightarrow> map_of (topics_map b) name = Some t \<Longrightarrow> unat part < length (topic_logs t) \<Longrightarrow>
   unat (next_offset' (topic_logs t ! unat part)) + n < 2 ^ 64"
  by (fastforce simp: offsets_room_def dest: map_of_SomeD)

lemma async_produce_inv:
  assumes inv: "broker_inv z b" and run: "async_produce enqueue req b = (r, b')"
  shows "broker_inv z b'"
proof (cases "b' = b")
  case False
  then obtain t where t: "live_topic (ProduceRequest.topic req) b = Inr t" "b' = put_topic (after_produce req t) b"
    using run by (auto simp: async_produce_def checked_Inr split: sum.splits if_splits)
  have ok: "topic_inv z (config b) (ProduceRequest.topic req) t"
    using t(1) broker_inv_find [OF inv] by (simp add: live_topic_Inr)
  then show ?thesis using broker_inv_put [OF inv topic_inv_routing(2) [OF ok]] t(2) by simp
qed (use inv in simp)

lemma produce_inline_inv:
  assumes inv: "broker_inv z b" and run: "produce_inline env age (\<lambda>_. None) req b = (r, b')"
    and room: "offsets_room 1 b" and age: "older_first age"
  shows "broker_inv z b'"
proof (cases "b' = b")
  case False
  let ?name = "ProduceRequest.topic req"
  obtain t log where t: "live_topic ?name b = Inr t" "log_at t (produce_target req t) = Inr log"
    and b': "b' = put_topic (after_produce req (put_log (produce_target req t)
      (snd (run_append_batch env age (\<lambda>_. None) (retention_policy (config b)) [req] log)) t)) b"
    using run False by (auto simp: produce_inline_def checked_Inr split: sum.splits prod.splits)
  have find: "map_of (topics_map b) ?name = Some t" and p: "unat (produce_target req t) < length (topic_logs t)"
    and log: "log = topic_logs t ! unat (produce_target req t)"
    using t by (simp_all add: live_topic_Inr log_at_Inr)
  let ?log1 = "snd (run_append_batch env age (\<lambda>_. None) (retention_policy (config b)) [req] log)"
  have "log_inv z log" using topic_inv_log [OF broker_inv_find [OF inv find] p] by (simp add: log)
  then have "log_inv z ?log1 \<and> options' ?log1 = options' log"
    using run_append_batch_inv [OF _ _ age, of z log "[req]"] broker_room [OF room find p] by (simp add: log)
  then have "topic_inv z (config b) ?name (after_produce req (put_log (produce_target req t) ?log1 t))"
    using broker_inv_put_log(2) [OF inv find p] topic_inv_routing(2) by (simp add: log)
  then show ?thesis unfolding b' by (rule broker_inv_put [OF inv])
qed (use inv in simp)

text \<open>An append worker writes a batch of jobs to one partition of a topic.\<close>

definition worker_append ::
  "AppendEnv \<Rightarrow> (string \<Rightarrow> u64) \<Rightarrow> (string \<Rightarrow> RemoveFault option) \<Rightarrow> string \<Rightarrow> u16 \<Rightarrow> ProduceRequest list \<Rightarrow>
   BrokerRuntime \<Rightarrow> BrokerRuntime" where
  "worker_append env age remove_fault name part jobs b =
     (case checked (live_topic name b) (\<lambda>t. checked (log_at t part) (\<lambda>log. Inr (t, log))) of
        Inl _ \<Rightarrow> b
      | Inr (t, log) \<Rightarrow>
          put_topic (put_log part (snd (run_append_batch env age remove_fault (retention_policy (config b)) jobs log)) t) b)"

lemma worker_append_inv:
  assumes inv: "broker_inv z b" and room: "offsets_room (length jobs) b" and age: "older_first age"
  shows "broker_inv z (worker_append env age (\<lambda>_. None) name part jobs b)"
proof (cases "\<exists>t log. live_topic name b = Inr t \<and> log_at t part = Inr log")
  case True
  then obtain t log where t: "live_topic name b = Inr t" "log_at t part = Inr log" by blast
  then have find: "map_of (topics_map b) name = Some t" and p: "unat part < length (topic_logs t)"
    and log: "log = topic_logs t ! unat part" by (simp_all add: live_topic_Inr log_at_Inr)
  have "log_inv z log" using topic_inv_log [OF broker_inv_find [OF inv find] p] by (simp add: log)
  then show ?thesis
    using run_append_batch_inv [OF _ _ age, of z log jobs] broker_room [OF room find p]
      broker_inv_put_log(1) [OF inv find p] t by (simp add: worker_append_def log)
next
  case False
  then have "worker_append env age (\<lambda>_. None) name part jobs b = b"
    by (cases "live_topic name b") (auto simp: worker_append_def log_at_def split: sum.splits)
  then show ?thesis using inv by simp
qed

lemma produce_batch_inv:
  assumes inv: "broker_inv z b" and run: "produce_batch z now fault req recs b = (r, b')"
    and room: "offsets_room (length recs) b" and size: "40 + length (ProduceBatchRequest.encoded_records req) < 2 ^ 32"
    and filled: "\<forall>rec \<in> set recs. BatchRecord.message rec \<noteq> []"
  shows "broker_inv z b'"
proof (cases "b' = b")
  case False
  let ?name = "ProduceBatchRequest.topic req" and ?part = "ProduceBatchRequest.partition req"
  let ?recs = "map (\<lambda>r. AppendRecord.make (BatchRecord.key r) (BatchRecord.message r)) recs"
  obtain t log where t: "live_topic ?name b = Inr t" "partition_or_throw t ?part = Inr log"
    using run False by (auto simp: produce_batch_def checked_Inr split: sum.splits)
  obtain result log1 where app: "append_encoded_batch z now fault (ProduceBatchRequest.codec req)
      (ProduceBatchRequest.encoded_records req) (ProduceBatchRequest.uncompressed_bytes req) ?recs log = (result, log1)"
    by (metis surj_pair)
  have b': "b' = put_topic (put_log ?part log1 t) b"
    using run by (auto simp: produce_batch_def t app Let_def split: sum.splits)
  have find: "map_of (topics_map b) ?name = Some t" and p: "unat ?part < length (topic_logs t)"
    and log: "log = topic_logs t ! unat ?part"
    using t by (simp_all add: live_topic_Inr partition_or_throw_Inr log_at_Inr)
  have li: "log_inv z log" using topic_inv_log [OF broker_inv_find [OF inv find] p] by (simp add: log)
  have "log_inv z log1 \<and> options' log1 = options' log"
  proof (cases result)
    case (Inl what)
    then show ?thesis using encoded_batch_fail [OF li] app by blast
  next
    case (Inr m)
    then have "append_encoded_batch z now fault (ProduceBatchRequest.codec req) (ProduceBatchRequest.encoded_records req)
      (ProduceBatchRequest.uncompressed_bytes req) ?recs log = (Inr m, log1)" using app by simp
    from encoded_batch_ok [OF li this _ size] broker_room [OF room find p] filled
    show ?thesis by (simp add: log AppendRecord.make_def)
  qed
  then show ?thesis using broker_inv_put_log(1) [OF inv find p] by (simp add: b' log)
qed (use inv in simp)

section \<open>Creating, deleting and retaining topics\<close>

lemma open_logs_inv:
  assumes "open_logs z cfg name (\<lambda>_. []) ps = Inr logs"
  shows "length logs = length ps \<and> (\<forall>i < length logs. log_inv z (logs ! i) \<and>
    options' (logs ! i) = open_options cfg name (of_nat (ps ! i)))"
  using assms
proof (induction ps arbitrary: logs)
  case (Cons p ps)
  then obtain log rest where "open_log z (open_options cfg name (of_nat p)) [] = Inr log"
    "open_logs z cfg name (\<lambda>_. []) ps = Inr rest" "logs = log # rest"
    by (auto simp: checked_Inr)
  then show ?case using Cons.IH open_empty_log by (auto simp: nth_Cons')
qed simp

lemma create_topic_inv:
  assumes inv: "broker_inv z b" and run: "create_topic z fault (\<lambda>_. []) req b = (r, b')"
  shows "broker_inv z b'"
proof (cases "b' = b")
  case False
  let ?name = "CreateTopicRequest.topic req" and ?n = "CreateTopicRequest.partition_count req"
  obtain t where valid: "is_valid_topic_name ?name" "?n \<noteq> 0"
    and t: "open_topic_state z (config b) ?name ?n (\<lambda>_. []) = Inr t" "b' = put_topic t b"
    using run False by (auto simp: create_topic_def Let_def split: if_splits option.splits sum.splits)
  obtain logs where logs: "open_logs z (config b) ?name (\<lambda>_. []) [0..<unat ?n] = Inr logs"
    and eq: "t = TopicState.make ?name ?n 0 False logs"
    using t(1) by (auto simp: open_topic_state_def checked_Inr)
  have "topic_inv z (config b) ?name t"
    using open_logs_inv [OF logs] valid by (simp add: eq topic_inv_def TopicState.make_def word_neq_0_conv)
  then show ?thesis unfolding t(2) by (rule broker_inv_put [OF inv])
qed (use inv in simp)

lemma broker_inv_erase: "broker_inv z b \<Longrightarrow> broker_inv z (b\<lparr>topics_map := map_erase name (topics_map b)\<rparr>)"
  by (auto simp: broker_inv_def map_erase_def dest: map_erase_if_subset [THEN subsetD])

lemma delete_topic_topics:
  assumes "delete_topic now1 now2 dir_fault rewrite_fault req b = (r, b')"
  shows "config b' = config b \<and> (topics_map b' = topics_map b \<or>
    topics_map b' = map_erase (DeleteTopicRequest.topic req) (topics_map b))"
  using assms unfolding delete_topic_def Let_def
  by (auto split: if_splits option.splits prod.splits sum.splits)

lemma delete_topic_inv:
  assumes inv: "broker_inv z b" and run: "delete_topic now1 now2 dir_fault rewrite_fault req b = (r, b')"
  shows "broker_inv z b'"
  using delete_topic_topics [OF run] broker_inv_frame [OF inv] broker_inv_erase [OF inv, of "DeleteTopicRequest.topic req"]
    broker_inv_frame [of z "b\<lparr>topics_map := map_erase (DeleteTopicRequest.topic req) (topics_map b)\<rparr>" b'] by auto

lemma retain_logs_inv:
  assumes "\<And>part. older_first (age part)"
    and "\<forall>i < length logs. log_inv z (logs ! i)"
    and "retain_logs age (\<lambda>_ _. None) policy name logs = (r, logs')"
  shows "length logs' = length logs \<and> (\<forall>i < length logs. log_inv z (logs' ! i) \<and> options' (logs' ! i) = options' (logs ! i))"
  using assms(2,3)
proof (induction logs arbitrary: r logs')
  case (Cons log logs)
  have log: "log_inv z log" and rest: "\<forall>i < length logs. log_inv z (logs ! i)" using Cons.prems(1) by (auto simp: nth_Cons')
  obtain stats log1 where ret: "apply_retention (age (partition_id (options' log))) (\<lambda>_. None) policy log = (Inr stats, log1)"
    "log_inv z log1" "options' log1 = options' log"
    using apply_retention_deletes [OF log assms(1) refl refl refl, where policy = policy] by metis
  obtain r1 logs1 where r1: "retain_logs age (\<lambda>_ _. None) policy name logs = (r1, logs1)"
    by (cases "retain_logs age (\<lambda>_ _. None) policy name logs")
  then have "logs' = log1 # logs1" using Cons.prems(2) ret by simp
  then show ?case using Cons.IH [OF rest r1] ret by (auto simp: nth_Cons')
qed simp

lemma retain_topics_inv:
  assumes "\<And>name part. older_first (age name part)" "\<forall>(name, t) \<in> set ts. topic_inv z cfg name t"
    and "retain_topics age (\<lambda>_ _ _. None) policy filt ts = (r, ts')"
  shows "map fst ts' = map fst ts \<and> (\<forall>(name, t) \<in> set ts'. topic_inv z cfg name t)"
  using assms(2,3)
proof (induction ts arbitrary: r ts')
  case (Cons nt ts)
  obtain name t where nt: "nt = (name, t)" by (cases nt)
  have t: "topic_inv z cfg name t" and rest: "\<forall>(name, t) \<in> set ts. topic_inv z cfg name t"
    using Cons.prems(1) nt by auto
  obtain r1 ts1 where r1: "retain_topics age (\<lambda>_ _ _. None) policy filt ts = (r1, ts1)"
    by (cases "retain_topics age (\<lambda>_ _ _. None) policy filt ts")
  note IH = Cons.IH [OF rest r1]
  obtain r2 logs where r2: "retain_logs (age name) (\<lambda>_ _. None) policy (topic_name t) (topic_logs t) = (r2, logs)"
    by (cases "retain_logs (age name) (\<lambda>_ _. None) policy (topic_name t) (topic_logs t)")
  have "length logs = length (topic_logs t) \<and> (\<forall>i < length (topic_logs t). log_inv z (logs ! i) \<and>
      options' (logs ! i) = options' (topic_logs t ! i))"
    using retain_logs_inv [OF assms(1) _ r2, of z] t by (simp add: topic_inv_def)
  then have "topic_inv z cfg name (t\<lparr>topic_logs := logs\<rparr>)" using t by (simp add: topic_inv_def)
  moreover have "ts' = (name, t) # ts1 \<or> ts' = (name, t\<lparr>topic_logs := logs\<rparr>) # ts1 \<or>
      ts' = (name, t\<lparr>topic_logs := logs\<rparr>) # ts"
    using Cons.prems(2) r1 r2 by (auto simp: nt split: if_splits sum.splits)
  ultimately show ?case using IH t rest nt by auto
qed simp

lemma run_retention_inv:
  assumes inv: "broker_inv z b" and age: "\<And>name part. older_first (age name part)"
    and run: "run_retention age (\<lambda>_ _ _. None) filt b = (r, b')"
  shows "broker_inv z b'"
proof -
  obtain r1 ts where r1: "retain_topics age (\<lambda>_ _ _. None) (retention_policy (config b)) filt (topics_map b) = (r1, ts)"
    by (cases "retain_topics age (\<lambda>_ _ _. None) (retention_policy (config b)) filt (topics_map b)")
  have "map fst ts = map fst (topics_map b) \<and> (\<forall>(name, t) \<in> set ts. topic_inv z (config b) name t)"
    using inv by (intro retain_topics_inv [OF age _ r1]) (simp add: broker_inv_def)
  then have "broker_inv z (b\<lparr>topics_map := ts\<rparr>)" using inv by (simp add: broker_inv_def sorted_map_def)
  moreover have "b' = b \<or> b' = b\<lparr>topics_map := ts\<rparr>"
    using run r1 by (auto simp: run_retention_def Let_def split: if_splits sum.splits)
  ultimately show ?thesis using inv by auto
qed

section \<open>Requests that leave the topics alone\<close>

definition keeps_topics :: "BrokerRuntime \<Rightarrow> BrokerRuntime \<Rightarrow> bool" where
  "keeps_topics b b' \<longleftrightarrow> topics_map b' = topics_map b \<and> config b' = config b"

lemma keeps_topics_refl [simp]: "keeps_topics b b" "keeps_topics b (b\<lparr>group_coordinator := c\<rparr>)"
  by (simp_all add: keeps_topics_def)

lemma keeps_topics_store:
  "store_commit fault grp tpc part off b = (r, b') \<Longrightarrow> keeps_topics b0 b \<Longrightarrow> keeps_topics b0 b'"
  using store_commit_frame by (auto simp: keeps_topics_def)

lemma group_result_keeps: "group_result f r b = (x, b') \<Longrightarrow> keeps_topics b b'"
  by (auto simp: group_result_def split: prod.splits sum.splits)

lemma commit_offset_keeps: "commit_offset fault now1 now2 req b = (r, b') \<Longrightarrow> keeps_topics b b'"
  unfolding commit_offset_def Let_def
  by (auto split: sum.splits prod.splits if_splits dest: keeps_topics_store [OF _ keeps_topics_refl(2)])

lemma join_group_keeps: "join_group now req b = (r, b') \<Longrightarrow> keeps_topics b b'"
  unfolding join_group_def Let_def by (auto split: sum.splits prod.splits dest: group_result_keeps)

lemma sync_group_keeps: "sync_group now1 now2 req b = (r, b') \<Longrightarrow> keeps_topics b b'"
  unfolding sync_group_def Let_def by (auto split: sum.splits prod.splits dest: group_result_keeps)

lemma heartbeat_group_keeps: "heartbeat_group now1 now2 req b = (r, b') \<Longrightarrow> keeps_topics b b'"
  unfolding heartbeat_group_def Let_def by (auto split: sum.splits prod.splits dest: group_result_keeps)

lemma leave_group_keeps: "leave_group now1 now2 req b = (r, b') \<Longrightarrow> keeps_topics b b'"
  unfolding leave_group_def Let_def by (auto split: sum.splits prod.splits dest: group_result_keeps)

lemma commit_group_offset_keeps: "commit_group_offset fault now1 now2 req b = (r, b') \<Longrightarrow> keeps_topics b b'"
  unfolding commit_group_offset_def Let_def
  by (auto split: sum.splits prod.splits if_splits dest: keeps_topics_store [OF _ keeps_topics_refl(2)])

lemma reset_group_offset_keeps: "reset_group_offset fault now1 now2 req b = (r, b') \<Longrightarrow> keeps_topics b b'"
  unfolding reset_group_offset_def Let_def
  by (auto simp: keeps_topics_def split: sum.splits prod.splits if_splits dest: store_commit_frame)

lemma describe_group_keeps: "describe_group now req b = (r, b') \<Longrightarrow> keeps_topics b b'"
  unfolding describe_group_def Let_def by (auto split: sum.splits prod.splits if_splits)

lemma broker_inv_keeps: "broker_inv z b \<Longrightarrow> keeps_topics b b' \<Longrightarrow> broker_inv z b'"
  by (auto simp: keeps_topics_def intro: broker_inv_frame)

section \<open>The broker as a state machine\<close>

text \<open>
  The steps of the broker. The hypotheses are what the environment grants: a new topic's directories are
  empty, offsets do not run out, file ages follow the order of the segments, retention meets no I/O failure,
  and a batch request comes from the decoder, which rejects empty messages and cannot carry more than a
  frame. Failures of appends, manifests, commits and topic removals may happen at any step.
\<close>

inductive broker_step :: "zstd \<Rightarrow> BrokerRuntime \<Rightarrow> BrokerRuntime \<Rightarrow> bool" for z where
  step_create: "create_topic z fault (\<lambda>_. []) creq b = (r1, b') \<Longrightarrow> broker_step z b b'"
| step_produce: "produce_inline env age (\<lambda>_. None) preq b = (r2, b') \<Longrightarrow> offsets_room 1 b \<Longrightarrow> older_first age \<Longrightarrow>
    broker_step z b b'"
| step_async: "async_produce enqueue preq b = (r3, b') \<Longrightarrow> broker_step z b b'"
| step_worker: "offsets_room (length jobs) b \<Longrightarrow> older_first age \<Longrightarrow>
    broker_step z b (worker_append env age (\<lambda>_. None) name part jobs b)"
| step_batch: "produce_batch z now batch_fault breq recs b = (r4, b') \<Longrightarrow> offsets_room (length recs) b \<Longrightarrow>
    40 + length (ProduceBatchRequest.encoded_records breq) < 2 ^ 32 \<Longrightarrow>
    \<forall>rec \<in> set recs. BatchRecord.message rec \<noteq> [] \<Longrightarrow> broker_step z b b'"
| step_commit: "commit_offset cfault t1 t2 oreq b = (r5, b') \<Longrightarrow> broker_step z b b'"
| step_join: "join_group t1 jreq b = (r6, b') \<Longrightarrow> broker_step z b b'"
| step_sync: "sync_group t1 t2 sreq b = (r7, b') \<Longrightarrow> broker_step z b b'"
| step_heartbeat: "heartbeat_group t1 t2 hreq b = (r8, b') \<Longrightarrow> broker_step z b b'"
| step_leave: "leave_group t1 t2 lreq b = (r9, b') \<Longrightarrow> broker_step z b b'"
| step_group_commit: "commit_group_offset cfault t1 t2 greq b = (r10, b') \<Longrightarrow> broker_step z b b'"
| step_reset: "reset_group_offset cfault t1 t2 rreq b = (r11, b') \<Longrightarrow> broker_step z b b'"
| step_describe_group: "describe_group t1 dreq b = (r12, b') \<Longrightarrow> broker_step z b b'"
| step_delete: "delete_topic t1 t2 dir_fault rewrite_fault xreq b = (r13, b') \<Longrightarrow> broker_step z b b'"
| step_retention: "run_retention ages (\<lambda>_ _ _. None) filt b = (r14, b') \<Longrightarrow> (\<And>n p. older_first (ages n p)) \<Longrightarrow>
    broker_step z b b'"

inductive broker_reach :: "zstd \<Rightarrow> BrokerRuntime \<Rightarrow> bool" for z where
  broker_start: "broker_reach z (BrokerRuntime.make cfg [] store empty_coordinator)"
| broker_next: "broker_reach z b \<Longrightarrow> broker_step z b b' \<Longrightarrow> broker_reach z b'"

lemmas request_keeps = commit_offset_keeps join_group_keeps sync_group_keeps heartbeat_group_keeps leave_group_keeps
  commit_group_offset_keeps reset_group_offset_keeps describe_group_keeps

lemma broker_step_inv: "broker_step z b b' \<Longrightarrow> broker_inv z b \<Longrightarrow> broker_inv z b'"
proof (induction rule: broker_step.induct)
  case (step_create fault creq b r1 b')
  then show ?case using create_topic_inv by blast
next
  case (step_produce env age preq b r2 b')
  then show ?case using produce_inline_inv by blast
next
  case (step_async enqueue preq b r3 b')
  then show ?case using async_produce_inv by blast
next
  case (step_worker jobs b age env name part)
  then show ?case using worker_append_inv by blast
next
  case (step_batch now batch_fault breq recs b r4 b')
  then show ?case using produce_batch_inv by blast
next
  case (step_delete t1 t2 dir_fault rewrite_fault xreq b r13 b')
  then show ?case using delete_topic_inv by blast
next
  case (step_retention ages filt b r14 b')
  then show ?case using run_retention_inv by blast
qed (blast intro: broker_inv_keeps request_keeps)+

lemma broker_reach_inv: "broker_reach z b \<Longrightarrow> broker_inv z b"
proof (induction rule: broker_reach.induct)
  case (broker_next b b')
  then show ?case by (blast intro: broker_step_inv)
qed (simp add: broker_inv_def BrokerRuntime.make_def)

section \<open>Properties\<close>

text \<open>
  C12: the broker's state stays consistent under every sequence of requests and appends. In every reachable
  state each topic has one open log per partition and every log satisfies its invariant; routing by key or
  round robin picks an existing partition of the topic, and every partition number below the count leads
  to the log opened for that topic and partition.
\<close>

theorem broker_partitions_consistent:
  assumes "broker_reach z b" "map_of (topics_map b) name = Some t"
  shows "length (topic_logs t) = unat (topic_partition_count t) \<and>
    (\<exists>log. log_at t (produce_target req t) = Inr log \<and> log_inv z log) \<and>
    (\<forall>part < topic_partition_count t. \<exists>log. partition_of name part b = Inr log \<and> log_inv z log \<and>
       PartitionLogOptions.topic (options' log) = name \<and> partition_id (options' log) = part)"
proof -
  have inv: "topic_inv z (config b) name t" using broker_inv_find [OF broker_reach_inv [OF assms(1)] assms(2)] .
  have len: "unat part < length (topic_logs t)" if "part < topic_partition_count t" for part
    using that inv by (simp add: topic_inv_def word_less_nat_alt)
  have "\<exists>log. partition_of name part b = Inr log \<and> log_inv z log \<and>
       PartitionLogOptions.topic (options' log) = name \<and> partition_id (options' log) = part"
    if "part < topic_partition_count t" for part
    using that len [OF that] inv assms(2)
    by (auto simp: partition_of_def checked_Inr live_topic_Inr partition_or_throw_Inr log_at_Inr topic_inv_def
        open_options_def PartitionLogOptions.make_def)
  moreover have "\<exists>log. log_at t (produce_target req t) = Inr log \<and> log_inv z log"
    using len [OF topic_inv_routing(1) [OF inv]] topic_inv_log [OF inv] by (auto simp: log_at_Inr)
  ultimately show ?thesis using inv by (simp add: topic_inv_def)
qed

theorem broker_partitions_consistent_witness:
  "let b = snd (create_topic zstd_stored None (\<lambda>_. []) (CreateTopicRequest.make ''t'' 3)
         (BrokerRuntime.make sample_config [] sample_store empty_coordinator))
   in \<exists>t. map_of (topics_map b) ''t'' = Some t \<and> length (topic_logs t) = 3 \<and>
      (\<exists>log. log_at t (produce_target (ProduceRequest.make ''t'' [7] [8]) t) = Inr log \<and> log_inv zstd_stored log)"
proof -
  let ?b0 = "BrokerRuntime.make sample_config [] sample_store empty_coordinator"
  let ?r = "create_topic zstd_stored None (\<lambda>_. []) (CreateTopicRequest.make ''t'' 3) ?b0"
  define b where "b = snd ?r"
  have reach: "broker_reach zstd_stored b"
    using broker_next [OF broker_start step_create, of zstd_stored None "CreateTopicRequest.make ''t'' 3" sample_config
        sample_store "fst ?r" b] by (simp add: b_def)
  have "is_valid_topic_name ''t''" by (simp add: is_valid_topic_name_def less_eq_char_def)
  moreover have "[0..<unat (3 :: u16)] = [0, 1, 2]" by (simp add: upt_rec)
  ultimately have "\<exists>t. map_of (topics_map b) ''t'' = Some t \<and> topic_partition_count t = 3"
    by (simp add: b_def create_topic_def Let_def CreateTopicRequest.make_def sample_config_def BrokerConfig.make_def
        BrokerRuntime.make_def open_topic_state_def open_log_def open_options_def PartitionLogOptions.make_def
        TopicState.make_def)
  then obtain t where t: "map_of (topics_map b) ''t'' = Some t" "topic_partition_count t = 3" by blast
  from broker_partitions_consistent [OF reach t(1), of "ProduceRequest.make ''t'' [7] [8]"] t
  show ?thesis unfolding Let_def b_def [symmetric] by auto
qed

end
