(* ===== verification/Bolt_Session_Properties.thy ===== *)
theory Bolt_Session_Properties
  imports Bolt_Session Bolt_Broker_Invariant "HOL-Library.Sublist"
begin

text \<open>
  What a connection promises its client: every request is answered once, in order and under its own
  correlation id; nothing of the broker is touched before the client has authenticated; and a connection
  has at most one long poll.
\<close>

section \<open>Case analysis of the handlers\<close>

lemma decoded_or_error_split:
  "P (decoded_or_error w cid d k) \<longleftrightarrow>
     (\<forall>err what. d = Inl (err, what) \<longrightarrow> P (write_error w cid err what True, w)) \<and> (\<forall>x. d = Inr x \<longrightarrow> P (k x))"
  by (auto simp: decoded_or_error_def split: sum.splits)

lemma require_split:
  "P (require_topic w cid tpc r) \<longleftrightarrow>
     (is_valid_topic_name tpc \<longrightarrow> P r) \<and>
     (\<not> is_valid_topic_name tpc \<longrightarrow> P (write_error w cid MalformedPayload ''invalid topic name'' True, w))"
  "P (require_group w cid grp r) \<longleftrightarrow>
     (is_valid_group_name grp \<longrightarrow> P r) \<and>
     (\<not> is_valid_group_name grp \<longrightarrow> P (write_error w cid InvalidGroup ''invalid consumer group name'' True, w))"
  "P (require_auth w cid r) \<longleftrightarrow>
     (authenticated (session w) \<longrightarrow> P r) \<and>
     (\<not> authenticated (session w) \<longrightarrow> P (write_error w cid Unauthorized ''authentication required'' True, w))"
  by (simp_all add: require_topic_def require_group_def require_auth_def)

lemma answer_split:
  "P (answer w cid ft enc r) \<longleftrightarrow>
     (\<forall>e. fst r = Inl e \<longrightarrow> P (error_reply (w\<lparr>runtime := snd r\<rparr>) cid e, w\<lparr>runtime := snd r\<rparr>)) \<and>
     (\<forall>x. fst r = Inr x \<longrightarrow> P (write_frame (w\<lparr>runtime := snd r\<rparr>) ft cid (enc x) False, w\<lparr>runtime := snd r\<rparr>))"
  by (auto simp: answer_def Let_def split: sum.splits)

lemmas handler_splits = decoded_or_error_split require_split answer_split

lemmas group_handler_defs = handle_offset_commit_def handle_join_group_def handle_sync_group_def
  handle_heartbeat_def handle_leave_group_def handle_group_offset_commit_def
  handle_describe_group_def handle_reset_group_offset_def

lemmas admin_handler_defs = handle_health_def handle_metadata_def handle_create_topic_def handle_list_topics_def
  handle_describe_topic_def handle_delete_topic_def handle_run_retention_def

text \<open>Every handler answers the frame it got, with an error or with the response of its type.\<close>

definition reply_for :: "FrameType \<Rightarrow> u64 \<Rightarrow> Reply \<Rightarrow> bool" where
  "reply_for rt cid r =
     (case r of
        Respond _ ft c _ _ \<Rightarrow> c = cid \<and> (ft = ErrorResponse \<or> frame_type_value ft = frame_type_value rt + 1)
      | AwaitAppend c \<Rightarrow> c = cid \<and> rt = ProduceRequest
      | AwaitRecords c _ _ \<Rightarrow> c = cid \<and> rt = FetchRequest)"

lemma reply_for_simps [simp]:
  "reply_for rt cid (write_error w c err what b) \<longleftrightarrow> c = cid"
  "reply_for rt cid (error_reply w c e) \<longleftrightarrow> c = cid"
  "reply_for rt cid (write_frame w ft c pl b) \<longleftrightarrow>
     c = cid \<and> (ft = ErrorResponse \<or> frame_type_value ft = frame_type_value rt + 1)"
  "reply_for rt cid (AwaitAppend c) \<longleftrightarrow> c = cid \<and> rt = ProduceRequest"
  "reply_for rt cid (AwaitRecords c request wid) \<longleftrightarrow> c = cid \<and> rt = FetchRequest"
  "reply_for FetchRequest cid (write_fetch_response w c resp) \<longleftrightarrow> c = cid"
  "reply_for ProduceRequest cid (produce_completed c result w) \<longleftrightarrow> c = cid"
  by (cases e; auto simp: reply_for_def write_error_def write_frame_def write_fetch_response_def produce_completed_def Let_def
      split: sum.splits)+

lemma fetch_reply:
  "reply_for FetchRequest cid (fst (fetch_or_wait limits env cid request w))"
  "reply_for FetchRequest cid (fst (poll_reply env cid request w))"
  "reply_for FetchRequest cid (fst (poll_expired env cid request wid w))"
proof -
  have poll: "reply_for FetchRequest cid (fst (register_long_poll limits cid request off w))" for off
    by (auto simp: register_long_poll_def Let_def split: prod.splits option.splits)
  have plain: "reply_for FetchRequest cid (fst (fetch_plain limits env cid request w))"
    using poll by (auto simp: fetch_plain_def split: sum.splits)
  then show "reply_for FetchRequest cid (fst (fetch_or_wait limits env cid request w))"
    by (auto simp: fetch_or_wait_def split: sum.splits option.splits)
  show *: "reply_for FetchRequest cid (fst (poll_reply env cid request w))" for w
    by (auto simp: poll_reply_def Let_def split: sum.splits)
  show "reply_for FetchRequest cid (fst (poll_expired env cid request wid w))"
    unfolding poll_expired_def by (rule *)
qed

lemma group_reply:
  "reply_for OffsetCommitRequest (frame_cid f) (fst (handle_offset_commit env f w))"
  "reply_for JoinGroupRequest (frame_cid f) (fst (handle_join_group env f w))"
  "reply_for SyncGroupRequest (frame_cid f) (fst (handle_sync_group env f w))"
  "reply_for HeartbeatRequest (frame_cid f) (fst (handle_heartbeat env f w))"
  "reply_for LeaveGroupRequest (frame_cid f) (fst (handle_leave_group env f w))"
  "reply_for GroupOffsetCommitRequest (frame_cid f) (fst (handle_group_offset_commit env f w))"
  "reply_for DescribeGroupRequest (frame_cid f) (fst (handle_describe_group env f w))"
  "reply_for ResetGroupOffsetRequest (frame_cid f) (fst (handle_reset_group_offset env f w))"
  unfolding group_handler_defs by (simp_all split: handler_splits)

lemma admin_reply:
  "reply_for HealthRequest (frame_cid f) (fst (handle_health env f w))"
  "reply_for AuthRequest (frame_cid f) (fst (handle_auth f w))"
  "reply_for MetadataRequest (frame_cid f) (fst (handle_metadata f w))"
  "reply_for CreateTopicRequest (frame_cid f) (fst (handle_create_topic env f w))"
  "reply_for ListTopicsRequest (frame_cid f) (fst (handle_list_topics f w))"
  "reply_for DescribeTopicRequest (frame_cid f) (fst (handle_describe_topic f w))"
  "reply_for DeleteTopicRequest (frame_cid f) (fst (handle_delete_topic env f w))"
  "reply_for RunRetentionRequest (frame_cid f) (fst (handle_run_retention env f w))"
  unfolding admin_handler_defs handle_auth_def Let_def by (simp_all split: handler_splits)

lemma data_reply:
  "reply_for ProduceRequest (frame_cid f) (fst (handle_produce limits env f w))"
  "reply_for ProduceBatchRequest (frame_cid f) (fst (handle_produce_batch limits env f w))"
  "reply_for FetchRequest (frame_cid f) (fst (handle_fetch limits env f w))"
proof -
  show "reply_for ProduceRequest (frame_cid f) (fst (handle_produce limits env f w))"
    unfolding handle_produce_def by (auto simp: Let_def split: handler_splits prod.splits sum.splits)
  show "reply_for ProduceBatchRequest (frame_cid f) (fst (handle_produce_batch limits env f w))"
    unfolding handle_produce_batch_def Let_def
    by (auto split: handler_splits prod.splits sum.splits BrokerError.splits)
  show "reply_for FetchRequest (frame_cid f) (fst (handle_fetch limits env f w))"
    unfolding handle_fetch_def using fetch_reply(1) by (simp split: handler_splits)
qed

lemma handle_frame_reply: "reply_for (frame_type (header f)) (frame_cid f) (fst (handle_frame limits env f w))"
  using group_reply admin_reply data_reply
  by (cases "frame_type (header f)") (simp_all add: handle_frame_def)

section \<open>One answer for each request\<close>

definition answers :: "FrameType \<times> u64 \<Rightarrow> FrameType \<times> u64 \<Rightarrow> bool" where
  "answers request response \<longleftrightarrow> snd response = snd request \<and>
     (fst response = ErrorResponse \<or> frame_type_value (fst response) = frame_type_value (fst request) + 1)"

text \<open>The request that a connection is working on.\<close>

fun awaited :: "Phase \<Rightarrow> (FrameType \<times> u64) list" where
  "awaited (ReadingPayload h) = [(frame_type h, correlation_id h)]"
| "awaited (AwaitingAppend cid) = [(ProduceRequest, cid)]"
| "awaited (Polling cid request wid) = [(FetchRequest, cid)]"
| "awaited _ = []"

definition answered_inv :: "Connection \<Rightarrow> bool" where
  "answered_inv c \<longleftrightarrow> (\<exists>handled rest. received c = handled @ rest \<and> list_all2 answers handled (responses c) \<and>
     length rest \<le> 1 \<and> (phase c \<noteq> Closed \<longrightarrow> rest = awaited (phase c)))"

lemma answered_invI:
  assumes "received c = handled @ awaited (phase c)" "list_all2 answers handled (responses c)"
  shows "answered_inv c"
  using assms unfolding answered_inv_def
  by (intro exI [of _ handled] exI [of _ "awaited (phase c)"]) (cases "phase c", simp_all)

lemma answered_invE:
  assumes "answered_inv c" "phase c \<noteq> Closed"
  obtains handled where "received c = handled @ awaited (phase c)" "list_all2 answers handled (responses c)"
  using assms by (auto simp: answered_inv_def)

lemma start_reply_inv:
  assumes "received c = handled @ [(rt, cid)]" "list_all2 answers handled (responses c)" "reply_for rt cid reply"
  shows "answered_inv (start_reply reply w c)"
proof (cases reply)
  case (Respond ver ft cid' pl close_after_write)
  then have "list_all2 answers (handled @ [(rt, cid)]) (responses c @ [(ft, cid')])"
    using assms(2,3) by (intro list_all2_appendI) (auto simp: reply_for_def answers_def)
  then show ?thesis using assms(1) Respond by (intro answered_invI [of _ "handled @ [(rt, cid)]"]) simp_all
qed (use assms in \<open>auto simp: reply_for_def intro: answered_invI [of _ handled]\<close>)

lemma closed_inv:
  assumes "answered_inv c" "received c' = received c" "responses c' = responses c" "phase c' = Closed"
  shows "answered_inv c'"
  using assms by (auto simp: answered_inv_def)

lemma read_header_reply:
  assumes "read_header bs w = (Inl reply, w')" "length bs = unat kFrameHeaderBytes"
  shows "reply_for (frame_type_cast (read_u16_be bs 6)) (read_u64_be bs 16) reply"
proof -
  have "decoded_header (decode_header bs mx) = read_header_fields bs" for mx
    using assms(2) by (simp add: decode_header_def Let_def)
  then show ?thesis
    using assms(1) by (auto simp: read_header_def Let_def read_header_fields_def split: if_splits)
qed

lemma connection_step_answered:
  assumes "connection_step limits c c'" "answered_inv c"
  shows "answered_inv c'"
  using assms(1)
proof cases
  case (header_rejected bs reply w)
  then obtain handled where h: "received c = handled" "list_all2 answers handled (responses c)"
    using answered_invE [OF assms(2)] by auto
  then show ?thesis
    unfolding header_rejected(1) using read_header_reply [OF header_rejected(4,3)]
    by (intro start_reply_inv [of _ handled]) simp_all
next
  case (header_read bs h w)
  then obtain handled where "received c = handled" "list_all2 answers handled (responses c)"
    using answered_invE [OF assms(2)] by auto
  then show ?thesis unfolding header_read(1) by (intro answered_invI [of _ handled]) simp_all
next
  case (frame_read h pl env reply w)
  then obtain handled where "received c = handled @ [(frame_type h, correlation_id h)]" "list_all2 answers handled (responses c)"
    using answered_invE [OF assms(2)] by auto
  moreover have "reply_for (frame_type h) (correlation_id h) reply"
    using handle_frame_reply [of "Frame.make h pl" limits env "world c"] frame_read(4) by (simp add: Frame.make_def)
  ultimately show ?thesis unfolding frame_read(1) by (rule start_reply_inv)
next
  case (append_completed cid result)
  then obtain handled where "received c = handled @ [(ProduceRequest, cid)]" "list_all2 answers handled (responses c)"
    using answered_invE [OF assms(2)] by auto
  then show ?thesis unfolding append_completed(1) by (rule start_reply_inv) simp
next
  case (poll_woken cid request wid env reply w)
  then obtain handled where "received c = handled @ [(FetchRequest, cid)]" "list_all2 answers handled (responses c)"
    using answered_invE [OF assms(2)] by auto
  then show ?thesis
    unfolding poll_woken(1) using fetch_reply(2) [of cid env request "world c"] poll_woken(3) by (intro start_reply_inv) simp_all
next
  case (poll_timed_out cid request wid env reply w)
  then obtain handled where "received c = handled @ [(FetchRequest, cid)]" "list_all2 answers handled (responses c)"
    using answered_invE [OF assms(2)] by auto
  then show ?thesis
    unfolding poll_timed_out(1) using fetch_reply(3) [of cid env request wid "world c"] poll_timed_out(3)
    by (intro start_reply_inv) simp_all
next
  case (written bs)
  then obtain handled where "received c = handled" "list_all2 answers handled (responses c)"
    using answered_invE [OF assms(2)] by auto
  then show ?thesis unfolding written(1) by (intro answered_invI [of _ handled]) simp_all
next
  case (others b ws)
  then show ?thesis using assms(2) by (simp add: answered_inv_def)
qed (auto intro: closed_inv [OF assms(2)])

lemma opened_simps [simp]:
  "world (opened conn ws b) = World.make (new_session conn b) ws b" "phase (opened conn ws b) = ReadingHeader"
  "received (opened conn ws b) = []" "responses (opened conn ws b) = []"
  by (simp_all add: opened_def Connection.make_def)

lemma connection_reach_answered: "connection_reach limits (opened conn ws b) c \<Longrightarrow> answered_inv c"
  by (induction rule: connection_reach.induct)
    (auto intro: connection_step_answered answered_invI [of _ "[]"])

section \<open>At most one long poll\<close>

definition waiter_of :: "Phase \<Rightarrow> u64 option" where
  "waiter_of p = (case p of Polling _ _ wid \<Rightarrow> Some wid | _ \<Rightarrow> None)"

definition poll_inv :: "Connection \<Rightarrow> bool" where
  "poll_inv c \<longleftrightarrow> active_waiter_id (session (world c)) = waiter_of (phase c)"

text \<open>What a handler may do to the waiter of a session that has none.\<close>

definition polls_well :: "Reply \<times> World \<Rightarrow> bool" where
  "polls_well r \<longleftrightarrow> active_waiter_id (session (snd r)) =
     (case fst r of AwaitRecords _ _ wid \<Rightarrow> Some wid | _ \<Rightarrow> None)"

lemma polls_well_simps [simp]:
  "polls_well (write_error w' cid err what b, w) \<longleftrightarrow> active_waiter_id (session w) = None"
  "polls_well (error_reply w' cid e, w) \<longleftrightarrow> active_waiter_id (session w) = None"
  "polls_well (write_frame w' ft cid pl b, w) \<longleftrightarrow> active_waiter_id (session w) = None"
  "polls_well (AwaitAppend cid, w) \<longleftrightarrow> active_waiter_id (session w) = None"
  "polls_well (AwaitRecords cid request wid, w) \<longleftrightarrow> active_waiter_id (session w) = Some wid"
  "polls_well (write_fetch_response w' cid resp, w) \<longleftrightarrow> active_waiter_id (session w) = None"
  "polls_well (produce_completed cid result w', w) \<longleftrightarrow> active_waiter_id (session w) = None"
  by (cases e; auto simp: polls_well_def write_error_def write_frame_def write_fetch_response_def produce_completed_def Let_def
      split: sum.splits)+

lemma fetch_polls:
  "active_waiter_id (session w) = None \<Longrightarrow> polls_well (fetch_or_wait limits env cid request w)"
  "polls_well (poll_reply env cid request w)" "polls_well (poll_expired env cid request wid w)"
proof -
  show poll: "polls_well (poll_reply env cid request w)" for w
    by (auto simp: poll_reply_def Let_def split: sum.splits)
  then show "polls_well (poll_expired env cid request wid w)" by (simp add: poll_expired_def)
  show "active_waiter_id (session w) = None \<Longrightarrow> polls_well (fetch_or_wait limits env cid request w)"
    by (auto simp: fetch_or_wait_def fetch_plain_def register_long_poll_def Let_def
        split: sum.splits option.splits prod.splits)
qed

lemma handle_frame_polls:
  assumes "active_waiter_id (session w) = None"
  shows "polls_well (handle_frame limits env f w)"
proof -
  have "polls_well (handle_produce limits env f w)"
    unfolding handle_produce_def using assms by (auto simp: Let_def split: handler_splits prod.splits sum.splits)
  moreover have "polls_well (handle_produce_batch limits env f w)"
    unfolding handle_produce_batch_def Let_def using assms
    by (auto split: handler_splits prod.splits sum.splits BrokerError.splits)
  moreover have "polls_well (handle_fetch limits env f w)"
    unfolding handle_fetch_def using assms fetch_polls(1) by (simp split: handler_splits)
  moreover have "polls_well (handle_auth f w)"
    unfolding handle_auth_def Let_def using assms by (simp split: handler_splits)
  ultimately show ?thesis
    using assms
    by (cases "frame_type (header f)")
      (simp_all add: handle_frame_def group_handler_defs admin_handler_defs Let_def split: handler_splits)
qed

lemma start_reply_phase:
  "waiter_of (phase (start_reply reply w c)) = (case reply of AwaitRecords _ _ wid \<Rightarrow> Some wid | _ \<Rightarrow> None)"
  "world (start_reply reply w c) = w"
  by (cases reply; simp add: waiter_of_def)+

lemma start_reply_polls: "polls_well (reply, w) \<Longrightarrow> poll_inv (start_reply reply w c)"
  by (simp add: poll_inv_def start_reply_phase polls_well_def)

lemma read_header_session:
  assumes "read_header bs w = (r, w')"
  shows "w' = w\<lparr>session := (session w)\<lparr>protocol_version := protocol_version (session w')\<rparr>\<rparr>"
    "r = Inl reply \<Longrightarrow> w' = w \<and> (\<exists>cid err what. reply = write_error w cid err what True)"
  using assms by (auto simp: read_header_def Let_def split: if_splits)

lemma connection_step_polls:
  assumes "connection_step limits c c'" "poll_inv c"
  shows "poll_inv c'"
  using assms(1)
proof cases
  case (header_rejected bs reply w)
  then have "active_waiter_id (session (world c)) = None" using assms(2) by (simp add: poll_inv_def waiter_of_def)
  then show ?thesis
    unfolding header_rejected(1) using read_header_session(2) [OF header_rejected(4) refl] by (auto intro!: start_reply_polls)
next
  case (header_read bs h w)
  have "active_waiter_id (session w) = active_waiter_id (session (world c))"
    by (subst read_header_session(1) [OF header_read(4)]) simp
  then show ?thesis using assms(2) header_read(2) by (simp add: header_read(1) poll_inv_def waiter_of_def)
next
  case (frame_read h pl env reply w)
  then have "active_waiter_id (session (world c)) = None" using assms(2) by (simp add: poll_inv_def waiter_of_def)
  from handle_frame_polls [OF this, of limits env "Frame.make h pl"] show ?thesis
    unfolding frame_read(1) by (intro start_reply_polls) (simp add: frame_read(4))
next
  case (append_completed cid result)
  then have "active_waiter_id (session (world c)) = None" using assms(2) by (simp add: poll_inv_def waiter_of_def)
  then show ?thesis unfolding append_completed(1) by (intro start_reply_polls) simp
next
  case (poll_woken cid request wid env reply w)
  then show ?thesis unfolding poll_woken(1) using fetch_polls(2) [of env cid request "world c"]
    by (intro start_reply_polls) simp
next
  case (poll_timed_out cid request wid env reply w)
  then show ?thesis unfolding poll_timed_out(1) using fetch_polls(3) [of env cid request wid "world c"]
    by (intro start_reply_polls) simp
next
  case (others b ws)
  then show ?thesis using assms(2) by (simp add: poll_inv_def)
qed (use assms(2) in \<open>auto simp: poll_inv_def waiter_of_def cancel_active_waiter_def split: option.splits\<close>)

lemma connection_reach_polls: "connection_reach limits (opened conn ws b) c \<Longrightarrow> poll_inv c"
proof (induction rule: connection_reach.induct)
  case connection_start
  show ?case by (simp add: poll_inv_def waiter_of_def World.make_def new_session_def Session.make_def)
next
  case (connection_next c c')
  then show ?case by (blast intro: connection_step_polls)
qed

section \<open>Nothing before authentication\<close>

definition gated :: "World \<Rightarrow> Frame \<Rightarrow> Reply \<times> World \<Rightarrow> bool" where
  "gated w f r \<longleftrightarrow>
     runtime (snd r) = runtime w \<and> registry (snd r) = registry w \<and>
     (case fst r of
        Respond _ ft _ _ _ \<Rightarrow>
          \<not> authenticated (session (snd r)) \<and> (ft = ErrorResponse \<or> ft = HealthResponse) \<or>
          authenticated (session (snd r)) \<and> ft = AuthResponse \<and> frame_type (header f) = AuthRequest \<and>
          (\<exists>request. decode_auth_request (payload f) = Inr request \<and> authenticate (AuthRequest.token request) (runtime w))
      | _ \<Rightarrow> False)"

lemma gated_simps [simp]:
  "\<not> authenticated (session w) \<Longrightarrow> gated w f (write_error w' cid err what b, w)"
  "\<not> authenticated (session w) \<Longrightarrow> gated w f (write_frame w' HealthResponse cid pl b, w)"
  "gated w f (write_frame w' AuthResponse cid pl b, w\<lparr>session := s\<rparr>) \<longleftrightarrow> authenticated s \<and> frame_type (header f) = AuthRequest \<and>
     (\<exists>request. decode_auth_request (payload f) = Inr request \<and> authenticate (AuthRequest.token request) (runtime w))"
  by (simp_all add: gated_def write_error_def write_frame_def Let_def)

lemma handle_frame_gated:
  assumes "\<not> authenticated (session w)"
  shows "gated w f (handle_frame limits env f w)"
proof -
  have "gated w f (handle_produce limits env f w)"
    unfolding handle_produce_def using assms by (simp split: handler_splits)
  moreover have "gated w f (handle_produce_batch limits env f w)"
    unfolding handle_produce_batch_def Let_def using assms by (simp split: handler_splits)
  moreover have "gated w f (handle_fetch limits env f w)"
    unfolding handle_fetch_def using assms by (simp split: handler_splits)
  moreover have "gated w f (handle_auth f w)" if "frame_type (header f) = AuthRequest"
    unfolding handle_auth_def Let_def using assms that
    by (simp split: handler_splits)
  moreover have "gated w f (handle_health env f w)"
    unfolding handle_health_def using assms by (simp split: handler_splits)
  ultimately show ?thesis
    using assms
    by (cases "frame_type (header f)")
      (simp_all add: handle_frame_def group_handler_defs handle_metadata_def handle_create_topic_def handle_list_topics_def
        handle_describe_topic_def handle_delete_topic_def handle_run_retention_def Let_def split: handler_splits)
qed

text \<open>Authentication is never lost.\<close>

lemma fetch_keeps_auth:
  "authenticated (session (snd (fetch_or_wait limits env cid request w))) = authenticated (session w)"
  "authenticated (session (snd (poll_reply env cid request w))) = authenticated (session w)"
  "authenticated (session (snd (poll_expired env cid request wid w))) = authenticated (session w)"
  by (auto simp: fetch_or_wait_def fetch_plain_def register_long_poll_def poll_reply_def poll_expired_def Let_def
      split: sum.splits option.splits prod.splits)

lemma handle_frame_keeps_auth:
  assumes "authenticated (session w)"
  shows "authenticated (session (snd (handle_frame limits env f w)))"
proof -
  have "authenticated (session (snd (handle_produce limits env f w)))"
    unfolding handle_produce_def using assms by (auto simp: Let_def split: handler_splits prod.splits sum.splits)
  moreover have "authenticated (session (snd (handle_produce_batch limits env f w)))"
    unfolding handle_produce_batch_def Let_def using assms
    by (auto split: handler_splits prod.splits sum.splits BrokerError.splits)
  moreover have "authenticated (session (snd (handle_fetch limits env f w)))"
    unfolding handle_fetch_def using assms fetch_keeps_auth(1) by (simp split: handler_splits)
  ultimately show ?thesis
    using assms
    by (cases "frame_type (header f)")
      (simp_all add: handle_frame_def group_handler_defs admin_handler_defs handle_auth_def Let_def split: handler_splits)
qed

definition auth_inv :: "BrokerConfig \<Rightarrow> Connection \<Rightarrow> bool" where
  "auth_inv cfg c \<longleftrightarrow>
     authenticated (session (world c)) \<or>
     config (runtime (world c)) = cfg \<and> set (map fst (responses c)) \<subseteq> {ErrorResponse, HealthResponse} \<and>
     (case phase c of AwaitingAppend _ \<Rightarrow> False | Polling _ _ _ \<Rightarrow> False | _ \<Rightarrow> True)"

lemma start_reply_world: "world (start_reply reply w c) = w"
  by (cases reply) simp_all

lemma start_error_auth:
  "auth_inv cfg c \<Longrightarrow> auth_inv cfg (start_reply (write_error w cid err what b) (world c) (c\<lparr>received := rs\<rparr>))"
  by (auto simp: auth_inv_def write_error_def write_frame_def Let_def)

lemma connection_step_auth:
  assumes "connection_step limits c c'" "auth_inv cfg c"
  shows "auth_inv cfg c'"
  using assms(1)
proof cases
  case (header_rejected bs reply w)
  then show ?thesis
    unfolding header_rejected(1) using read_header_session(2) [OF header_rejected(4) refl] start_error_auth [OF assms(2)] by auto
next
  case (header_read bs h w)
  have "authenticated (session w) = authenticated (session (world c))" "runtime w = runtime (world c)"
    by (subst read_header_session(1) [OF header_read(4)], simp)+
  then show ?thesis using assms(2) by (auto simp: header_read(1) auth_inv_def)
next
  case (frame_read h pl env reply w)
  show ?thesis
  proof (cases "authenticated (session (world c))")
    case True
    then show ?thesis
      using handle_frame_keeps_auth [OF True, of limits env "Frame.make h pl"] frame_read(4)
      by (simp add: frame_read(1) auth_inv_def start_reply_world)
  next
    case False
    then show ?thesis
      using handle_frame_gated [OF False, of "Frame.make h pl" limits env] assms(2)
      unfolding frame_read(1,4) by (cases reply) (auto simp: auth_inv_def gated_def)
  qed
next
  case (append_completed cid result)
  then show ?thesis using assms(2) by (auto simp: auth_inv_def start_reply_world)
next
  case (poll_woken cid request wid env reply w)
  then show ?thesis
    using assms(2) fetch_keeps_auth(2) [of env cid request "world c"] by (auto simp: auth_inv_def start_reply_world)
next
  case (poll_timed_out cid request wid env reply w)
  then show ?thesis
    using assms(2) fetch_keeps_auth(3) [of env cid request wid "world c"] by (auto simp: auth_inv_def start_reply_world)
next
  case (others b ws)
  then show ?thesis using assms(2) by (auto simp: auth_inv_def)
qed (use assms(2) in \<open>auto simp: auth_inv_def cancel_active_waiter_def split: option.splits\<close>)

lemma connection_reach_auth: "connection_reach limits (opened conn ws b) c \<Longrightarrow> auth_inv (config b) c"
proof (induction rule: connection_reach.induct)
  case connection_start
  show ?case by (simp add: auth_inv_def World.make_def)
next
  case (connection_next c c')
  then show ?case by (blast intro: connection_step_auth)
qed

section \<open>Properties\<close>

text \<open>
  C7: every request is answered once. In every state of a connection the frames sent so far answer the
  headers read so far, in order: each carries the correlation id of its request and is an error or the
  response type of the request. At most one request is still open, none while the connection waits for a
  header or writes, and no further request is read while one is open.
\<close>

theorem requests_answered_in_order:
  assumes "connection_reach limits (opened conn ws b) c"
  shows "\<exists>handled rest. received c = handled @ rest \<and> list_all2 answers handled (responses c) \<and> length rest \<le> 1 \<and>
    (phase c = ReadingHeader \<or> (\<exists>bs last. phase c = Writing bs last) \<longrightarrow> rest = [])"
proof -
  obtain handled rest where "received c = handled @ rest" "list_all2 answers handled (responses c)" "length rest \<le> 1"
    "phase c \<noteq> Closed \<longrightarrow> rest = awaited (phase c)"
    using connection_reach_answered [OF assms] by (auto simp: answered_inv_def)
  then show ?thesis by (intro exI [of _ handled] exI [of _ rest]) auto
qed

text \<open>
  C8: nothing happens before authentication. On a broker with a token, as long as the client has not
  authenticated it has received only errors and health responses, waits for no append and no record, and
  whatever frame it sends next changes neither the topics, offsets and groups of the broker nor its
  waiters; the session becomes authenticated only by an authentication request that carries the token.
\<close>

theorem nothing_before_authentication:
  assumes "connection_reach limits (opened conn ws b) c" "auth_required b" "\<not> authenticated (session (world c))"
    and "handle_frame limits env f (world c) = (reply, w)"
  shows "set (map fst (responses c)) \<subseteq> {ErrorResponse, HealthResponse} \<and>
    runtime w = runtime (world c) \<and> registry w = registry (world c) \<and>
    (authenticated (session w) \<longrightarrow> frame_type (header f) = AuthRequest \<and>
       (\<exists>request. decode_auth_request (payload f) = Inr request \<and>
          AuthRequest.token request = broker_token (config b)))"
proof -
  have inv: "config (runtime (world c)) = config b" "set (map fst (responses c)) \<subseteq> {ErrorResponse, HealthResponse}"
    using connection_reach_auth [OF assms(1)] assms(3) by (simp_all add: auth_inv_def)
  have "gated (world c) f (reply, w)" using handle_frame_gated [OF assms(3), of f limits env] assms(4) by simp
  then show ?thesis
    using inv assms(2) by (auto simp: gated_def authenticate_def auth_required_def split: Reply.splits)
qed


subsection \<open>Examples\<close>

definition sample_limits :: SessionLimits where
  "sample_limits = SessionLimits.make 100 1000 0 8"

definition sample_world_broker :: BrokerRuntime where
  "sample_world_broker = sample_broker (fresh_log sample_options) (GroupCoordinator.make [] 1)"

definition locked_broker :: BrokerRuntime where
  "locked_broker = sample_world_broker\<lparr>config := (config sample_world_broker)\<lparr>broker_token := ''secret''\<rparr>\<rparr>"

text \<open>A request during which nothing fails.\<close>

definition sample_env :: RequestEnv where
  "sample_env = RequestEnv.make True ''ok'' zstd_stored 0 0 None (\<lambda>_. []) (\<lambda>_. True) quiet_env (\<lambda>_. 0) (\<lambda>_. None) 5 None
     None None (\<lambda>_. None) (\<lambda>_ _ _. 0) (\<lambda>_ _ _. None)"

abbreviation no_waiters :: Waiters where
  "no_waiters \<equiv> Waiters.make 1 0 []"

theorem requests_answered_in_order_witness:
  "\<exists>c. connection_step sample_limits (opened 1 no_waiters sample_world_broker) c \<and>
     received c = [(frame_type_cast 0, 0)] \<and> responses c = [(ErrorResponse, 0)] \<and>
     list_all2 answers (received c) (responses c)"
proof -
  let ?c0 = "opened 1 no_waiters sample_world_broker" and ?bs = "replicate 32 0 :: bytes"
  have zero: "read_u16_be ?bs 6 = 0" "read_u64_be ?bs 16 = 0" "read_u32_be ?bs 0 = 0"
    by (simp_all add: read_u16_be_def read_u32_be_def read_u64_be_def numeral_eq_Suc)
  then have "\<not> ok (decode_header ?bs mx) \<and> correlation_id (decoded_header (decode_header ?bs mx)) = 0" for mx
    by (simp add: decode_header_def read_header_fields_def frame_constants)
  then obtain ver pl where head: "read_header ?bs (world ?c0) = (Inl (Respond ver ErrorResponse 0 pl True), world ?c0)"
    by (simp add: read_header_def Let_def write_error_def write_frame_def)
  define c where "c = start_reply (Respond ver ErrorResponse 0 pl True) (world ?c0)
    (?c0\<lparr>received := received ?c0 @ [(frame_type_cast (read_u16_be ?bs 6), read_u64_be ?bs 16)]\<rparr>)"
  have step: "connection_step sample_limits ?c0 c"
    unfolding c_def by (rule header_rejected [OF _ _ head]) (simp_all add: frame_constants)
  have c: "received c = [(frame_type_cast 0, 0)]" "responses c = [(ErrorResponse, 0)]"
    "phase c = Writing (encode_frame ver ErrorResponse 0 pl 0) True"
    by (simp_all add: c_def zero)
  from requests_answered_in_order [OF connection_next [OF connection_start step]]
  have "list_all2 answers (received c) (responses c)" using c(3) by auto
  then show ?thesis using step c by blast
qed

theorem nothing_before_authentication_witness:
  "let f = Frame.make (default_FrameHeader\<lparr>frame_type := ListTopicsRequest\<rparr>) [];
       w = world (opened 1 no_waiters locked_broker)
   in runtime (snd (handle_frame sample_limits sample_env f w)) = locked_broker \<and>
      \<not> authenticated (session (snd (handle_frame sample_limits sample_env f w)))"
proof -
  let ?f = "Frame.make (default_FrameHeader\<lparr>frame_type := ListTopicsRequest\<rparr>) []"
  let ?c = "opened 1 no_waiters locked_broker"
  have "auth_required locked_broker" by (simp add: auth_required_def locked_broker_def)
  moreover have "\<not> authenticated (session (world ?c))"
    using \<open>auth_required locked_broker\<close> by (simp add: World.make_def new_session_def Session.make_def)
  moreover have "frame_type (header ?f) \<noteq> AuthRequest" by (simp add: Frame.make_def)
  ultimately show ?thesis
    using nothing_before_authentication [OF connection_start, where limits = sample_limits and conn = 1 and ws = no_waiters and
        b = locked_broker and env = sample_env and f = ?f and
        reply = "fst (handle_frame sample_limits sample_env ?f (world ?c))" and
        w = "snd (handle_frame sample_limits sample_env ?f (world ?c))"]
    by (simp add: Let_def World.make_def)
qed


end
