(* ===== verification/Bolt_End_To_End.thy ===== *)
theory Bolt_End_To_End
  imports Bolt_Session_Properties
begin

text \<open>
  The whole path of a record: a produce frame that a client sends, the session, the broker, the log with its
  retention, and a fetch frame that brings the record back.
\<close>

section \<open>The append\<close>

lemma append_one_metadata:
  assumes "append_batch env [rec] s = (Inr ms, s')"
  obtains ts n where "ms = [RecordMetadata.make (PartitionLogOptions.topic (options' s)) (partition_id (options' s))
    (next_offset' s) ts n]"
  using assms
  by (auto simp: append_batch_def Let_def split: sum.splits option.splits prod.splits)

text \<open>The record of a batch of one is the last readable one, whatever retention removes.\<close>

lemma run_append_one:
  assumes inv: "log_inv z log" and room: "unat (next_offset' log) + 1 < 2 ^ 64" and age: "older_first age"
    and run: "run_append_batch env age (\<lambda>_. None) policy [req] log = (results, log2)" "hd results = Inr resp"
  obtains m n rs where "log_inv z log2" "options' log2 = options' log" "next_offset' log2 = next_offset' log + 1"
    "resp = ProduceResponse.make (PartitionLogOptions.topic (options' log)) (partition_id (options' log))
       (next_offset' log) (next_offset' log + 1) n"
    "readable z log2 = rs @ [Record.make m (ProduceRequest.key req) (ProduceRequest.message req)]"
    "RecordMetadata.offset m = next_offset' log"
proof -
  let ?rec = "AppendRecord.make (ProduceRequest.key req) (ProduceRequest.message req)"
  obtain r log1 where append: "append_batch env [?rec] log = (r, log1)" by (cases "append_batch env [?rec] log")
  obtain ms where ms: "r = Inr ms" using run append by (cases r) (auto simp: run_append_batch_def Let_def)
  note ok = append_batch_ok [OF inv, of "[?rec]" env ms log1] and run1 = append [unfolded ms]
  obtain ts n where m: "ms = [RecordMetadata.make (PartitionLogOptions.topic (options' log)) (partition_id (options' log))
      (next_offset' log) ts n]"
    by (rule append_one_metadata [OF run1])
  have log1: "log_inv z log1" "options' log1 = options' log" "next_offset' log1 = next_offset' log + 1"
    "readable z log1 = readable z log @ [Record.make (hd ms) (ProduceRequest.key req) (ProduceRequest.message req)]"
    using ok room run1 by (simp_all add: m AppendRecord.make_def)
  obtain stats log2' where retain: "apply_retention age (\<lambda>_. None) policy log1 = (Inr stats, log2')" "log_inv z log2'"
    "next_offset' log2' = next_offset' log1" "options' log2' = options' log1"
    "\<exists>k. readable z log2' = drop k (readable z log1) \<and> (readable z log1 \<noteq> [] \<longrightarrow> k < length (readable z log1))"
    by (rule apply_retention_deletes [OF log1(1) age refl refl refl, of policy])
  then obtain k where k: "readable z log2' = drop k (readable z log)
      @ [Record.make (hd ms) (ProduceRequest.key req) (ProduceRequest.message req)]"
    by (auto simp: log1(4))
  have "log2 = log2'" "resp = ProduceResponse.make (PartitionLogOptions.topic (options' log)) (partition_id (options' log))
      (next_offset' log) (next_offset' log + 1) n"
    using run run1 retain(1) by (auto simp: run_append_batch_def Let_def m RecordMetadata.make_def)
  then show ?thesis using that [of n "drop k (readable z log)" "hd ms"] k retain log1 by (simp add: m RecordMetadata.make_def)
qed

lemma produced_partition:
  assumes inv: "broker_inv z b" and room: "offsets_room 1 b" and age: "older_first age"
    and run: "produce_inline env age (\<lambda>_. None) req b = (Inr (Inr resp), b')"
  obtains log m rs where "partition_of (ProduceRequest.topic req) (ProduceResponse.partition resp) b' = Inr log" "log_inv z log"
    "readable z log = rs @ [Record.make m (ProduceRequest.key req) (ProduceRequest.message req)]"
    "RecordMetadata.offset m = ProduceResponse.offset resp" "next_offset' log = ProduceResponse.offset resp + 1"
    "config b' = config b" "ProduceResponse.topic resp = ProduceRequest.topic req"
    "unat (ProduceResponse.offset resp) + 1 < 2 ^ 64"
proof -
  let ?name = "ProduceRequest.topic req"
  obtain t log where t: "live_topic ?name b = Inr t" "log_at t (produce_target req t) = Inr log"
    using run by (auto simp: produce_inline_def checked_Inr split: sum.splits prod.splits)
  let ?p = "produce_target req t"
  obtain results log2 where r: "run_append_batch env age (\<lambda>_. None) (retention_policy (config b)) [req] log = (results, log2)"
    by (cases "run_append_batch env age (\<lambda>_. None) (retention_policy (config b)) [req] log")
  have hd: "hd results = Inr resp" and b': "b' = put_topic (after_produce req (put_log ?p log2 t)) b"
    using run t r by (simp_all add: produce_inline_def)
  have found: "map_of (topics_map b) ?name = Some t" and p: "unat ?p < length (topic_logs t)"
    and log: "log = topic_logs t ! unat ?p"
    using t by (simp_all add: live_topic_Inr log_at_Inr)
  note ti = broker_inv_find [OF inv found]
  have log_ok: "log_inv z log" "options' log = open_options (config b) ?name ?p"
    using ti p by (simp_all add: topic_inv_def log)
  have space: "unat (next_offset' log) + 1 < 2 ^ 64" using broker_room [OF room found p] by (simp add: log)
  obtain m n rs where one: "log_inv z log2" "next_offset' log2 = next_offset' log + 1"
    "resp = ProduceResponse.make (PartitionLogOptions.topic (options' log)) (partition_id (options' log))
       (next_offset' log) (next_offset' log + 1) n"
    "readable z log2 = rs @ [Record.make m (ProduceRequest.key req) (ProduceRequest.message req)]"
    "RecordMetadata.offset m = next_offset' log"
    by (rule run_append_one [OF log_ok(1) space age r hd])
  have resp: "ProduceResponse.partition resp = ?p" "ProduceResponse.topic resp = ?name"
    "ProduceResponse.offset resp = next_offset' log"
    by (simp_all add: one(3) ProduceResponse.make_def log_ok(2) open_options_def PartitionLogOptions.make_def)
  have "partition_of ?name ?p b' = Inr log2"
    using t p topic_inv_routing(1) [OF ti, of req] ti
    by (simp add: partition_of_def live_topic_def find_topic_or_throw_def b' after_produce_def advance_round_robin_def
        topic_inv_def partition_or_throw_def log_at_def not_le)
  then show ?thesis
    using that [OF _ one(1,4)] one(2,5) resp space by (simp add: b')
qed

section \<open>The fetch\<close>

lemma decimal_selectors:
  "decimal n \<noteq> ''beginning''" "decimal n \<noteq> ''latest''" "decimal n \<noteq> ''committed''"
proof -
  have "CHR ''t'' \<notin> set (decimal n)" "CHR ''n'' \<notin> set (decimal n)"
    using decimal_digits [of "CHR ''t''" n] decimal_digits [of "CHR ''n''" n] by (auto simp: is_digit_def)
  then show "decimal n \<noteq> ''beginning''" "decimal n \<noteq> ''latest''" "decimal n \<noteq> ''committed''" by auto
qed

lemma parse_u64_decimal: "parse_u64 (decimal (unat off)) = Some off"
  using unat_u64_less [of off] by (simp add: parse_u64_def)

lemma resolve_offset:
  assumes "from_selector req = decimal (unat off)" "earliest \<le> off" "off \<le> next_off"
  shows "resolve_fetch_offset req earliest next_off store = Inr off"
  using assms by (simp add: resolve_fetch_offset_def decimal_selectors parse_u64_decimal not_less)

lemma last_record_fetched:
  assumes log: "partition_of (FetchRequest.topic req) (FetchRequest.partition req) b = Inr log" "log_inv z log"
    and last: "readable z log = rs @ [r]" "RecordMetadata.offset (Record.metadata r) = off" "next_offset' log = off + 1"
      "unat off + 1 < 2 ^ 64"
    and req: "from_selector req = decimal (unat off)" and limit: "max_fetch_records (config b) \<noteq> 0"
    and fits: "fetch_payload_base_bytes (FetchRequest.topic req) + fetch_record_payload_bytes r \<le> max_fetch_payload_bytes (config b)"
  shows "fetch z req b = Inr (FetchResponse.make (FetchRequest.topic req) (FetchRequest.partition req) off (off + 1) [fetch_record r])"
proof -
  have next_off: "unat (next_offset' log) = unat off + 1"
    using last(4) unat_add_of_nat [of off 1] by (simp add: last(3))
  have range: "earliest_offset log \<le> off" "off \<le> next_offset' log"
    using earliest_offset_readable [OF log(2)] next_off last(1) by (simp_all add: word_le_nat_alt)
  have "length (records_from z off log) = 1"
    using arg_cong [OF records_from_offsets [OF log(2) range], of length] next_off by simp
  then have wanted: "records_from z off log = [r]" using last(1,2) by simp
  obtain k where k: "read_from z off (unat (max_fetch_records (config b))) (unat (max_fetch_bytes (config b))) log =
      Inr (take k [r])" "0 < unat (max_fetch_records (config b)) \<longrightarrow> 0 < k"
    using read_from_prefix [OF log(2) refl, of off "unat (max_fetch_records (config b))" "unat (max_fetch_bytes (config b))"]
    unfolding wanted by auto
  have "take k [r] = [r]" using k(2) limit by (simp add: unat_gt_0 take_Cons')
  then have "fetch_log z (config b) req off log =
      Inr (FetchResponse.make (FetchRequest.topic req) (FetchRequest.partition req) off (off + 1) [fetch_record r])"
    using k(1) fits last(2) by (simp add: fetch_log_def Let_def fetch_record_def FetchRecord.make_def)
  then show ?thesis using resolve_offset [OF req range] by (simp add: fetch_partition [OF log(1)])
qed

text \<open>A response that fits a frame decodes at the client.\<close>

lemma fitting_response_valid:
  assumes "length (encode_fetch_response resp) < 2 ^ 32"
  shows "valid_fetch_response resp"
proof -
  let ?rs = "FetchResponse.records resp"
  have rec: "28 + length (FetchRecord.key r) + length (FetchRecord.message r) \<le> length (concat (map write_fetch_record ?rs))"
    if "r \<in> set ?rs" for r
  proof -
    have "length (write_fetch_record r) \<le> length (concat (map write_fetch_record ?rs))"
      using that by (auto simp: length_concat intro!: member_le_sum_list)
    then show ?thesis by (simp add: write_fetch_record_def)
  qed
  have "28 * length rs \<le> length (concat (map write_fetch_record rs))" for rs
    by (induction rs) (simp_all add: write_fetch_record_def)
  from this [of ?rs] show ?thesis
    using assms rec by (fastforce simp: valid_fetch_response_def valid_fetch_record_def encode_fetch_response_def kCompressedFetchMarker_def)
qed

section \<open>Through the session\<close>

lemma handle_produce_acknowledged:
  assumes ft: "frame_type (header f) = ProduceRequest" and inline: "append_workers_configured limits = 0"
    and run: "handle_frame limits env f w = (Respond ver ProduceResponse cid pl close_after, w1)"
  obtains req resp where "decode_produce_request (payload f) = Inr req" "is_valid_topic_name (ProduceRequest.topic req)"
    "produce_inline (append_env env) (file_ages env) (remove_faults env) req (runtime w) = (Inr (Inr resp), runtime w1)"
    "pl = encode_produce_response resp" "session w1 = session w" "authenticated (session w)"
proof -
  have run': "handle_produce limits env f w = (Respond ver ProduceResponse cid pl close_after, w1)"
    using run ft by (simp add: handle_frame_def)
  have no_error: "write_error w' c err what l \<noteq> Respond ver ProduceResponse cid pl close_after"
    "error_reply w' c e \<noteq> Respond ver ProduceResponse cid pl close_after" for w' c err what l e
    by (cases e; simp add: write_error_def write_frame_def Let_def)+
  obtain req where req: "decode_produce_request (payload f) = Inr req" "is_valid_topic_name (ProduceRequest.topic req)"
    "authenticated (session w)"
    using run' no_error unfolding handle_produce_def decoded_or_error_def require_topic_def require_auth_def
    by (auto split: sum.splits if_splits)
  obtain r b where inl: "produce_inline (append_env env) (file_ages env) (remove_faults env) req (runtime w) = (r, b)"
    by (cases "produce_inline (append_env env) (file_ages env) (remove_faults env) req (runtime w)")
  show ?thesis
  proof (cases r)
    case (Inl e)
    then show ?thesis using run' req inl inline no_error
      by (simp add: handle_produce_def decoded_or_error_def require_topic_def require_auth_def)
  next
    case (Inr result)
    then obtain resp where resp: "result = Inr resp"
      using run' req inl inline no_error
      by (cases result) (auto simp: handle_produce_def decoded_or_error_def require_topic_def require_auth_def Let_def
          produce_completed_def)
    then show ?thesis
      using that [OF req(1,2) _ _ _ req(3), of resp] run' req inl inline Inr
      by (auto simp: handle_produce_def decoded_or_error_def require_topic_def require_auth_def Let_def
          produce_completed_def write_frame_def)
  qed
qed

lemma handle_fetch_plain:
  assumes ft: "frame_type (header g) = FetchRequest" and auth: "authenticated (session w)"
    and codec: "protocol_version (session w) < 5 \<or> session_codecs (session w) AND kZstdMask = 0"
    and dec: "decode_fetch_request (payload g) = Inr req" "is_valid_topic_name (FetchRequest.topic req)" "FetchRequest.group req = []"
    and resp: "\<And>n. fetch (zstd_library env) (req\<lparr>FetchRequest.max_wait_ms := n\<rparr>) (runtime w) = Inr resp"
      "FetchResponse.records resp \<noteq> []"
    and fits: "length (encode_fetch_response resp) \<le> max_fetch_payload_bytes (config (runtime w))"
  shows "\<exists>ver. handle_frame limits env g w = (Respond ver FetchResponse (frame_cid g) (encode_fetch_response resp) False, w)"
proof -
  let ?mx = "max_frame_bytes (config (runtime w))"
  have "length (encode_fetch_response resp) \<le> (if ?mx \<le> kFrameHeaderBytes then 0 else unat (?mx - kFrameHeaderBytes))"
    using fits by (auto simp: max_fetch_payload_bytes_def min_def word_le_nat_alt split: if_splits)
  then have "\<exists>ver. write_fetch_response w (frame_cid g) resp = Respond ver FetchResponse (frame_cid g) (encode_fetch_response resp) False"
    by (simp add: write_fetch_response_def Let_def write_frame_def not_less)
  moreover have "fetch (zstd_library env) req (runtime w) = Inr resp"
    using resp(1) [of "FetchRequest.max_wait_ms req"] by simp
  ultimately show ?thesis
    using ft auth codec dec resp
    by (auto simp: handle_frame_def handle_fetch_def decoded_or_error_def require_topic_def require_auth_def fetch_or_wait_def
        fetch_plain_def not_less not_le)
qed

text \<open>What the client that produced a record gets when it asks for the offset of the acknowledgement.\<close>

lemma acknowledged_record_fetched:
  assumes inv: "broker_inv z b" and room: "offsets_room 1 b" and age: "older_first age"
    and run: "produce_inline env age (\<lambda>_. None) req b = (Inr (Inr ack), b1)"
    and limit: "max_fetch_records (config b) \<noteq> 0"
      "fetch_payload_base_bytes (ProduceRequest.topic req) + 28 + length (ProduceRequest.key req) +
         length (ProduceRequest.message req) \<le> max_fetch_payload_bytes (config b)"
  obtains m where "\<And>freq. FetchRequest.topic freq = ProduceRequest.topic req \<Longrightarrow>
      FetchRequest.partition freq = ProduceResponse.partition ack \<Longrightarrow>
      from_selector freq = decimal (unat (ProduceResponse.offset ack)) \<Longrightarrow>
      fetch z freq b1 = Inr (FetchResponse.make (ProduceRequest.topic req) (ProduceResponse.partition ack)
      (ProduceResponse.offset ack) (ProduceResponse.offset ack + 1)
      [fetch_record (Record.make m (ProduceRequest.key req) (ProduceRequest.message req))])"
    "RecordMetadata.offset m = ProduceResponse.offset ack" "config b1 = config b"
proof -
  obtain log m rs where log: "partition_of (ProduceRequest.topic req) (ProduceResponse.partition ack) b1 = Inr log" "log_inv z log"
    "readable z log = rs @ [Record.make m (ProduceRequest.key req) (ProduceRequest.message req)]"
    "RecordMetadata.offset m = ProduceResponse.offset ack" "next_offset' log = ProduceResponse.offset ack + 1"
    "config b1 = config b" "unat (ProduceResponse.offset ack) + 1 < 2 ^ 64"
    by (rule produced_partition [OF inv room age run])
  have "fetch z freq b1 = Inr (FetchResponse.make (FetchRequest.topic freq) (FetchRequest.partition freq)
      (ProduceResponse.offset ack) (ProduceResponse.offset ack + 1)
      [fetch_record (Record.make m (ProduceRequest.key req) (ProduceRequest.message req))])"
    if "FetchRequest.topic freq = ProduceRequest.topic req" "FetchRequest.partition freq = ProduceResponse.partition ack"
      "from_selector freq = decimal (unat (ProduceResponse.offset ack))" for freq
    by (rule last_record_fetched [where log = log])
      (use log limit that in \<open>simp_all add: fetch_record_payload_bytes_def Record.make_def\<close>)
  then show ?thesis using that log(4,6) by simp
qed

text \<open>A record is acknowledged when nothing fails.\<close>

lemma produce_accepted:
  assumes inv: "broker_inv z b" and found: "map_of (topics_map b) (ProduceRequest.topic req) = Some t"
    and room: "offsets_room 1 b" and age: "older_first age" and quiet: "io_fault env = (\<lambda>_. None)"
    and small: "36 + length (ProduceRequest.key req) + length (ProduceRequest.message req) < 2 ^ 32"
  shows "\<exists>ack b'. produce_inline env age (\<lambda>_. None) req b = (Inr (Inr ack), b')"
proof -
  note ti = broker_inv_find [OF inv found]
  let ?p = "produce_target req t" and ?rec = "AppendRecord.make (ProduceRequest.key req) (ProduceRequest.message req)"
  have p: "unat ?p < length (topic_logs t)"
    using topic_inv_routing(1) [OF ti, of req] ti by (simp add: topic_inv_def word_less_nat_alt)
  let ?log = "topic_logs t ! unat ?p"
  have log: "log_inv z ?log" by (rule topic_inv_log [OF ti p])
  obtain ms log1 where append: "append_batch env [?rec] ?log = (Inr ms, log1)"
    using append_one_accepts [OF small quiet] by blast
  then have log1: "log_inv z log1" "ms \<noteq> []"
    using append_batch_ok [OF log, of "[?rec]" env ms log1] broker_room [OF room found p] by auto
  obtain stats log2 where "apply_retention age (\<lambda>_. None) (retention_policy (config b)) log1 = (Inr stats, log2)"
    by (rule apply_retention_deletes [OF log1(1) age refl refl refl, of "retention_policy (config b)"]) (rule that)
  then have "\<exists>ack. hd (fst (run_append_batch env age (\<lambda>_. None) (retention_policy (config b)) [req] ?log)) = Inr ack"
    using append log1(2) by (cases ms) (simp_all add: run_append_batch_def Let_def)
  moreover have "live_topic (ProduceRequest.topic req) b = Inr t" "log_at t ?p = Inr ?log"
    using found p ti by (simp_all add: live_topic_Inr log_at_Inr topic_inv_def)
  ultimately show ?thesis by (auto simp: produce_inline_def split: prod.splits)
qed

section \<open>Properties\<close>


definition one_topic_broker :: BrokerRuntime where
  "one_topic_broker = snd (create_topic zstd_stored None (\<lambda>_. []) (CreateTopicRequest.make ''t'' 1)
     (BrokerRuntime.make sample_config [] sample_store empty_coordinator))"

lemma one_topic_broker:
  "broker_reach zstd_stored one_topic_broker" "config one_topic_broker = sample_config"
  "\<exists>t. map_of (topics_map one_topic_broker) ''t'' = Some t" "offsets_room 1 one_topic_broker"
proof -
  let ?b0 = "BrokerRuntime.make sample_config [] sample_store empty_coordinator"
  let ?r = "create_topic zstd_stored None (\<lambda>_. []) (CreateTopicRequest.make ''t'' 1) ?b0"
  show "broker_reach zstd_stored one_topic_broker"
    using broker_next [OF broker_start Bolt_Broker_Invariant.step_create, of zstd_stored None "CreateTopicRequest.make ''t'' 1"
        sample_config sample_store "fst ?r" one_topic_broker] by (simp add: one_topic_broker_def)
  have name: "is_valid_topic_name ''t''" by (simp add: is_valid_topic_name_def less_eq_char_def)
  have one: "[0..<unat (1 :: u16)] = [0]" by simp
  let ?opts = "open_options sample_config ''t'' 0"
  have "\<exists>l. open_log zstd_stored ?opts [] = Inr l"
    using name by (simp add: open_log_def open_options_def PartitionLogOptions.make_def sample_config_def BrokerConfig.make_def)
  then obtain l where l: "open_log zstd_stored ?opts [] = Inr l" by blast
  have eq: "one_topic_broker = put_topic (TopicState.make ''t'' 1 0 False [l]) ?b0"
    using name l
    by (simp add: one_topic_broker_def create_topic_def Let_def CreateTopicRequest.make_def BrokerRuntime.make_def
        open_topic_state_def sample_config_def BrokerConfig.make_def)
  have b: "config one_topic_broker = sample_config"
    "topics_map one_topic_broker = [(''t'', TopicState.make ''t'' 1 0 False [l])]"
    unfolding eq by (simp_all add: BrokerRuntime.make_def TopicState.make_def)
  show "config one_topic_broker = sample_config" by (rule b(1))
  show "\<exists>t. map_of (topics_map one_topic_broker) ''t'' = Some t" "offsets_room 1 one_topic_broker"
    using open_empty_log [OF l] by (simp_all add: b(2) TopicState.make_def offsets_room_def)
qed


end
