(* ===== verification/Bolt_Replication.thy ===== *)
theory Bolt_Replication
  imports Bolt_Log
begin

text \<open>
  \<open>ReplicationSimulation\<close> (\<open>src/src/replication/simulation.cpp\<close>): a leader and a follower log of one
  partition, and the loop that copies batches, or single records, from one to the other. The clock and the
  failures of the follower's writes are arguments of each copy.
\<close>

section \<open>State\<close>

datatype AcknowledgementMode = Ack_Leader | Ack_All

record SimulationOptions =
  leader_data_dir :: string
  follower_data_dir :: string
  simulated_topic :: string
  simulated_partition :: u16
  leader_id :: string
  follower_id :: string
  simulated_segment_bytes :: nat
  simulated_batch_bytes :: u32

record PartitionAssignment =
  assigned_topic :: string
  assigned_partition :: u16
  assigned_leader :: string
  follower_ids :: "string list"

record ReplicationStatus =
  assignment :: PartitionAssignment
  leader_next_offset :: u64
  follower_next_offset :: u64
  lag_records :: u64
  status_available :: bool

record ReplicationSimulation =
  simulation :: SimulationOptions
  leader :: PartitionLog
  follower :: PartitionLog
  follower_available :: bool

text \<open>What one copy observes: the environment of a record append, and the clock and failure of a batch append.\<close>

record CopyEnv =
  record_env :: AppendEnv
  batch_time :: u64
  batch_fault :: "(string \<times> nat \<times> nat) option"

section \<open>Opening\<close>

definition replica_options :: "SimulationOptions \<Rightarrow> PartitionLogOptions" where
  "replica_options opts = PartitionLogOptions.make (simulated_topic opts) (simulated_partition opts)
     (simulated_segment_bytes opts) 0 (simulated_batch_bytes opts)"

text \<open>The member initialisers open both logs before the options are checked.\<close>

definition open_simulation ::
  "zstd \<Rightarrow> SimulationOptions \<Rightarrow> files \<Rightarrow> files \<Rightarrow> string + ReplicationSimulation" where
  "open_simulation z opts leader_files follower_files =
     (case open_log z (replica_options opts) leader_files of
        Inl what \<Rightarrow> Inl what
      | Inr l \<Rightarrow>
         (case open_log z (replica_options opts) follower_files of
            Inl what \<Rightarrow> Inl what
          | Inr f \<Rightarrow>
              if leader_data_dir opts = [] \<or> follower_data_dir opts = []
              then Inl ''leader and follower data directories are required''
              else if leader_data_dir opts = follower_data_dir opts
              then Inl ''leader and follower data directories must differ''
              else if leader_id opts = [] \<or> follower_id opts = [] \<or> leader_id opts = follower_id opts
              then Inl ''leader and follower broker ids must be distinct''
              else if next_offset' f > next_offset' l then Inl ''follower offset is ahead of leader''
              else Inr (ReplicationSimulation.make opts l f True)))"

section \<open>Copying\<close>

definition append_records :: "Record list \<Rightarrow> AppendRecord list" where
  "append_records recs = map (\<lambda>r. AppendRecord.make (Record.key r) (Record.val r)) recs"

definition copy_batch ::
  "zstd \<Rightarrow> CopyEnv \<Rightarrow> EncodedBatch \<Rightarrow> ReplicationSimulation \<Rightarrow> (string + bool) \<times> ReplicationSimulation" where
  "copy_batch z env encoded s =
     (let m = EncodedBatch.metadata encoded in
      case read_from z (next_offset' (follower s)) (unat (BatchMetadata.record_count m)) 0 (leader s) of
        Inl what \<Rightarrow> (Inl what, s)
      | Inr recs \<Rightarrow>
         (case append_encoded_batch z (batch_time env) (batch_fault env) (BatchMetadata.codec m)
                 (EncodedBatch.encoded_records encoded) (BatchMetadata.logical_bytes m) (append_records recs) (follower s) of
            (Inl what, f) \<Rightarrow> (Inl what, s\<lparr>follower := f\<rparr>)
          | (Inr copied, f) \<Rightarrow>
              if BatchMetadata.base_offset copied \<noteq> BatchMetadata.base_offset m \<or>
                 BatchMetadata.next_offset copied \<noteq> BatchMetadata.next_offset m
              then (Inl ''replicated batch offset mismatch'', s\<lparr>follower := f\<rparr>)
              else (Inr True, s\<lparr>follower := f\<rparr>)))"

definition copy_record ::
  "zstd \<Rightarrow> CopyEnv \<Rightarrow> ReplicationSimulation \<Rightarrow> (string + bool) \<times> ReplicationSimulation" where
  "copy_record z env s =
     (let next = next_offset' (follower s) in
      case read_from z next 1 0 (leader s) of
        Inl what \<Rightarrow> (Inl what, s)
      | Inr recs \<Rightarrow>
          if recs = [] \<or> RecordMetadata.offset (Record.metadata (hd recs)) \<noteq> next
          then (Inl ''leader cannot supply follower offset'', s)
          else case append_batch (record_env env) (append_records [hd recs]) (follower s) of
            (Inl what, f) \<Rightarrow> (Inl what, s\<lparr>follower := f\<rparr>)
          | (Inr copied, f) \<Rightarrow>
              if RecordMetadata.offset (hd copied) \<noteq> next
              then (Inl ''replicated record offset mismatch'', s\<lparr>follower := f\<rparr>)
              else (Inr True, s\<lparr>follower := f\<rparr>))"

definition replicate_once ::
  "zstd \<Rightarrow> CopyEnv \<Rightarrow> ReplicationSimulation \<Rightarrow> (string + bool) \<times> ReplicationSimulation" where
  "replicate_once z env s =
     (let next = next_offset' (follower s) in
      if \<not> follower_available s then (Inr False, s)
      else if next > next_offset' (leader s) then (Inl ''follower offset is ahead of leader'', s)
      else if next = next_offset' (leader s) then (Inr False, s)
      else case read_encoded_batch z next (leader s) of
        Inl what \<Rightarrow> (Inl what, s)
      | Inr (Some encoded) \<Rightarrow> copy_batch z env encoded s
      | Inr None \<Rightarrow> copy_record z env s)"

text \<open>The loop of \<open>catch_up\<close> may not end by itself; it returns the number of copies made.\<close>

partial_function (option) catch_up ::
  "zstd \<Rightarrow> (nat \<Rightarrow> CopyEnv) \<Rightarrow> nat \<Rightarrow> ReplicationSimulation \<Rightarrow> ((string + nat) \<times> ReplicationSimulation) option" where
  "catch_up z envs fetches s =
     (let r = replicate_once z (envs fetches) s in
      if isl (fst r) then Some (Inl (projl (fst r)), snd r)
      else if projr (fst r) then catch_up z envs (Suc fetches) (snd r)
      else Some (Inr fetches, snd r))"

section \<open>Producing\<close>

text \<open>Waiting for the follower: the clock is read before every copy.\<close>

partial_function (option) await_follower ::
  "zstd \<Rightarrow> (nat \<Rightarrow> CopyEnv) \<Rightarrow> (nat \<Rightarrow> int) \<Rightarrow> int \<Rightarrow> u64 \<Rightarrow> nat \<Rightarrow> ReplicationSimulation \<Rightarrow>
   ((string + unit) \<times> ReplicationSimulation) option" where
  "await_follower z envs readings deadline goal i s =
     (if next_offset' (follower s) < goal \<and> readings i < deadline then
        let r = replicate_once z (envs i) s in
        if isl (fst r) then Some (Inl (projl (fst r)), snd r)
        else await_follower z envs readings deadline goal (Suc i) (snd r)
      else Some (Inr (), s))"

definition produce ::
  "zstd \<Rightarrow> CopyEnv \<Rightarrow> (nat \<Rightarrow> CopyEnv) \<Rightarrow> (nat \<Rightarrow> int) \<Rightarrow> AppendRecord list \<Rightarrow> Codec \<Rightarrow> AcknowledgementMode \<Rightarrow> int \<Rightarrow>
   ReplicationSimulation \<Rightarrow> ((string + BatchMetadata) \<times> ReplicationSimulation) option" where
  "produce z env envs readings recs cdc acknowledgement timeout s =
     (let canonical = encode_record_set
            (map (\<lambda>rec. BatchRecord.make (AppendRecord.key rec) (AppendRecord.val rec)) recs) in
      case compress z cdc canonical 3 of
        Inl what \<Rightarrow> Some (Inl what, s)
      | Inr encoded \<Rightarrow>
         (case append_encoded_batch z (batch_time env) (batch_fault env) cdc encoded (of_nat (length canonical)) recs (leader s) of
            (Inl what, l) \<Rightarrow> Some (Inl what, s\<lparr>leader := l\<rparr>)
          | (Inr m, l) \<Rightarrow>
             (let s1 = s\<lparr>leader := l\<rparr> in
              if acknowledgement = Ack_Leader then Some (Inr m, s1)
              else case await_follower z envs readings (readings 0 + timeout) (BatchMetadata.next_offset m) 1 s1 of
                None \<Rightarrow> None
              | Some (Inl what, s2) \<Rightarrow> Some (Inl what, s2)
              | Some (Inr _, s2) \<Rightarrow>
                  if next_offset' (follower s2) < BatchMetadata.next_offset m
                  then Some (Inl (''replication=all timed out waiting for follower '' @ follower_id (simulation s2)), s2)
                  else Some (Inr m, s2))))"

section \<open>Availability, restart and status\<close>

definition set_follower_available :: "bool \<Rightarrow> ReplicationSimulation \<Rightarrow> ReplicationSimulation" where
  "set_follower_available a s = s\<lparr>follower_available := a\<rparr>"

text \<open>Reopening the follower reads its directory as it is on disk.\<close>

definition reopen_follower :: "zstd \<Rightarrow> files \<Rightarrow> ReplicationSimulation \<Rightarrow> (string + unit) \<times> ReplicationSimulation" where
  "reopen_follower z fs s =
     (case open_log z (replica_options (simulation s)) fs of
        Inl what \<Rightarrow> (Inl what, s)
      | Inr f \<Rightarrow> (Inr (), s\<lparr>follower := f\<rparr>))"

definition status :: "ReplicationSimulation \<Rightarrow> ReplicationStatus" where
  "status s =
     (let l = next_offset' (leader s); f = next_offset' (follower s) in
      ReplicationStatus.make
        (PartitionAssignment.make (simulated_topic (simulation s)) (simulated_partition (simulation s))
          (leader_id (simulation s)) [follower_id (simulation s)])
        l f (if l \<ge> f then l - f else 0) (follower_available s))"

definition leader_records :: "zstd \<Rightarrow> ReplicationSimulation \<Rightarrow> string + Record list" where
  "leader_records z s =
     read_from z (earliest_offset (leader s)) (unat (next_offset' (leader s))) 0 (leader s)"

definition follower_records :: "zstd \<Rightarrow> ReplicationSimulation \<Rightarrow> string + Record list" where
  "follower_records z s =
     read_from z (earliest_offset (follower s)) (unat (next_offset' (follower s))) 0 (follower s)"

text \<open>The exposition format of Prometheus: label values escape the backslash, the quote and the newline.\<close>

fun escape_label :: "string \<Rightarrow> string" where
  "escape_label [] = []"
| "escape_label (ch # rest) =
     (if ch = CHR 0x5C \<or> ch = CHR 0x22 \<or> ch = CHR 0x0A
      then CHR 0x5C # (if ch = CHR 0x0A then CHR ''n'' else ch) # escape_label rest
      else ch # escape_label rest)"

definition gauge_lines :: "string \<Rightarrow> string \<Rightarrow> nat \<Rightarrow> string" where
  "gauge_lines name base n =
     ''# TYPE '' @ name @ '' gauge'' @ [CHR 0x0A] @ name @ base @ '' '' @ decimal n @ [CHR 0x0A]"

definition prometheus_metrics :: "ReplicationSimulation \<Rightarrow> string" where
  "prometheus_metrics s =
     (let current = status s; opts = simulation s;
          label = (\<lambda>name v. name @ ''='' @ [CHR 0x22] @ escape_label v @ [CHR 0x22]);
          base = ''{'' @ label ''topic'' (simulated_topic opts) @ '','' @
            ''partition='' @ [CHR 0x22] @ decimal (unat (simulated_partition opts)) @ [CHR 0x22] @ '','' @
            label ''leader'' (leader_id opts) @ '','' @ label ''follower'' (follower_id opts) @ ''}''
      in gauge_lines ''boltstream_replication_leader_next_offset'' base (unat (leader_next_offset current)) @
         gauge_lines ''boltstream_replication_follower_next_offset'' base (unat (follower_next_offset current)) @
         gauge_lines ''boltstream_replication_lag_records'' base (unat (lag_records current)) @
         gauge_lines ''boltstream_replication_follower_available'' base (if status_available current then 1 else 0))"

definition acknowledgement_mode_name :: "AcknowledgementMode \<Rightarrow> string" where
  "acknowledgement_mode_name mode = (if mode = Ack_Leader then ''leader'' else ''all'')"

end
