(* ===== verification/Bolt_Replication_Properties.thy ===== *)
theory Bolt_Replication_Properties
  imports Bolt_Replication Bolt_Batches "HOL-Library.Sublist"
begin

text \<open>
  Correctness of the replication loop: the follower always holds a prefix of the leader's records, whatever
  fails, and a follower that is reachable catches up in finitely many copies.
\<close>

section \<open>Where the index finds a stored item\<close>

lemma concat_member_split:
  assumes "e \<in> set (concat xss)"
  obtains pre xs post where "concat xss = pre @ xs @ post" "xs \<in> set xss" "e \<in> set xs"
proof -
  obtain xs where "xs \<in> set xss" "e \<in> set xs" using assms by auto
  then obtain as bs where "xss = as @ xs # bs" by (auto dest: split_list)
  then show ?thesis using that [of "concat as" xs "concat bs"] \<open>e \<in> set xs\<close> by simp
qed

lemma inv_entry_item:
  assumes inv: "log_inv z s" and e: "e \<in> set (index' s)"
  obtains c p n stored pre post where "map_of (directory s) (segment e) = Some c" "p + 4 + unat n \<le> length c"
    "read_u32_be c p = n" "stored_bytes_of z (options' s) n (take (unat n) (drop (p + 4) c)) stored"
    "index' s = pre @ stored_entries (segment e) p n stored @ post" "e \<in> set (stored_entries (segment e) p n stored)"
proof -
  note fi = inv [unfolded log_inv_def]
  let ?opts = "options' s" and ?fs = "directory s"
  have "e \<in> set (concat (map (\<lambda>(base, _). segment_entries z ?opts ?fs base) (list_segments ?fs)))"
    using e files_invD(2) [OF fi] by (simp add: disk_index_def)
  then obtain pre xs post where 1: "index' s = pre @ xs @ post" "e \<in> set xs"
    "xs \<in> set (map (\<lambda>(base, _). segment_entries z ?opts ?fs base) (list_segments ?fs))"
    by (rule concat_member_split) (use files_invD(2) [OF fi] in \<open>simp add: disk_index_def\<close>)
  then obtain base where base: "base \<in> segment_bases ?fs" "xs = segment_entries z ?opts ?fs base"
    by (auto simp: list_segments_eq [OF files_invD(1) [OF fi]])
  let ?c = "file_content ?fs (segment_path base)"
  have "e \<in> set (concat (map (\<lambda>(pos, n, stored). stored_entries (segment_path base) pos n stored)
      (items_of z ?opts ?c)))"
    using 1(2) by (simp add: base(2) segment_entries_def item_entries_def)
  then obtain pre' ys post' where 2: "xs = pre' @ ys @ post'" "e \<in> set ys"
    "ys \<in> set (map (\<lambda>(pos, n, stored). stored_entries (segment_path base) pos n stored) (items_of z ?opts ?c))"
    by (rule concat_member_split) (simp add: base(2) segment_entries_def item_entries_def)
  then obtain p n stored where item: "(p, n, stored) \<in> set (items_of z ?opts ?c)"
    and ys: "ys = stored_entries (segment_path base) p n stored" by auto
  have path: "segment e = segment_path base" using segment_of_entries(1) 2(2) by (simp add: ys)
  have "map_of ?fs (segment_path base) = Some ?c"
    using base(1) by (auto simp: segment_bases_def file_content_def)
  moreover note scan_sound [OF item [unfolded items_of_def]]
  moreover have "index' s = (pre @ pre') @ stored_entries (segment e) p n stored @ (post' @ post)"
    using 1(1) 2(1) by (simp add: path ys)
  moreover have "e \<in> set (stored_entries (segment e) p n stored)" using 2(2) by (simp add: path ys)
  ultimately show ?thesis by (intro that [of ?c p n stored "pre @ pre'" "post' @ post"]) (simp_all add: path)
qed

text \<open>The position of an entry in the index of a log that starts at offset 0.\<close>

definition complete_log :: "zstd \<Rightarrow> PartitionLog \<Rightarrow> bool" where
  "complete_log z s \<longleftrightarrow> length (readable z s) = unat (next_offset' s)"

lemma readable_length: "log_inv z s \<Longrightarrow> length (readable z s) = length (index' s)"
  by (simp add: readable_map)

lemma complete_nth:
  assumes "log_inv z s" "complete_log z s" "i < length (index' s)"
  shows "unat (IndexEntry.offset (index' s ! i)) = i"
proof -
  have "map (\<lambda>e. unat (IndexEntry.offset e)) (index' s) = [0..<unat (next_offset' s)]"
    using files_invD(3) [OF assms(1) [unfolded log_inv_def]] assms(1,2)
    by (simp add: consecutive_def complete_log_def readable_length)
  then have "map (\<lambda>e. unat (IndexEntry.offset e)) (index' s) ! i = [0..<unat (next_offset' s)] ! i" by simp
  then show ?thesis using assms by (simp add: complete_log_def readable_length)
qed

lemma complete_drop:
  assumes "log_inv z s" "complete_log z s"
  shows "filter (\<lambda>r. off \<le> RecordMetadata.offset (Record.metadata r)) (readable z s) = drop (unat off) (readable z s)"
proof -
  let ?o = "\<lambda>r. unat (RecordMetadata.offset (Record.metadata r))"
  have o: "map ?o (readable z s) = [0..<length (readable z s)]"
    using readable_offsets [OF assms(1)] assms(2) by (simp add: complete_log_def)
  have gen: "map ?o xs = [k..<k + length xs] \<Longrightarrow> filter (\<lambda>r. unat off \<le> ?o r) xs = drop (unat off - k) xs" for xs k
  proof (induction xs arbitrary: k)
    case (Cons x xs)
    have "[k..<k + length (x # xs)] = k # [Suc k..<Suc k + length xs]" by (simp add: upt_conv_Cons del: upt_Suc)
    then have "?o x = k" "map ?o xs = [Suc k..<Suc k + length xs]" using Cons.prems by simp_all
    then show ?case using Cons.IH [of "Suc k"]
      by (cases "unat off \<le> k") (simp_all add: drop_Cons' Suc_diff_Suc [symmetric])
  qed simp
  show ?thesis using gen [of "readable z s" 0] o by (simp add: word_le_nat_alt)
qed

lemma complete_read:
  assumes "log_inv z s" "complete_log z s"
  shows "read_from z off limit 0 s = Inr (take limit (drop (unat off) (readable z s)))"
  using read_from_prefix [OF assms(1) refl, of off limit 0]
  by (auto simp: complete_drop [OF assms] min_def)

section \<open>What one copy supplies\<close>

text \<open>Reading a batch at its first offset gives its compressed bytes and the records they decompress to.\<close>

lemma batch_entries:
  assumes d: "d = decoded_batch tp part w base ts cnt u encoded brs"
  shows "stored_entries path p n (StoredBatch d) =
    map (\<lambda>i. IndexEntry.make (base + of_nat i) p n path (of_nat i) cnt) [0..<unat cnt]"
  by (simp add: d decoded_batch_def DecodedBatch.make_def BatchMetadata.make_def)

text \<open>The records that the entries of one stored batch read back.\<close>

lemma batch_item_records:
  assumes item: "map_of fs path = Some c" "p + 4 + unat n \<le> length c" "read_u32_be c p = n"
    "stored_bytes_of z opts n (take (unat n) (drop (p + 4) c)) (StoredBatch d)"
    and d: "d = decoded_batch tp part w base ts cnt u encoded brs" and len: "length brs = unat cnt"
  shows "map (\<lambda>e. (\<lambda>r. BatchRecord.make (Record.key r) (Record.val r)) (hd (entry_records z opts fs e)))
    (stored_entries path p n (StoredBatch d)) = brs"
proof -
  have read: "\<exists>m. entry_records z opts fs (IndexEntry.make (base + of_nat j) p n path (of_nat j) cnt) =
      [Record.make m (BatchRecord.key (brs ! j)) (BatchRecord.message (brs ! j))]"
    (is "\<exists>m. entry_records z opts fs ?e = [?r m]") if j: "j < unat cnt" for j
  proof -
    have "j < 2 ^ 32" using j unat_u32_less [of cnt] by linarith
    then have "unat (of_nat j :: u32) = j" by (rule unat_of_nat_u32)
    moreover have "DecodedBatch.records d = brs" by (simp add: d decoded_batch_def DecodedBatch.make_def)
    ultimately obtain m where "pick_record opts ?e n (StoredBatch d) = Inr (?r m, unat n + 4)"
      using j len by (auto simp: pick_record_def Let_def IndexEntry.make_def)
    then have "read_entry z opts fs ?e = Inr (?r m, unat n + 4)"
      using item unfolding read_entry_iff stored_bytes_of_def
      by (intro exI [of _ c] exI [of _ n] exI [of _ "StoredBatch d"]) (simp add: IndexEntry.make_def)
    then show ?thesis by (auto simp: entry_records_def)
  qed
  have "BatchRecord.make (Record.key (hd (entry_records z opts fs e))) (Record.val (hd (entry_records z opts fs e))) =
      brs ! j" if "e = IndexEntry.make (base + of_nat j) p n path (of_nat j) cnt" "j < unat cnt" for j e
    using read [OF that(2)] by (auto simp: that(1) Record.make_def BatchRecord.make_def)
  then have "map (\<lambda>e. (\<lambda>r. BatchRecord.make (Record.key r) (Record.val r)) (hd (entry_records z opts fs e)))
      (stored_entries path p n (StoredBatch d)) = map (\<lambda>j. brs ! j) [0..<unat cnt]"
    unfolding batch_entries [OF d] map_map comp_def by (intro map_cong refl) simp
  then show ?thesis by (metis len map_nth)
qed

text \<open>The entry of offset 0 within a batch carries the batch's base offset.\<close>

lemma first_batch_entry:
  assumes e: "e \<in> set (stored_entries path p n (StoredBatch d))" "record_index e = 0"
    and d: "d = decoded_batch tp part w base ts cnt u encoded brs"
  shows "IndexEntry.offset e = base" "0 < unat cnt"
proof -
  obtain i where i: "i < unat cnt" "e = IndexEntry.make (base + of_nat i) p n path (of_nat i) cnt"
    using e(1) unfolding batch_entries [OF d] by auto
  have "(of_nat i :: u32) = 0" using e(2) i(2) by (simp add: IndexEntry.make_def)
  moreover have "i < 2 ^ 32" using i(1) unat_u32_less [of cnt] by linarith
  ultimately have "i = 0" by (metis unat_of_nat_u32 unat_0)
  then show "IndexEntry.offset e = base" "0 < unat cnt" using i by (simp_all add: IndexEntry.make_def)
qed

lemma sealed_batch_payload:
  "length encoded < 2 ^ 32 \<Longrightarrow>
   take (unat (BatchMetadata.encoded_bytes (DecodedBatch.metadata (decoded_batch tp part w base ts cnt u encoded brs))))
     (drop (unat kFixedBatchBodyBytes) (sealed (batch_body w base ts cnt u encoded))) = encoded"
  using batch_body_fields(10) [OF refl, of w base ts cnt u encoded "write_u32 (crc32 (batch_body w base ts cnt u encoded))"]
  by (simp add: decoded_batch_def DecodedBatch.make_def BatchMetadata.make_def unat_of_nat_u32 sealed_def
      kFixedBatchBodyBytes_def)

text \<open>The part of the index that starts at an item of the log.\<close>

lemma complete_item_entries:
  assumes "log_inv z s" "complete_log z s" "index' s = pre @ es @ post" "es \<noteq> []"
  shows "take (length es) (drop (unat (IndexEntry.offset (hd es))) (index' s)) = es"
proof -
  have "unat (IndexEntry.offset (index' s ! length pre)) = length pre"
    using assms(3,4) by (intro complete_nth [OF assms(1,2)]) simp
  moreover have "index' s ! length pre = hd es" using assms(3,4) by (simp add: nth_append hd_conv_nth)
  ultimately show ?thesis by (simp add: assms(3))
qed

lemma read_encoded_found:
  assumes inv: "log_inv z s" and run: "read_encoded_batch z off s = Inr (Some b)"
  obtains e c p n d pre post where "record_index e = 0" "IndexEntry.offset e = off"
    "map_of (directory s) (segment e) = Some c" "p + 4 + unat n \<le> length c" "read_u32_be c p = n"
    "stored_bytes_of z (options' s) n (take (unat n) (drop (p + 4) c)) (StoredBatch d)"
    "index' s = pre @ stored_entries (segment e) p n (StoredBatch d) @ post"
    "e \<in> set (stored_entries (segment e) p n (StoredBatch d))"
    "b = EncodedBatch.make (DecodedBatch.metadata d)
      (take (unat (BatchMetadata.encoded_bytes (DecodedBatch.metadata d)))
        (drop (unat kFixedBatchBodyBytes) (take (unat n) (drop (p + 4) c))))"
proof -
  obtain e where found: "find (\<lambda>item. IndexEntry.offset item = off) (index' s) = Some e"
    and zero: "record_index e = 0"
    using run by (auto simp: read_encoded_batch_def split: option.splits if_splits)
  have e: "e \<in> set (index' s)" "IndexEntry.offset e = off" using found by (auto simp: find_Some_iff)
  obtain c p n stored pre post where item: "map_of (directory s) (segment e) = Some c" "p + 4 + unat n \<le> length c"
    "read_u32_be c p = n" "stored_bytes_of z (options' s) n (take (unat n) (drop (p + 4) c)) stored"
    "index' s = pre @ stored_entries (segment e) p n stored @ post" "e \<in> set (stored_entries (segment e) p n stored)"
    by (rule inv_entry_item [OF inv e(1)])
  let ?body = "take (unat n) (drop (p + 4) c)"
  obtain d where "decode_stored z (options' s) n ?body = Inr (StoredBatch d)"
    and "b = EncodedBatch.make (DecodedBatch.metadata d)
      (take (unat (BatchMetadata.encoded_bytes (DecodedBatch.metadata d))) (drop (unat kFixedBatchBodyBytes) ?body))"
    using run found zero item(1) entries_fields [OF item(6)]
    by (auto simp: read_encoded_batch_def Let_def decode_stored_def split: if_splits sum.splits)
  moreover from this have "stored = StoredBatch d" using item(4) by (simp add: stored_bytes_of_def)
  ultimately show ?thesis using that [OF zero e(2) item(1-3)] item(4-6) by blast
qed

lemma read_encoded_batch_ok:
  assumes inv: "log_inv z s" and comp: "complete_log z s"
    and run: "read_encoded_batch z off s = Inr (Some b)"
  obtains w ts cnt u encoded brs where
    "b = EncodedBatch.make (DecodedBatch.metadata (decoded_batch (PartitionLogOptions.topic (options' s))
       (partition_id (options' s)) w off ts cnt u encoded brs)) encoded"
    "40 + length encoded < 2 ^ 32"
    "batch_acceptable z (unat (max_uncompressed_batch_bytes (options' s))) w cnt u encoded brs"
    "map (\<lambda>r. BatchRecord.make (Record.key r) (Record.val r)) (take (unat cnt) (drop (unat off) (readable z s))) = brs"
proof -
  let ?opts = "options' s"
  obtain e c p n d pre post where e: "record_index e = 0" "IndexEntry.offset e = off"
    "map_of (directory s) (segment e) = Some c" "p + 4 + unat n \<le> length c" "read_u32_be c p = n"
    "stored_bytes_of z ?opts n (take (unat n) (drop (p + 4) c)) (StoredBatch d)"
    "index' s = pre @ stored_entries (segment e) p n (StoredBatch d) @ post"
    "e \<in> set (stored_entries (segment e) p n (StoredBatch d))"
    "b = EncodedBatch.make (DecodedBatch.metadata d)
      (take (unat (BatchMetadata.encoded_bytes (DecodedBatch.metadata d)))
        (drop (unat kFixedBatchBodyBytes) (take (unat n) (drop (p + 4) c))))"
    by (rule read_encoded_found [OF inv run])
  let ?body = "take (unat n) (drop (p + 4) c)" and ?es = "stored_entries (segment e) p n (StoredBatch d)"
  obtain w base ts cnt u encoded brs where
    body: "?body = sealed (batch_body w base ts cnt u encoded)" "length ?body = unat n"
    and acc: "batch_acceptable z (unat (max_uncompressed_batch_bytes ?opts)) w cnt u encoded brs"
    and d: "d = decoded_batch (PartitionLogOptions.topic ?opts) (partition_id ?opts) w base ts cnt u encoded brs"
    using e(6) unfolding stored_bytes_of_def decode_stored_iff Stored.simps decode_batch_iff by blast
  have small: "40 + length encoded < 2 ^ 32" using body unat_u32_less [of n] by simp
  have base: "base = off" "0 < unat cnt" using first_batch_entry [OF e(8,1) d] e(2) by simp_all
  have es: "length ?es = unat cnt" "?es \<noteq> []" "IndexEntry.offset (hd ?es) = off"
    unfolding batch_entries [OF d] using base by (simp_all add: hd_map IndexEntry.make_def)
  have "length brs = unat cnt" using acc by (simp add: batch_acceptable_def valid_record_set_def)
  from batch_item_records [OF e(3-6) d this] complete_item_entries [OF inv comp e(7) es(2)]
  have "map (\<lambda>r. BatchRecord.make (Record.key r) (Record.val r)) (take (unat cnt) (drop (unat off) (readable z s))) = brs"
    by (simp only: es(1,3) readable_map [OF inv] drop_map take_map map_map comp_def)
  moreover have "b = EncodedBatch.make (DecodedBatch.metadata d) encoded"
    using e(9) sealed_batch_payload [of encoded] small unfolding body(1) d by simp
  ultimately show ?thesis using that [of w ts cnt u encoded brs] small acc by (simp add: d base(1))
qed

text \<open>Reading the batch at an offset never fails on a log that satisfies its invariant.\<close>

lemma read_encoded_no_error:
  assumes inv: "log_inv z s"
  shows "\<exists>b. read_encoded_batch z off s = Inr b"
proof (cases "find (\<lambda>item. IndexEntry.offset item = off) (index' s)")
  case (Some e)
  then have "e \<in> set (index' s)" by (auto simp: find_Some_iff)
  then obtain c p n stored pre post where item: "map_of (directory s) (segment e) = Some c" "p + 4 + unat n \<le> length c"
    "read_u32_be c p = n" "stored_bytes_of z (options' s) n (take (unat n) (drop (p + 4) c)) stored"
    "index' s = pre @ stored_entries (segment e) p n stored @ post" "e \<in> set (stored_entries (segment e) p n stored)"
    using inv_entry_item [OF inv] by metis
  then show ?thesis
    using Some entries_fields [OF item(6)]
    by (auto simp: read_encoded_batch_def Let_def stored_bytes_of_def decode_stored_def map_sum_eq_Inr)
qed (simp add: read_encoded_batch_def)

text \<open>What is replicated of a record: its offset and its bytes, not the time at which it was stored.\<close>

definition record_content :: "Record \<Rightarrow> u64 \<times> bytes \<times> bytes" where
  "record_content r = (RecordMetadata.offset (Record.metadata r), Record.key r, Record.val r)"

definition contents :: "zstd \<Rightarrow> PartitionLog \<Rightarrow> (u64 \<times> bytes \<times> bytes) list" where
  "contents z s = map record_content (readable z s)"

lemma complete_offset:
  assumes "log_inv z s" "complete_log z s" "i < length (readable z s)"
  shows "RecordMetadata.offset (Record.metadata (readable z s ! i)) = of_nat i"
proof -
  have "map (\<lambda>r. unat (RecordMetadata.offset (Record.metadata r))) (readable z s) ! i = [0..<length (readable z s)] ! i"
    using readable_offsets [OF assms(1)] assms(2) by (simp add: complete_log_def)
  then have "unat (RecordMetadata.offset (Record.metadata (readable z s ! i))) = i" using assms(3) by simp
  then show ?thesis by (rule eq_of_nat)
qed

lemma slice_contents:
  assumes "log_inv z s" "complete_log z s" "rs = take k (drop (unat off) (readable z s))"
  shows "map record_content rs = map2 (\<lambda>j r. (off + of_nat j, Record.key r, Record.val r)) [0..<length rs] rs"
proof (rule nth_equalityI)
  fix j assume "j < length (map record_content rs)"
  then have j: "j < k" "unat off + j < length (readable z s)" "j < length rs" by (auto simp: assms(3))
  then have "RecordMetadata.offset (Record.metadata (rs ! j)) = off + of_nat j"
    using complete_offset [OF assms(1,2), of "unat off + j"] by (simp add: assms(3))
  then show "map record_content rs ! j =
      map2 (\<lambda>j r. (off + of_nat j, Record.key r, Record.val r)) [0..<length rs] rs ! j"
    using j by (simp add: record_content_def)
qed simp

lemma stored_batch_contents:
  "map record_content (stored_batch_records m (append_records rs)) =
     map2 (\<lambda>j r. (BatchMetadata.base_offset m + of_nat j, Record.key r, Record.val r)) [0..<length rs] rs"
  by (intro nth_equalityI)
    (simp_all add: stored_batch_records_def batch_record_at_def record_content_def append_records_def
      Record.make_def RecordMetadata.make_def AppendRecord.make_def)

text \<open>A record of the log fits a record of its own, where the batch limit leaves room for the record's header.\<close>

lemma readable_small:
  assumes inv: "log_inv z s" and r: "r \<in> set (readable z s)"
    and room: "unat (max_uncompressed_batch_bytes (options' s)) + 36 < 2 ^ 32"
  shows "36 + length (Record.key r) + length (Record.val r) < 2 ^ 32"
proof -
  obtain e where e: "e \<in> set (index' s)" "r = hd (entry_records z (options' s) (directory s) e)"
    using r unfolding readable_map [OF inv] by auto
  obtain n c stored where item: "pick_record (options' s) e n stored = Inr (r, unat (IndexEntry.record_bytes e) + 4)"
    "decode_stored z (options' s) n c = Inr stored"
    using entry_records_inv(2) [OF inv e(1)] unfolding read_entry_iff e(2) by blast
  show ?thesis
  proof (cases stored)
    case (StoredRecord d)
    then show ?thesis using item unat_u32_less [of n]
      by (auto simp: decode_stored_iff decode_record_iff pick_record_def decoded_record_def DecodedRecord.make_def
          Record.make_def)
  next
    case (StoredBatch d)
    then obtain w base ts cnt u encoded brs where
      acc: "batch_acceptable z (unat (max_uncompressed_batch_bytes (options' s))) w cnt u encoded brs"
      and d: "DecodedBatch.records d = brs"
      using item(2) by (auto simp: decode_stored_iff decode_batch_iff decoded_batch_def DecodedBatch.make_def)
    let ?rec = "brs ! unat (record_index e)"
    have rec: "?rec \<in> set brs" "Record.key r = BatchRecord.key ?rec" "Record.val r = BatchRecord.message ?rec"
      using item(1) StoredBatch d by (auto simp: pick_record_def Let_def Record.make_def split: if_splits)
    have "length (encode_record_set brs) \<le> unat (max_uncompressed_batch_bytes (options' s))"
      using acc decompress_bounds(1,2) by (fastforce simp: batch_acceptable_def)
    then show ?thesis using record_set_member_bounds [OF rec(1)] room rec(2,3) by simp
  qed
qed

section \<open>The invariant of the pair\<close>

definition replica_inv :: "zstd \<Rightarrow> ReplicationSimulation \<Rightarrow> bool" where
  "replica_inv z s \<longleftrightarrow>
     log_inv z (leader s) \<and> log_inv z (follower s) \<and> complete_log z (leader s) \<and>
     options' (leader s) = replica_options (simulation s) \<and>
     options' (follower s) = replica_options (simulation s) \<and>
     prefix (contents z (follower s)) (contents z (leader s))"

lemma contents_offset:
  assumes "log_inv z s" "i < length (contents z s)"
  shows "unat (fst (contents z s ! i)) = unat (next_offset' s) - length (contents z s) + i"
proof -
  have "map (\<lambda>r. unat (RecordMetadata.offset (Record.metadata r))) (readable z s) ! i =
      [unat (next_offset' s) - length (readable z s)..<unat (next_offset' s)] ! i"
    using readable_offsets [OF assms(1)] by simp
  moreover have "length (readable z s) \<le> unat (next_offset' s)"
    using files_invD(3) [OF assms(1) [unfolded log_inv_def]] by (simp add: readable_length [OF assms(1)] consecutive_def)
  ultimately show ?thesis using assms(2) by (simp add: contents_def record_content_def)
qed

lemma replica_invD:
  assumes "replica_inv z s"
  shows "log_inv z (leader s)" "log_inv z (follower s)" "complete_log z (leader s)" "complete_log z (follower s)"
    "options' (leader s) = replica_options (simulation s)" "options' (follower s) = replica_options (simulation s)"
    "prefix (contents z (follower s)) (contents z (leader s))"
    "length (contents z (leader s)) = unat (next_offset' (leader s))"
    "length (contents z (follower s)) = unat (next_offset' (follower s))"
    "next_offset' (follower s) \<le> next_offset' (leader s)"
proof -
  note inv = assms [unfolded replica_inv_def]
  show lead: "length (contents z (leader s)) = unat (next_offset' (leader s))"
    using inv by (simp add: contents_def complete_log_def)
  have "length (contents z (follower s)) = unat (next_offset' (follower s))"
  proof (cases "contents z (follower s)")
    case Nil
    then have "index' (follower s) = []" using inv by (simp add: contents_def readable_map)
    moreover have "log_inv z (follower s)" using inv by simp
    ultimately have "next_offset' (follower s) = 0" using files_invD(4) unfolding log_inv_def by blast
    then show ?thesis using Nil by simp
  next
    case (Cons c cs)
    obtain rest where rest: "contents z (leader s) = contents z (follower s) @ rest" using inv by (auto simp: prefix_def)
    then have "unat (fst (contents z (leader s) ! 0)) = 0"
      using Cons inv lead by (subst contents_offset) auto
    moreover have "unat (fst (contents z (follower s) ! 0)) = unat (next_offset' (follower s)) - length (contents z (follower s))"
      using Cons inv by (subst contents_offset) auto
    moreover have "contents z (leader s) ! 0 = contents z (follower s) ! 0" using rest Cons by simp
    moreover have "length (contents z (follower s)) \<le> unat (next_offset' (follower s))"
      using files_invD(3) inv by (auto simp: log_inv_def contents_def readable_map consecutive_def)
    ultimately show ?thesis by simp
  qed
  then show "complete_log z (follower s)" "length (contents z (follower s)) = unat (next_offset' (follower s))"
    "next_offset' (follower s) \<le> next_offset' (leader s)"
    using prefix_length_le [of "contents z (follower s)" "contents z (leader s)"] inv lead
    by (simp_all add: complete_log_def contents_def word_le_nat_alt)
qed (use assms in \<open>simp_all add: replica_inv_def\<close>)

text \<open>A follower that grows by what the leader holds at its next offset stays a prefix.\<close>

lemma prefix_slice:
  assumes "prefix xs ys"
  shows "prefix (xs @ take k (drop (length xs) ys)) ys"
  using assms by (auto simp: prefix_def) (metis append_take_drop_id)

lemma follower_grows:
  assumes inv: "replica_inv z s" and f: "log_inv z f" "options' f = options' (follower s)"
    and grown: "contents z f = contents z (follower s) @
      map record_content (take k (drop (unat (next_offset' (follower s))) (readable z (leader s))))"
  shows "replica_inv z (s\<lparr>follower := f\<rparr>)"
proof -
  have "contents z f = contents z (follower s) @ take k (drop (length (contents z (follower s))) (contents z (leader s)))"
    using grown unfolding replica_invD(9) [OF inv] by (simp add: contents_def take_map drop_map)
  then have "prefix (contents z f) (contents z (leader s))" using prefix_slice [OF replica_invD(7) [OF inv]] by simp
  then show ?thesis using inv f by (simp add: replica_inv_def)
qed

section \<open>One copy\<close>

text \<open>
  The environment of a copy in which every write of the follower succeeds. A record that leaves its batch
  gets a header of its own, and the batch limit has to leave room for it.
\<close>

definition quiet_copy :: "SimulationOptions \<Rightarrow> CopyEnv \<Rightarrow> bool" where
  "quiet_copy opts env \<longleftrightarrow> batch_fault env = None \<and> io_fault (record_env env) = (\<lambda>_. None) \<and>
     unat (simulated_batch_bytes opts) + 36 < 2 ^ 32"

lemma append_encoded_accepts:
  assumes "recs \<noteq> []" "length recs < 2 ^ 32" "length (encode_record_set (batch_records recs)) = unat u"
    "decompress z c encoded (unat u) (unat (max_uncompressed_batch_bytes (options' s))) =
      Inr (encode_record_set (batch_records recs))"
  shows "\<exists>m s'. append_encoded_batch z ts None c encoded u recs s = (Inr m, s') \<and>
    BatchMetadata.base_offset m = next_offset' s \<and>
    BatchMetadata.next_offset m = next_offset' s + of_nat (length recs)"
  using assms unfolding append_encoded_batch_def Let_def
  by (auto simp: BatchMetadata.make_def)

text \<open>What a copy leaves: nothing of the leader changes, and the follower either grew or failed to write.\<close>

definition copied_well :: "zstd \<Rightarrow> CopyEnv \<Rightarrow> ReplicationSimulation \<Rightarrow> (string + bool) \<times> ReplicationSimulation \<Rightarrow> bool" where
  "copied_well z env s r \<longleftrightarrow>
     replica_inv z (snd r) \<and> snd r = s\<lparr>follower := follower (snd r)\<rparr> \<and>
     (case fst r of
        Inl _ \<Rightarrow> contents z (follower (snd r)) = contents z (follower s) \<and> \<not> quiet_copy (simulation s) env
      | Inr moved \<Rightarrow> moved \<and> next_offset' (follower s) < next_offset' (follower (snd r)))"

lemma copied_failed:
  assumes inv: "replica_inv z s"
    and f: "log_inv z f" "options' f = options' (follower s)" "readable z f = readable z (follower s)"
    and "\<not> quiet_copy (simulation s) env"
  shows "copied_well z env s (Inl what, s\<lparr>follower := f\<rparr>)"
proof -
  have "replica_inv z (s\<lparr>follower := f\<rparr>)" using inv f by (simp add: replica_inv_def contents_def)
  then show ?thesis using assms by (simp add: copied_well_def contents_def)
qed

lemma copied_grown:
  assumes inv: "replica_inv z s" and f: "log_inv z f" "options' f = options' (follower s)"
    and grown: "contents z f = contents z (follower s) @
      map record_content (take k (drop (unat (next_offset' (follower s))) (readable z (leader s))))"
    and more: "0 < k" "next_offset' (follower s) < next_offset' (leader s)"
  shows "copied_well z env s (Inr True, s\<lparr>follower := f\<rparr>)"
proof -
  have inv': "replica_inv z (s\<lparr>follower := f\<rparr>)" by (rule follower_grows [OF inv f grown])
  have "unat (next_offset' (follower s)) < length (readable z (leader s))"
    using more(2) replica_invD(8) [OF inv] by (simp add: contents_def word_less_nat_alt)
  then have "length (contents z (follower s)) < length (contents z f)" using more(1) by (simp add: grown)
  then have "next_offset' (follower s) < next_offset' f"
    using replica_invD(9) [OF inv] replica_invD(9) [OF inv'] by (simp add: word_less_nat_alt)
  then show ?thesis using inv' by (simp add: copied_well_def)
qed

text \<open>The batch that the leader supplies is one that the follower accepts.\<close>

lemma supplied_batch:
  assumes inv: "replica_inv z s" and behind: "next_offset' (follower s) < next_offset' (leader s)"
    and run: "read_encoded_batch z (next_offset' (follower s)) (leader s) = Inr (Some b)"
  defines "m \<equiv> EncodedBatch.metadata b"
  defines "rs \<equiv> take (unat (BatchMetadata.record_count m))
    (drop (unat (next_offset' (follower s))) (readable z (leader s)))"
  shows "BatchMetadata.base_offset m = next_offset' (follower s)"
    "BatchMetadata.next_offset m = next_offset' (follower s) + of_nat (length rs)"
    "length rs = unat (BatchMetadata.record_count m)" "rs \<noteq> []"
    "40 + length (EncodedBatch.encoded_records b) < 2 ^ 32"
    "\<forall>rec \<in> set (append_records rs). AppendRecord.val rec \<noteq> []"
    "decompress z (BatchMetadata.codec m) (EncodedBatch.encoded_records b) (unat (BatchMetadata.logical_bytes m))
      (unat (max_uncompressed_batch_bytes (options' (follower s)))) =
      Inr (encode_record_set (batch_records (append_records rs)))"
proof -
  note I = replica_invD [OF inv]
  let ?off = "next_offset' (follower s)" and ?opts = "replica_options (simulation s)"
  obtain w ts cnt u encoded brs where
    b: "b = EncodedBatch.make (DecodedBatch.metadata (decoded_batch (PartitionLogOptions.topic ?opts)
       (partition_id ?opts) w ?off ts cnt u encoded brs)) encoded"
    and small: "40 + length encoded < 2 ^ 32"
    and acc: "batch_acceptable z (unat (max_uncompressed_batch_bytes ?opts)) w cnt u encoded brs"
    and brs: "map (\<lambda>r. BatchRecord.make (Record.key r) (Record.val r))
      (take (unat cnt) (drop (unat ?off) (readable z (leader s)))) = brs"
    by (rule read_encoded_batch_ok [OF I(1,3) run, unfolded I(5)])
  have m: "BatchMetadata.record_count m = cnt" "BatchMetadata.codec m = codec_cast w"
    "EncodedBatch.encoded_records b = encoded" "BatchMetadata.logical_bytes m = u"
    "BatchMetadata.base_offset m = ?off" "BatchMetadata.next_offset m = ?off + ucast cnt"
    by (simp_all add: b m_def EncodedBatch.make_def decoded_batch_def DecodedBatch.make_def BatchMetadata.make_def)
  have recs: "map (\<lambda>r. BatchRecord.make (Record.key r) (Record.val r)) rs = brs"
    using brs unfolding rs_def m(1) .
  have valid: "length brs = unat cnt" "\<forall>rec \<in> set brs. valid_batch_record rec" "cnt \<noteq> 0"
    using acc by (simp_all add: batch_acceptable_def valid_record_set_def)
  have len: "length rs = unat cnt" using valid(1) unfolding recs [symmetric] by simp
  then show "length rs = unat (BatchMetadata.record_count m)" "rs \<noteq> []"
    "BatchMetadata.next_offset m = next_offset' (follower s) + of_nat (length rs)"
    using valid(3) by (auto simp: m unat_eq_zero)
  show "BatchMetadata.base_offset m = next_offset' (follower s)"
    "40 + length (EncodedBatch.encoded_records b) < 2 ^ 32" using small by (simp_all add: m)
  show "\<forall>rec \<in> set (append_records rs). AppendRecord.val rec \<noteq> []"
    using valid(2) unfolding recs [symmetric]
    by (auto simp: valid_batch_record_def append_records_def AppendRecord.make_def BatchRecord.make_def)
  have "batch_records (append_records rs) = brs"
    using recs by (simp add: append_records_def AppendRecord.make_def comp_def)
  then show "decompress z (BatchMetadata.codec m) (EncodedBatch.encoded_records b) (unat (BatchMetadata.logical_bytes m))
      (unat (max_uncompressed_batch_bytes (options' (follower s)))) =
      Inr (encode_record_set (batch_records (append_records rs)))"
    using acc by (simp add: batch_acceptable_def I(6) m)
qed

lemma supply_range:
  assumes inv: "replica_inv z s" and "rs = take k (drop (unat (next_offset' (follower s))) (readable z (leader s)))"
  shows "unat (next_offset' (follower s)) + length rs < 2 ^ 64"
proof -
  note I = replica_invD [OF inv]
  have "unat (next_offset' (follower s)) \<le> length (readable z (leader s))"
    using I(8,10) by (simp add: contents_def word_le_nat_alt)
  then have "unat (next_offset' (follower s)) + length rs \<le> length (readable z (leader s))" by (simp add: assms(2))
  then show ?thesis using I(8) unat_u64_less [of "next_offset' (leader s)"] by (simp add: contents_def)
qed

lemma copy_batch_ok:
  assumes inv: "replica_inv z s" and behind: "next_offset' (follower s) < next_offset' (leader s)"
    and run: "read_encoded_batch z (next_offset' (follower s)) (leader s) = Inr (Some b)"
  shows "copied_well z env s (copy_batch z env b s)"
proof -
  note I = replica_invD [OF inv]
  let ?m = "EncodedBatch.metadata b" and ?f = "follower s"
  define rs where "rs = take (unat (BatchMetadata.record_count ?m)) (drop (unat (next_offset' ?f)) (readable z (leader s)))"
  note S = supplied_batch [OF inv behind run, folded rs_def]
  let ?recs = "append_records rs"
  have nonempty: "?recs \<noteq> []" "length ?recs < 2 ^ 32"
    using S(3,4) unat_u32_less [of "BatchMetadata.record_count ?m"] by (simp_all add: append_records_def)
  have range: "unat (next_offset' ?f) + length ?recs < 2 ^ 64"
    using supply_range [OF inv rs_def] by (simp add: append_records_def)
  have read: "read_from z (next_offset' ?f) (unat (BatchMetadata.record_count ?m)) 0 (leader s) = Inr rs"
    by (simp add: complete_read [OF I(1,3)] rs_def)
  define append where "append = append_encoded_batch z (batch_time env) (batch_fault env) (BatchMetadata.codec ?m)
    (EncodedBatch.encoded_records b) (BatchMetadata.logical_bytes ?m) ?recs ?f"
  obtain result f where result: "append = (result, f)" by (cases append)
  note split = copy_batch_def [of z env b s, unfolded Let_def read sum.case, folded append_def]
  show ?thesis
  proof (cases result)
    case (Inl what)
    have "batch_fault env \<noteq> None"
    proof
      assume "batch_fault env = None"
      then have "\<exists>m s'. append = (Inr m, s')"
        using append_encoded_accepts [OF nonempty decompress_bounds(1) [OF S(7)] S(7)] unfolding append_def by metis
      then show False using result Inl by simp
    qed
    then have "\<not> quiet_copy (simulation s) env" by (simp add: quiet_copy_def)
    then have "copied_well z env s (Inl what, s\<lparr>follower := f\<rparr>)"
      using encoded_batch_fail [OF I(2) result [unfolded append_def Inl]] by (intro copied_failed [OF inv]) blast+
    then show ?thesis using result Inl by (simp add: split)
  next
    case (Inr copied)
    note run' = result [unfolded append_def Inr]
    note ok = encoded_batch_ok [OF I(2) run' range S(5,6)]
    have offs: "BatchMetadata.base_offset copied = BatchMetadata.base_offset ?m"
      "BatchMetadata.next_offset copied = BatchMetadata.next_offset ?m"
      using append_encoded_success(5) [OF I(2) run'] S(1,2) by (simp_all add: BatchMetadata.make_def append_records_def)
    have "contents z f = contents z ?f @ map record_content rs"
      using ok slice_contents [OF I(1,3) rs_def] offs(1) S(1) by (simp add: contents_def stored_batch_contents)
    moreover have "0 < unat (BatchMetadata.record_count ?m)" using S(3,4) by (metis length_greater_0_conv)
    ultimately have "copied_well z env s (Inr True, s\<lparr>follower := f\<rparr>)"
      using ok behind by (intro copied_grown [OF inv]) (simp_all add: rs_def)
    then show ?thesis using result Inr offs by (simp add: split)
  qed
qed

lemma copy_record_ok:
  assumes inv: "replica_inv z s" and behind: "next_offset' (follower s) < next_offset' (leader s)"
  shows "copied_well z env s (copy_record z env s)"
proof -
  note I = replica_invD [OF inv]
  let ?f = "follower s"
  define r where "r = readable z (leader s) ! unat (next_offset' ?f)"
  have less: "unat (next_offset' ?f) < length (readable z (leader s))"
    using behind I(8) by (simp add: contents_def word_less_nat_alt)
  then have one: "[r] = take 1 (drop (unat (next_offset' ?f)) (readable z (leader s)))"
    by (simp add: r_def take_Suc hd_drop_conv_nth)
  have read: "read_from z (next_offset' ?f) 1 0 (leader s) = Inr [r]" by (simp only: complete_read [OF I(1,3)] one)
  have roff: "RecordMetadata.offset (Record.metadata r) = next_offset' ?f"
    using complete_offset [OF I(1,3) less] by (simp add: r_def)
  let ?rec = "AppendRecord.make (Record.key r) (Record.val r)"
  have recs: "append_records [r] = [?rec]" by (simp add: append_records_def)
  define append where "append = append_batch (record_env env) [?rec] ?f"
  obtain result f where result: "append = (result, f)" by (cases append)
  note split = copy_record_def [of z env s, unfolded Let_def read sum.case list.sel recs, folded append_def]
  show ?thesis
  proof (cases result)
    case (Inl what)
    have "\<not> quiet_copy (simulation s) env"
    proof
      assume "quiet_copy (simulation s) env"
      then have quiet: "io_fault (record_env env) = (\<lambda>_. None)"
        "unat (max_uncompressed_batch_bytes (options' (leader s))) + 36 < 2 ^ 32"
        by (simp_all add: quiet_copy_def I(5) replica_options_def PartitionLogOptions.make_def)
      have "r \<in> set (readable z (leader s))" using less by (simp add: r_def)
      from append_one_accepts [OF readable_small [OF I(1) this quiet(2)] quiet(1), of ?f]
      show False using result Inl unfolding append_def by auto
    qed
    then have "copied_well z env s (Inl what, s\<lparr>follower := f\<rparr>)"
      using append_batch_fail [OF I(2) result [unfolded append_def Inl]] append_step_options [of "(record_env env, [?rec])" ?f]
        result by (intro copied_failed [OF inv]) (simp_all add: append_step_def append_def)
    then show ?thesis using result Inl roff by (simp add: split)
  next
    case (Inr copied)
    have "unat (next_offset' ?f) + length [?rec] < 2 ^ 64" using supply_range [OF inv one] by simp
    note ok = append_batch_ok [OF I(2) this result [unfolded append_def Inr]]
    then obtain m where m: "copied = [m]" "RecordMetadata.offset m = next_offset' ?f" by (auto simp: length_Suc_conv)
    have "contents z f = contents z ?f @ map record_content [r]"
      using ok m roff by (simp add: contents_def record_content_def AppendRecord.make_def Record.make_def)
    then have "copied_well z env s (Inr True, s\<lparr>follower := f\<rparr>)"
      using ok behind unfolding one by (intro copied_grown [OF inv, where k = 1]) simp_all
    then show ?thesis using result Inr roff m by (simp add: split)
  qed
qed

lemma replicate_once_ok:
  assumes inv: "replica_inv z s"
  shows "(\<not> follower_available s \<or> next_offset' (follower s) = next_offset' (leader s)) \<and>
      replicate_once z env s = (Inr False, s) \<or>
    follower_available s \<and> next_offset' (follower s) < next_offset' (leader s) \<and>
      copied_well z env s (replicate_once z env s)"
proof (cases "\<not> follower_available s \<or> next_offset' (follower s) = next_offset' (leader s)")
  case True
  then show ?thesis by (auto simp: replicate_once_def Let_def)
next
  case False
  then have behind: "next_offset' (follower s) < next_offset' (leader s)" "follower_available s"
    using replica_invD(10) [OF inv] by (auto intro: order.not_eq_order_implies_strict)
  obtain b where b: "read_encoded_batch z (next_offset' (follower s)) (leader s) = Inr b"
    using read_encoded_no_error [OF replica_invD(1) [OF inv]] by blast
  have guards: "next_offset' (follower s) \<noteq> next_offset' (leader s)" "\<not> next_offset' (leader s) < next_offset' (follower s)"
    using behind(1) by auto
  have "copied_well z env s (replicate_once z env s)"
  proof (cases b)
    case None
    then show ?thesis using copy_record_ok [OF inv behind(1)] behind(2) guards b by (simp add: replicate_once_def Let_def)
  next
    case (Some batch)
    then show ?thesis
      using copy_batch_ok [OF inv behind(1) b [unfolded Some]] behind(2) guards b
      by (simp add: replicate_once_def Let_def)
  qed
  then show ?thesis using behind by simp
qed

section \<open>Catching up\<close>

lemma replica_equal:
  assumes "replica_inv z s" "next_offset' (follower s) = next_offset' (leader s)"
  shows "contents z (follower s) = contents z (leader s)"
proof -
  note I = replica_invD [OF assms(1)]
  obtain rest where "contents z (leader s) = contents z (follower s) @ rest" using I(7) by (auto simp: prefix_def)
  moreover from this have "rest = []" using I(8,9) assms(2) by (metis append_Nil2 length_append length_0_conv add_cancel_left_right)
  ultimately show ?thesis by simp
qed

abbreviation lag_of :: "ReplicationSimulation \<Rightarrow> nat" where
  "lag_of s \<equiv> unat (next_offset' (leader s)) - unat (next_offset' (follower s))"

lemma copied_wellD:
  assumes "copied_well z env s r"
  shows "replica_inv z (snd r)" "leader (snd r) = leader s" "follower_available (snd r) = follower_available s"
    "simulation (snd r) = simulation s"
    "fst r = Inr moved \<Longrightarrow> moved" "fst r = Inl what \<Longrightarrow> \<not> quiet_copy (simulation s) env"
    "fst r = Inr moved \<Longrightarrow> lag_of (snd r) < lag_of s"
proof -
  have r: "replica_inv z (snd r)" "snd r = s\<lparr>follower := follower (snd r)\<rparr>" using assms by (simp_all add: copied_well_def)
  show "replica_inv z (snd r)" by (rule r)
  show same: "leader (snd r) = leader s" "follower_available (snd r) = follower_available s" "simulation (snd r) = simulation s"
    by (subst r(2), simp)+
  show "fst r = Inr moved \<Longrightarrow> moved" "fst r = Inl what \<Longrightarrow> \<not> quiet_copy (simulation s) env"
    using assms by (simp_all add: copied_well_def)
  show "fst r = Inr moved \<Longrightarrow> lag_of (snd r) < lag_of s"
    using assms replica_invD(10) [OF r(1)] same(1)
    by (auto simp: copied_well_def word_less_nat_alt word_le_nat_alt)
qed

lemma catch_up_returns:
  assumes "replica_inv z s"
  shows "\<exists>result s'. catch_up z envs i s = Some (result, s') \<and> replica_inv z s' \<and> leader s' = leader s \<and>
    (case result of
       Inl _ \<Rightarrow> \<exists>j. \<not> quiet_copy (simulation s) (envs j)
     | Inr n \<Rightarrow> n \<le> i + lag_of s \<and> (follower_available s \<longrightarrow> contents z (follower s') = contents z (leader s')))"
  using assms
proof (induction "lag_of s" arbitrary: i s rule: less_induct)
  case less
  let ?r = "replicate_once z (envs i) s"
  from replicate_once_ok [OF less.prems, of "envs i"] show ?case
  proof (elim disjE conjE)
    assume "\<not> follower_available s" "?r = (Inr False, s)"
    then show ?thesis using less.prems by (subst catch_up.simps) (auto simp: Let_def)
  next
    assume "next_offset' (follower s) = next_offset' (leader s)" "?r = (Inr False, s)"
    then show ?thesis using less.prems replica_equal [OF less.prems] by (subst catch_up.simps) (auto simp: Let_def)
  next
    assume "copied_well z (envs i) s ?r"
    note C = copied_wellD [OF this]
    show ?thesis
    proof (cases "fst ?r")
      case (Inl what)
      then show ?thesis using C by (subst catch_up.simps) (auto simp: Let_def)
    next
      case (Inr moved)
      have "catch_up z envs i s = catch_up z envs (Suc i) (snd ?r)"
        using Inr C(5) [OF Inr] by (subst catch_up.simps) (simp add: Let_def)
      moreover have "Suc i + lag_of (snd ?r) \<le> i + lag_of s" using C(7) [OF Inr] by simp
      ultimately show ?thesis
        using less.hyps [OF C(7) [OF Inr] C(1), of "Suc i"] unfolding C(2-4)
        by (elim exE conjE) (auto split: sum.splits)
    qed
  qed
qed

lemma await_follower_returns:
  assumes "replica_inv z s" "deadline \<le> readings (i + k)"
  shows "\<exists>result s'. await_follower z envs readings deadline goal i s = Some (result, s') \<and> replica_inv z s' \<and>
    leader s' = leader s"
  using assms
proof (induction k arbitrary: i s)
  case 0
  then show ?case by (subst await_follower.simps) auto
next
  case (Suc k)
  let ?r = "replicate_once z (envs i) s"
  have r: "replica_inv z (snd ?r)" "leader (snd ?r) = leader s"
    using replicate_once_ok [OF Suc.prems(1), of "envs i"] Suc.prems(1) copied_wellD(1,2) [of z "envs i" s ?r] by auto
  have "\<exists>result s'. await_follower z envs readings deadline goal (Suc i) (snd ?r) = Some (result, s') \<and>
      replica_inv z s' \<and> leader s' = leader s"
    using Suc.IH [OF r(1), of "Suc i"] Suc.prems(2) r(2) by simp
  then show ?case using Suc.prems(1) r by (subst await_follower.simps) (auto simp: Let_def)
qed

section \<open>Producing\<close>

definition canonical_set :: "AppendRecord list \<Rightarrow> bytes" where
  "canonical_set recs = encode_record_set (batch_records recs)"

text \<open>A batch that the record format and the 64-bit offsets can hold.\<close>

definition produce_room :: "zstd \<Rightarrow> Codec \<Rightarrow> AppendRecord list \<Rightarrow> ReplicationSimulation \<Rightarrow> bool" where
  "produce_room z c recs s \<longleftrightarrow>
     unat (next_offset' (leader s)) + length recs < 2 ^ 64 \<and> (\<forall>rec \<in> set recs. AppendRecord.val rec \<noteq> []) \<and>
     (\<forall>encoded. compress z c (canonical_set recs) 3 = Inr encoded \<longrightarrow> 40 + length encoded < 2 ^ 32)"

lemma leader_grows:
  assumes inv: "replica_inv z s" and l: "log_inv z l" "options' l = options' (leader s)"
    and "readable z l = readable z (leader s) @ rs" "unat (next_offset' l) = unat (next_offset' (leader s)) + length rs"
  shows "replica_inv z (s\<lparr>leader := l\<rparr>)"
proof -
  note I = replica_invD [OF inv]
  have "complete_log z l" using assms(4,5) I(3) by (simp add: complete_log_def)
  moreover have "prefix (contents z (follower s)) (contents z l)"
    using I(7) by (simp add: contents_def assms(4) prefix_prefix)
  ultimately show ?thesis using inv l by (simp add: replica_inv_def)
qed

text \<open>The append on the leader, whatever it returns.\<close>

lemma leader_append:
  assumes inv: "replica_inv z s" and room: "produce_room z c recs s"
    and enc: "compress z c (canonical_set recs) 3 = Inr encoded"
    and run: "append_encoded_batch z ts fault c encoded u recs (leader s) = (result, l)"
  shows "replica_inv z (s\<lparr>leader := l\<rparr>) \<and>
    (case result of
       Inl _ \<Rightarrow> readable z l = readable z (leader s)
     | Inr m \<Rightarrow> readable z l = readable z (leader s) @ stored_batch_records m recs \<and>
         BatchMetadata.next_offset m = next_offset' l)"
proof (cases result)
  case (Inl what)
  then show ?thesis
    using encoded_batch_fail [OF replica_invD(1) [OF inv] run [unfolded Inl]] inv leader_grows [OF inv, of l "[]"] by simp
next
  case (Inr m)
  note run' = run [unfolded Inr]
  have room': "unat (next_offset' (leader s)) + length recs < 2 ^ 64" "40 + length encoded < 2 ^ 32"
    "\<forall>rec \<in> set recs. AppendRecord.val rec \<noteq> []"
    using room enc by (auto simp: produce_room_def)
  note ok = encoded_batch_ok [OF replica_invD(1) [OF inv] run' room']
  have "unat (next_offset' l) = unat (next_offset' (leader s)) + length recs"
    using ok room'(1) by (simp add: unat_add_of_nat)
  moreover have "length (stored_batch_records m recs) = length recs" by (simp add: stored_batch_records_def)
  moreover have "BatchMetadata.next_offset m = next_offset' l"
    using append_encoded_success(5) [OF replica_invD(1) [OF inv] run'] ok by (simp add: BatchMetadata.make_def)
  ultimately show ?thesis using ok leader_grows [OF inv, of l "stored_batch_records m recs"] Inr by simp
qed

lemma produce_ok:
  assumes inv: "replica_inv z s" and room: "produce_room z c recs s"
    and clock: "readings 0 + timeout \<le> readings (Suc k)"
  obtains result s' where "produce z env envs readings recs c ack timeout s = Some (result, s')" "replica_inv z s'"
    "contents z (leader s') = contents z (leader s) \<and> isl result \<or>
     (\<exists>m. contents z (leader s') = contents z (leader s) @ map record_content (stored_batch_records m recs) \<and>
        (\<forall>m'. result = Inr m' \<longrightarrow> m' = m) \<and>
        (result = Inr m \<and> ack = Ack_All \<longrightarrow> contents z (follower s') = contents z (leader s')))"
proof (cases "compress z c (canonical_set recs) 3")
  case (Inl what)
  then show ?thesis using that [of "Inl what" s] inv by (simp add: produce_def canonical_set_def Let_def)
next
  case (Inr encoded)
  define append where "append = append_encoded_batch z (batch_time env) (batch_fault env) c encoded
    (of_nat (length (canonical_set recs))) recs (leader s)"
  obtain result l where result: "append = (result, l)" by (cases append)
  note L = leader_append [OF inv room Inr result [unfolded append_def]]
  note step = produce_def [of z env envs readings recs c ack timeout s, folded canonical_set_def, unfolded Let_def Inr sum.case,
      folded append_def, unfolded result prod.case]
  show ?thesis
  proof (cases result)
    case (Inl what)
    then show ?thesis using that [of "Inl what" "s\<lparr>leader := l\<rparr>"] L step by (simp add: contents_def)
  next
    case (Inr m)
    let ?s1 = "s\<lparr>leader := l\<rparr>"
    have new: "contents z l = contents z (leader s) @ map record_content (stored_batch_records m recs)"
      using L Inr by (simp add: contents_def)
    show ?thesis
    proof (cases "ack = Ack_Leader")
      case True
      then show ?thesis using that [of "Inr m" ?s1] L Inr step new by auto
    next
      case False
      obtain waited s2 where wait: "await_follower z envs readings (readings 0 + timeout) (BatchMetadata.next_offset m) 1 ?s1 =
          Some (waited, s2)" "replica_inv z s2" "leader s2 = l"
        using await_follower_returns [of z ?s1 "readings 0 + timeout" readings 1 k envs "BatchMetadata.next_offset m"]
          L clock by auto
      have "contents z (follower s2) = contents z (leader s2)" if "\<not> next_offset' (follower s2) < BatchMetadata.next_offset m"
        using replica_equal [OF wait(2)] replica_invD(10) [OF wait(2)] that L Inr wait(3) by simp
      then show ?thesis
        using that step wait new False Inr by (cases waited) (auto split: if_splits)
    qed
  qed
qed

section \<open>Histories of the simulation\<close>

lemma reopen_follower_inv:
  assumes inv: "replica_inv z s" and base: "active_base (follower s) \<le> base"
    and crash: "crash_dir (directory (follower s)) base t fs" "torn_item t"
    and run: "reopen_follower z fs s = (Inr (), s')"
  shows "replica_inv z s'"
proof -
  note I = replica_invD [OF inv]
  let ?opts = "replica_options (simulation s)"
  obtain f where f: "open_log z ?opts fs = Inr f" "s' = s\<lparr>follower := f\<rparr>"
    using run by (auto simp: reopen_follower_def split: sum.splits)
  then have ok: "is_valid_topic_name (PartitionLogOptions.topic ?opts)" "max_segment_bytes ?opts \<noteq> 0"
    by (auto simp: open_log_def split: if_splits)
  have "log_inv z f" "options' f = ?opts" "readable z f = readable z (follower s)"
    using reopen_crashed [OF I(2) base crash] ok f(1) by (auto simp: I(6))
  then show ?thesis using inv by (simp add: replica_inv_def f(2) contents_def)
qed

text \<open>
  What can happen to the pair: a batch is produced, a copy is attempted, with or without a failing write, the
  loop runs, the follower becomes unreachable or reachable, or it crashes in a write and is opened again.
\<close>

inductive replication_step :: "zstd \<Rightarrow> ReplicationSimulation \<Rightarrow> ReplicationSimulation \<Rightarrow> bool" for z where
  step_produce: "produce_room z c recs s \<Longrightarrow> readings 0 + timeout \<le> readings (Suc k) \<Longrightarrow>
    produce z env envs readings recs c ack timeout s = Some (result, s') \<Longrightarrow> replication_step z s s'"
| step_copy: "replicate_once z env s = (result, s') \<Longrightarrow> replication_step z s s'"
| step_catch_up: "catch_up z envs 0 s = Some (result, s') \<Longrightarrow> replication_step z s s'"
| step_available: "replication_step z s (set_follower_available a s)"
| step_reopen: "active_base (follower s) \<le> base \<Longrightarrow> crash_dir (directory (follower s)) base t fs \<Longrightarrow> torn_item t \<Longrightarrow>
    reopen_follower z fs s = (Inr (), s') \<Longrightarrow> replication_step z s s'"

inductive replication_reach :: "zstd \<Rightarrow> ReplicationSimulation \<Rightarrow> ReplicationSimulation \<Rightarrow> bool" for z s0 where
  reach_start: "replication_reach z s0 s0"
| reach_next: "replication_reach z s0 s \<Longrightarrow> replication_step z s s' \<Longrightarrow> replication_reach z s0 s'"

lemma replication_step_inv:
  assumes "replication_step z s s'" "replica_inv z s"
  shows "replica_inv z s'"
  using assms
proof cases
  case (step_produce c recs readings timeout k env envs ack result)
  then show ?thesis using produce_ok [OF assms(2) step_produce(1,2), of env envs ack] by (metis option.inject prod.inject)
next
  case (step_copy env result)
  then show ?thesis
    using replicate_once_ok [OF assms(2), of env] copied_wellD(1) [of z env s "(result, s')"] assms(2) by auto
next
  case (step_catch_up envs result)
  then show ?thesis using catch_up_returns [OF assms(2), of envs 0] by auto
next
  case (step_available a)
  then show ?thesis using assms(2) by (simp add: set_follower_available_def replica_inv_def)
next
  case (step_reopen base t fs)
  then show ?thesis using reopen_follower_inv [OF assms(2)] by blast
qed

lemma replication_reach_inv:
  assumes "replication_reach z s0 s" "replica_inv z s0"
  shows "replica_inv z s"
  using assms by induction (auto intro: replication_step_inv)

lemma open_simulation_inv:
  assumes "open_simulation z opts [] [] = Inr s"
  shows "replica_inv z s" "follower_available s" "simulation s = opts" "next_offset' (leader s) = 0"
proof -
  obtain l f where s: "s = ReplicationSimulation.make opts l f True"
    and l: "open_log z (replica_options opts) [] = Inr l" and f: "open_log z (replica_options opts) [] = Inr f"
    using assms by (auto simp: open_simulation_def split: sum.splits if_splits)
  note open_empty_log [OF l] open_empty_log [OF f]
  then show "replica_inv z s" "follower_available s" "simulation s = opts" "next_offset' (leader s) = 0"
    by (simp_all add: s ReplicationSimulation.make_def replica_inv_def complete_log_def contents_def)
qed

section \<open>Properties\<close>

definition sample_simulation :: SimulationOptions where
  "sample_simulation = SimulationOptions.make ''l'' ''f'' ''t'' 0 ''leader-1'' ''follower-1'' 1024 1048576"

definition sample_copy :: CopyEnv where
  "sample_copy = CopyEnv.make quiet_env 7 None"

lemma sample_quiet: "quiet_copy sample_simulation sample_copy"
  by (simp add: quiet_copy_def sample_simulation_def sample_copy_def CopyEnv.make_def SimulationOptions.make_def quiet_env_def)

lemma sample_opens: "\<exists>s. open_simulation zstd_stored sample_simulation [] [] = Inr s"
proof -
  have "is_valid_topic_name ''t''" by (simp add: is_valid_topic_name_def less_eq_char_def)
  then have "\<exists>l. open_log zstd_stored (replica_options sample_simulation) [] = Inr l"
    by (simp add: open_log_def replica_options_def sample_simulation_def SimulationOptions.make_def PartitionLogOptions.make_def)
  then obtain l where "open_log zstd_stored (replica_options sample_simulation) [] = Inr l" by blast
  then show ?thesis
    by (simp add: open_simulation_def sample_simulation_def SimulationOptions.make_def)
qed

lemma sample_room:
  assumes "open_simulation zstd_stored sample_simulation [] [] = Inr s"
  shows "produce_room zstd_stored Codec_None [AppendRecord.make [1] [2]] s"
  using open_simulation_inv(4) [OF assms]
  by (simp add: produce_room_def compress_def canonical_set_def encode_record_set_def write_batch_record_def
      write_bytes_def BatchRecord.make_def AppendRecord.make_def)

text \<open>A replica reads all its records.\<close>

lemma complete_records:
  assumes inv: "log_inv z s" and comp: "complete_log z s"
  shows "read_from z (earliest_offset s) (unat (next_offset' s)) 0 s = Inr (readable z s)"
proof -
  have "unat (earliest_offset s) = 0"
  proof (cases "index' s")
    case Nil
    then show ?thesis using comp by (simp add: earliest_offset_def complete_log_def readable_length [OF inv])
  next
    case (Cons e es)
    then show ?thesis using complete_nth [OF inv comp, of 0] by (simp add: earliest_offset_def)
  qed
  then show ?thesis using comp by (simp add: complete_read [OF inv comp] complete_log_def)
qed

lemma replica_records:
  assumes "replica_inv z s"
  shows "leader_records z s = Inr (readable z (leader s))" "follower_records z s = Inr (readable z (follower s))"
    "unat (lag_records (status s)) = length (contents z (leader s)) - length (contents z (follower s))"
proof -
  note I = replica_invD [OF assms]
  show "leader_records z s = Inr (readable z (leader s))" "follower_records z s = Inr (readable z (follower s))"
    by (simp_all add: leader_records_def follower_records_def complete_records I)
  show "unat (lag_records (status s)) = length (contents z (leader s)) - length (contents z (follower s))"
    using I(8-10) by (simp add: status_def ReplicationStatus.make_def Let_def unat_sub)
qed

text \<open>
  C18: a follower never diverges from its leader. Start from empty directories and let anything happen that
  the simulation allows: batches produced with either acknowledgement, copies that succeed or fail in the
  middle of a write, an unreachable follower, and crashes of the follower that tear its last write. Both
  replicas always read back completely, the offsets, keys and values of the follower are a prefix of the
  leader's, and the reported lag is the number of records that the follower lacks.
\<close>

theorem follower_is_prefix:
  assumes "open_simulation z opts [] [] = Inr s0" "replication_reach z s0 s"
  shows "\<exists>ls fs. leader_records z s = Inr ls \<and> follower_records z s = Inr fs \<and>
    prefix (map record_content fs) (map record_content ls) \<and>
    unat (lag_records (status s)) = length ls - length fs"
proof -
  have inv: "replica_inv z s" using replication_reach_inv [OF assms(2) open_simulation_inv(1) [OF assms(1)]] .
  show ?thesis using replica_records [OF inv] replica_invD(7) [OF inv] by (auto simp: contents_def)
qed

theorem follower_is_prefix_witness:
  "\<exists>s0 s1. open_simulation zstd_stored sample_simulation [] [] = Inr s0 \<and>
     snd (replicate_once zstd_stored sample_copy (set_follower_available False s0)) = s1 \<and>
     unat (lag_records (status s1)) = 0"
proof -
  obtain s0 where s0: "open_simulation zstd_stored sample_simulation [] [] = Inr s0" using sample_opens by blast
  let ?s = "set_follower_available False s0"
  have idle: "replicate_once zstd_stored sample_copy ?s = (Inr False, ?s)"
    by (simp add: replicate_once_def set_follower_available_def)
  have reach: "replication_reach zstd_stored s0 ?s"
    by (rule reach_next [OF reach_next [OF reach_start step_available [of _ _ False]] step_copy [OF idle]])
  obtain ls fs where r: "leader_records zstd_stored ?s = Inr ls" "unat (lag_records (status ?s)) = length ls - length fs"
    and "follower_records zstd_stored ?s = Inr fs"
    using follower_is_prefix [OF s0 reach] by blast
  have "readable zstd_stored (leader s0) = []"
    using replica_invD(8) [OF open_simulation_inv(1) [OF s0]] open_simulation_inv(4) [OF s0] by (simp add: contents_def)
  moreover have "leader_records zstd_stored ?s = leader_records zstd_stored s0"
    by (simp add: leader_records_def set_follower_available_def)
  ultimately have "ls = []" using r(1) replica_records(1) [OF open_simulation_inv(1) [OF s0]] by simp
  then show ?thesis using s0 idle r(2) by (intro exI [of _ s0] exI [of _ ?s]) simp
qed

text \<open>
  C19: a reachable follower catches up. In every state of the history, when the follower is available and
  its writes succeed, the loop of \<open>catch_up\<close> ends, after at most as many copies as the follower lacks
  records, with the leader untouched, the same offsets, keys and values on both replicas and no lag. It
  ends as well when writes fail or the follower is unavailable.
\<close>

theorem catch_up_converges:
  assumes "open_simulation z opts [] [] = Inr s0" "replication_reach z s0 s"
  shows "\<exists>result s'. catch_up z envs 0 s = Some (result, s') \<and> leader s' = leader s \<and>
    (follower_available s \<and> (\<forall>j. quiet_copy (simulation s) (envs j)) \<longrightarrow>
      (\<exists>n ls fs. result = Inr n \<and> n \<le> unat (lag_records (status s)) \<and> unat (lag_records (status s')) = 0 \<and>
        leader_records z s' = Inr ls \<and> follower_records z s' = Inr fs \<and>
        map record_content fs = map record_content ls))"
proof -
  have inv: "replica_inv z s" using replication_reach_inv [OF assms(2) open_simulation_inv(1) [OF assms(1)]] .
  obtain result s' where run: "catch_up z envs 0 s = Some (result, s')" "replica_inv z s'" "leader s' = leader s"
    and r: "case result of Inl _ \<Rightarrow> \<exists>j. \<not> quiet_copy (simulation s) (envs j)
     | Inr n \<Rightarrow> n \<le> 0 + lag_of s \<and> (follower_available s \<longrightarrow> contents z (follower s') = contents z (leader s'))"
    using catch_up_returns [OF inv, of envs 0] by blast
  have lag: "lag_of s = unat (lag_records (status s))"
    using replica_records(3) [OF inv] replica_invD(8,9) [OF inv] by simp
  have "\<exists>n ls fs. result = Inr n \<and> n \<le> unat (lag_records (status s)) \<and> unat (lag_records (status s')) = 0 \<and>
      leader_records z s' = Inr ls \<and> follower_records z s' = Inr fs \<and> map record_content fs = map record_content ls"
    if quiet: "follower_available s \<and> (\<forall>j. quiet_copy (simulation s) (envs j))"
  proof (cases result)
    case (Inl what)
    then show ?thesis using r quiet by simp
  next
    case (Inr n)
    then show ?thesis using r quiet replica_records [OF run(2)] lag by (simp add: contents_def)
  qed
  then show ?thesis using run by blast
qed

lemma sample_produced:
  assumes "open_simulation zstd_stored sample_simulation [] [] = Inr s0"
  obtains result s where "produce zstd_stored sample_copy (\<lambda>_. sample_copy) (\<lambda>_. 0) [AppendRecord.make [1] [2]] Codec_None
      ack 0 s0 = Some (result, s)" "replication_reach zstd_stored s0 s"
proof -
  obtain result s where run: "produce zstd_stored sample_copy (\<lambda>_. sample_copy) (\<lambda>_. 0) [AppendRecord.make [1] [2]]
      Codec_None ack 0 s0 = Some (result, s)"
    by (rule produce_ok [OF open_simulation_inv(1) [OF assms] sample_room [OF assms], of "\<lambda>_. 0" 0 0 sample_copy
          "\<lambda>_. sample_copy" ack]) simp_all
  have "replication_step zstd_stored s0 s" by (rule step_produce [OF sample_room [OF assms] _ run]) simp
  then show ?thesis using that run reach_next [OF reach_start] by blast
qed

theorem catch_up_converges_witness:
  "\<exists>s0 s result s'. open_simulation zstd_stored sample_simulation [] [] = Inr s0 \<and>
     (\<exists>r. produce zstd_stored sample_copy (\<lambda>_. sample_copy) (\<lambda>_. 0) [AppendRecord.make [1] [2]] Codec_None Ack_Leader 0 s0 =
       Some (r, s)) \<and>
     catch_up zstd_stored (\<lambda>_. sample_copy) 0 s = Some (result, s') \<and> leader s' = leader s"
proof -
  obtain s0 where s0: "open_simulation zstd_stored sample_simulation [] [] = Inr s0" using sample_opens by blast
  obtain r s where s: "produce zstd_stored sample_copy (\<lambda>_. sample_copy) (\<lambda>_. 0) [AppendRecord.make [1] [2]] Codec_None
      Ack_Leader 0 s0 = Some (r, s)" "replication_reach zstd_stored s0 s"
    by (rule sample_produced [OF s0])
  from catch_up_converges [OF s0 s(2), of "\<lambda>_. sample_copy"] show ?thesis using s0 s(1) by blast
qed

text \<open>
  C20: what \<open>replication=all\<close> acknowledges is on both replicas. \<open>produce\<close> returns, provided the clock reaches
  the deadline. When it returns metadata, the leader holds its old records followed by the batch, and
  with the acknowledgement of all replicas the follower holds the same offsets, keys and values as the
  leader. When it fails, the leader holds its old records or, after a timeout or a failing copy, the whole
  batch as well, and the follower still holds a prefix.
\<close>

theorem produce_acknowledged:
  assumes "open_simulation z opts [] [] = Inr s0" "replication_reach z s0 s"
    and "produce_room z c recs s" "readings 0 + timeout \<le> readings (Suc k)"
  shows "\<exists>result s'. produce z env envs readings recs c ack timeout s = Some (result, s') \<and>
    prefix (contents z (follower s')) (contents z (leader s')) \<and>
    (case result of
       Inr m \<Rightarrow> contents z (leader s') = contents z (leader s) @ map record_content (stored_batch_records m recs) \<and>
         (ack = Ack_All \<longrightarrow> contents z (follower s') = contents z (leader s'))
     | Inl _ \<Rightarrow> contents z (leader s') = contents z (leader s) \<or>
         (\<exists>m. contents z (leader s') = contents z (leader s) @ map record_content (stored_batch_records m recs)))"
proof -
  have inv: "replica_inv z s" using replication_reach_inv [OF assms(2) open_simulation_inv(1) [OF assms(1)]] .
  obtain result s' where run: "produce z env envs readings recs c ack timeout s = Some (result, s')"
    and inv': "replica_inv z s'"
    and "contents z (leader s') = contents z (leader s) \<and> isl result \<or>
     (\<exists>m. contents z (leader s') = contents z (leader s) @ map record_content (stored_batch_records m recs) \<and>
        (\<forall>m'. result = Inr m' \<longrightarrow> m' = m) \<and>
        (result = Inr m \<and> ack = Ack_All \<longrightarrow> contents z (follower s') = contents z (leader s')))"
    by (rule produce_ok [OF inv assms(3,4), of env envs ack])
  then show ?thesis
    using run replica_invD(7) [OF inv'] by (intro exI [of _ result] exI [of _ s']) (cases result, fastforce+)
qed

theorem produce_acknowledged_witness:
  "\<exists>s0 result s. open_simulation zstd_stored sample_simulation [] [] = Inr s0 \<and>
     produce zstd_stored sample_copy (\<lambda>_. sample_copy) (\<lambda>i. int i) [AppendRecord.make [1] [2]] Codec_None Ack_All 5 s0 =
       Some (result, s) \<and>
     prefix (contents zstd_stored (follower s)) (contents zstd_stored (leader s))"
proof -
  obtain s0 where s0: "open_simulation zstd_stored sample_simulation [] [] = Inr s0" using sample_opens by blast
  have "int 0 + 5 \<le> int (Suc 4)" by simp
  from produce_acknowledged [OF s0 reach_start sample_room [OF s0], of "\<lambda>i. int i", OF this,
      of sample_copy "\<lambda>_. sample_copy" Ack_All]
  show ?thesis using s0 by blast
qed

end
