(* ===== verification/Bolt_Startup.thy ===== *)
theory Bolt_Startup
  imports Bolt_Broker_Invariant
begin

text \<open>
  Topic manifests and the start of the broker (\<open>src/src/broker/server.cpp\<close>): the JSON text that a topic
  directory carries, the two field readers, the migration of directories without a manifest, and
  \<open>BrokerRuntime::load_existing_topics\<close>, which opens every topic found in the data directory. The entries of
  the data directory are given in the order in which the directory iterator meets them; the time stamp of a
  migrated manifest and the failures of the file system are arguments.
\<close>

section \<open>Manifest text\<close>

record TopicManifest =
  topic :: string
  partition_count :: u16
  created_at_utc :: string

text \<open>\<open>json_escape\<close> of \<open>src/src/observability/logger.cpp\<close>.\<close>

definition json_escape_char :: "char \<Rightarrow> string" where
  "json_escape_char ch =
     (if ch = CHR 0x5C then [CHR 0x5C, CHR 0x5C]
      else if ch = CHR 0x22 then [CHR 0x5C, CHR 0x22]
      else if ch = CHR 0x0A then [CHR 0x5C, CHR ''n'']
      else if ch = CHR 0x0D then [CHR 0x5C, CHR ''r'']
      else if ch = CHR 0x09 then [CHR 0x5C, CHR ''t'']
      else [ch])"

definition json_escape :: "string \<Rightarrow> string" where
  "json_escape value = concat (map json_escape_char value)"

abbreviation quoted :: "string \<Rightarrow> string" where
  "quoted s \<equiv> CHR 0x22 # s @ [CHR 0x22]"

abbreviation end_line :: string where
  "end_line \<equiv> [CHR 0x0A]"

definition manifest_text :: "TopicManifest \<Rightarrow> string" where
  "manifest_text m =
     ''{'' @ end_line @
     ''  '' @ quoted ''manifest_version'' @ '': 1,'' @ end_line @
     ''  '' @ quoted ''topic'' @ '': '' @ quoted (json_escape (TopicManifest.topic m)) @ '','' @ end_line @
     ''  '' @ quoted ''partition_count'' @ '': '' @ decimal (unat (TopicManifest.partition_count m)) @ '','' @ end_line @
     ''  '' @ quoted ''created_at_utc'' @ '': '' @ quoted (json_escape (created_at_utc m)) @ end_line @
     ''}'' @ end_line"

section \<open>Field readers\<close>

text \<open>What follows the first occurrence of a text: \<open>find\<close> from the current position, then a step past it.\<close>

fun skip_past :: "string \<Rightarrow> string \<Rightarrow> string option" where
  "skip_past needle [] = (if needle = [] then Some [] else None)"
| "skip_past needle (c # cs) =
     (if take (length needle) (c # cs) = needle then Some (drop (length needle) (c # cs)) else skip_past needle cs)"

text \<open>The text behind the colon that follows the quoted field name.\<close>

definition json_field :: "string \<Rightarrow> string \<Rightarrow> string option" where
  "json_field json name = Option.bind (skip_past (quoted name) json) (skip_past '':'')"

definition json_string_field :: "string \<Rightarrow> string \<Rightarrow> string option" where
  "json_string_field json name =
     Option.bind (json_field json name)
       (\<lambda>rest. Option.bind (skip_past [CHR 0x22] rest)
         (\<lambda>body. if CHR 0x22 \<in> set body then Some (takeWhile (\<lambda>c. c \<noteq> CHR 0x22) body) else None))"

definition json_u16_field :: "string \<Rightarrow> string \<Rightarrow> u16 option" where
  "json_u16_field json name =
     Option.bind (json_field json name)
       (\<lambda>rest. let digits = takeWhile is_digit (dropWhile (\<lambda>c. c = CHR '' '' \<or> c = CHR 0x09) rest) in
         if digits = [] then None
         else case from_chars (2 ^ 32 - 1) digits of
           Some (v, []) \<Rightarrow> if v > 2 ^ 16 - 1 then None else Some (of_nat v)
         | _ \<Rightarrow> None)"

section \<open>Topic directories\<close>

text \<open>
  An entry of the topics directory: whether it is a directory, the contents of \<open>manifest.json\<close> when it
  exists, and the files of each partition directory that exists.
\<close>

record TopicEntry =
  is_directory :: bool
  manifest_file :: "string option"
  partition_files :: "(u16 \<times> files) list"

text \<open>\<open>operator/\<close> of \<open>std::filesystem::path\<close> for relative right-hand sides.\<close>

definition path_join :: "string \<Rightarrow> string \<Rightarrow> string" where
  "path_join dir name = (if dir = [] \<or> last dir = CHR ''/'' then dir @ name else dir @ ''/'' @ name)"

definition topic_directory :: "string \<Rightarrow> string \<Rightarrow> string" where
  "topic_directory data_dir name = path_join (path_join data_dir ''topics'') name"

definition topic_manifest_path :: "string \<Rightarrow> string \<Rightarrow> string" where
  "topic_manifest_path data_dir name = path_join (topic_directory data_dir name) ''manifest.json''"

datatype ManifestFault = CreateDirectoryFails string | OpenFails | FlushFails nat

definition write_topic_manifest ::
  "string \<Rightarrow> ManifestFault option \<Rightarrow> TopicManifest \<Rightarrow> TopicEntry \<Rightarrow> (string + unit) \<times> TopicEntry" where
  "write_topic_manifest data_dir fault m e =
     (let path = topic_manifest_path data_dir (TopicManifest.topic m) in
      case fault of
        Some (CreateDirectoryFails what) \<Rightarrow> (Inl (''failed to create topic directory: '' @ what), e)
      | Some OpenFails \<Rightarrow> (Inl (''failed to write topic manifest: '' @ path), e)
      | Some (FlushFails n) \<Rightarrow>
          (Inl (''failed to flush topic manifest: '' @ path), e\<lparr>manifest_file := Some (take n (manifest_text m))\<rparr>)
      | None \<Rightarrow> (Inr (), e\<lparr>manifest_file := Some (manifest_text m)\<rparr>))"

text \<open>The argument \<open>opens\<close> says whether the manifest file can be opened.\<close>

definition read_topic_manifest :: "string \<Rightarrow> bool \<Rightarrow> string \<Rightarrow> TopicEntry \<Rightarrow> string + TopicManifest option" where
  "read_topic_manifest data_dir opens name e =
     (let path = topic_manifest_path data_dir name in
      case manifest_file e of
        None \<Rightarrow> Inr None
      | Some json \<Rightarrow>
          if \<not> opens then Inl (''failed to open topic manifest: '' @ path)
          else case (json_string_field json ''topic'', json_u16_field json ''partition_count'') of
            (Some manifest_topic, Some n) \<Rightarrow>
              if n = 0 then Inl (''invalid topic manifest: '' @ path)
              else if manifest_topic \<noteq> name then Inl (''topic manifest name mismatch: '' @ path)
              else Inr (Some (TopicManifest.make manifest_topic n
                (case json_string_field json ''created_at_utc'' of None \<Rightarrow> ''unknown'' | Some at \<Rightarrow> at)))
          | _ \<Rightarrow> Inl (''invalid topic manifest: '' @ path))"

text \<open>What the file system and the clock answer while the topics are loaded, by the name of the topic.\<close>

record StartupEnv =
  data_dir :: string
  manifest_opens :: "string \<Rightarrow> bool"
  migration_fault :: "string \<Rightarrow> ManifestFault option"
  utc_now :: string

definition parse_partition_count_or_migrate ::
  "StartupEnv \<Rightarrow> string \<Rightarrow> TopicEntry \<Rightarrow> (string + u16) \<times> TopicEntry" where
  "parse_partition_count_or_migrate env name e =
     (case read_topic_manifest (data_dir env) (manifest_opens env name) name e of
        Inl what \<Rightarrow> (Inl what, e)
      | Inr (Some m) \<Rightarrow> (Inr (TopicManifest.partition_count m), e)
      | Inr None \<Rightarrow>
          if map_of (partition_files e) 0 = None then (Inr 0, e)
          else (case write_topic_manifest (data_dir env) (migration_fault env name)
                       (TopicManifest.make name 1 (utc_now env)) e of
                  (Inl what, e1) \<Rightarrow> (Inl what, e1)
                | (Inr _, e1) \<Rightarrow> (Inr 1, e1)))"

section \<open>Loading the topics\<close>

record StorageRecoverySummary =
  topics_recovered :: nat
  partitions_recovered :: nat
  summary_segments_scanned :: nat
  summary_indexes_rebuilt :: nat
  summary_records_recovered :: nat
  summary_bytes_truncated :: nat

definition empty_summary :: StorageRecoverySummary where
  "empty_summary = StorageRecoverySummary.make 0 0 0 0 0 0"

definition add_recovery :: "PartitionLog \<Rightarrow> StorageRecoverySummary \<Rightarrow> StorageRecoverySummary" where
  "add_recovery log s =
     s\<lparr>summary_segments_scanned := summary_segments_scanned s + segments_scanned (recovery_stats' log),
       summary_indexes_rebuilt := summary_indexes_rebuilt s + indexes_rebuilt (recovery_stats' log),
       summary_records_recovered := summary_records_recovered s + records_recovered (recovery_stats' log),
       summary_bytes_truncated := summary_bytes_truncated s + bytes_truncated (recovery_stats' log)\<rparr>"

abbreviation partition_dir :: "TopicEntry \<Rightarrow> u16 \<Rightarrow> files" where
  "partition_dir e part \<equiv> (case map_of (partition_files e) part of None \<Rightarrow> [] | Some fs \<Rightarrow> fs)"

text \<open>
  One entry of the directory: skipped, opened as a topic, or an error that ends the start. The entry that is
  returned has the manifest that a migration wrote.
\<close>

definition load_topic ::
  "zstd \<Rightarrow> StartupEnv \<Rightarrow> string \<times> TopicEntry \<Rightarrow> StorageRecoverySummary \<times> BrokerRuntime \<Rightarrow>
   (string + StorageRecoverySummary \<times> BrokerRuntime) \<times> TopicEntry" where
  "load_topic z env entry acc =
     (let (name, e) = entry; (summary, b) = acc in
      if \<not> is_directory e \<or> \<not> is_valid_topic_name name then (Inr acc, e)
      else let (found, e1) = parse_partition_count_or_migrate env name e in
        (checked found
          (\<lambda>n. if n = 0 then Inr acc
            else checked (open_topic_state z (config b) name n (partition_dir e1))
              (\<lambda>t. let s1 = fold add_recovery (topic_logs t) summary in
                 Inr (s1\<lparr>topics_recovered := topics_recovered s1 + 1,
                        partitions_recovered := partitions_recovered s1 + unat n\<rparr>, put_topic t b))), e1))"

fun load_topics ::
  "zstd \<Rightarrow> StartupEnv \<Rightarrow> (string \<times> TopicEntry) list \<Rightarrow> StorageRecoverySummary \<times> BrokerRuntime \<Rightarrow>
   (string + StorageRecoverySummary \<times> BrokerRuntime) \<times> (string \<times> TopicEntry) list" where
  "load_topics z env [] acc = (Inr acc, [])"
| "load_topics z env (entry # rest) acc =
     (case load_topic z env entry acc of
        (Inl what, e1) \<Rightarrow> (Inl what, (fst entry, e1) # rest)
      | (Inr acc1, e1) \<Rightarrow>
         (let (result, rest1) = load_topics z env rest acc1 in (result, (fst entry, e1) # rest1)))"

text \<open>\<open>None\<close> is a data directory without \<open>topics\<close>.\<close>

definition load_existing_topics ::
  "zstd \<Rightarrow> StartupEnv \<Rightarrow> (string \<times> TopicEntry) list option \<Rightarrow> BrokerRuntime \<Rightarrow>
   (string + StorageRecoverySummary \<times> BrokerRuntime) \<times> (string \<times> TopicEntry) list option" where
  "load_existing_topics z env dir b =
     (case dir of
        None \<Rightarrow> (Inr (empty_summary, b), None)
      | Some entries \<Rightarrow>
         (let (result, entries1) = load_topics z env entries (empty_summary, b) in (result, Some entries1)))"

end
