(* ===== verification/Bolt_Startup_Properties.thy ===== *)
theory Bolt_Startup_Properties
  imports Bolt_Startup
begin

text \<open>
  Restarting the broker: manifests are read back as they were written, and loading the data directory of a
  broker that stopped or crashed brings back every topic with its records.
\<close>

section \<open>Reading a manifest\<close>

lemma skip_past_over: "needle = h # hs \<Longrightarrow> h \<notin> set s \<Longrightarrow> skip_past needle (s @ r) = skip_past needle r"
  by (induction s) auto

lemma skip_past_here: "needle \<noteq> [] \<Longrightarrow> skip_past needle (needle @ r) = Some r"
  by (cases needle) auto

text \<open>Quotes cut the text into chunks; looking for a quoted name compares it with one chunk after the other.\<close>

lemma skip_past_chunk:
  assumes "CHR 0x22 \<notin> set x" "CHR 0x22 \<notin> set c"
  shows "skip_past (quoted x) (CHR 0x22 # c @ CHR 0x22 # r) =
    (if c = x then Some r else skip_past (quoted x) (CHR 0x22 # r))"
proof (cases "c = x")
  case True
  then show ?thesis using skip_past_here [of "quoted x" r] by simp
next
  case False
  have "take (length (quoted x)) (CHR 0x22 # c @ CHR 0x22 # r) \<noteq> quoted x"
  proof
    assume "take (length (quoted x)) (CHR 0x22 # c @ CHR 0x22 # r) = quoted x"
    then obtain r' where "c @ CHR 0x22 # r = x @ CHR 0x22 # r'"
      by (metis append_Cons append_Nil append_assoc append_take_drop_id list.inject)
    then have "takeWhile (\<lambda>a. a \<noteq> CHR 0x22) (c @ CHR 0x22 # r) = takeWhile (\<lambda>a. a \<noteq> CHR 0x22) (x @ CHR 0x22 # r')"
      by simp
    moreover have "takeWhile (\<lambda>a. a \<noteq> CHR 0x22) (c @ CHR 0x22 # r) = c"
      using assms(2) by (subst takeWhile_append2) auto
    moreover have "takeWhile (\<lambda>a. a \<noteq> CHR 0x22) (x @ CHR 0x22 # r') = x"
      using assms(1) by (subst takeWhile_append2) auto
    ultimately show False using False by simp
  qed
  then have "skip_past (quoted x) (CHR 0x22 # c @ CHR 0x22 # r) = skip_past (quoted x) (c @ CHR 0x22 # r)"
    by (simp del: take_append take_Suc_Cons length_append list.size)
  then show ?thesis using skip_past_over [of "quoted x" _ _ c "CHR 0x22 # r"] assms(2) False by simp
qed

lemma json_escape_plain:
  assumes "\<forall>c \<in> set s. c \<noteq> CHR 0x5C \<and> c \<noteq> CHR 0x22 \<and> c \<noteq> CHR 0x0A \<and> c \<noteq> CHR 0x0D \<and> c \<noteq> CHR 0x09"
  shows "json_escape s = s"
  using assms by (induction s) (auto simp: json_escape_def json_escape_char_def)

lemma valid_name_plain:
  assumes "is_valid_topic_name name"
  shows "\<forall>c \<in> set name. c \<noteq> CHR 0x5C \<and> c \<noteq> CHR 0x22 \<and> c \<noteq> CHR 0x0A \<and> c \<noteq> CHR 0x0D \<and> c \<noteq> CHR 0x09"
  using assms by (auto simp: is_valid_topic_name_def list_all_iff less_eq_char_def)

lemma digit_not_quote: "is_digit c \<Longrightarrow> c \<noteq> CHR 0x22"
  by (auto simp: is_digit_def)

text \<open>The text of a manifest, split at the values of its fields.\<close>

definition manifest_rest :: "TopicManifest \<Rightarrow> string" where
  "manifest_rest m = '','' @ end_line @ ''  '' @ quoted ''created_at_utc'' @ '': '' @
     quoted (json_escape (created_at_utc m)) @ end_line @ ''}'' @ end_line"

lemma manifest_chunks:
  assumes "is_valid_topic_name (TopicManifest.topic m)"
  shows "manifest_text m = [CHR ''{'', CHR 0x0A, CHR '' '', CHR '' ''] @ CHR 0x22 # ''manifest_version'' @
    CHR 0x22 # ('': 1,'' @ end_line @ ''  '') @ CHR 0x22 # ''topic'' @ CHR 0x22 # '': '' @
    CHR 0x22 # TopicManifest.topic m @ CHR 0x22 # ('','' @ end_line @ ''  '') @
    CHR 0x22 # ''partition_count'' @ CHR 0x22 # '': '' @ decimal (unat (TopicManifest.partition_count m)) @ manifest_rest m"
  using json_escape_plain [OF valid_name_plain [OF assms]] by (simp add: manifest_text_def manifest_rest_def)

lemma manifest_fields:
  assumes name: "is_valid_topic_name (TopicManifest.topic m)"
  shows "json_field (manifest_text m) ''topic'' = Some ('' '' @ quoted (TopicManifest.topic m) @ '','' @ end_line @ ''  '' @
      quoted ''partition_count'' @ '': '' @ decimal (unat (TopicManifest.partition_count m)) @ manifest_rest m)"
    and "json_field (manifest_text m) ''partition_count'' =
      Some ('' '' @ decimal (unat (TopicManifest.partition_count m)) @ manifest_rest m)"
proof -
  let ?rest = "decimal (unat (TopicManifest.partition_count m)) @ manifest_rest m"
  have quote: "CHR 0x22 \<notin> set (TopicManifest.topic m)" using valid_name_plain [OF name] by blast
  have lead: "skip_past (quoted x) ([CHR ''{'', CHR 0x0A, CHR '' '', CHR '' ''] @ r) = skip_past (quoted x) r" for x r
    by (rule skip_past_over) auto
  have "skip_past (quoted ''topic'') (manifest_text m) = Some ('': '' @ CHR 0x22 # TopicManifest.topic m @
      CHR 0x22 # ('','' @ end_line @ ''  '') @ CHR 0x22 # ''partition_count'' @ CHR 0x22 # '': '' @ ?rest)"
    unfolding manifest_chunks [OF name] lead by (subst skip_past_chunk, simp, simp)+
  then show "json_field (manifest_text m) ''topic'' = Some ('' '' @ quoted (TopicManifest.topic m) @ '','' @ end_line @
      ''  '' @ quoted ''partition_count'' @ '': '' @ ?rest)"
    by (simp add: json_field_def)
  have "skip_past (quoted ''partition_count'') (manifest_text m) =
      (if TopicManifest.topic m = ''partition_count''
       then Some (('','' @ end_line @ ''  '') @ CHR 0x22 # ''partition_count'' @ CHR 0x22 # '': '' @ ?rest)
       else Some ('': '' @ ?rest))"
    unfolding manifest_chunks [OF name] lead using quote
    by (subst skip_past_chunk, simp, simp)+
  then show "json_field (manifest_text m) ''partition_count'' = Some ('' '' @ ?rest)"
    by (simp add: json_field_def)
qed

lemma takeWhile_digits:
  assumes "\<forall>c \<in> set ds. is_digit c" "\<not> is_digit c"
  shows "takeWhile is_digit (ds @ c # r) = ds"
  using assms by (simp add: takeWhile_append2 takeWhile_tail)

lemma manifest_values:
  assumes name: "is_valid_topic_name (TopicManifest.topic m)"
  shows "json_string_field (manifest_text m) ''topic'' = Some (TopicManifest.topic m)"
    and "json_u16_field (manifest_text m) ''partition_count'' = Some (TopicManifest.partition_count m)"
proof -
  have "\<forall>c \<in> set (TopicManifest.topic m). c \<noteq> CHR 0x22" using valid_name_plain [OF name] by blast
  then have "takeWhile (\<lambda>c. c \<noteq> CHR 0x22) (TopicManifest.topic m @ CHR 0x22 # r) = TopicManifest.topic m" for r
    by (simp add: takeWhile_append2 takeWhile_tail)
  then show "json_string_field (manifest_text m) ''topic'' = Some (TopicManifest.topic m)"
    by (simp add: json_string_field_def manifest_fields(1) [OF name])
  let ?n = "decimal (unat (TopicManifest.partition_count m))"
  have d: "\<forall>c \<in> set ?n. is_digit c" using decimal_digits by blast
  have "dropWhile (\<lambda>c. c = CHR '' '' \<or> c = CHR 0x09) (?n @ r) = ?n @ r" for r
    using d by (cases ?n) (auto simp: is_digit_def)
  moreover have "takeWhile is_digit (?n @ manifest_rest m) = ?n"
    using takeWhile_digits [OF d] by (simp add: manifest_rest_def is_digit_def)
  moreover have "from_chars (2 ^ 32 - 1) ?n = Some (unat (TopicManifest.partition_count m), [])"
    using unat_u16_bound [of "TopicManifest.partition_count m"] by (intro from_chars_decimal) simp
  ultimately show "json_u16_field (manifest_text m) ''partition_count'' = Some (TopicManifest.partition_count m)"
    using unat_u16_bound [of "TopicManifest.partition_count m"]
    by (simp add: json_u16_field_def manifest_fields(2) [OF name])
qed


lemma read_manifest:
  assumes "is_valid_topic_name (TopicManifest.topic m)" "TopicManifest.partition_count m \<noteq> 0"
    and "manifest_file e = Some (manifest_text m)"
  shows "\<exists>at. read_topic_manifest dd True (TopicManifest.topic m) e =
    Inr (Some (TopicManifest.make (TopicManifest.topic m) (TopicManifest.partition_count m) at))"
  using assms by (simp add: read_topic_manifest_def manifest_values, blast)

section \<open>The data directory of a broker\<close>

text \<open>
  A partition directory after a stop or a crash: some segment at or after the active one may end with the
  beginning of an item, and the index files hold anything.
\<close>

definition partition_on_disk :: "PartitionLog \<Rightarrow> files \<Rightarrow> bool" where
  "partition_on_disk log fs \<longleftrightarrow> (\<exists>base t. active_base log \<le> base \<and> crash_dir (directory log) base t fs \<and> torn_item t)"

definition topic_on_disk :: "TopicState \<Rightarrow> TopicEntry \<Rightarrow> bool" where
  "topic_on_disk t e \<longleftrightarrow> is_directory e \<and>
     (\<exists>at. manifest_file e = Some (manifest_text (TopicManifest.make (topic_name t) (topic_partition_count t) at))) \<and>
     (\<forall>part < topic_partition_count t. partition_on_disk (topic_logs t ! unat part) (partition_dir e part))"

text \<open>Entries that are not topics: files, names that no topic has, directories without manifest and partition 0.\<close>

definition not_a_topic :: "string \<Rightarrow> TopicEntry \<Rightarrow> bool" where
  "not_a_topic name e \<longleftrightarrow> \<not> is_directory e \<or> \<not> is_valid_topic_name name \<or>
     manifest_file e = None \<and> map_of (partition_files e) 0 = None"

definition broker_on_disk :: "BrokerRuntime \<Rightarrow> (string \<times> TopicEntry) list \<Rightarrow> bool" where
  "broker_on_disk b entries \<longleftrightarrow> distinct (map fst entries) \<and>
     fst ` set (topics_map b) \<subseteq> fst ` set entries \<and>
     (\<forall>(name, e) \<in> set entries. case map_of (topics_map b) name of
        None \<Rightarrow> not_a_topic name e | Some t \<Rightarrow> topic_on_disk t e)"

text \<open>The same topic for its clients: the partitions, their records and the next offsets.\<close>

definition same_topic :: "zstd \<Rightarrow> TopicState \<Rightarrow> TopicState \<Rightarrow> bool" where
  "same_topic z t t' \<longleftrightarrow> topic_partition_count t' = topic_partition_count t \<and>
     list_all2 (\<lambda>log log'. readable z log' = readable z log \<and> next_offset' log' = next_offset' log)
       (topic_logs t) (topic_logs t')"

section \<open>Loading it\<close>

lemma open_logs_ok:
  assumes "\<And>part. part \<in> set parts \<Longrightarrow>
    \<exists>log. open_log z (open_options cfg name (of_nat part)) (contents (of_nat part)) = Inr log \<and> P part log"
  shows "\<exists>logs. open_logs z cfg name contents parts = Inr logs \<and> list_all2 P parts logs"
  using assms
proof (induction parts)
  case (Cons part parts)
  then obtain logs where "open_logs z cfg name contents parts = Inr logs" "list_all2 P parts logs" by auto
  moreover obtain log where "open_log z (open_options cfg name (of_nat part)) (contents (of_nat part)) = Inr log"
    "P part log" using Cons.prems by auto
  ultimately show ?case by simp
qed simp

lemma reopen_topic:
  assumes t: "topic_inv z cfg name t" and disk: "topic_on_disk t e" and seg: "segment_bytes cfg \<noteq> 0"
  shows "\<exists>t'. open_topic_state z cfg name (topic_partition_count t) (partition_dir e) = Inr t' \<and>
    topic_inv z cfg name t' \<and> same_topic z t t'"
proof -
  let ?n = "topic_partition_count t"
  let ?P = "\<lambda>i log. log_inv z log \<and> options' log = open_options cfg name (of_nat i) \<and>
    readable z log = readable z (topic_logs t ! i) \<and> next_offset' log = next_offset' (topic_logs t ! i)"
  have "\<exists>log. open_log z (open_options cfg name (of_nat i)) (partition_dir e (of_nat i)) = Inr log \<and> ?P i log"
    if "i \<in> set [0..<unat ?n]" for i
  proof -
    have i: "i < unat ?n" using that by simp
    then have u: "unat (of_nat i :: u16) = i"
      using unat_u16_bound [of ?n] by (simp add: unsigned_of_nat take_bit_eq_mod)
    have log: "log_inv z (topic_logs t ! i)" "options' (topic_logs t ! i) = open_options cfg name (of_nat i)"
      using t i by (auto simp: topic_inv_def)
    have "partition_on_disk (topic_logs t ! i) (partition_dir e (of_nat i))"
      using disk i u by (auto simp: topic_on_disk_def word_less_nat_alt dest: spec [of _ "of_nat i"])
    then show ?thesis
      using reopen_crashed [OF log(1)] t seg log(2)
      by (auto simp: partition_on_disk_def topic_inv_def open_options_def PartitionLogOptions.make_def)
  qed
  then obtain logs where logs: "open_logs z cfg name (partition_dir e) [0..<unat ?n] = Inr logs"
    "list_all2 ?P [0..<unat ?n] logs"
    using open_logs_ok [of "[0..<unat ?n]" z cfg name "partition_dir e" ?P] by blast
  have len: "length logs = unat ?n" "length (topic_logs t) = unat ?n"
    using logs(2) t by (auto simp: topic_inv_def dest: list_all2_lengthD)
  have nth: "?P i (logs ! i)" if "i < unat ?n" for i
    using list_all2_nthD [OF logs(2), of i] that by simp
  let ?t = "TopicState.make name ?n 0 False logs"
  have "0 < ?n" using t by (auto simp: topic_inv_def word_gt_0)
  then have "topic_inv z cfg name ?t"
    using t len nth by (auto simp: topic_inv_def TopicState.make_def)
  moreover have "same_topic z t ?t"
    using len nth by (auto simp: same_topic_def TopicState.make_def list_all2_conv_all_nth)
  ultimately show ?thesis using logs(1) by (simp add: open_topic_state_def)
qed

lemma load_topic_found:
  assumes t: "topic_inv z (config b) name t" and disk: "topic_on_disk t e" and seg: "segment_bytes (config b) \<noteq> 0"
    and opens: "manifest_opens env name"
  shows "\<exists>s1 t'. load_topic z env (name, e) (s, b) = (Inr (s1, put_topic t' b), e) \<and>
    topic_inv z (config b) name t' \<and> same_topic z t t' \<and> topics_recovered s1 = topics_recovered s + 1"
proof -
  let ?n = "topic_partition_count t"
  have valid: "is_valid_topic_name name" and tn: "topic_name t = name" using t by (auto simp: topic_inv_def)
  have n: "?n \<noteq> 0" using t by (auto simp: topic_inv_def)
  obtain at where "manifest_file e = Some (manifest_text (TopicManifest.make name ?n at))"
    using disk tn by (auto simp: topic_on_disk_def)
  then have "\<exists>at. read_topic_manifest (data_dir env) True name e = Inr (Some (TopicManifest.make name ?n at))"
    using read_manifest [of "TopicManifest.make name ?n at" e "data_dir env"] valid n by (simp add: TopicManifest.make_def)
  then have found: "parse_partition_count_or_migrate env name e = (Inr ?n, e)"
    using opens by (auto simp: parse_partition_count_or_migrate_def TopicManifest.make_def)
  obtain t' where t': "open_topic_state z (config b) name ?n (partition_dir e) = Inr t'"
    "topic_inv z (config b) name t'" "same_topic z t t'"
    using reopen_topic [OF t disk seg] by blast
  have "topics_recovered (fold add_recovery logs s) = topics_recovered s" for logs
    by (induction logs arbitrary: s) (simp_all add: add_recovery_def)
  then show ?thesis
    using t' found n valid disk by (auto simp: load_topic_def topic_on_disk_def Let_def)
qed

lemma load_topic_skips: "not_a_topic name e \<Longrightarrow> load_topic z env (name, e) acc = (Inr acc, e)"
  by (auto simp: load_topic_def not_a_topic_def parse_partition_count_or_migrate_def read_topic_manifest_def Let_def
      split: prod.split)

text \<open>
  The topics among \<open>names\<close> that the old map \<open>ts\<close> had are back, and nothing else has changed since \<open>b0\<close>.
\<close>

definition restored :: "zstd \<Rightarrow> (string \<times> TopicState) list \<Rightarrow> string set \<Rightarrow> BrokerRuntime \<Rightarrow> BrokerRuntime \<Rightarrow> bool" where
  "restored z ts names b0 b1 \<longleftrightarrow> broker_inv z b1 \<and> config b1 = config b0 \<and> offset_store b1 = offset_store b0 \<and>
     group_coordinator b1 = group_coordinator b0 \<and>
     (\<forall>name t. name \<in> names \<longrightarrow> map_of ts name = Some t \<longrightarrow>
        (\<exists>t'. map_of (topics_map b1) name = Some t' \<and> same_topic z t t')) \<and>
     (\<forall>name. name \<notin> names \<or> map_of ts name = None \<longrightarrow> map_of (topics_map b1) name = map_of (topics_map b0) name)"

lemma restoredD:
  "restored z ts names b0 b1 \<Longrightarrow> name \<in> names \<Longrightarrow> map_of ts name = Some t \<Longrightarrow>
   \<exists>t'. map_of (topics_map b1) name = Some t' \<and> same_topic z t t'"
  by (simp add: restored_def)

lemma restored_skip:
  assumes "restored z ts names b0 b1" "map_of ts name = None"
  shows "restored z ts (insert name names) b0 b1"
  using assms unfolding restored_def by auto

lemma restored_put:
  assumes rest: "restored z ts names (put_topic t' b0) b1" and name: "name \<notin> names" "topic_name t' = name"
    and t: "map_of ts name = Some t" "same_topic z t t'"
  shows "restored z ts (insert name names) b0 b1"
proof -
  have "map_of (topics_map b1) name = Some t'" using rest name by (auto simp: restored_def)
  then show ?thesis using rest name t unfolding restored_def by auto
qed

lemma load_topics_ok:
  assumes "distinct (map fst entries)" "broker_inv z b0" "segment_bytes (config b0) \<noteq> 0"
    and "\<And>name e. (name, e) \<in> set entries \<Longrightarrow> map_of ts name = None \<Longrightarrow> not_a_topic name e"
    and "\<And>name e t. (name, e) \<in> set entries \<Longrightarrow> map_of ts name = Some t \<Longrightarrow>
      topic_inv z (config b0) name t \<and> topic_on_disk t e \<and> manifest_opens env name"
  shows "\<exists>s1 b1. load_topics z env entries (s0, b0) = (Inr (s1, b1), entries) \<and>
    restored z ts (fst ` set entries) b0 b1 \<and>
    topics_recovered s1 = topics_recovered s0 + card (fst ` set entries \<inter> dom (map_of ts))"
  using assms
proof (induction entries arbitrary: s0 b0)
  case Nil
  then show ?case by (simp add: restored_def)
next
  case (Cons entry entries)
  obtain name e where ne: "entry = (name, e)" by (cases entry)
  have fresh: "name \<notin> fst ` set entries" "distinct (map fst entries)" using Cons.prems(1) ne by simp_all
  note skip = Cons.prems(4) [OF list.set_intros(2)] and found = Cons.prems(5) [OF list.set_intros(2)]
  show ?case
  proof (cases "map_of ts name")
    case None
    have step: "load_topic z env entry (s0, b0) = (Inr (s0, b0), e)"
      using Cons.prems(4) [of name e] None ne by (simp add: load_topic_skips)
    have names: "fst ` set (entry # entries) \<inter> dom (map_of ts) = fst ` set entries \<inter> dom (map_of ts)"
      using None ne by auto
    obtain s1 b1 where rest: "load_topics z env entries (s0, b0) = (Inr (s1, b1), entries)"
      "restored z ts (fst ` set entries) b0 b1"
      "topics_recovered s1 = topics_recovered s0 + card (fst ` set entries \<inter> dom (map_of ts))"
      using Cons.IH [OF fresh(2) Cons.prems(2,3) skip found] by blast
    have "restored z ts (fst ` set (entry # entries)) b0 b1" using restored_skip [OF rest(2) None] ne by simp
    then show ?thesis using step rest(1,3) ne unfolding names by simp
  next
    case (Some t)
    have t: "topic_inv z (config b0) name t" "topic_on_disk t e" "manifest_opens env name"
      using Cons.prems(5) [of name e t] Some ne by simp_all
    obtain s2 t' where step: "load_topic z env entry (s0, b0) = (Inr (s2, put_topic t' b0), e)"
      "topic_inv z (config b0) name t'" "same_topic z t t'" "topics_recovered s2 = topics_recovered s0 + 1"
      using load_topic_found [OF t(1,2) Cons.prems(3) t(3)] ne by blast
    have tn: "topic_name t' = name" using step(2) by (simp add: topic_inv_def)
    have "fst ` set (entry # entries) \<inter> dom (map_of ts) = insert name (fst ` set entries \<inter> dom (map_of ts))"
      using Some ne by auto
    then have card: "card (fst ` set (entry # entries) \<inter> dom (map_of ts)) = Suc (card (fst ` set entries \<inter> dom (map_of ts)))"
      using fresh(1) by simp
    have cfg: "config (put_topic t' b0) = config b0" by simp
    have "\<exists>s1 b1. load_topics z env entries (s2, put_topic t' b0) = (Inr (s1, b1), entries) \<and>
        restored z ts (fst ` set entries) (put_topic t' b0) b1 \<and>
        topics_recovered s1 = topics_recovered s2 + card (fst ` set entries \<inter> dom (map_of ts))"
      by (rule Cons.IH [OF fresh(2) broker_inv_put [OF Cons.prems(2) step(2)]])
        (use Cons.prems(3) skip found in \<open>auto simp: cfg\<close>)
    then obtain s1 b1 where rest: "load_topics z env entries (s2, put_topic t' b0) = (Inr (s1, b1), entries)"
      "restored z ts (fst ` set entries) (put_topic t' b0) b1"
      "topics_recovered s1 = topics_recovered s2 + card (fst ` set entries \<inter> dom (map_of ts))"
      by blast
    have "restored z ts (fst ` set (entry # entries)) b0 b1"
      using restored_put [OF rest(2) fresh(1) tn Some step(3)] ne by simp
    then show ?thesis using step(1,4) rest(1,3) ne unfolding card by simp
  qed
qed

lemma load_topics_fails:
  assumes "entry \<in> set entries" "\<And>acc. \<exists>what. fst (load_topic z env entry acc) = Inl what"
  shows "\<exists>what. fst (load_topics z env entries acc) = Inl what"
  using assms(1)
proof (induction entries arbitrary: acc)
  case (Cons first rest)
  obtain r e where step: "load_topic z env first acc = (r, e)" by (cases "load_topic z env first acc")
  show ?case
  proof (cases r)
    case (Inr acc1)
    then have "first \<noteq> entry" using assms(2) [of acc] step by auto
    then show ?thesis using Cons.IH [of acc1] Cons.prems Inr step by (auto split: prod.split)
  qed (use step in simp)
qed simp

lemma load_topic_truncated:
  assumes "is_valid_topic_name name" "is_directory e" "manifest_file e = Some []"
  shows "\<exists>what. fst (load_topic z env (name, e) acc) = Inl what"
  using assms by (auto simp: load_topic_def parse_partition_count_or_migrate_def read_topic_manifest_def json_string_field_def
      json_field_def Let_def split: prod.split)

section \<open>Properties\<close>



text \<open>
  C31: a half-written manifest keeps the broker from starting. A manifest is truncated and then written, so a
  crash between the two leaves an empty file; from then on loading the data directory fails, whatever topics
  it holds and whatever state it starts from.
\<close>

theorem truncated_manifest_blocks_start:
  assumes "is_valid_topic_name (TopicManifest.topic m)" "is_directory e"
    and "(TopicManifest.topic m, snd (write_topic_manifest dd (Some (FlushFails 0)) m e)) \<in> set entries"
  shows "\<exists>what. fst (load_existing_topics z env (Some entries) b) = Inl what"
proof -
  let ?e = "snd (write_topic_manifest dd (Some (FlushFails 0)) m e)"
  have "manifest_file ?e = Some []" "is_directory ?e" using assms(2) by (simp_all add: write_topic_manifest_def Let_def)
  then have "\<exists>what. fst (load_topic z env (TopicManifest.topic m, ?e) acc) = Inl what" for acc
    using load_topic_truncated assms(1) by blast
  then obtain what where "fst (load_topics z env entries (empty_summary, b)) = Inl what"
    using load_topics_fails [OF assms(3)] by blast
  then show ?thesis by (auto simp: load_existing_topics_def split: prod.splits)
qed

theorem truncated_manifest_blocks_start_witness:
  "let m = TopicManifest.make ''t'' 3 ''now''; e = TopicEntry.make True None [] in
   \<exists>what. fst (load_existing_topics zstd_stored (StartupEnv.make ''data'' (\<lambda>_. True) (\<lambda>_. None) ''now'')
     (Some [(''t'', snd (write_topic_manifest ''data'' (Some (FlushFails 0)) m e))])
     (BrokerRuntime.make sample_config [] sample_store empty_coordinator)) = Inl what"
proof -
  let ?m = "TopicManifest.make ''t'' 3 ''now''" and ?e = "TopicEntry.make True None []"
  have "is_valid_topic_name (TopicManifest.topic ?m)"
    by (simp add: TopicManifest.make_def is_valid_topic_name_def less_eq_char_def)
  moreover have "is_directory ?e" by (simp add: TopicEntry.make_def)
  moreover have "(TopicManifest.topic ?m, snd (write_topic_manifest ''data'' (Some (FlushFails 0)) ?m ?e)) \<in>
      set [(''t'', snd (write_topic_manifest ''data'' (Some (FlushFails 0)) ?m ?e))]"
    by (simp add: TopicManifest.make_def)
  ultimately show ?thesis unfolding Let_def by (rule truncated_manifest_blocks_start)
qed

end
