(* ===== verification/Bolt_Config.thy ===== *)
theory Bolt_Config
  imports Bolt_Text
begin

text \<open>
  The options of the broker (\<open>src/include/boltstream/broker/options.h\<close>), their command line
  (\<open>src/src/broker/options.cpp\<close>) and their configuration file (\<open>src/src/config/config.cpp\<close>). The YAML library
  is not part of the program: the file is given as the tree of nodes that \<open>YAML::LoadFile\<close> returns, or the text
  of its exception, and \<open>Node::as<bool>\<close> is an argument. Applying a file changes the options one setting at a
  time, also when a later setting is rejected, so every step returns an error, if any, and the options so far.
\<close>

section \<open>Options\<close>

record Endpoint =
  host :: string
  port :: u16

record ServerOptions =
  listen :: Endpoint
  admin_listen :: Endpoint
  io_workers :: u32
  data_dir :: string
  append_batch_records :: u32
  max_frame_bytes :: u32
  max_produce_batch_records :: u32
  max_uncompressed_batch_bytes :: u32
  max_fetch_records :: u32
  max_fetch_bytes :: u32
  max_topic_partitions :: u32
  max_fetch_wait_ms :: u32
  max_append_queue_depth :: u32
  append_workers :: u32
  max_broker_connections :: u32
  max_long_poll_waiters :: u32
  segment_bytes :: u64
  segment_max_age_seconds :: u64
  retention_max_age_seconds :: u64
  retention_max_bytes :: u64
  retention_check_interval_ms :: u32
  metrics_enabled :: bool
  log_level :: string
  log_format :: string

definition default_options :: ServerOptions where
  "default_options = ServerOptions.make (Endpoint.make ''0.0.0.0'' 9000) (Endpoint.make ''127.0.0.1'' 9100) 1 ''./data'' 1
     (1024 * 1024) 1024 (1024 * 1024) 100 (1024 * 1024) 128 30000 32 2 128 128 (256 * 1024 * 1024) (60 * 60)
     (7 * 24 * 60 * 60) (1024 * 1024 * 1024) 60000 True ''info'' ''json''"

definition endpoint_to_string :: "Endpoint \<Rightarrow> string" where
  "endpoint_to_string e = host e @ '':'' @ decimal (unat (port e))"

section \<open>Values on the command line\<close>

text \<open>\<open>from_chars\<close> into an unsigned integer with maximum \<open>mx\<close> that has to consume the whole text.\<close>

definition whole_number :: "nat \<Rightarrow> string \<Rightarrow> nat option" where
  "whole_number mx text = (case from_chars mx text of Some (v, []) \<Rightarrow> Some v | _ \<Rightarrow> None)"

definition parse_port :: "string \<Rightarrow> u16 option" where
  "parse_port text =
     (case whole_number (2 ^ 32 - 1) text of
        None \<Rightarrow> None | Some v \<Rightarrow> if v = 0 \<or> v > 2 ^ 16 - 1 then None else Some (of_nat v))"

definition parse_u32 :: "bool \<Rightarrow> string \<Rightarrow> u32 option" where
  "parse_u32 allow_zero text =
     (case whole_number (2 ^ 32 - 1) text of
        None \<Rightarrow> None | Some v \<Rightarrow> if \<not> allow_zero \<and> v = 0 then None else Some (of_nat v))"

definition parse_option_u64 :: "bool \<Rightarrow> string \<Rightarrow> u64 option" where
  "parse_option_u64 allow_zero text =
     (case whole_number (2 ^ 64 - 1) text of
        None \<Rightarrow> None | Some v \<Rightarrow> if \<not> allow_zero \<and> v = 0 then None else Some (of_nat v))"

definition parse_umax :: "bool \<Rightarrow> string \<Rightarrow> u64 option" where
  "parse_umax allow_zero text = parse_option_u64 allow_zero text"

text \<open>The text before and after the last colon.\<close>

definition split_at_colon :: "string \<Rightarrow> (string \<times> string) option" where
  "split_at_colon text =
     (if CHR '':'' \<notin> set text then None
      else let after = rev (takeWhile (\<lambda>c. c \<noteq> CHR '':'') (rev text)) in
        Some (take (length text - length after - 1) text, after))"

definition parse_endpoint :: "string \<Rightarrow> Endpoint option" where
  "parse_endpoint text =
     (case split_at_colon text of
        None \<Rightarrow> None
      | Some (before, after) \<Rightarrow>
          if before = [] \<or> after = [] then None
          else case parse_port after of None \<Rightarrow> None | Some p \<Rightarrow> Some (Endpoint.make before p))"

definition parse_bool :: "string \<Rightarrow> bool option" where
  "parse_bool text = (if text = ''true'' then Some True else if text = ''false'' then Some False else None)"

section \<open>The configuration file\<close>

type_synonym mark = "(nat \<times> nat) option"

datatype YamlNode =
    YamlScalar mark string
  | YamlMap mark "(YamlNode \<times> YamlNode) list"
  | YamlOther mark

fun mark_of :: "YamlNode \<Rightarrow> mark" where
  "mark_of (YamlScalar m s) = m"
| "mark_of (YamlMap m items) = m"
| "mark_of (YamlOther m) = m"

text \<open>\<open>Node::Scalar\<close> is empty for other nodes.\<close>

fun scalar_of :: "YamlNode \<Rightarrow> string" where
  "scalar_of (YamlScalar m s) = s"
| "scalar_of _ = []"

definition location :: "YamlNode \<Rightarrow> string" where
  "location node =
     (case mark_of node of
        None \<Rightarrow> []
      | Some (line, column) \<Rightarrow> '' at line '' @ decimal (line + 1) @ '', column '' @ decimal (column + 1))"

definition failure :: "string \<Rightarrow> YamlNode \<Rightarrow> string" where
  "failure message node = message @ location node"

fun validate_keys :: "string \<Rightarrow> string list \<Rightarrow> string list \<Rightarrow> (YamlNode \<times> YamlNode) list \<Rightarrow> string option" where
  "validate_keys path allowed seen [] = None"
| "validate_keys path allowed seen ((k, v) # items) =
     (case k of
        YamlScalar m key \<Rightarrow>
          if key \<in> set seen then Some (failure (''duplicate configuration key '' @ path @ ''.'' @ key) k)
          else if key \<notin> set allowed then Some (failure (''unknown configuration key '' @ path @ ''.'' @ key) k)
          else validate_keys path allowed (key # seen) items
      | _ \<Rightarrow> Some (failure (path @ '' keys must be scalars'') k))"

fun validate_mapping :: "YamlNode \<Rightarrow> string \<Rightarrow> string list \<Rightarrow> string option" where
  "validate_mapping (YamlMap m items) path allowed = validate_keys path allowed [] items"
| "validate_mapping node path allowed = Some (failure (path @ '' must be a mapping'') node)"

fun items_of_map :: "YamlNode \<Rightarrow> (YamlNode \<times> YamlNode) list" where
  "items_of_map (YamlMap m items) = items"
| "items_of_map _ = []"

text \<open>\<open>node[key]\<close> on a validated mapping.\<close>

definition find_key :: "YamlNode \<Rightarrow> string \<Rightarrow> YamlNode option" where
  "find_key node key = map_of (map (\<lambda>(k, v). (scalar_of k, v)) (items_of_map node)) key"

fun scalar_string :: "YamlNode \<Rightarrow> string \<Rightarrow> string + string" where
  "scalar_string (YamlScalar m s) path =
     (if s = [] then Inl (failure (path @ '' must not be empty'') (YamlScalar m s)) else Inr s)"
| "scalar_string node path = Inl (failure (path @ '' must be a scalar'') node)"

fun scalar_bool :: "(string \<Rightarrow> bool option) \<Rightarrow> YamlNode \<Rightarrow> string \<Rightarrow> string + bool" where
  "scalar_bool as_bool (YamlScalar m s) path =
     (case as_bool s of
        None \<Rightarrow> Inl (failure (path @ '' must be true or false'') (YamlScalar m s)) | Some v \<Rightarrow> Inr v)"
| "scalar_bool as_bool node path = Inl (failure (path @ '' must be a boolean'') node)"

fun scalar_unsigned :: "nat \<Rightarrow> bool \<Rightarrow> YamlNode \<Rightarrow> string \<Rightarrow> string + nat" where
  "scalar_unsigned mx allow_zero (YamlScalar m s) path =
     (let err = Inl (failure (path @ '' is outside its allowed unsigned range'') (YamlScalar m s)) in
      case whole_number (2 ^ 64 - 1) s of
        None \<Rightarrow> err | Some v \<Rightarrow> if \<not> allow_zero \<and> v = 0 \<or> v > mx then err else Inr v)"
| "scalar_unsigned mx allow_zero node path = Inl (failure (path @ '' must be an unsigned integer'') node)"

definition parse_endpoint_at :: "string \<Rightarrow> string \<Rightarrow> YamlNode \<Rightarrow> string + Endpoint" where
  "parse_endpoint_at text path node =
     (case split_at_colon text of
        None \<Rightarrow> Inl (failure (path @ '' must be host:port'') node)
      | Some (before, after) \<Rightarrow>
          if before = [] \<or> after = [] then Inl (failure (path @ '' must be host:port'') node)
          else case whole_number (2 ^ 32 - 1) after of
            None \<Rightarrow> Inl (failure (path @ '' contains an invalid port'') node)
          | Some v \<Rightarrow>
              if v = 0 \<or> v > 2 ^ 16 - 1 then Inl (failure (path @ '' contains an invalid port'') node)
              else Inr (Endpoint.make before (of_nat v)))"

text \<open>The error, if any, and the options with what was applied so far.\<close>

type_synonym applied = "string option \<times> ServerOptions"

definition assigned :: "string + 'a \<Rightarrow> ('a \<Rightarrow> ServerOptions \<Rightarrow> ServerOptions) \<Rightarrow> ServerOptions \<Rightarrow> applied" where
  "assigned r upd opts = (case r of Inl e \<Rightarrow> (Some e, opts) | Inr v \<Rightarrow> (None, upd v opts))"

abbreviation assign_u32 ::
  "bool \<Rightarrow> YamlNode \<Rightarrow> string \<Rightarrow> (u32 \<Rightarrow> ServerOptions \<Rightarrow> ServerOptions) \<Rightarrow> ServerOptions \<Rightarrow> applied" where
  "assign_u32 allow_zero node path upd \<equiv> assigned (scalar_unsigned (2 ^ 32 - 1) allow_zero node path) (\<lambda>v. upd (of_nat v))"

abbreviation assign_u64 ::
  "bool \<Rightarrow> YamlNode \<Rightarrow> string \<Rightarrow> (u64 \<Rightarrow> ServerOptions \<Rightarrow> ServerOptions) \<Rightarrow> ServerOptions \<Rightarrow> applied" where
  "assign_u64 allow_zero node path upd \<equiv> assigned (scalar_unsigned (2 ^ 64 - 1) allow_zero node path) (\<lambda>v. upd (of_nat v))"

text \<open>\<open>scalar_string\<close> straight into an option assigns before it rejects the empty text.\<close>

fun scalar_string_into ::
  "YamlNode \<Rightarrow> string \<Rightarrow> (string \<Rightarrow> ServerOptions \<Rightarrow> ServerOptions) \<Rightarrow> ServerOptions \<Rightarrow> applied" where
  "scalar_string_into (YamlScalar m s) path upd opts =
     (if s = [] then Some (failure (path @ '' must not be empty'') (YamlScalar m s)) else None, upd s opts)"
| "scalar_string_into node path upd opts = (Some (failure (path @ '' must be a scalar'') node), opts)"

text \<open>A check of the assigned value that follows a successful assignment.\<close>

definition then_check :: "(ServerOptions \<Rightarrow> bool) \<Rightarrow> string \<Rightarrow> applied \<Rightarrow> applied" where
  "then_check bad message r = (if fst r = None \<and> bad (snd r) then (Some message, snd r) else r)"

text \<open>The loop over the entries of a mapping stops at the first error.\<close>

fun apply_items ::
  "(string \<Rightarrow> YamlNode \<Rightarrow> ServerOptions \<Rightarrow> applied) \<Rightarrow> (YamlNode \<times> YamlNode) list \<Rightarrow> ServerOptions \<Rightarrow> applied" where
  "apply_items f [] opts = (None, opts)"
| "apply_items f ((k, v) # items) opts =
     (case f (scalar_of k) v opts of (Some e, opts1) \<Rightarrow> (Some e, opts1) | (None, opts1) \<Rightarrow> apply_items f items opts1)"

definition apply_section ::
  "string \<Rightarrow> string list \<Rightarrow> (string \<Rightarrow> YamlNode \<Rightarrow> ServerOptions \<Rightarrow> applied) \<Rightarrow> YamlNode \<Rightarrow> ServerOptions \<Rightarrow> applied" where
  "apply_section path allowed f node opts =
     (case validate_mapping node path allowed of
        Some e \<Rightarrow> (Some e, opts) | None \<Rightarrow> apply_items f (items_of_map node) opts)"

definition apply_server_item :: "string \<Rightarrow> YamlNode \<Rightarrow> ServerOptions \<Rightarrow> applied" where
  "apply_server_item key node opts =
     (case scalar_string node (''server.'' @ key) of
        Inl e \<Rightarrow> (Some e, opts)
      | Inr text \<Rightarrow>
          if key = ''listen''
          then assigned (parse_endpoint_at text ''server.listen'' node) (\<lambda>e opts. opts\<lparr>listen := e\<rparr>) opts
          else assigned (parse_endpoint_at text ''server.admin_listen'' node) (\<lambda>e opts. opts\<lparr>admin_listen := e\<rparr>) opts)"

definition apply_server :: "YamlNode \<Rightarrow> ServerOptions \<Rightarrow> applied" where
  "apply_server = apply_section ''server'' [''listen'', ''admin_listen''] apply_server_item"

definition apply_storage_item :: "string \<Rightarrow> YamlNode \<Rightarrow> ServerOptions \<Rightarrow> applied" where
  "apply_storage_item key node opts =
     (if key = ''data_dir'' then assigned (scalar_string node ''storage.data_dir'') (\<lambda>s opts. opts\<lparr>data_dir := s\<rparr>) opts
      else if key = ''segment_bytes''
      then assign_u64 False node ''storage.segment_bytes'' (\<lambda>v opts. opts\<lparr>segment_bytes := v\<rparr>) opts
      else if key = ''segment_max_age_seconds''
      then assign_u64 True node ''storage.segment_max_age_seconds'' (\<lambda>v opts. opts\<lparr>segment_max_age_seconds := v\<rparr>) opts
      else then_check (\<lambda>opts. append_batch_records opts > 1024)
        (failure ''storage.append_batch_records must be between 1 and 1024'' node)
        (assign_u32 False node ''storage.append_batch_records'' (\<lambda>v opts. opts\<lparr>append_batch_records := v\<rparr>) opts))"

definition apply_storage :: "YamlNode \<Rightarrow> ServerOptions \<Rightarrow> applied" where
  "apply_storage = apply_section ''storage''
     [''data_dir'', ''segment_bytes'', ''segment_max_age_seconds'', ''append_batch_records''] apply_storage_item"

definition apply_retention_item :: "string \<Rightarrow> YamlNode \<Rightarrow> ServerOptions \<Rightarrow> applied" where
  "apply_retention_item key node opts =
     (if key = ''max_age_seconds''
      then assign_u64 True node ''retention.max_age_seconds'' (\<lambda>v opts. opts\<lparr>retention_max_age_seconds := v\<rparr>) opts
      else if key = ''max_bytes''
      then assign_u64 True node ''retention.max_bytes'' (\<lambda>v opts. opts\<lparr>retention_max_bytes := v\<rparr>) opts
      else assign_u32 True node ''retention.check_interval_ms'' (\<lambda>v opts. opts\<lparr>retention_check_interval_ms := v\<rparr>) opts)"

definition apply_retention_config :: "YamlNode \<Rightarrow> ServerOptions \<Rightarrow> applied" where
  "apply_retention_config = apply_section ''retention'' [''max_age_seconds'', ''max_bytes'', ''check_interval_ms''] apply_retention_item"

definition apply_limits_item :: "string \<Rightarrow> YamlNode \<Rightarrow> ServerOptions \<Rightarrow> applied" where
  "apply_limits_item key node opts =
     (if key = ''max_frame_bytes''
      then assign_u32 False node ''limits.max_frame_bytes'' (\<lambda>v opts. opts\<lparr>max_frame_bytes := v\<rparr>) opts
      else if key = ''max_produce_batch_records''
      then then_check (\<lambda>opts. max_produce_batch_records opts > 1024)
        (failure ''limits.max_produce_batch_records exceeds 1024'' node)
        (assign_u32 False node ''limits.max_produce_batch_records'' (\<lambda>v opts. opts\<lparr>max_produce_batch_records := v\<rparr>) opts)
      else if key = ''max_uncompressed_batch_bytes''
      then assign_u32 False node ''limits.max_uncompressed_batch_bytes'' (\<lambda>v opts. opts\<lparr>max_uncompressed_batch_bytes := v\<rparr>) opts
      else if key = ''max_fetch_records''
      then assign_u32 False node ''limits.max_fetch_records'' (\<lambda>v opts. opts\<lparr>max_fetch_records := v\<rparr>) opts
      else if key = ''max_fetch_bytes''
      then assign_u32 False node ''limits.max_fetch_bytes'' (\<lambda>v opts. opts\<lparr>max_fetch_bytes := v\<rparr>) opts
      else if key = ''max_topic_partitions''
      then then_check (\<lambda>opts. max_topic_partitions opts > 65535)
        (failure ''limits.max_topic_partitions exceeds 65535'' node)
        (assign_u32 False node ''limits.max_topic_partitions'' (\<lambda>v opts. opts\<lparr>max_topic_partitions := v\<rparr>) opts)
      else if key = ''max_fetch_wait_ms''
      then assign_u32 False node ''limits.max_fetch_wait_ms'' (\<lambda>v opts. opts\<lparr>max_fetch_wait_ms := v\<rparr>) opts
      else if key = ''max_append_queue_depth''
      then assign_u32 True node ''limits.max_append_queue_depth'' (\<lambda>v opts. opts\<lparr>max_append_queue_depth := v\<rparr>) opts
      else if key = ''append_workers''
      then then_check (\<lambda>opts. append_workers opts > 64)
        (failure ''limits.append_workers must be between 0 and 64'' node)
        (assign_u32 True node ''limits.append_workers'' (\<lambda>v opts. opts\<lparr>append_workers := v\<rparr>) opts)
      else if key = ''max_broker_connections''
      then assign_u32 False node ''limits.max_broker_connections'' (\<lambda>v opts. opts\<lparr>max_broker_connections := v\<rparr>) opts
      else assign_u32 True node ''limits.max_long_poll_waiters'' (\<lambda>v opts. opts\<lparr>max_long_poll_waiters := v\<rparr>) opts)"

definition apply_limits :: "YamlNode \<Rightarrow> ServerOptions \<Rightarrow> applied" where
  "apply_limits = apply_section ''limits''
     [''max_frame_bytes'', ''max_produce_batch_records'', ''max_uncompressed_batch_bytes'', ''max_fetch_records'',
      ''max_fetch_bytes'', ''max_topic_partitions'', ''max_fetch_wait_ms'', ''max_append_queue_depth'',
      ''append_workers'', ''max_broker_connections'', ''max_long_poll_waiters''] apply_limits_item"

definition apply_runtime :: "YamlNode \<Rightarrow> ServerOptions \<Rightarrow> applied" where
  "apply_runtime node opts =
     (case validate_mapping node ''runtime'' [''io_workers''] of
        Some e \<Rightarrow> (Some e, opts)
      | None \<Rightarrow>
         (case find_key node ''io_workers'' of
            None \<Rightarrow> (None, opts)
          | Some workers \<Rightarrow>
              then_check (\<lambda>opts. io_workers opts > 64) (failure ''runtime.io_workers must be between 1 and 64'' workers)
                (assign_u32 False workers ''runtime.io_workers'' (\<lambda>v opts. opts\<lparr>io_workers := v\<rparr>) opts)))"

definition apply_metrics :: "(string \<Rightarrow> bool option) \<Rightarrow> YamlNode \<Rightarrow> ServerOptions \<Rightarrow> applied" where
  "apply_metrics as_bool node opts =
     (case validate_mapping node ''metrics'' [''enabled''] of
        Some e \<Rightarrow> (Some e, opts)
      | None \<Rightarrow>
         (case find_key node ''enabled'' of
            None \<Rightarrow> (None, opts)
          | Some enabled \<Rightarrow> assigned (scalar_bool as_bool enabled ''metrics.enabled'') (\<lambda>v opts. opts\<lparr>metrics_enabled := v\<rparr>) opts))"

definition apply_logging :: "YamlNode \<Rightarrow> ServerOptions \<Rightarrow> applied" where
  "apply_logging node opts =
     (case validate_mapping node ''logging'' [''level'', ''format''] of
        Some e \<Rightarrow> (Some e, opts)
      | None \<Rightarrow>
         (let r = (case find_key node ''level'' of
              None \<Rightarrow> (None, opts)
            | Some level \<Rightarrow>
                then_check (\<lambda>opts. log_level opts \<noteq> ''debug'' \<and> log_level opts \<noteq> ''info'' \<and> log_level opts \<noteq> ''warn'' \<and> log_level opts \<noteq> ''error'')
                  (failure ''logging.level must be debug, info, warn, or error'' level)
                  (scalar_string_into level ''logging.level'' (\<lambda>s opts. opts\<lparr>log_level := s\<rparr>) opts)) in
          case r of
            (Some e, opts1) \<Rightarrow> (Some e, opts1)
          | (None, opts1) \<Rightarrow>
             (case find_key node ''format'' of
                None \<Rightarrow> (None, opts1)
              | Some format \<Rightarrow>
                  then_check (\<lambda>opts. log_format opts \<noteq> ''json'') (failure ''logging.format must be json'' format)
                    (scalar_string_into format ''logging.format'' (\<lambda>s opts. opts\<lparr>log_format := s\<rparr>) opts1))))"

definition validate_cross_fields :: "ServerOptions \<Rightarrow> string option" where
  "validate_cross_fields opts =
     (if append_workers opts = 0 \<and> (io_workers opts \<noteq> 1 \<or> append_batch_records opts \<noteq> 1)
      then Some ''limits.append_workers=0 requires runtime.io_workers=1 and storage.append_batch_records=1'' else None)"

definition apply_root_item :: "(string \<Rightarrow> bool option) \<Rightarrow> string \<Rightarrow> YamlNode \<Rightarrow> ServerOptions \<Rightarrow> applied" where
  "apply_root_item as_bool key node opts =
     (if key = ''server'' then apply_server node opts
      else if key = ''runtime'' then apply_runtime node opts
      else if key = ''storage'' then apply_storage node opts
      else if key = ''retention'' then apply_retention_config node opts
      else if key = ''limits'' then apply_limits node opts
      else if key = ''metrics'' then apply_metrics as_bool node opts
      else apply_logging node opts)"

definition load_server_config ::
  "(string \<Rightarrow> string + YamlNode) \<Rightarrow> (string \<Rightarrow> bool option) \<Rightarrow> string \<Rightarrow> ServerOptions \<Rightarrow> applied" where
  "load_server_config load_file as_bool path opts =
     (case load_file path of
        Inl what \<Rightarrow> (Some (''failed to load config '' @ path @ '': '' @ what), opts)
      | Inr root \<Rightarrow>
         (case apply_section ''config'' [''server'', ''runtime'', ''storage'', ''retention'', ''limits'', ''metrics'', ''logging'']
                 (apply_root_item as_bool) root opts of
            (Some e, opts1) \<Rightarrow> (Some e, opts1)
          | (None, opts1) \<Rightarrow> (validate_cross_fields opts1, opts1)))"

end
