(* ===== verification/Bolt_Options.thy ===== *)
theory Bolt_Options
  imports Bolt_Config
begin

text \<open>
  \<open>parse_server_options\<close> of \<open>src/src/broker/options.cpp\<close>: the command line of the broker. A first pass finds the
  configuration file, which is applied to the compiled defaults; a second pass applies the flags in order.
\<close>

section \<open>Parsed options\<close>

record ParsedServerOptions =
  parsed_options :: ServerOptions
  help_requested :: bool
  version_requested :: bool
  check_config_requested :: bool
  print_effective_config_requested :: bool
  config_path :: string
  config_loaded :: bool
  parse_error :: string

definition new_parsed :: ParsedServerOptions where
  "new_parsed = ParsedServerOptions.make default_options False False False False [] False []"

definition parsed_ok :: "ParsedServerOptions \<Rightarrow> bool" where
  "parsed_ok p \<longleftrightarrow> parse_error p = []"

section \<open>Finding the configuration file\<close>

fun find_config :: "string list \<Rightarrow> ParsedServerOptions \<Rightarrow> ParsedServerOptions" where
  "find_config [] p = p"
| "find_config (arg # rest) p =
     (if arg \<noteq> ''--config'' then find_config rest p
      else case rest of
        [] \<Rightarrow> p\<lparr>parse_error := ''missing value for --config''\<rparr>
      | v # rest1 \<Rightarrow>
          if config_path p \<noteq> [] then p\<lparr>parse_error := ''--config may be supplied only once''\<rparr>
          else find_config rest1 (p\<lparr>config_path := v\<rparr>))"

section \<open>Flags\<close>

text \<open>The next argument; when there is none the error is set and the empty text returned.\<close>

definition require_value :: "string \<Rightarrow> string list \<Rightarrow> ParsedServerOptions \<Rightarrow> string \<times> string list \<times> ParsedServerOptions" where
  "require_value name rest p =
     (case rest of
        [] \<Rightarrow> ([], [], p\<lparr>parse_error := ''missing value for '' @ name\<rparr>)
      | v # rest1 \<Rightarrow> (v, rest1, p))"

text \<open>An upper limit that the flag puts on its value.\<close>

definition below :: "'a::len word \<Rightarrow> (string \<Rightarrow> 'a word option) \<Rightarrow> string \<Rightarrow> 'a word option" where
  "below limit parse text = (case parse text of None \<Rightarrow> None | Some v \<Rightarrow> if v > limit then None else Some v)"

text \<open>\<open>Inl\<close> is an early return, \<open>Inr\<close> goes on with the remaining arguments.\<close>

type_synonym flag_result = "ParsedServerOptions + ParsedServerOptions \<times> string list"

definition value_flag ::
  "string \<Rightarrow> string list \<Rightarrow> ParsedServerOptions \<Rightarrow> (string \<Rightarrow> 'v option) \<Rightarrow> string \<Rightarrow>
   ('v \<Rightarrow> ServerOptions \<Rightarrow> ServerOptions) \<Rightarrow> flag_result" where
  "value_flag arg rest p parse message upd =
     (let (text, rest1, p1) = require_value arg rest p in
      case parse text of
        None \<Rightarrow> Inl (p1\<lparr>parse_error := message\<rparr>)
      | Some v \<Rightarrow> Inr (p1\<lparr>parsed_options := upd v (parsed_options p1)\<rparr>, rest1))"

definition parse_level :: "string \<Rightarrow> string option" where
  "parse_level text = (if text \<noteq> ''debug'' \<and> text \<noteq> ''info'' \<and> text \<noteq> ''warn'' \<and> text \<noteq> ''error'' then None else Some text)"

definition parse_format :: "string \<Rightarrow> string option" where
  "parse_format text = (if text \<noteq> ''json'' then None else Some text)"

definition parse_flag :: "string \<Rightarrow> string list \<Rightarrow> ParsedServerOptions \<Rightarrow> flag_result" where
  "parse_flag arg rest p =
     (if arg = ''--help'' \<or> arg = ''-h'' then Inr (p\<lparr>help_requested := True\<rparr>, rest)
      else if arg = ''--version'' then Inr (p\<lparr>version_requested := True\<rparr>, rest)
      else if arg = ''--check-config'' then Inr (p\<lparr>check_config_requested := True\<rparr>, rest)
      else if arg = ''--print-effective-config'' then Inr (p\<lparr>print_effective_config_requested := True\<rparr>, rest)
      else if arg = ''--config'' then
        (let (text, rest1, p1) = require_value arg rest p in Inr (p1, rest1))
      else if arg = ''--listen'' then
        value_flag arg rest p parse_endpoint ''invalid --listen endpoint, expected host:port'' (\<lambda>e opts. opts\<lparr>listen := e\<rparr>)
      else if arg = ''--admin-listen'' then
        value_flag arg rest p parse_endpoint ''invalid --admin-listen endpoint, expected host:port''
          (\<lambda>e opts. opts\<lparr>admin_listen := e\<rparr>)
      else if arg = ''--port'' then
        value_flag arg rest p parse_port ''invalid --port value'' (\<lambda>v opts. opts\<lparr>listen := (listen opts)\<lparr>port := v\<rparr>\<rparr>)
      else if arg = ''--data'' then
        value_flag arg rest p Some [] (\<lambda>s opts. opts\<lparr>data_dir := s\<rparr>)
      else if arg = ''--io-workers'' then
        value_flag arg rest p (below 64 (parse_u32 False)) ''invalid --io-workers value, expected 1..64'' (\<lambda>v opts. opts\<lparr>io_workers := v\<rparr>)
      else if arg = ''--max-frame-bytes'' then
        value_flag arg rest p (parse_u32 False) ''invalid --max-frame-bytes value'' (\<lambda>v opts. opts\<lparr>max_frame_bytes := v\<rparr>)
      else if arg = ''--max-produce-batch-records'' then
        value_flag arg rest p (below 1024 (parse_u32 False)) ''invalid --max-produce-batch-records value'' (\<lambda>v opts. opts\<lparr>max_produce_batch_records := v\<rparr>)
      else if arg = ''--max-uncompressed-batch-bytes'' then
        value_flag arg rest p (parse_u32 False) ''invalid --max-uncompressed-batch-bytes value'' (\<lambda>v opts. opts\<lparr>max_uncompressed_batch_bytes := v\<rparr>)
      else if arg = ''--max-fetch-records'' then
        value_flag arg rest p (parse_u32 False) ''invalid --max-fetch-records value'' (\<lambda>v opts. opts\<lparr>max_fetch_records := v\<rparr>)
      else if arg = ''--max-fetch-bytes'' then
        value_flag arg rest p (parse_u32 False) ''invalid --max-fetch-bytes value'' (\<lambda>v opts. opts\<lparr>max_fetch_bytes := v\<rparr>)
      else if arg = ''--max-topic-partitions'' then
        value_flag arg rest p (below 65535 (parse_u32 False)) ''invalid --max-topic-partitions value'' (\<lambda>v opts. opts\<lparr>max_topic_partitions := v\<rparr>)
      else if arg = ''--max-fetch-wait-ms'' then
        value_flag arg rest p (parse_u32 False) ''invalid --max-fetch-wait-ms value'' (\<lambda>v opts. opts\<lparr>max_fetch_wait_ms := v\<rparr>)
      else if arg = ''--max-append-queue-depth'' then
        value_flag arg rest p (parse_u32 True) ''invalid --max-append-queue-depth value'' (\<lambda>v opts. opts\<lparr>max_append_queue_depth := v\<rparr>)
      else if arg = ''--append-workers'' then
        value_flag arg rest p (below 64 (parse_u32 True)) ''invalid --append-workers value, expected 0..64'' (\<lambda>v opts. opts\<lparr>append_workers := v\<rparr>)
      else if arg = ''--append-batch-records'' then
        value_flag arg rest p (below 1024 (parse_u32 False)) ''invalid --append-batch-records value, expected 1..1024'' (\<lambda>v opts. opts\<lparr>append_batch_records := v\<rparr>)
      else if arg = ''--max-broker-connections'' then
        value_flag arg rest p (parse_u32 False) ''invalid --max-broker-connections value'' (\<lambda>v opts. opts\<lparr>max_broker_connections := v\<rparr>)
      else if arg = ''--max-long-poll-waiters'' then
        value_flag arg rest p (parse_u32 True) ''invalid --max-long-poll-waiters value'' (\<lambda>v opts. opts\<lparr>max_long_poll_waiters := v\<rparr>)
      else if arg = ''--segment-bytes'' then
        value_flag arg rest p (parse_umax False) ''invalid --segment-bytes value'' (\<lambda>v opts. opts\<lparr>segment_bytes := v\<rparr>)
      else if arg = ''--segment-max-age-seconds'' then
        value_flag arg rest p (parse_option_u64 True) ''invalid --segment-max-age-seconds value'' (\<lambda>v opts. opts\<lparr>segment_max_age_seconds := v\<rparr>)
      else if arg = ''--retention-max-age-seconds'' then
        value_flag arg rest p (parse_option_u64 True) ''invalid --retention-max-age-seconds value'' (\<lambda>v opts. opts\<lparr>retention_max_age_seconds := v\<rparr>)
      else if arg = ''--retention-max-bytes'' then
        value_flag arg rest p (parse_umax True) ''invalid --retention-max-bytes value'' (\<lambda>v opts. opts\<lparr>retention_max_bytes := v\<rparr>)
      else if arg = ''--retention-check-interval-ms'' then
        value_flag arg rest p (parse_u32 True) ''invalid --retention-check-interval-ms value'' (\<lambda>v opts. opts\<lparr>retention_check_interval_ms := v\<rparr>)
      else if arg = ''--metrics-enabled'' then
        value_flag arg rest p parse_bool ''invalid --metrics-enabled value, expected true or false'' (\<lambda>v opts. opts\<lparr>metrics_enabled := v\<rparr>)
      else if arg = ''--log-level'' then
        value_flag arg rest p parse_level ''invalid --log-level value, expected debug, info, warn, or error''
          (\<lambda>s opts. opts\<lparr>log_level := s\<rparr>)
      else if arg = ''--log-format'' then
        value_flag arg rest p parse_format ''invalid --log-format value, expected json'' (\<lambda>s opts. opts\<lparr>log_format := s\<rparr>)
      else Inl (p\<lparr>parse_error := ''unknown argument: '' @ arg\<rparr>))"

lemma require_value_shorter: "require_value name rest p = (text, rest1, p1) \<Longrightarrow> length rest1 \<le> length rest"
  by (auto simp: require_value_def split: list.splits)

lemma value_flag_shorter: "value_flag arg rest p parse message upd = Inr (p1, rest1) \<Longrightarrow> length rest1 \<le> length rest"
  by (auto simp: value_flag_def dest: require_value_shorter split: prod.splits option.splits)

lemma parse_flag_shorter: "parse_flag arg rest p = Inr (p1, rest1) \<Longrightarrow> length rest1 \<le> length rest"
  unfolding parse_flag_def
  by (auto dest: require_value_shorter value_flag_shorter split: if_splits prod.splits)

text \<open>The loop over the arguments: an early return, or the options after the last one.\<close>

function parse_flags :: "string list \<Rightarrow> ParsedServerOptions \<Rightarrow> ParsedServerOptions + ParsedServerOptions" where
  "parse_flags [] p = Inr p"
| "parse_flags (arg # rest) p =
     (case parse_flag arg rest p of Inl p1 \<Rightarrow> Inl p1 | Inr (p1, rest1) \<Rightarrow> parse_flags rest1 p1)"
  by pat_completeness auto
termination
  by (relation "measure (\<lambda>(args, p). length args)") (auto dest: parse_flag_shorter)

definition check_workers :: "ParsedServerOptions \<Rightarrow> ParsedServerOptions" where
  "check_workers p =
     (let opts = parsed_options p in
      if append_workers opts = 0 \<and> (io_workers opts \<noteq> 1 \<or> append_batch_records opts \<noteq> 1)
      then p\<lparr>parse_error := ''--append-workers 0 requires --io-workers 1 and --append-batch-records 1''\<rparr> else p)"

definition parse_server_options ::
  "(string \<Rightarrow> string + YamlNode) \<Rightarrow> (string \<Rightarrow> bool option) \<Rightarrow> string list \<Rightarrow> ParsedServerOptions" where
  "parse_server_options load_file as_bool args =
     (let p = find_config args new_parsed;
          second_pass = (\<lambda>p. case parse_flags args p of Inl p1 \<Rightarrow> p1 | Inr p1 \<Rightarrow> check_workers p1) in
      if parse_error p \<noteq> [] then p
      else if config_path p = [] then second_pass p
      else case load_server_config load_file as_bool (config_path p) (parsed_options p) of
        (Some e, opts) \<Rightarrow> p\<lparr>parsed_options := opts, parse_error := e\<rparr>
      | (None, opts) \<Rightarrow> second_pass (p\<lparr>parsed_options := opts, config_loaded := True\<rparr>))"

end
