(* ===== verification/Bolt_Options_Properties.thy ===== *)
theory Bolt_Options_Properties
  imports Bolt_Options
begin

text \<open>
  What an accepted configuration guarantees to the broker, and that the two ways to set an option, a flag and
  an entry of the configuration file, accept the same texts and give the same options.
\<close>

section \<open>Numbers\<close>

lemma whole_number_iff:
  "whole_number mx s = Some v \<longleftrightarrow> s \<noteq> [] \<and> (\<forall>c \<in> set s. is_digit c) \<and> v = digits_value s \<and> v \<le> mx"
  using from_chars_done [of mx s v] by (auto simp: whole_number_def split: option.splits list.splits)

lemma whole_number_eq:
  "whole_number mx s =
     (if s \<noteq> [] \<and> (\<forall>c \<in> set s. is_digit c) \<and> digits_value s \<le> mx then Some (digits_value s) else None)"
  using whole_number_iff [of mx s] by (cases "whole_number mx s") auto

lemma whole_number_shrink:
  assumes "mx \<le> mx'"
  shows "whole_number mx s = (case whole_number mx' s of None \<Rightarrow> None | Some v \<Rightarrow> if v \<le> mx then Some v else None)"
  using assms by (auto simp: whole_number_eq)

lemma of_nat_nonzero:
  "0 < v \<Longrightarrow> v \<le> 65535 \<Longrightarrow> (of_nat v :: u16) \<noteq> 0"
  "0 < v \<Longrightarrow> v \<le> 4294967295 \<Longrightarrow> (of_nat v :: u32) \<noteq> 0"
  "0 < v \<Longrightarrow> v \<le> 18446744073709551615 \<Longrightarrow> (of_nat v :: u64) \<noteq> 0"
  by (auto simp: unat_eq_zero [symmetric] unsigned_of_nat take_bit_eq_mod)

lemma of_nat_exact:
  "v \<le> 4294967295 \<Longrightarrow> unat (of_nat v :: u32) = v"
  "v \<le> 18446744073709551615 \<Longrightarrow> unat (of_nat v :: u64) = v"
  by (simp_all add: unsigned_of_nat take_bit_eq_mod)

lemma parse_port_pos: "parse_port s = Some p \<Longrightarrow> p \<noteq> 0"
  by (auto simp: parse_port_def of_nat_nonzero split: option.splits if_splits)

lemma parse_u32_pos: "parse_u32 False s = Some v \<Longrightarrow> v \<noteq> 0"
  by (auto simp: parse_u32_def whole_number_iff of_nat_nonzero split: option.splits if_splits)

lemma parse_u64_pos: "parse_option_u64 False s = Some v \<Longrightarrow> v \<noteq> 0"
  by (auto simp: parse_option_u64_def whole_number_iff of_nat_nonzero split: option.splits if_splits)

lemma parse_endpoint_pos: "parse_endpoint s = Some e \<Longrightarrow> host e \<noteq> [] \<and> port e \<noteq> 0"
  by (auto simp: parse_endpoint_def Endpoint.make_def dest: parse_port_pos split: option.splits if_splits prod.splits)

section \<open>The readers of the file in terms of those of the command line\<close>

text \<open>A number in the file is read with 64 bits and compared with the limit of its type.\<close>

definition as_result :: "string \<Rightarrow> 'a option \<Rightarrow> string + 'a" where
  "as_result e r = (case r of None \<Rightarrow> Inl e | Some v \<Rightarrow> Inr v)"

lemma whole_number_u32:
  "whole_number 4294967295 s =
     (case whole_number 18446744073709551615 s of None \<Rightarrow> None | Some v \<Rightarrow> if v \<le> 4294967295 then Some v else None)"
  by (rule whole_number_shrink) simp

lemma whole_number_bound: "whole_number mx s = Some v \<Longrightarrow> v \<le> mx"
  by (simp add: whole_number_iff)

lemma read_numbers:
  "scalar_unsigned 4294967295 az (YamlScalar m s) path =
     as_result (failure (path @ '' is outside its allowed unsigned range'') (YamlScalar m s)) (map_option unat (parse_u32 az s))"
  "scalar_unsigned 18446744073709551615 az (YamlScalar m s) path =
     as_result (failure (path @ '' is outside its allowed unsigned range'') (YamlScalar m s)) (map_option unat (parse_option_u64 az s))"
  using whole_number_bound [of "18446744073709551615" s]
  by (cases "whole_number 18446744073709551615 s";
    simp add: as_result_def parse_u32_def parse_option_u64_def whole_number_u32 of_nat_exact Let_def)+

lemma parse_endpoint_at_iff: "parse_endpoint_at text path node = Inr e \<longleftrightarrow> parse_endpoint text = Some e"
  by (auto simp: parse_endpoint_at_def parse_endpoint_def parse_port_def split: option.splits prod.splits if_splits)

section \<open>Valid options\<close>

definition settings_valid :: "ServerOptions \<Rightarrow> bool" where
  "settings_valid opts \<longleftrightarrow>
     host (listen opts) \<noteq> [] \<and> port (listen opts) \<noteq> 0 \<and> host (admin_listen opts) \<noteq> [] \<and> port (admin_listen opts) \<noteq> 0 \<and>
     io_workers opts \<noteq> 0 \<and> io_workers opts \<le> 64 \<and> append_workers opts \<le> 64 \<and>
     append_batch_records opts \<noteq> 0 \<and> append_batch_records opts \<le> 1024 \<and>
     max_produce_batch_records opts \<noteq> 0 \<and> max_produce_batch_records opts \<le> 1024 \<and>
     max_topic_partitions opts \<noteq> 0 \<and> max_topic_partitions opts \<le> 65535 \<and>
     max_frame_bytes opts \<noteq> 0 \<and> max_uncompressed_batch_bytes opts \<noteq> 0 \<and> max_fetch_records opts \<noteq> 0 \<and>
     max_fetch_bytes opts \<noteq> 0 \<and> max_fetch_wait_ms opts \<noteq> 0 \<and> max_broker_connections opts \<noteq> 0 \<and>
     segment_bytes opts \<noteq> 0 \<and> log_level opts \<in> {''debug'', ''info'', ''warn'', ''error''} \<and> log_format opts = ''json''"

definition workers_valid :: "ServerOptions \<Rightarrow> bool" where
  "workers_valid opts \<longleftrightarrow> (append_workers opts = 0 \<longrightarrow> io_workers opts = 1 \<and> append_batch_records opts = 1)"

lemma default_options_valid: "settings_valid default_options"
  by (simp add: settings_valid_def default_options_def ServerOptions.make_def Endpoint.make_def)

text \<open>No error has an empty text, which the command line would take for success.\<close>

lemma failure_text [simp]: "failure message node = [] \<longleftrightarrow> message = [] \<and> location node = []"
  by (simp add: failure_def)

lemma validate_keys_text [simp]: "validate_keys path allowed seen items \<noteq> Some []"
  by (induction path allowed seen items rule: validate_keys.induct) (auto split: YamlNode.splits)

lemma reader_texts [simp]:
  "validate_mapping node path allowed \<noteq> Some []" "scalar_string node path \<noteq> Inl []"
  "scalar_bool as_bool node path \<noteq> Inl []" "scalar_unsigned mx az node path \<noteq> Inl []"
  "parse_endpoint_at s path node \<noteq> Inl []"
  by (cases node; auto simp: Let_def parse_endpoint_at_def split: option.splits prod.splits)+

text \<open>A step keeps the settings valid when it succeeds and reports an error otherwise.\<close>

definition keeps_valid :: "(ServerOptions \<Rightarrow> applied) \<Rightarrow> bool" where
  "keeps_valid f \<longleftrightarrow> (\<forall>opts opts'. settings_valid opts \<longrightarrow> f opts = (None, opts') \<longrightarrow> settings_valid opts') \<and>
     (\<forall>opts. fst (f opts) \<noteq> Some [])"

lemma keeps_validD:
  "keeps_valid f \<Longrightarrow> settings_valid opts \<Longrightarrow> f opts = (None, opts') \<Longrightarrow> settings_valid opts'"
  "keeps_valid f \<Longrightarrow> fst (f opts) \<noteq> Some []"
  by (simp_all add: keeps_valid_def)

lemma keeps_valid_skip: "keeps_valid (\<lambda>opts. (None, opts))" "e \<noteq> [] \<Longrightarrow> keeps_valid (\<lambda>opts. (Some e, opts))"
  by (simp_all add: keeps_valid_def)

lemma keeps_valid_assigned:
  assumes "r \<noteq> Inl []" "\<And>v opts. r = Inr v \<Longrightarrow> settings_valid opts \<Longrightarrow> settings_valid (upd v opts)"
  shows "keeps_valid (assigned r upd)"
  using assms by (auto simp: keeps_valid_def assigned_def split: sum.splits)

lemma keeps_valid_checked:
  assumes "r \<noteq> Inl []" "message \<noteq> []"
    and "\<And>v opts. r = Inr v \<Longrightarrow> settings_valid opts \<Longrightarrow> \<not> bad (upd v opts) \<Longrightarrow> settings_valid (upd v opts)"
  shows "keeps_valid (\<lambda>opts. then_check bad message (assigned r upd opts))"
  using assms by (auto simp: keeps_valid_def assigned_def then_check_def split: sum.splits if_splits)

lemma keeps_valid_then:
  assumes "keeps_valid f" "keeps_valid g"
  shows "keeps_valid (\<lambda>opts. case f opts of (Some e, opts1) \<Rightarrow> (Some e, opts1) | (None, opts1) \<Rightarrow> g opts1)"
proof -
  let ?h = "\<lambda>opts. case f opts of (Some e, opts1) \<Rightarrow> (Some e, opts1) | (None, opts1) \<Rightarrow> g opts1"
  have "(settings_valid opts \<longrightarrow> ?h opts = (None, opts') \<longrightarrow> settings_valid opts') \<and> fst (?h opts) \<noteq> Some []" for opts opts'
  proof (cases "f opts")
    case (Pair e opts1)
    show ?thesis
    proof (cases e)
      case None
      then have "?h opts = g opts1" using Pair by simp
      then show ?thesis
        using keeps_validD(1) [OF assms(1), of opts opts1] keeps_validD(1) [OF assms(2), of opts1 opts']
          keeps_validD(2) [OF assms(2), of opts1] Pair None by metis
    next
      case (Some what)
      then show ?thesis using Pair keeps_validD(2) [OF assms(1), of opts] by simp
    qed
  qed
  then show ?thesis unfolding keeps_valid_def by blast
qed

lemma keeps_valid_items:
  assumes "\<And>k v. keeps_valid (f k v)"
  shows "keeps_valid (apply_items f items)"
proof (induction items)
  case (Cons kv items)
  obtain k v where kv: "kv = (k, v)" by (cases kv)
  show ?case using keeps_valid_then [OF assms Cons.IH, of "scalar_of k" v] unfolding kv apply_items.simps .
qed (simp add: keeps_valid_def)

lemma keeps_valid_section:
  assumes "\<And>k v. keeps_valid (f k v)"
  shows "keeps_valid (apply_section path allowed f node)"
proof (cases "validate_mapping node path allowed")
  case None
  then show ?thesis using keeps_valid_items [OF assms] unfolding apply_section_def by simp
next
  case (Some e)
  then show ?thesis unfolding apply_section_def
    using reader_texts(1) [of node path allowed] by (simp add: keeps_valid_skip)
qed

lemma scalar_unsigned_pos: "scalar_unsigned mx az node path = Inr v \<Longrightarrow> v \<le> mx \<and> (\<not> az \<longrightarrow> 0 < v)"
  by (cases node) (auto simp: Let_def split: option.splits if_splits)

lemma scalar_u32_pos: "scalar_unsigned 4294967295 False node path = Inr v \<Longrightarrow> (of_nat v :: u32) \<noteq> 0"
  using scalar_unsigned_pos [of 4294967295 False node path v] of_nat_nonzero(2) [of v] by simp

lemma scalar_u64_pos: "scalar_unsigned 18446744073709551615 False node path = Inr v \<Longrightarrow> (of_nat v :: u64) \<noteq> 0"
  using scalar_unsigned_pos [of 18446744073709551615 False node path v] of_nat_nonzero(3) [of v] by simp

lemmas settings_pos = scalar_u32_pos scalar_u64_pos parse_u32_pos parse_u64_pos parse_port_pos

lemma keeps_valid_endpoint:
  "keeps_valid (assigned (parse_endpoint_at s path node) (\<lambda>e opts. opts\<lparr>listen := e\<rparr>))"
  "keeps_valid (assigned (parse_endpoint_at s path node) (\<lambda>e opts. opts\<lparr>admin_listen := e\<rparr>))"
proof -
  have pos: "host e \<noteq> [] \<and> port e \<noteq> 0" if "parse_endpoint_at s path node = Inr e" for e
    using that parse_endpoint_pos by (simp add: parse_endpoint_at_iff)
  show "keeps_valid (assigned (parse_endpoint_at s path node) (\<lambda>e opts. opts\<lparr>listen := e\<rparr>))"
    by (rule keeps_valid_assigned) (simp_all add: settings_valid_def pos)
  show "keeps_valid (assigned (parse_endpoint_at s path node) (\<lambda>e opts. opts\<lparr>admin_listen := e\<rparr>))"
    by (rule keeps_valid_assigned) (simp_all add: settings_valid_def pos)
qed

lemma apply_server_valid: "keeps_valid (apply_server node)"
  unfolding apply_server_def
proof (rule keeps_valid_section)
  fix k v
  show "keeps_valid (apply_server_item k v)"
    unfolding apply_server_item_def
    using reader_texts(2) [of v "''server.'' @ k"]
    by (cases "scalar_string v (''server.'' @ k)"; cases "k = ''listen''"; simp add: keeps_valid_skip keeps_valid_endpoint)
qed

lemma apply_storage_valid: "keeps_valid (apply_storage node)"
  unfolding apply_storage_def
proof (rule keeps_valid_section)
  fix k v
  show "keeps_valid (apply_storage_item k v)"
    unfolding apply_storage_item_def
    by (cases "k = ''data_dir''"; cases "k = ''segment_bytes''"; cases "k = ''segment_max_age_seconds''"; simp;
      (rule keeps_valid_assigned | rule keeps_valid_checked); simp add: settings_valid_def settings_pos not_less)
qed

lemma apply_retention_valid: "keeps_valid (apply_retention_config node)"
  unfolding apply_retention_config_def
proof (rule keeps_valid_section)
  fix k v
  show "keeps_valid (apply_retention_item k v)"
    unfolding apply_retention_item_def
    by (cases "k = ''max_age_seconds''"; cases "k = ''max_bytes''"; simp;
      rule keeps_valid_assigned; simp add: settings_valid_def)
qed

lemma keeps_valid_if: "keeps_valid f \<Longrightarrow> keeps_valid g \<Longrightarrow> keeps_valid (\<lambda>opts. if c then f opts else g opts)"
  by (cases c) simp_all

lemma apply_limits_valid: "keeps_valid (apply_limits node)"
  unfolding apply_limits_def
proof (rule keeps_valid_section)
  fix k v
  show "keeps_valid (apply_limits_item k v)"
    unfolding apply_limits_item_def
    by (intro keeps_valid_if; (rule keeps_valid_assigned | rule keeps_valid_checked);
      simp add: settings_valid_def settings_pos not_less)
qed

lemma apply_runtime_valid: "keeps_valid (apply_runtime node)"
proof -
  have "keeps_valid (\<lambda>opts. then_check (\<lambda>opts. io_workers opts > 64) e
      (assign_u32 False workers path (\<lambda>v opts. opts\<lparr>io_workers := v\<rparr>) opts))" if "e \<noteq> []" for e workers path
    using that by (intro keeps_valid_checked) (simp_all add: settings_valid_def settings_pos not_less)
  then show ?thesis
    unfolding apply_runtime_def
    using reader_texts(1) [of node "''runtime''" "[''io_workers'']"]
    by (cases "validate_mapping node ''runtime'' [''io_workers'']"; cases "find_key node ''io_workers''")
      (simp_all add: keeps_valid_skip)
qed

lemma apply_metrics_valid: "keeps_valid (apply_metrics as_bool node)"
proof -
  have "keeps_valid (assigned (scalar_bool as_bool e path) (\<lambda>v opts. opts\<lparr>metrics_enabled := v\<rparr>))" for e path
    by (rule keeps_valid_assigned) (simp_all add: settings_valid_def)
  then show ?thesis
    unfolding apply_metrics_def
    using reader_texts(1) [of node "''metrics''" "[''enabled'']"]
    by (cases "validate_mapping node ''metrics'' [''enabled'']"; cases "find_key node ''enabled''")
      (simp_all add: keeps_valid_skip)
qed

lemma keeps_valid_string_into:
  assumes "e \<noteq> []" "\<And>s opts. settings_valid opts \<Longrightarrow> \<not> bad (upd s opts) \<Longrightarrow> settings_valid (upd s opts)"
  shows "keeps_valid (\<lambda>opts. then_check bad e (scalar_string_into node path upd opts))"
  using assms by (cases node) (auto simp: keeps_valid_def then_check_def split: if_splits)

lemma apply_logging_valid: "keeps_valid (apply_logging node)"
proof -
  let ?level = "\<lambda>opts. case find_key node ''level'' of
      None \<Rightarrow> (None, opts)
    | Some level \<Rightarrow>
        then_check (\<lambda>opts. log_level opts \<noteq> ''debug'' \<and> log_level opts \<noteq> ''info'' \<and> log_level opts \<noteq> ''warn'' \<and> log_level opts \<noteq> ''error'')
          (failure ''logging.level must be debug, info, warn, or error'' level)
          (scalar_string_into level ''logging.level'' (\<lambda>s opts. opts\<lparr>log_level := s\<rparr>) opts)"
  let ?format = "\<lambda>opts. case find_key node ''format'' of
      None \<Rightarrow> (None, opts)
    | Some format \<Rightarrow>
        then_check (\<lambda>opts. log_format opts \<noteq> ''json'') (failure ''logging.format must be json'' format)
          (scalar_string_into format ''logging.format'' (\<lambda>s opts. opts\<lparr>log_format := s\<rparr>) opts)"
  have "keeps_valid (\<lambda>opts. then_check (\<lambda>opts. log_level opts \<noteq> ''debug'' \<and> log_level opts \<noteq> ''info'' \<and> log_level opts \<noteq> ''warn'' \<and>
      log_level opts \<noteq> ''error'') e (scalar_string_into level path (\<lambda>s opts. opts\<lparr>log_level := s\<rparr>) opts))" if "e \<noteq> []" for e level path
    using that by (intro keeps_valid_string_into) (auto simp: settings_valid_def)
  then have level: "keeps_valid ?level" by (cases "find_key node ''level''") (simp_all add: keeps_valid_skip)
  have "keeps_valid (\<lambda>opts. then_check (\<lambda>opts. log_format opts \<noteq> ''json'') e
      (scalar_string_into format path (\<lambda>s opts. opts\<lparr>log_format := s\<rparr>) opts))" if "e \<noteq> []" for e format path
    using that by (intro keeps_valid_string_into) (simp_all add: settings_valid_def)
  then have format: "keeps_valid ?format" by (cases "find_key node ''format''") (simp_all add: keeps_valid_skip)
  show ?thesis
    unfolding apply_logging_def Let_def
    using keeps_valid_then [OF level format] reader_texts(1) [of node "''logging''" "[''level'', ''format'']"]
    by (cases "validate_mapping node ''logging'' [''level'', ''format'']") (simp_all add: keeps_valid_skip)
qed

lemma load_server_config_valid:
  shows "settings_valid opts \<Longrightarrow> load_server_config load_file as_bool path opts = (None, opts') \<Longrightarrow>
      settings_valid opts' \<and> workers_valid opts'"
    and "load_server_config load_file as_bool path opts = (Some e, opts') \<Longrightarrow> e \<noteq> []"
proof -
  let ?f = "apply_root_item as_bool"
  have "keeps_valid (?f k v)" for k v
    unfolding apply_root_item_def
    by (intro keeps_valid_if apply_server_valid apply_runtime_valid apply_storage_valid apply_retention_valid
        apply_limits_valid apply_metrics_valid apply_logging_valid)
  then have root: "keeps_valid (apply_section path' allowed ?f root)" for path' allowed root
    by (rule keeps_valid_section)
  note cases = load_server_config_def validate_cross_fields_def
  show "settings_valid opts \<Longrightarrow> load_server_config load_file as_bool path opts = (None, opts') \<Longrightarrow>
      settings_valid opts' \<and> workers_valid opts'"
    using keeps_validD(1) [OF root] unfolding cases
    by (auto simp: workers_valid_def split: sum.splits prod.splits option.splits if_splits)
  have "apply_section path' allowed ?f root opts \<noteq> (Some [], opts')" for path' allowed root
    using keeps_validD(2) [OF root, of path' allowed root opts] by auto
  then show "load_server_config load_file as_bool path opts = (Some e, opts') \<Longrightarrow> e \<noteq> []"
    unfolding cases by (auto split: sum.splits prod.splits option.splits if_splits)
qed

section \<open>Flags\<close>

text \<open>An early return reports an error; otherwise the settings are valid.\<close>

definition flag_valid :: "flag_result \<Rightarrow> bool" where
  "flag_valid r = (case r of Inl p \<Rightarrow> parse_error p \<noteq> [] | Inr (p, rest) \<Rightarrow> settings_valid (parsed_options p))"

lemma flag_valid_if: "flag_valid r \<Longrightarrow> flag_valid r' \<Longrightarrow> flag_valid (if c then r else r')"
  by simp

lemma flag_valid_value:
  assumes "settings_valid (parsed_options p)" "\<And>s. parse s = None \<Longrightarrow> message \<noteq> []"
    and "\<And>s v opts. parse s = Some v \<Longrightarrow> settings_valid opts \<Longrightarrow> settings_valid (upd v opts)"
  shows "flag_valid (value_flag arg rest p parse message upd)"
proof -
  obtain s rest1 p1 where r: "require_value arg rest p = (s, rest1, p1)" by (metis prod_cases3)
  then have "parsed_options p1 = parsed_options p" by (auto simp: require_value_def split: list.splits)
  then show ?thesis using assms r by (cases "parse s") (auto simp: value_flag_def flag_valid_def)
qed

lemma below_Some: "below limit parse s = Some v \<longleftrightarrow> parse s = Some v \<and> v \<le> limit"
  by (auto simp: below_def split: option.splits)

lemma below_pos: "below limit (parse_u32 False) s = Some v \<Longrightarrow> v \<noteq> 0 \<and> v \<le> limit"
  using parse_u32_pos by (auto simp: below_Some)

lemma parse_flag_valid:
  assumes "settings_valid (parsed_options p)"
  shows "flag_valid (parse_flag arg rest p)"
proof -
  have config: "flag_valid (let (s, rest1, p1) = require_value arg rest p in Inr (p1, rest1))"
    using assms by (auto simp: require_value_def flag_valid_def split: list.splits)
  note value_ok = flag_valid_value [OF assms]
  show ?thesis
    unfolding parse_flag_def
    by (intro flag_valid_if config; (rule value_ok)?; (simp add: flag_valid_def assms; fail)?;
      (simp add: settings_valid_def parse_umax_def settings_pos parse_endpoint_pos below_Some parse_level_def
        parse_format_def split: if_splits; fail)?; (drule below_pos)?; simp add: settings_valid_def)
qed

lemma parse_flags_valid:
  "settings_valid (parsed_options p) \<Longrightarrow>
   (case parse_flags args p of Inl p1 \<Rightarrow> parse_error p1 \<noteq> [] | Inr p1 \<Rightarrow> settings_valid (parsed_options p1))"
proof (induction args p rule: parse_flags.induct)
  case (2 arg rest p)
  show ?case
  proof (cases "parse_flag arg rest p")
    case (Inl p1)
    then show ?thesis using parse_flag_valid [OF "2.prems", of arg rest] by (simp add: flag_valid_def)
  next
    case (Inr r)
    obtain p1 rest1 where r: "r = (p1, rest1)" by (cases r)
    then have "settings_valid (parsed_options p1)"
      using parse_flag_valid [OF "2.prems", of arg rest] Inr by (simp add: flag_valid_def)
    then show ?thesis using "2.IH" [OF Inr r [symmetric]] Inr r by simp
  qed
qed simp

lemma find_config_options: "parsed_options (find_config args p) = parsed_options p"
  by (induction args p rule: find_config.induct) (auto split: list.splits)

section \<open>Properties\<close>

text \<open>
  C29: whatever the arguments and the configuration file are, options that are accepted are in range. Both
  endpoints have a host and a port; worker, batch and partition numbers are within the limits that the broker's
  data structures assume (a partition count fits 16 bits, at most 64 workers, at most 1024 records in a batch);
  the byte and record limits and the segment size are not zero; and a broker without append workers has one I/O
  worker and appends single records.
\<close>

theorem accepted_options_valid:
  assumes ok: "parsed_ok (parse_server_options load_file as_bool args)"
  shows "settings_valid (parsed_options (parse_server_options load_file as_bool args)) \<and>
    workers_valid (parsed_options (parse_server_options load_file as_bool args))"
proof -
  let ?p = "find_config args new_parsed"
  let ?second = "\<lambda>p. case parse_flags args p of Inl p1 \<Rightarrow> p1 | Inr p1 \<Rightarrow> check_workers p1"
  have valid: "settings_valid (parsed_options ?p)"
    by (simp add: find_config_options new_parsed_def ParsedServerOptions.make_def default_options_valid)
  have second: "settings_valid (parsed_options (?second p)) \<and> workers_valid (parsed_options (?second p))"
    if "settings_valid (parsed_options p)" "parsed_ok (?second p)" for p
    using parse_flags_valid [OF that(1), of args] that(2)
    by (auto simp: check_workers_def parsed_ok_def workers_valid_def Let_def split: sum.splits if_splits)
  show ?thesis
  proof (cases "parse_error ?p \<noteq> [] \<or> config_path ?p = []")
    case True
    then show ?thesis using ok second [OF valid]
      by (auto simp: parse_server_options_def Let_def parsed_ok_def)
  next
    case False
    obtain e opts where load: "load_server_config load_file as_bool (config_path ?p) (parsed_options ?p) = (e, opts)"
      by (cases "load_server_config load_file as_bool (config_path ?p) (parsed_options ?p)")
    show ?thesis
    proof (cases e)
      case None
      then have "settings_valid opts" using load_server_config_valid(1) [OF valid] load by simp
      then show ?thesis using ok False load None second [of "?p\<lparr>parsed_options := opts, config_loaded := True\<rparr>"]
        by (simp add: parse_server_options_def Let_def)
    next
      case (Some what)
      have "what \<noteq> []" using load Some load_server_config_valid(2) by blast
      then show ?thesis using ok False load Some by (simp add: parse_server_options_def Let_def parsed_ok_def)
    qed
  qed
qed

theorem accepted_options_valid_witness:
  "let p = parse_server_options (\<lambda>_. Inl ''no file'') (\<lambda>_. None) [''--append-workers'', ''0'', ''--port'', ''7''] in
   parsed_ok p \<and> settings_valid (parsed_options p) \<and> workers_valid (parsed_options p)"
proof -
  let ?p = "parse_server_options (\<lambda>_. Inl ''no file'') (\<lambda>_. None) [''--append-workers'', ''0'', ''--port'', ''7'']"
  have "parsed_ok ?p"
    by (simp add: parse_server_options_def new_parsed_def ParsedServerOptions.make_def parse_flag_def value_flag_def
        require_value_def below_def parse_u32_def parse_port_def whole_number_def from_chars_def is_digit_def digits_value_def
        digit_value_def check_workers_def default_options_def ServerOptions.make_def Endpoint.make_def parsed_ok_def)
  then show ?thesis unfolding Let_def using accepted_options_valid by blast
qed

section \<open>Flags and file\<close>

text \<open>The settings that both a flag and an entry of the file set with the same kind of text.\<close>

definition shared_settings :: "(string \<times> string \<times> string) list" where
  "shared_settings =
    [(''--listen'', ''server'', ''listen''), (''--admin-listen'', ''server'', ''admin_listen''),
     (''--io-workers'', ''runtime'', ''io_workers''), (''--segment-bytes'', ''storage'', ''segment_bytes''),
     (''--segment-max-age-seconds'', ''storage'', ''segment_max_age_seconds''), (''--append-batch-records'', ''storage'', ''append_batch_records''),
     (''--retention-max-age-seconds'', ''retention'', ''max_age_seconds''), (''--retention-max-bytes'', ''retention'', ''max_bytes''),
     (''--retention-check-interval-ms'', ''retention'', ''check_interval_ms''), (''--max-frame-bytes'', ''limits'', ''max_frame_bytes''),
     (''--max-produce-batch-records'', ''limits'', ''max_produce_batch_records''), (''--max-uncompressed-batch-bytes'', ''limits'', ''max_uncompressed_batch_bytes''),
     (''--max-fetch-records'', ''limits'', ''max_fetch_records''), (''--max-fetch-bytes'', ''limits'', ''max_fetch_bytes''),
     (''--max-topic-partitions'', ''limits'', ''max_topic_partitions''), (''--max-fetch-wait-ms'', ''limits'', ''max_fetch_wait_ms''),
     (''--max-append-queue-depth'', ''limits'', ''max_append_queue_depth''), (''--append-workers'', ''limits'', ''append_workers''),
     (''--max-broker-connections'', ''limits'', ''max_broker_connections''), (''--max-long-poll-waiters'', ''limits'', ''max_long_poll_waiters''),
     (''--log-level'', ''logging'', ''level''), (''--log-format'', ''logging'', ''format'')]"

definition one_setting :: "string \<Rightarrow> string \<Rightarrow> string \<Rightarrow> YamlNode" where
  "one_setting sec key s = YamlMap None [(YamlScalar None sec, YamlMap None [(YamlScalar None key, YamlScalar None s)])]"

definition accepted_flags :: "ParsedServerOptions \<Rightarrow> ServerOptions option" where
  "accepted_flags p = (if parsed_ok p then Some (parsed_options p) else None)"

definition accepted_file :: "applied \<Rightarrow> ServerOptions option" where
  "accepted_file r = (if fst r = None then Some (snd r) else None)"

definition cross_checked :: "ServerOptions \<Rightarrow> ServerOptions option" where
  "cross_checked opts = (if workers_valid opts then Some opts else None)"

lemma flag_side:
  assumes flag: "\<And>rest p. parse_flag flag rest p = value_flag flag rest p parse message upd"
    and ne: "flag \<noteq> ''--config''" "message \<noteq> []" "parse ''--config'' = None"
  shows "accepted_flags (parse_server_options load_file as_bool [flag, s]) =
    Option.bind (parse s) (\<lambda>v. cross_checked (upd v default_options))"
proof (cases "s = ''--config''")
  case True
  then show ?thesis using ne
    by (simp add: parse_server_options_def new_parsed_def ParsedServerOptions.make_def accepted_flags_def parsed_ok_def)
next
  case False
  then show ?thesis using ne
    by (cases "parse s") (auto simp: parse_server_options_def new_parsed_def ParsedServerOptions.make_def accepted_flags_def
        parsed_ok_def flag value_flag_def require_value_def check_workers_def cross_checked_def workers_valid_def Let_def)
qed

lemma section_one:
  "key \<in> set allowed \<Longrightarrow> apply_section path allowed f (YamlMap m [(YamlScalar m1 key, v)]) opts = f key v opts"
  by (auto simp: apply_section_def split: prod.splits option.splits)

lemma file_side:
  assumes "sec \<in> {''server'', ''runtime'', ''storage'', ''retention'', ''limits'', ''metrics'', ''logging''}"
  shows "accepted_file (load_server_config (\<lambda>_. Inr (one_setting sec key s)) as_bool path opts) =
    Option.bind (accepted_file (apply_root_item as_bool sec (YamlMap None [(YamlScalar None key, YamlScalar None s)]) opts))
      cross_checked"
proof -
  have key: "sec \<in> set [''server'', ''runtime'', ''storage'', ''retention'', ''limits'', ''metrics'', ''logging'']"
    using assms by simp
  show ?thesis
    unfolding load_server_config_def one_setting_def sum.case section_one [OF key]
    by (auto simp: accepted_file_def cross_checked_def validate_cross_fields_def workers_valid_def split: prod.splits option.splits)
qed

lemma accepted_result:
  "accepted_file (assigned (as_result e (map_option f r)) upd opts) = map_option (\<lambda>v. upd (f v) opts) r"
  by (cases r) (simp_all add: accepted_file_def assigned_def as_result_def)

lemma accepted_checked:
  "accepted_file (then_check bad message r) = Option.bind (accepted_file r) (\<lambda>opts. if bad opts then None else Some opts)"
  by (auto simp: accepted_file_def then_check_def)

lemma accepted_endpoint:
  "accepted_file (assigned (parse_endpoint_at s path node) upd opts) = map_option (\<lambda>e. upd e opts) (parse_endpoint s)"
proof (cases "parse_endpoint s")
  case None
  then obtain what where "parse_endpoint_at s path node = Inl what"
    using parse_endpoint_at_iff [of s path node] by (cases "parse_endpoint_at s path node") auto
  then show ?thesis using None by (simp add: accepted_file_def assigned_def)
next
  case (Some e)
  then have "parse_endpoint_at s path node = Inr e" by (simp add: parse_endpoint_at_iff)
  then show ?thesis using Some by (simp add: accepted_file_def assigned_def)
qed

lemma setting_agrees:
  assumes "\<And>rest p. parse_flag flag rest p = value_flag flag rest p parse message upd"
    and "flag \<noteq> ''--config''" "message \<noteq> []" "parse ''--config'' = None"
    and "sec \<in> {''server'', ''runtime'', ''storage'', ''retention'', ''limits'', ''metrics'', ''logging''}"
    and "accepted_file (apply_root_item as_bool sec (YamlMap None [(YamlScalar None key, YamlScalar None s)]) default_options) =
      map_option (\<lambda>v. upd v default_options) (parse s)"
  shows "accepted_flags (parse_server_options load_file as_bool [flag, s]) =
    accepted_file (load_server_config (\<lambda>_. Inr (one_setting sec key s)) as_bool path default_options)"
  unfolding file_side [OF assms(5)] assms(6) using flag_side [OF assms(1-4)] by (cases "parse s") simp_all

lemma no_number: "whole_number mx ''--config'' = None"
  by (simp add: whole_number_eq is_digit_def)

lemmas not_config = no_number parse_u32_def parse_option_u64_def parse_umax_def parse_endpoint_def split_at_colon_def below_def
  parse_level_def parse_format_def

lemma accepted_texts:
  "accepted_file (scalar_string_into (YamlScalar m s) path upd opts) = (if s = [] then None else Some (upd s opts))"
  "accepted_file (None, opts) = Some opts" "accepted_file (Some e, opts) = None"
  by (simp_all add: accepted_file_def)

lemma accepted_then:
  "accepted_file (case r of (Some e, opts1) \<Rightarrow> (Some e, opts1) | (None, opts1) \<Rightarrow> g opts1) =
     Option.bind (accepted_file r) (\<lambda>opts1. accepted_file (g opts1))"
  by (auto simp: accepted_file_def split: prod.splits option.splits)

lemma parse_endpoint_Nil: "parse_endpoint [] = None"
  by (simp add: parse_endpoint_def split_at_colon_def)

lemmas file_settings = apply_root_item_def apply_server_def apply_storage_def apply_retention_config_def apply_limits_def
  apply_runtime_def apply_logging_def apply_server_item_def apply_storage_item_def apply_retention_item_def apply_limits_item_def
  section_one find_key_def read_numbers accepted_result accepted_checked accepted_endpoint accepted_texts accepted_then
  parse_endpoint_Nil parse_umax_def below_def parse_level_def parse_format_def

lemma settings_agree:
  "list_all (\<lambda>(flag, sec, key). accepted_flags (parse_server_options load_file as_bool [flag, s]) =
    accepted_file (load_server_config (\<lambda>_. Inr (one_setting sec key s)) as_bool path default_options)) shared_settings"
  unfolding shared_settings_def list.pred_inject prod.case
  by (intro conjI TrueI; (rule setting_agrees, simp add: parse_flag_def, simp, simp, simp add: not_config, simp)?;
    simp add: file_settings del: scalar_unsigned.simps split: option.split)



end
