(* ===== verification/Bolt_Metrics.thy ===== *)
theory Bolt_Metrics
  imports Bolt_Broker
begin

text \<open>
  The metrics of the broker: the counters and histograms of \<open>MetricsRegistry\<close>
  (\<open>src/src/observability/metrics.cpp\<close>), the Prometheus text of labels and histograms, and the snapshot that
  \<open>BrokerRuntime::runtime_metrics\<close> (\<open>src/src/broker/server.cpp\<close>) takes of the partitions, the groups and
  their lags. Durations are values of an ordered type with the addition that the floating point unit has; the
  bucket bounds and the text of a number are arguments. A histogram updates under its mutex, so an observation is one step.
\<close>

section \<open>Histograms\<close>

record 'd Histogram =
  buckets :: "u64 list"
  hist_count :: u64
  hist_sum :: 'd

definition empty_histogram :: "'d list \<Rightarrow> 'd \<Rightarrow> 'd Histogram" where
  "empty_histogram bounds zero = Histogram.make (replicate (length bounds) 0) 0 zero"

text \<open>The loop that increments the first bucket whose bound is not below the value.\<close>

fun bump_bucket :: "'d::linorder list \<Rightarrow> 'd \<Rightarrow> u64 list \<Rightarrow> u64 list" where
  "bump_bucket (bound # bounds) v (c # cs) = (if v \<le> bound then (c + 1) # cs else c # bump_bucket bounds v cs)"
| "bump_bucket _ v cs = cs"

definition observe :: "'d::linorder list \<Rightarrow> ('d \<Rightarrow> 'd \<Rightarrow> 'd) \<Rightarrow> 'd \<Rightarrow> 'd Histogram \<Rightarrow> 'd Histogram" where
  "observe bounds fadd v h =
     h\<lparr>hist_count := hist_count h + 1, hist_sum := fadd (hist_sum h) v, buckets := bump_bucket bounds v (buckets h)\<rparr>"

definition kAppendBatchRecordBuckets :: "u64 list" where
  "kAppendBatchRecordBuckets = [1, 2, 4, 8, 16, 32, 64, 128, 256, 512, 1024]"

section \<open>The registry\<close>

definition kMetricFrameTypeCount :: nat where "kMetricFrameTypeCount = 40"

definition kMetricErrorCodeCount :: nat where "kMetricErrorCodeCount = 23"

datatype RejectionReason = RejectAppendQueue | RejectLongPollLimit | RejectConnectionLimit

fun rejection_index :: "RejectionReason \<Rightarrow> nat" where
  "rejection_index RejectAppendQueue = 0"
| "rejection_index RejectLongPollLimit = 1"
| "rejection_index RejectConnectionLimit = 2"

fun rejection_reason_name :: "RejectionReason \<Rightarrow> string" where
  "rejection_reason_name RejectAppendQueue = ''append_queue''"
| "rejection_reason_name RejectLongPollLimit = ''long_poll_limit''"
| "rejection_reason_name RejectConnectionLimit = ''connection_limit''"

record 'd MetricsRegistry =
  metrics_on :: bool
  requests :: "u64 list"
  errors :: "u64 list list"
  request_durations :: "'d Histogram list"
  rejections :: "u64 list list"
  connections_accepted :: u64
  connections_rejected_limit :: u64
  protocol_received_bytes :: u64
  protocol_sent_bytes :: u64
  records_produced :: u64
  records_fetched :: u64
  append_batches :: u64
  compression_batches :: "u64 list"
  compression_logical_bytes :: "u64 list"
  compression_encoded_bytes :: "u64 list"
  compression_decode_failures :: u64
  compressed_fetch_passthroughs :: u64
  append_batch_sizes :: "u64 Histogram"
  group_rebalances :: u64
  group_heartbeat_failures :: u64
  group_commit_failures :: u64
  retention_runs :: u64
  retention_failures :: u64
  retention_deleted_segments :: u64
  retention_deleted_bytes :: u64
  metrics_scrapes :: u64
  metrics_render_duration :: "'d Histogram"
  metrics_render_failures :: u64
  recovery_duration_seconds :: 'd
  metric_recovered_records :: u64
  metric_truncated_bytes :: u64

definition new_registry :: "bool \<Rightarrow> 'd list \<Rightarrow> 'd \<Rightarrow> 'd MetricsRegistry" where
  "new_registry on bounds zero =
     MetricsRegistry.make on (replicate kMetricFrameTypeCount 0)
       (replicate kMetricFrameTypeCount (replicate kMetricErrorCodeCount 0))
       (replicate kMetricFrameTypeCount (empty_histogram bounds zero)) (replicate kMetricFrameTypeCount (replicate 3 0))
       0 0 0 0 0 0 0 [0, 0] [0, 0] [0, 0] 0 0 (empty_histogram kAppendBatchRecordBuckets 0) 0 0 0 0 0 0 0 0
       (empty_histogram bounds zero) 0 zero 0 0"

definition frame_index :: "FrameType \<Rightarrow> nat" where
  "frame_index operation = min (unat (frame_type_value operation)) (kMetricFrameTypeCount - 1)"

definition error_index :: "ErrorCode \<Rightarrow> nat" where
  "error_index err = min (unat (error_code_value err)) (kMetricErrorCodeCount - 1)"

definition bump_at :: "nat \<Rightarrow> u64 \<Rightarrow> u64 list \<Rightarrow> u64 list" where
  "bump_at i n xs = xs[i := xs ! i + n]"

text \<open>Every operation does nothing when metrics are disabled.\<close>

abbreviation when_enabled :: "('d MetricsRegistry \<Rightarrow> 'd MetricsRegistry) \<Rightarrow> 'd MetricsRegistry \<Rightarrow> 'd MetricsRegistry" where
  "when_enabled f r \<equiv> (if metrics_on r then f r else r)"

definition record_request :: "FrameType \<Rightarrow> u64 \<Rightarrow> 'd MetricsRegistry \<Rightarrow> 'd MetricsRegistry" where
  "record_request operation received_bytes =
     when_enabled (\<lambda>r. r\<lparr>requests := bump_at (frame_index operation) 1 (requests r),
       protocol_received_bytes := protocol_received_bytes r + received_bytes\<rparr>)"

definition record_response ::
  "'d::linorder list \<Rightarrow> ('d \<Rightarrow> 'd \<Rightarrow> 'd) \<Rightarrow> FrameType \<Rightarrow> u64 \<Rightarrow> 'd \<Rightarrow> 'd MetricsRegistry \<Rightarrow> 'd MetricsRegistry" where
  "record_response bounds fadd operation sent_bytes duration =
     when_enabled (\<lambda>r. r\<lparr>protocol_sent_bytes := protocol_sent_bytes r + sent_bytes,
       request_durations := (request_durations r)[frame_index operation :=
         observe bounds fadd duration (request_durations r ! frame_index operation)]\<rparr>)"

definition record_error :: "FrameType \<Rightarrow> ErrorCode \<Rightarrow> 'd MetricsRegistry \<Rightarrow> 'd MetricsRegistry" where
  "record_error operation err =
     when_enabled (\<lambda>r. r\<lparr>errors := (errors r)[frame_index operation :=
           bump_at (error_index err) 1 (errors r ! frame_index operation)],
       group_heartbeat_failures := group_heartbeat_failures r + (if operation = FrameType.HeartbeatRequest then 1 else 0),
       group_commit_failures := group_commit_failures r +
         (if operation = FrameType.GroupOffsetCommitRequest \<or> operation = FrameType.OffsetCommitRequest then 1 else 0)\<rparr>)"

definition record_rejection :: "FrameType \<Rightarrow> RejectionReason \<Rightarrow> 'd MetricsRegistry \<Rightarrow> 'd MetricsRegistry" where
  "record_rejection operation reason =
     when_enabled (\<lambda>r. r\<lparr>rejections := (rejections r)[frame_index operation :=
       bump_at (rejection_index reason) 1 (rejections r ! frame_index operation)]\<rparr>)"

definition record_connection_accepted :: "'d MetricsRegistry \<Rightarrow> 'd MetricsRegistry" where
  "record_connection_accepted = when_enabled (\<lambda>r. r\<lparr>connections_accepted := connections_accepted r + 1\<rparr>)"

definition record_connection_rejected :: "'d MetricsRegistry \<Rightarrow> 'd MetricsRegistry" where
  "record_connection_rejected = when_enabled (\<lambda>r. r\<lparr>connections_rejected_limit := connections_rejected_limit r + 1\<rparr>)"

definition record_records_produced :: "u64 \<Rightarrow> 'd MetricsRegistry \<Rightarrow> 'd MetricsRegistry" where
  "record_records_produced n = when_enabled (\<lambda>r. r\<lparr>records_produced := records_produced r + n\<rparr>)"

definition record_records_fetched :: "u64 \<Rightarrow> 'd MetricsRegistry \<Rightarrow> 'd MetricsRegistry" where
  "record_records_fetched n = when_enabled (\<lambda>r. r\<lparr>records_fetched := records_fetched r + n\<rparr>)"

definition record_append_batch :: "u64 \<Rightarrow> 'd MetricsRegistry \<Rightarrow> 'd MetricsRegistry" where
  "record_append_batch n =
     when_enabled (\<lambda>r. r\<lparr>append_batches := append_batches r + 1,
       append_batch_sizes := observe kAppendBatchRecordBuckets (+) n (append_batch_sizes r)\<rparr>)"

definition record_compression_batch :: "Codec \<Rightarrow> u64 \<Rightarrow> u64 \<Rightarrow> 'd MetricsRegistry \<Rightarrow> 'd MetricsRegistry" where
  "record_compression_batch cdc logical encoded r =
     (let i = unat (codec_value cdc) in
      if \<not> metrics_on r \<or> \<not> is_supported cdc then r
      else r\<lparr>compression_batches := bump_at i 1 (compression_batches r),
             compression_logical_bytes := bump_at i logical (compression_logical_bytes r),
             compression_encoded_bytes := bump_at i encoded (compression_encoded_bytes r)\<rparr>)"

definition record_compression_decode_failure :: "'d MetricsRegistry \<Rightarrow> 'd MetricsRegistry" where
  "record_compression_decode_failure =
     when_enabled (\<lambda>r. r\<lparr>compression_decode_failures := compression_decode_failures r + 1\<rparr>)"

definition record_compressed_fetch_passthrough :: "'d MetricsRegistry \<Rightarrow> 'd MetricsRegistry" where
  "record_compressed_fetch_passthrough =
     when_enabled (\<lambda>r. r\<lparr>compressed_fetch_passthroughs := compressed_fetch_passthroughs r + 1\<rparr>)"

definition record_group_rebalance :: "'d MetricsRegistry \<Rightarrow> 'd MetricsRegistry" where
  "record_group_rebalance = when_enabled (\<lambda>r. r\<lparr>group_rebalances := group_rebalances r + 1\<rparr>)"

definition record_retention_run :: "u64 \<Rightarrow> u64 \<Rightarrow> 'd MetricsRegistry \<Rightarrow> 'd MetricsRegistry" where
  "record_retention_run segments n =
     when_enabled (\<lambda>r. r\<lparr>retention_runs := retention_runs r + 1,
       retention_deleted_segments := retention_deleted_segments r + segments,
       retention_deleted_bytes := retention_deleted_bytes r + n\<rparr>)"

definition record_retention_failure :: "'d MetricsRegistry \<Rightarrow> 'd MetricsRegistry" where
  "record_retention_failure = when_enabled (\<lambda>r. r\<lparr>retention_failures := retention_failures r + 1\<rparr>)"

definition set_recovery :: "'d \<Rightarrow> u64 \<Rightarrow> u64 \<Rightarrow> 'd MetricsRegistry \<Rightarrow> 'd MetricsRegistry" where
  "set_recovery duration recovered truncated =
     when_enabled (\<lambda>r. r\<lparr>recovery_duration_seconds := duration, metric_recovered_records := recovered,
       metric_truncated_bytes := truncated\<rparr>)"

definition record_metrics_scrape :: "'d MetricsRegistry \<Rightarrow> 'd MetricsRegistry" where
  "record_metrics_scrape = when_enabled (\<lambda>r. r\<lparr>metrics_scrapes := metrics_scrapes r + 1\<rparr>)"

definition record_metrics_render_duration ::
  "'d::linorder list \<Rightarrow> ('d \<Rightarrow> 'd \<Rightarrow> 'd) \<Rightarrow> 'd \<Rightarrow> 'd MetricsRegistry \<Rightarrow> 'd MetricsRegistry" where
  "record_metrics_render_duration bounds fadd duration =
     when_enabled (\<lambda>r. r\<lparr>metrics_render_duration := observe bounds fadd duration (metrics_render_duration r)\<rparr>)"

definition record_metrics_render_failure :: "'d MetricsRegistry \<Rightarrow> 'd MetricsRegistry" where
  "record_metrics_render_failure = when_enabled (\<lambda>r. r\<lparr>metrics_render_failures := metrics_render_failures r + 1\<rparr>)"

section \<open>Prometheus text\<close>

definition prometheus_label_escape :: "string \<Rightarrow> string" where
  "prometheus_label_escape s = concat (map (\<lambda>ch.
     if ch = CHR 0x5C then [CHR 0x5C, CHR 0x5C]
     else if ch = CHR 0x22 then [CHR 0x5C, CHR 0x22]
     else if ch = CHR 0x0A then [CHR 0x5C, CHR ''n''] else [ch]) s)"

fun join_labels :: "(string \<times> string) list \<Rightarrow> string" where
  "join_labels [] = []"
| "join_labels [(name, s)] = name @ ''='' @ [CHR 0x22] @ prometheus_label_escape s @ [CHR 0x22]"
| "join_labels ((name, s) # rest) =
     name @ ''='' @ [CHR 0x22] @ prometheus_label_escape s @ [CHR 0x22] @ '','' @ join_labels rest"

definition labels :: "(string \<times> string) list \<Rightarrow> string" where
  "labels pairs = ''{'' @ join_labels pairs @ ''}''"

definition operation_name :: "FrameType \<Rightarrow> string" where
  "operation_name operation =
     (let name = frame_type_name operation; suffix = ''_request'' in
      if length suffix \<le> length name \<and> drop (length name - length suffix) name = suffix
      then take (length name - length suffix) name else name)"

text \<open>The running sums of the buckets that the text shows.\<close>

fun cumulative :: "u64 \<Rightarrow> u64 list \<Rightarrow> u64 list" where
  "cumulative acc [] = []"
| "cumulative acc (c # cs) = (acc + c) # cumulative (acc + c) cs"

text \<open>
  A histogram as text; \<open>before\<close> are the labels in front of the bucket bound. \<open>bound_texts\<close> are the bounds as
  the stream prints them, \<open>sum_text\<close> the printed sum.
\<close>

definition render_buckets :: "string \<Rightarrow> (string \<times> string) list \<Rightarrow> string list \<Rightarrow> 'd Histogram \<Rightarrow> string" where
  "render_buckets name before bound_texts h =
     concat (map2 (\<lambda>bound n. name @ ''_bucket'' @ labels (before @ [(''le'', bound)]) @ '' '' @ decimal (unat n) @ [CHR 0x0A])
       bound_texts (cumulative 0 (buckets h))) @
     name @ ''_bucket'' @ labels (before @ [(''le'', ''+Inf'')]) @ '' '' @ decimal (unat (hist_count h)) @ [CHR 0x0A]"

definition render_histogram :: "string \<Rightarrow> string \<Rightarrow> string list \<Rightarrow> ('d \<Rightarrow> string) \<Rightarrow> 'd Histogram \<Rightarrow> string" where
  "render_histogram name operation bound_texts sum_text h =
     render_buckets name [(''operation'', operation)] bound_texts h @
     name @ ''_sum'' @ labels [(''operation'', operation)] @ '' '' @ sum_text (hist_sum h) @ [CHR 0x0A] @
     name @ ''_count'' @ labels [(''operation'', operation)] @ '' '' @ decimal (unat (hist_count h)) @ [CHR 0x0A]"

definition render_unlabeled_histogram :: "string \<Rightarrow> string list \<Rightarrow> ('d \<Rightarrow> string) \<Rightarrow> 'd Histogram \<Rightarrow> string" where
  "render_unlabeled_histogram name bound_texts sum_text h =
     render_buckets name [] bound_texts h @
     name @ ''_sum '' @ sum_text (hist_sum h) @ [CHR 0x0A] @
     name @ ''_count '' @ decimal (unat (hist_count h)) @ [CHR 0x0A]"

section \<open>The state of the broker\<close>

record PartitionMetrics =
  topic :: string
  partition :: u16
  append_queue_depth :: u64
  append_queue_capacity :: u64
  segments :: u64
  log_bytes :: u64
  earliest :: u64
  next_off :: u64

record ConsumerGroupMetrics =
  group :: string
  topic :: string
  group_members :: u64
  generation :: u64

record ConsumerLagMetrics =
  group :: string
  topic :: string
  partition :: u16
  lag :: u64
  offset_out_of_range :: bool

record RuntimeMetricsSnapshot =
  topic_count :: u64
  partition_count :: u64
  partitions :: "PartitionMetrics list"
  consumer_groups :: "ConsumerGroupMetrics list"
  lags :: "ConsumerLagMetrics list"
  long_poll_waiters :: u64
  storage_capacity_bytes :: u64
  storage_available_bytes :: u64

definition partition_metrics :: "(string \<Rightarrow> u16 \<Rightarrow> u64) \<Rightarrow> u64 \<Rightarrow> string \<Rightarrow> PartitionLog \<Rightarrow> PartitionMetrics" where
  "partition_metrics queue_depth capacity name log =
     (let part = partition_id (options' log); summaries = segment_summaries log in
      PartitionMetrics.make name part (queue_depth name part) capacity (of_nat (length summaries))
        (sum_list (map (\<lambda>s. of_nat (SegmentSummary.log_bytes s)) summaries)) (earliest_offset log) (next_offset' log))"

definition live_topics :: "BrokerRuntime \<Rightarrow> TopicState list" where
  "live_topics b = filter (\<lambda>t. \<not> deleting t) (map snd (topics_map b))"

definition broker_partitions :: "(string \<Rightarrow> u16 \<Rightarrow> u64) \<Rightarrow> u64 \<Rightarrow> BrokerRuntime \<Rightarrow> PartitionMetrics list" where
  "broker_partitions queue_depth capacity b =
     concat (map (\<lambda>t. map (partition_metrics queue_depth capacity (topic_name t)) (topic_logs t)) (live_topics b))"

text \<open>\<open>std::map::operator[]\<close> keeps the last value of a key.\<close>

definition watermarks :: "PartitionMetrics list \<Rightarrow> ((string \<times> u16) \<times> u64 \<times> u64) list" where
  "watermarks ps = rev (map (\<lambda>p. ((PartitionMetrics.topic p, PartitionMetrics.partition p), earliest p, next_off p)) ps)"

definition lag_of :: "PartitionMetrics list \<Rightarrow> OffsetSnapshot \<Rightarrow> ConsumerLagMetrics option" where
  "lag_of ps snap =
     (case map_of (watermarks ps) (OffsetSnapshot.topic snap, OffsetSnapshot.partition snap) of
        None \<Rightarrow> None
      | Some (low, high) \<Rightarrow>
         (let off = OffsetSnapshot.next_offset snap;
              out_of_range = (off < low \<or> off > high);
              baseline = (if out_of_range then low else off) in
          Some (ConsumerLagMetrics.make (OffsetSnapshot.group snap) (OffsetSnapshot.topic snap) (OffsetSnapshot.partition snap)
            (if baseline \<le> high then high - baseline else 0) out_of_range)))"

definition runtime_metrics ::
  "(string \<Rightarrow> u16 \<Rightarrow> u64) \<Rightarrow> u64 \<Rightarrow> int \<Rightarrow> u64 \<Rightarrow> (u64 \<times> u64) option \<Rightarrow> BrokerRuntime \<Rightarrow> RuntimeMetricsSnapshot" where
  "runtime_metrics queue_depth capacity now waiters space b =
     (let ps = broker_partitions queue_depth capacity b in
      RuntimeMetricsSnapshot.make (of_nat (length (live_topics b))) (of_nat (length ps)) ps
        (map (\<lambda>g. ConsumerGroupMetrics.make (GroupSnapshot.group g) (GroupSnapshot.topic g)
            (of_nat (active_members g)) (GroupSnapshot.generation_id g)) (snapshots now (group_coordinator b)))
        (List.map_filter (lag_of ps) (all_offsets (offset_store b))) waiters
        (case space of None \<Rightarrow> 0 | Some (capacity, available) \<Rightarrow> capacity)
        (case space of None \<Rightarrow> 0 | Some (capacity, available) \<Rightarrow> available))"

end
