(* ===== verification/Bolt_Metrics_Properties.thy ===== *)
theory Bolt_Metrics_Properties
  imports Bolt_Metrics Bolt_Broker_Invariant
begin

text \<open>
  What the metrics say about the broker: the cumulative counts of a histogram are the numbers of observations
  at or below its bounds, and the lag of a consumer group is the number of records it has not read.
\<close>

section \<open>Histograms\<close>

lemma cumulative_shift: "cumulative (acc + n) cs = map (\<lambda>c. c + n) (cumulative acc cs)"
proof (induction cs arbitrary: acc)
  case (Cons c cs)
  show ?case using Cons.IH [of "acc + c"] by (simp add: ac_simps)
qed simp

lemma length_cumulative [simp]: "length (cumulative acc cs) = length cs"
  by (induction cs arbitrary: acc) simp_all

lemma length_bump_bucket [simp]: "length (bump_bucket bounds v cs) = length cs"
  by (induction bounds v cs rule: bump_bucket.induct) simp_all

text \<open>An observation raises the running sums of the bounds that are not below it.\<close>

lemma cumulative_bump:
  assumes "sorted bounds" "length cs = length bounds"
  shows "cumulative acc (bump_bucket bounds v cs) =
    map2 (\<lambda>bound c. if v \<le> bound then c + 1 else c) bounds (cumulative acc cs)"
  using assms
proof (induction bounds v cs arbitrary: acc rule: bump_bucket.induct)
  case (1 bound bounds v c cs)
  show ?case
  proof (cases "v \<le> bound")
    case True
    have "(if v \<le> b then c' + 1 else c') = c' + 1" if "(b, c') \<in> set (zip bounds xs)" for b c' and xs :: "u64 list"
      using that True "1.prems"(1) by (auto dest!: set_zip_leftD)
    then have "map2 (\<lambda>bound c. if v \<le> bound then c + 1 else c) bounds (cumulative (acc + c) cs) =
        map (\<lambda>p. snd p + 1) (zip bounds (cumulative (acc + c) cs))"
      by (intro map_cong) auto
    also have "\<dots> = map (\<lambda>c. c + 1) (map snd (zip bounds (cumulative (acc + c) cs)))" by simp
    also have "\<dots> = map (\<lambda>c. c + 1) (cumulative (acc + c) cs)" using "1.prems"(2) by simp
    finally show ?thesis using True cumulative_shift [of "acc + c" 1 cs] by (simp add: add.assoc)
  next
    case False
    then show ?thesis using "1.IH" [of "acc + c"] "1.prems" by simp
  qed
qed simp_all

definition observed :: "'d::linorder list \<Rightarrow> ('d \<Rightarrow> 'd \<Rightarrow> 'd) \<Rightarrow> 'd \<Rightarrow> 'd list \<Rightarrow> 'd Histogram" where
  "observed bounds fadd zero vs = fold (observe bounds fadd) vs (empty_histogram bounds zero)"

lemma observed_counts:
  assumes "sorted bounds"
  shows "length (buckets (observed bounds fadd zero vs)) = length bounds \<and>
    hist_count (observed bounds fadd zero vs) = of_nat (length vs) \<and>
    cumulative 0 (buckets (observed bounds fadd zero vs)) =
      map (\<lambda>bound. of_nat (length (filter (\<lambda>v. v \<le> bound) vs))) bounds"
proof (induction vs rule: rev_induct)
  case Nil
  have "cumulative 0 (replicate n 0) = replicate n 0" for n by (induction n) simp_all
  then show ?case by (simp add: observed_def empty_histogram_def Histogram.make_def map_replicate_const)
next
  case (snoc v vs)
  let ?h = "observed bounds fadd zero vs"
  have step: "observed bounds fadd zero (vs @ [v]) = observe bounds fadd v ?h" by (simp add: observed_def)
  have "cumulative 0 (bump_bucket bounds v (buckets ?h)) =
      map2 (\<lambda>bound c. if v \<le> bound then c + 1 else c) bounds (map (\<lambda>bound. of_nat (length (filter (\<lambda>v. v \<le> bound) vs))) bounds)"
    using cumulative_bump [OF assms, of "buckets ?h"] snoc.IH by simp
  also have "\<dots> = map (\<lambda>bound. of_nat (length (filter (\<lambda>v. v \<le> bound) (vs @ [v])))) bounds"
    by (simp add: zip_map2 zip_same_conv_map comp_def)
  finally show ?case using snoc.IH by (simp add: step observe_def)
qed

section \<open>Lags\<close>

lemma broker_partition_found:
  assumes inv: "broker_inv z b" and p: "partition_of name part b = Inr log"
  shows "map_of (watermarks (broker_partitions queue_depth capacity b)) (name, part) =
    Some (earliest_offset log, next_offset' log) \<and> log_inv z log"
proof -
  obtain t where t: "map_of (topics_map b) name = Some t" "\<not> deleting t" "part < topic_partition_count t"
    "unat part < length (topic_logs t)" "log = topic_logs t ! unat part"
    using p by (auto simp: partition_of_def checked_Inr live_topic_Inr partition_or_throw_Inr log_at_Inr)
  have tinv: "topic_inv z (config b) name t" by (rule broker_inv_find [OF inv t(1)])
  let ?ps = "broker_partitions queue_depth capacity b"
  have here: "partition_metrics queue_depth capacity name log \<in> set ?ps"
  proof -
    have "t \<in> set (live_topics b)" using map_of_SomeD [OF t(1)] t(2) by (force simp: live_topics_def)
    moreover have "log \<in> set (topic_logs t)" "topic_name t = name" using t(4,5) tinv by (simp_all add: topic_inv_def)
    ultimately show ?thesis by (auto simp: broker_partitions_def)
  qed
  have id: "partition_id (options' (topic_logs t' ! i)) = of_nat i" if "topic_inv z (config b) n t'" "i < length (topic_logs t')" for t' n i
    using that by (simp add: topic_inv_def open_options_def PartitionLogOptions.make_def)
  have uniq: "(earliest m, next_off m) = (earliest_offset log, next_offset' log)"
    if m: "m \<in> set ?ps" "PartitionMetrics.topic m = name" "PartitionMetrics.partition m = part" for m
  proof -
    obtain t' l where tl: "t' \<in> set (live_topics b)" "l \<in> set (topic_logs t')"
      "m = partition_metrics queue_depth capacity (topic_name t') l"
      using m(1) by (auto simp: broker_partitions_def)
    then obtain i where t': "t' \<in> set (live_topics b)" "i < length (topic_logs t')"
      "m = partition_metrics queue_depth capacity (topic_name t') (topic_logs t' ! i)"
      by (auto simp: in_set_conv_nth)
    obtain n where n: "(n, t') \<in> set (topics_map b)" using t'(1) by (auto simp: live_topics_def)
    have inv': "topic_inv z (config b) n t'" using inv n by (auto simp: broker_inv_def)
    have "n = name" using m(2) t'(3) inv' by (simp add: partition_metrics_def Let_def PartitionMetrics.make_def topic_inv_def)
    then have "map_of (topics_map b) name = Some t'" using n inv
      by (auto simp: broker_inv_def intro!: map_of_is_SomeI sorted_map_distinct)
    then have "t' = t" using t(1) by simp
    moreover have "part = of_nat i"
      using m(3) t'(3) id [OF inv' t'(2)] by (simp add: partition_metrics_def Let_def PartitionMetrics.make_def)
    moreover have "i < 2 ^ 16" using t'(2) inv' unat_u16_bound [of "topic_partition_count t'"] by (simp add: topic_inv_def)
    ultimately have "topic_logs t' ! i = log" using t(5) by (simp add: unsigned_of_nat take_bit_eq_mod)
    then show ?thesis using t'(3) by (simp add: partition_metrics_def Let_def PartitionMetrics.make_def)
  qed
  have "partition_id (options' log) = part" using id [OF tinv t(4)] t(5) by simp
  then have "(name, part) \<in> fst ` set (watermarks ?ps)"
    using here by (force simp: watermarks_def partition_metrics_def Let_def PartitionMetrics.make_def)
  then obtain w where w: "map_of (watermarks ?ps) (name, part) = Some w"
    by (metis map_of_eq_None_iff option.exhaust)
  then obtain m where "m \<in> set ?ps" "PartitionMetrics.topic m = name" "PartitionMetrics.partition m = part"
    "w = (earliest m, next_off m)" by (auto simp: watermarks_def dest!: map_of_SomeD)
  then show ?thesis using uniq w topic_inv_log [OF tinv t(4)] t(5) by simp
qed

lemma records_from_count:
  assumes "log_inv z log" "earliest_offset log \<le> off" "off \<le> next_offset' log"
  shows "next_offset' log - off = of_nat (length (records_from z off log))"
proof -
  have "length (records_from z off log) = unat (next_offset' log) - unat off"
    using arg_cong [OF records_from_offsets [OF assms], of length] by simp
  then show ?thesis using assms(3) by (simp add: of_nat_diff word_le_nat_alt)
qed

lemma readable_count:
  assumes "log_inv z log"
  shows "next_offset' log - earliest_offset log = of_nat (length (readable z log))"
proof -
  have "earliest_offset log \<le> RecordMetadata.offset (Record.metadata r)" if "r \<in> set (readable z log)" for r
  proof -
    have "unat (RecordMetadata.offset (Record.metadata r)) \<in>
        set (map (\<lambda>r. unat (RecordMetadata.offset (Record.metadata r))) (readable z log))" using that by simp
    then show ?thesis
      unfolding readable_offsets [OF assms] by (simp add: word_le_nat_alt earliest_offset_readable [OF assms])
  qed
  then have "records_from z (earliest_offset log) log = readable z log" by simp
  then show ?thesis using records_from_count [OF assms order_refl earliest_le_next [OF assms]] by simp
qed

section \<open>Properties\<close>

text \<open>
  The histograms of the metrics are exact. After any sequence of observations shorter than the range of the
  counters, the running sum that the text shows for a bound is the number of observations at or below that
  bound, and the value of the last bucket and of the count is the number of observations.
\<close>

theorem histogram_exact:
  assumes "sorted bounds" "length vs < 2 ^ 64" "i < length bounds"
  shows "unat (cumulative 0 (buckets (observed bounds fadd zero vs)) ! i) = length (filter (\<lambda>v. v \<le> bounds ! i) vs) \<and>
    unat (hist_count (observed bounds fadd zero vs)) = length vs"
proof -
  have "length (filter (\<lambda>v. v \<le> bounds ! i) vs) < 2 ^ 64"
    using assms(2) length_filter_le [of "\<lambda>v. v \<le> bounds ! i" vs] by (rule le_less_trans [rotated])
  then show ?thesis
    using observed_counts [OF assms(1), of fadd zero vs] assms(2,3) by (simp add: unsigned_of_nat take_bit_eq_mod)
qed

theorem histogram_exact_witness:
  "unat (cumulative 0 (buckets (observed kAppendBatchRecordBuckets (+) 0 [3, 1, 5, 2000])) ! 2) = 2 \<and>
   unat (hist_count (observed kAppendBatchRecordBuckets (+) 0 [3, 1, 5, 2000])) = 4"
proof -
  have "sorted kAppendBatchRecordBuckets" "2 < length kAppendBatchRecordBuckets"
    by (simp_all add: kAppendBatchRecordBuckets_def)
  from histogram_exact [OF this(1) _ this(2), of "[3, 1, 5, 2000]" "(+)" 0]
  show ?thesis by (simp add: kAppendBatchRecordBuckets_def)
qed

text \<open>
  C36: the reported lag of a consumer group is exact. In every reachable state of the broker and for every
  committed offset of an existing partition, the metrics have one entry: an offset inside the log has as lag
  the number of readable records from it on, and an offset outside is flagged and has all readable records.
\<close>

theorem consumer_lag_exact:
  assumes "broker_reach z b" "snap \<in> set (all_offsets (offset_store b))"
    and "partition_of (OffsetSnapshot.topic snap) (OffsetSnapshot.partition snap) b = Inr log"
    and "out \<longleftrightarrow> OffsetSnapshot.next_offset snap < earliest_offset log \<or> next_offset' log < OffsetSnapshot.next_offset snap"
  shows "ConsumerLagMetrics.make (OffsetSnapshot.group snap) (OffsetSnapshot.topic snap) (OffsetSnapshot.partition snap)
      (of_nat (length (if out then readable z log else records_from z (OffsetSnapshot.next_offset snap) log))) out
    \<in> set (lags (runtime_metrics queue_depth capacity now waiters space b))"
proof -
  let ?ps = "broker_partitions queue_depth capacity b" and ?off = "OffsetSnapshot.next_offset snap"
  have found: "map_of (watermarks ?ps) (OffsetSnapshot.topic snap, OffsetSnapshot.partition snap) =
      Some (earliest_offset log, next_offset' log)" "log_inv z log"
    using broker_partition_found [OF broker_reach_inv [OF assms(1)] assms(3)] by simp_all
  have "lag_of ?ps snap = Some (ConsumerLagMetrics.make (OffsetSnapshot.group snap) (OffsetSnapshot.topic snap)
      (OffsetSnapshot.partition snap) (of_nat (length (if out then readable z log else records_from z ?off log))) out)"
  proof (cases out)
    case True
    then show ?thesis
      using assms(4) found(1) readable_count [OF found(2)] earliest_le_next [OF found(2)] by (simp add: lag_of_def Let_def)
  next
    case False
    then have "earliest_offset log \<le> ?off" "?off \<le> next_offset' log" using assms(4) by auto
    then show ?thesis
      using False found(1) records_from_count [OF found(2)] by (simp add: lag_of_def Let_def not_less [symmetric])
  qed
  then show ?thesis
    using assms(2)
    by (force simp: runtime_metrics_def Let_def RuntimeMetricsSnapshot.make_def List.map_filter_def)
qed

theorem consumer_lag_exact_witness:
  "let store = snd (commit None ''g'' ''t'' 0 7 sample_store);
       b = snd (create_topic zstd_stored None (\<lambda>_. []) (CreateTopicRequest.make ''t'' 1)
         (BrokerRuntime.make sample_config [] store empty_coordinator))
   in ConsumerLagMetrics.make ''g'' ''t'' 0 0 True \<in> set (lags (runtime_metrics (\<lambda>_ _. 0) 32 0 0 None b))"
proof -
  define store where "store = snd (commit None ''g'' ''t'' 0 7 sample_store)"
  let ?b0 = "BrokerRuntime.make sample_config [] store empty_coordinator"
  let ?r = "create_topic zstd_stored None (\<lambda>_. []) (CreateTopicRequest.make ''t'' 1) ?b0"
  define b where "b = snd ?r"
  have reach: "broker_reach zstd_stored b"
    using broker_next [OF broker_start step_create, of zstd_stored None "CreateTopicRequest.make ''t'' 1" sample_config
        store "fst ?r" b] by (simp add: b_def)
  have valid: "is_valid_topic_name ''t''" "is_valid_group_name ''g''"
    by (simp_all add: is_valid_topic_name_def is_valid_group_name_def less_eq_char_def)
  then obtain log where log: "open_log zstd_stored (open_options sample_config ''t'' 0) [] = Inr log"
    "topics_map b = [(''t'', TopicState.make ''t'' 1 0 False [log])]" "offset_store b = store"
    by (simp add: b_def create_topic_def Let_def CreateTopicRequest.make_def sample_config_def BrokerConfig.make_def
        BrokerRuntime.make_def open_topic_state_def open_log_def open_options_def PartitionLogOptions.make_def
        TopicState.make_def)
  have fresh: "next_offset' log = 0" "readable zstd_stored log = []" "log_inv zstd_stored log"
    using open_empty_log [OF log(1)] by simp_all
  let ?snap = "OffsetSnapshot.make ''g'' ''t'' 0 7"
  have "?snap \<in> set (all_offsets (offset_store b))"
    using valid by (simp add: log(3) store_def all_offsets_def sample_store_def open_offsets_def commit_def Let_def
        set_offset_def OffsetStore.make_def)
  moreover have "partition_of (OffsetSnapshot.topic ?snap) (OffsetSnapshot.partition ?snap) b = Inr log"
    by (simp add: partition_of_def live_topic_def find_topic_or_throw_def partition_or_throw_def log_at_def log(2)
        TopicState.make_def OffsetSnapshot.make_def)
  moreover have "True \<longleftrightarrow> OffsetSnapshot.next_offset ?snap < earliest_offset log \<or>
      next_offset' log < OffsetSnapshot.next_offset ?snap"
    by (simp add: fresh OffsetSnapshot.make_def)
  ultimately show ?thesis
    using consumer_lag_exact [OF reach, of ?snap log True "\<lambda>_ _. 0" 32 0 0 None]
    unfolding Let_def store_def [symmetric] b_def [symmetric] by (simp add: fresh OffsetSnapshot.make_def)
qed

end
