(* ===== verification/Bolt_Client.thy ===== *)
theory Bolt_Client
  imports Bolt_Admin_Messages
begin

text \<open>
  The asynchronous client (\<open>src/src/client/async_client.cpp\<close>,
  \<open>src/include/boltstream/client/async_client.h\<close>): many requests in flight on one connection, matched to
  their handlers by correlation id. Every callback of the client runs on one strand, so the client is a state
  that one event at a time changes: a posted request, the completion of the connect, of a write or of a read,
  and \<open>close\<close>. Shown here: every handler is called at most once and never forgotten, a response reaches the
  handler of the request that carries its correlation id, and the frames leave in the order of the requests;
  and what the client does not do, answer a request made after the connection was lost.
\<close>

section \<open>State\<close>

datatype AsioError = NotConnected | MessageSize | InvalidArgument | TransportError string

datatype Outcome = Failed AsioError | Answered Frame

text \<open>What \<open>socket_\<close> is being read for.\<close>

datatype Reader = NotReading | HeaderWanted | PayloadWanted FrameHeader

text \<open>
  Handlers are named by the position of their request in \<open>issued\<close>. \<open>writing\<close> tells that an \<open>async_write\<close> is
  outstanding. The last four fields are history: the requests in the order of their posts, those that got a
  correlation id, the frames that were written, and the calls of handlers.
\<close>

record AsyncClient =
  socket_open :: bool
  client_max_frame_bytes :: u32
  client_protocol_version :: u16
  next_correlation_id :: u64
  write_queue :: "bytes list"
  pending :: "(u64 \<times> nat) list"
  reader :: Reader
  writing :: bool
  issued :: "(FrameType \<times> bytes) list"
  accepted :: "(u64 \<times> nat) list"
  written :: "bytes list"
  calls :: "(nat \<times> Outcome) list"

definition new_client :: "u32 \<Rightarrow> u16 \<Rightarrow> AsyncClient" where
  "new_client mx ver = AsyncClient.make False mx ver 1 [] [] NotReading False [] [] [] []"

section \<open>Operations\<close>

definition call_handler :: "nat \<Rightarrow> Outcome \<Rightarrow> AsyncClient \<Rightarrow> AsyncClient" where
  "call_handler h outcome c = c\<lparr>calls := calls c @ [(h, outcome)]\<rparr>"

text \<open>\<open>unordered_map::emplace\<close> keeps an entry that is already there.\<close>

definition emplace :: "u64 \<Rightarrow> nat \<Rightarrow> (u64 \<times> nat) list \<Rightarrow> (u64 \<times> nat) list" where
  "emplace cid h m = (if map_of m cid = None then m @ [(cid, h)] else m)"

definition start_write :: "AsyncClient \<Rightarrow> AsyncClient" where
  "start_write c = (if write_queue c = [] then c else c\<lparr>writing := True\<rparr>)"

definition async_request :: "FrameType \<Rightarrow> bytes \<Rightarrow> AsyncClient \<Rightarrow> AsyncClient" where
  "async_request ft pl c =
     (let h = length (issued c); c1 = c\<lparr>issued := issued c @ [(ft, pl)]\<rparr> in
      if \<not> socket_open c then call_handler h (Failed NotConnected) c1
      else if client_max_frame_bytes c < kFrameHeaderBytes \<or>
              length pl > unat (client_max_frame_bytes c - kFrameHeaderBytes)
      then call_handler h (Failed MessageSize) c1
      else let cid = next_correlation_id c;
               c2 = c1\<lparr>next_correlation_id := cid + 1, pending := emplace cid h (pending c),
                 accepted := accepted c @ [(cid, h)],
                 write_queue := write_queue c @ [encode_frame (client_protocol_version c) ft cid pl 0]\<rparr> in
        if length (write_queue c2) = 1 then start_write c2 else c2)"

text \<open>\<open>fail_pending\<close> calls the handlers in the order of the hash map, which is not specified.\<close>

definition fail_pending :: "AsioError \<Rightarrow> AsyncClient \<Rightarrow> AsyncClient" where
  "fail_pending err c =
     c\<lparr>pending := [], calls := calls c @ map (\<lambda>(_, h). (h, Failed err)) (pending c)\<rparr>"

definition close_client :: "AsyncClient \<Rightarrow> AsyncClient" where
  "close_client c = c\<lparr>socket_open := False\<rparr>"

definition write_finished :: "AsyncClient \<Rightarrow> AsyncClient" where
  "write_finished c =
     start_write (c\<lparr>writing := False, written := written c @ [hd (write_queue c)],
       write_queue := tl (write_queue c)\<rparr>)"

definition write_failed_with :: "AsioError \<Rightarrow> AsyncClient \<Rightarrow> AsyncClient" where
  "write_failed_with err c = close_client (fail_pending err (c\<lparr>writing := False\<rparr>))"

definition start_read_header :: "AsyncClient \<Rightarrow> AsyncClient" where
  "start_read_header c = c\<lparr>reader := HeaderWanted\<rparr>"

definition header_arrived :: "bytes \<Rightarrow> AsyncClient \<Rightarrow> AsyncClient" where
  "header_arrived bs c =
     (let decoded = decode_header bs (client_max_frame_bytes c) in
      if ok decoded then c\<lparr>reader := PayloadWanted (decoded_header decoded)\<rparr>
      else close_client (fail_pending InvalidArgument (c\<lparr>reader := NotReading\<rparr>)))"

definition dispatch_response :: "Frame \<Rightarrow> AsyncClient \<Rightarrow> AsyncClient" where
  "dispatch_response f c =
     (let cid = correlation_id (header f) in
      case map_of (pending c) cid of
        None \<Rightarrow> c
      | Some h \<Rightarrow> call_handler h (Answered f) (c\<lparr>pending := filter (\<lambda>(k, _). k \<noteq> cid) (pending c)\<rparr>))"

definition read_failed_with :: "AsioError \<Rightarrow> AsyncClient \<Rightarrow> AsyncClient" where
  "read_failed_with err c = fail_pending err (c\<lparr>reader := NotReading\<rparr>)"

section \<open>Requests\<close>

definition async_health :: "AsyncClient \<Rightarrow> AsyncClient" where
  "async_health = async_request HealthRequest []"

definition async_metadata :: "u32 \<Rightarrow> AsyncClient \<Rightarrow> AsyncClient" where
  "async_metadata codecs c =
     async_request MetadataRequest (if client_protocol_version c \<ge> 5 then encode_metadata_request codecs else []) c"

definition async_auth :: "string \<Rightarrow> AsyncClient \<Rightarrow> AsyncClient" where
  "async_auth tok = async_request AuthRequest (encode_auth_request tok)"

definition async_produce_request :: "string \<Rightarrow> bytes \<Rightarrow> bytes \<Rightarrow> AsyncClient \<Rightarrow> AsyncClient" where
  "async_produce_request tpc k msg = async_request ProduceRequest (encode_produce_request tpc k msg)"

definition async_produce_batch :: "ProduceBatchRequest \<Rightarrow> AsyncClient \<Rightarrow> AsyncClient" where
  "async_produce_batch request = async_request FrameType.ProduceBatchRequest (encode_produce_batch_request request)"

definition async_create_topic :: "string \<Rightarrow> u16 \<Rightarrow> AsyncClient \<Rightarrow> AsyncClient" where
  "async_create_topic tpc n = async_request CreateTopicRequest (encode_create_topic_request tpc n)"

definition async_fetch :: "string \<Rightarrow> u16 \<Rightarrow> string \<Rightarrow> string \<Rightarrow> u32 \<Rightarrow> AsyncClient \<Rightarrow> AsyncClient" where
  "async_fetch tpc part selector grp wait_ms =
     async_request FetchRequest (encode_fetch_request tpc part selector grp wait_ms)"

definition async_offset_commit :: "OffsetCommitRequest \<Rightarrow> AsyncClient \<Rightarrow> AsyncClient" where
  "async_offset_commit request = async_request OffsetCommitRequest (encode_offset_commit_request request)"

definition async_join_group :: "JoinGroupRequest \<Rightarrow> AsyncClient \<Rightarrow> AsyncClient" where
  "async_join_group request = async_request JoinGroupRequest (encode_join_group_request request)"

definition async_sync_group :: "SyncGroupRequest \<Rightarrow> AsyncClient \<Rightarrow> AsyncClient" where
  "async_sync_group request = async_request SyncGroupRequest (encode_sync_group_request request)"

definition async_heartbeat :: "HeartbeatRequest \<Rightarrow> AsyncClient \<Rightarrow> AsyncClient" where
  "async_heartbeat request = async_request HeartbeatRequest (encode_heartbeat_request request)"

definition async_leave_group :: "LeaveGroupRequest \<Rightarrow> AsyncClient \<Rightarrow> AsyncClient" where
  "async_leave_group request = async_request LeaveGroupRequest (encode_leave_group_request request)"

definition async_group_offset_commit :: "GroupOffsetCommitRequest \<Rightarrow> AsyncClient \<Rightarrow> AsyncClient" where
  "async_group_offset_commit request = async_request GroupOffsetCommitRequest (encode_group_offset_commit_request request)"

definition async_list_topics :: "AsyncClient \<Rightarrow> AsyncClient" where
  "async_list_topics = async_request ListTopicsRequest []"

definition async_describe_topic :: "DescribeTopicRequest \<Rightarrow> AsyncClient \<Rightarrow> AsyncClient" where
  "async_describe_topic request = async_request DescribeTopicRequest (encode_describe_topic_request request)"

definition async_delete_topic :: "DeleteTopicRequest \<Rightarrow> AsyncClient \<Rightarrow> AsyncClient" where
  "async_delete_topic request = async_request DeleteTopicRequest (encode_delete_topic_request request)"

definition async_run_retention :: "RunRetentionRequest \<Rightarrow> AsyncClient \<Rightarrow> AsyncClient" where
  "async_run_retention request = async_request RunRetentionRequest (encode_run_retention_request request)"

definition async_describe_group :: "DescribeGroupRequest \<Rightarrow> AsyncClient \<Rightarrow> AsyncClient" where
  "async_describe_group request = async_request DescribeGroupRequest (encode_describe_group_request request)"

definition async_reset_group_offset :: "ResetGroupOffsetRequest \<Rightarrow> AsyncClient \<Rightarrow> AsyncClient" where
  "async_reset_group_offset request = async_request ResetGroupOffsetRequest (encode_reset_group_offset_request request)"

section \<open>Events\<close>

text \<open>
  A connect that completes with an error leaves the socket open or closed, as the library decides. A client
  connects only while no read or write of an earlier connection is outstanding.
\<close>

datatype ClientEvent =
    RequestPosted FrameType bytes
  | Connected
  | ConnectFailed bool
  | WriteDone
  | WriteFailed AsioError
  | HeaderRead bytes
  | PayloadRead bytes
  | ReadFailed AsioError
  | CloseCalled

abbreviation idle :: "AsyncClient \<Rightarrow> bool" where
  "idle c \<equiv> reader c = NotReading \<and> \<not> writing c"

text \<open>The client after an event, or \<open>None\<close> for an event that cannot happen in the state.\<close>

fun client_handle :: "ClientEvent \<Rightarrow> AsyncClient \<Rightarrow> AsyncClient option" where
  "client_handle (RequestPosted ft pl) c = Some (async_request ft pl c)"
| "client_handle Connected c = (if idle c then Some (start_read_header (c\<lparr>socket_open := True\<rparr>)) else None)"
| "client_handle (ConnectFailed left_open) c = (if idle c then Some (c\<lparr>socket_open := left_open\<rparr>) else None)"
| "client_handle WriteDone c = (if writing c then Some (write_finished c) else None)"
| "client_handle (WriteFailed err) c = (if writing c then Some (write_failed_with err c) else None)"
| "client_handle (HeaderRead bs) c =
     (if reader c = HeaderWanted \<and> length bs = unat kFrameHeaderBytes then Some (header_arrived bs c) else None)"
| "client_handle (PayloadRead pl) c =
     (case reader c of
        PayloadWanted h \<Rightarrow>
          if length pl = unat (payload_bytes h)
          then Some (start_read_header (dispatch_response (Frame.make h pl) c)) else None
      | _ \<Rightarrow> None)"
| "client_handle (ReadFailed err) c = (if reader c = NotReading then None else Some (read_failed_with err c))"
| "client_handle CloseCalled c = Some (close_client c)"

fun client_run :: "ClientEvent list \<Rightarrow> AsyncClient \<Rightarrow> AsyncClient option" where
  "client_run [] c = Some c"
| "client_run (e # es) c = (case client_handle e c of None \<Rightarrow> None | Some c1 \<Rightarrow> client_run es c1)"

section \<open>Invariant\<close>

text \<open>The frame of an accepted request.\<close>

abbreviation frame_of_request :: "AsyncClient \<Rightarrow> u64 \<times> nat \<Rightarrow> bytes" where
  "frame_of_request c a \<equiv>
     encode_frame (client_protocol_version c) (fst (issued c ! snd a)) (fst a) (snd (issued c ! snd a)) 0"

abbreviation handlers :: "AsyncClient \<Rightarrow> nat list" where
  "handlers c \<equiv> map fst (calls c) @ map snd (pending c)"

definition handlers_inv :: "AsyncClient \<Rightarrow> bool" where
  "handlers_inv c \<longleftrightarrow>
     distinct (handlers c) \<and> set (handlers c) = {..<length (issued c)} \<and>
     distinct (map fst (pending c)) \<and> set (pending c) \<subseteq> set (accepted c) \<and>
     (\<forall>h f. (h, Answered f) \<in> set (calls c) \<longrightarrow> (correlation_id (header f), h) \<in> set (accepted c))"

definition ids_inv :: "AsyncClient \<Rightarrow> bool" where
  "ids_inv c \<longleftrightarrow>
     map fst (accepted c) = map of_nat [1..<Suc (length (accepted c))] \<and>
     next_correlation_id c = of_nat (Suc (length (accepted c))) \<and>
     sorted_wrt (<) (map snd (accepted c)) \<and> snd ` set (accepted c) \<subseteq> {..<length (issued c)} \<and>
     length (accepted c) \<le> length (issued c)"

definition queue_inv :: "AsyncClient \<Rightarrow> bool" where
  "queue_inv c \<longleftrightarrow>
     written c @ write_queue c = map (frame_of_request c) (accepted c) \<and>
     (\<forall>cid h. (cid, h) \<in> set (accepted c) \<longrightarrow> 32 + length (snd (issued c ! h)) \<le> unat (client_max_frame_bytes c)) \<and>
     (writing c \<longrightarrow> write_queue c \<noteq> [])"

lemmas client_inv_defs = handlers_inv_def ids_inv_def queue_inv_def

lemma new_client_inv: "handlers_inv (new_client mx ver)" "ids_inv (new_client mx ver)" "queue_inv (new_client mx ver)"
  by (simp_all add: client_inv_defs new_client_def AsyncClient.make_def)

text \<open>Operations that only move handlers from \<open>pending\<close> to \<open>calls\<close>.\<close>

lemma fail_pending_inv:
  assumes "handlers_inv c"
  shows "handlers_inv (fail_pending err c)"
proof -
  have "map fst (map (\<lambda>(_, h). (h, Failed err)) (pending c)) = map snd (pending c)"
    by (simp add: case_prod_unfold comp_def)
  with assms show ?thesis
    by (auto simp: handlers_inv_def fail_pending_def case_prod_unfold comp_def)
qed

lemma dispatch_response_inv:
  assumes "handlers_inv c"
  shows "handlers_inv (dispatch_response f c)"
proof (cases "map_of (pending c) (correlation_id (header f))")
  case None
  then show ?thesis using assms by (simp add: dispatch_response_def)
next
  case (Some h)
  let ?cid = "correlation_id (header f)"
  have d: "distinct (map fst (pending c))" "distinct (map snd (pending c))"
    using assms by (simp_all add: handlers_inv_def)
  have in_p: "(?cid, h) \<in> set (pending c)" using Some by (rule map_of_SomeD)
  have rest: "set (map snd (filter (\<lambda>(k, _). k \<noteq> ?cid) (pending c))) = set (map snd (pending c)) - {h}"
  proof -
    have "x = y" if "x \<in> set (pending c)" "y \<in> set (pending c)" "fst x = fst y \<or> snd x = snd y" for x y
      using that d by (auto simp: distinct_map dest: inj_onD)
    then have same: "k = ?cid \<longleftrightarrow> v = h" if "(k, v) \<in> set (pending c)" for k v
      using that in_p by fastforce
    then show ?thesis by (force simp: image_iff)
  qed
  have dist: "distinct (map snd (filter (\<lambda>(k, _). k \<noteq> ?cid) (pending c)))"
      "distinct (map fst (filter (\<lambda>(k, _). k \<noteq> ?cid) (pending c)))"
    using d by (simp_all add: distinct_map_filter)
  have "h \<in> set (map snd (pending c))" using in_p by force
  then show ?thesis
    using assms Some in_p rest dist
    by (auto simp: handlers_inv_def dispatch_response_def call_handler_def)
qed

text \<open>A request either fails at once or is queued under a correlation id that no other request has.\<close>

lemma of_nat_inject_u64: "a < 2 ^ 64 \<Longrightarrow> b < 2 ^ 64 \<Longrightarrow> (of_nat a :: u64) = of_nat b \<Longrightarrow> a = b"
  by (simp add: word_of_nat_eq_iff take_bit_nat_eq_self)

lemma fresh_id:
  assumes "ids_inv c" "length (issued c) < 2 ^ 64 - 1"
  shows "next_correlation_id c \<notin> fst ` set (accepted c)"
proof
  let ?n = "Suc (length (accepted c))"
  have "map fst (accepted c) = map of_nat [1..<?n]" using assms(1) by (simp add: ids_inv_def)
  then have "fst ` set (accepted c) = of_nat ` {1..<?n}" by (metis list.set_map atLeastLessThan_upt)
  moreover assume "next_correlation_id c \<in> fst ` set (accepted c)"
  ultimately obtain i where i: "i < ?n" "(of_nat i :: u64) = of_nat ?n"
    using assms(1) by (auto simp: ids_inv_def simp del: of_nat_Suc)
  have "?n < 2 ^ 64" using assms by (simp add: ids_inv_def)
  with i show False using of_nat_inject_u64 [of i ?n] by simp
qed

lemma async_request_ids:
  assumes "ids_inv c"
  shows "ids_inv (async_request ft pl c)"
proof -
  have "map of_nat [1..<Suc (Suc n)] = map of_nat [1..<Suc n] @ [of_nat (Suc n) :: u64]" for n
    by simp
  with assms show ?thesis
    by (auto simp: ids_inv_def async_request_def Let_def call_handler_def start_write_def sorted_wrt_append less_Suc_eq
        simp del: upt_Suc)
qed

lemma async_request_queue:
  assumes "queue_inv c" "ids_inv c"
  shows "queue_inv (async_request ft pl c)"
proof -
  have old: "issued c ! snd a = (issued c @ [(ft, pl)]) ! snd a" if "a \<in> set (accepted c)" for a
    using that assms(2) by (force simp: ids_inv_def nth_append)
  then have frames: "map (frame_of_request c) (accepted c) =
      map (frame_of_request (c\<lparr>issued := issued c @ [(ft, pl)]\<rparr>)) (accepted c)"
    by simp
  have size: "32 + length pl \<le> unat mx" if "\<not> mx < kFrameHeaderBytes" "length pl \<le> unat (mx - kFrameHeaderBytes)" for mx
    using that by (simp add: kFrameHeaderBytes_def not_less unat_sub word_le_nat_alt)
  show ?thesis
    using assms(1) frames old size
    by (auto simp: queue_inv_def async_request_def Let_def call_handler_def start_write_def not_less)
qed

lemma async_request_handlers:
  assumes "handlers_inv c" "ids_inv c" "length (issued c) < 2 ^ 64 - 1"
  shows "handlers_inv (async_request ft pl c)"
proof -
  have new: "length (issued c) \<notin> set (handlers c)" using assms(1) by (simp add: handlers_inv_def)
  have fresh: "next_correlation_id c \<notin> fst ` set (pending c)"
    using fresh_id [OF assms(2,3)] assms(1) by (auto simp: handlers_inv_def)
  then have "map_of (pending c) (next_correlation_id c) = None" by (simp add: map_of_eq_None_iff)
  then have place: "emplace (next_correlation_id c) (length (issued c)) (pending c) =
      pending c @ [(next_correlation_id c, length (issued c))]"
    by (simp add: emplace_def)
  show ?thesis
    using assms(1) new fresh
    by (auto simp: handlers_inv_def async_request_def Let_def call_handler_def start_write_def place lessThan_Suc)
qed

lemmas client_ops = call_handler_def start_write_def fail_pending_def close_client_def write_finished_def
  write_failed_with_def start_read_header_def header_arrived_def read_failed_with_def

text \<open>Events other than requests leave the requests and the frames alone.\<close>

lemma dispatch_response_fields [simp]:
  "issued (dispatch_response f c) = issued c" "accepted (dispatch_response f c) = accepted c"
  "next_correlation_id (dispatch_response f c) = next_correlation_id c" "written (dispatch_response f c) = written c"
  "write_queue (dispatch_response f c) = write_queue c" "writing (dispatch_response f c) = writing c"
  "client_max_frame_bytes (dispatch_response f c) = client_max_frame_bytes c"
  "client_protocol_version (dispatch_response f c) = client_protocol_version c"
  by (simp_all add: dispatch_response_def call_handler_def Let_def split: option.split)

lemma client_handle_config:
  assumes "client_handle e c = Some c1"
  shows "client_protocol_version c1 = client_protocol_version c" "client_max_frame_bytes c1 = client_max_frame_bytes c"
  using assms by (cases e; auto simp: client_ops async_request_def Let_def split: if_splits Reader.splits)+

lemma client_handle_issued:
  assumes "client_handle e c = Some c1"
  shows "length (issued c) \<le> length (issued c1)"
  using assms by (cases e) (auto simp: client_ops async_request_def Let_def split: if_splits Reader.splits)

lemma client_handle_requests:
  assumes "client_handle e c = Some c1" "\<nexists>ft pl. e = RequestPosted ft pl"
  shows "issued c1 = issued c \<and> accepted c1 = accepted c \<and> next_correlation_id c1 = next_correlation_id c"
  using assms by (cases e) (auto simp: client_ops Let_def split: if_splits Reader.splits)

lemma client_handle_ids:
  assumes "client_handle e c = Some c1" "ids_inv c"
  shows "ids_inv c1"
proof (cases "\<exists>ft pl. e = RequestPosted ft pl")
  case True
  with assms show ?thesis by (auto intro: async_request_ids)
next
  case False
  with client_handle_requests [OF assms(1)] assms(2) show ?thesis by (simp add: ids_inv_def)
qed

lemma client_handle_queue:
  assumes "client_handle e c = Some c1" "ids_inv c" "queue_inv c"
  shows "queue_inv c1"
proof (cases e)
  case RequestPosted
  with assms show ?thesis by (auto intro: async_request_queue)
next
  case WriteDone
  with assms show ?thesis by (cases "write_queue c") (auto simp: client_ops queue_inv_def split: if_splits)
qed (use assms in \<open>auto simp: client_ops queue_inv_def Let_def split: if_splits Reader.splits\<close>)

lemma handlers_inv_cong:
  "handlers_inv c \<Longrightarrow> calls c1 = calls c \<Longrightarrow> pending c1 = pending c \<Longrightarrow> issued c1 = issued c \<Longrightarrow>
   accepted c1 = accepted c \<Longrightarrow> handlers_inv c1"
  by (simp add: handlers_inv_def)

lemma client_handle_handlers:
  assumes "client_handle e c = Some c1" "ids_inv c" "handlers_inv c" "length (issued c1) < 2 ^ 64"
  shows "handlers_inv c1"
proof (cases e)
  case (RequestPosted ft pl)
  then have "length (issued c1) = Suc (length (issued c))"
    using assms(1) by (auto simp: async_request_def client_ops Let_def)
  with RequestPosted assms show ?thesis by (auto intro: async_request_handlers)
next
  case (PayloadRead pl)
  then obtain h where "c1 = start_read_header (dispatch_response (Frame.make h pl) c)"
    using assms(1) by (auto split: if_splits Reader.splits)
  then show ?thesis
    by (simp add: handlers_inv_cong [OF dispatch_response_inv [OF assms(3), of "Frame.make h pl"]] start_read_header_def)
next
  case (HeaderRead bs)
  have "handlers_inv (fail_pending InvalidArgument (c\<lparr>reader := NotReading\<rparr>))"
    by (rule fail_pending_inv) (rule handlers_inv_cong [OF assms(3)], simp_all)
  with HeaderRead assms show ?thesis
    by (auto simp: header_arrived_def close_client_def Let_def split: if_splits intro: handlers_inv_cong)
next
  case (ReadFailed err)
  have "handlers_inv (fail_pending err (c\<lparr>reader := NotReading\<rparr>))"
    by (rule fail_pending_inv) (rule handlers_inv_cong [OF assms(3)], simp_all)
  with ReadFailed assms show ?thesis by (auto simp: read_failed_with_def split: if_splits)
next
  case (WriteFailed err)
  have "handlers_inv (fail_pending err (c\<lparr>writing := False\<rparr>))"
    by (rule fail_pending_inv) (rule handlers_inv_cong [OF assms(3)], simp_all)
  with WriteFailed assms show ?thesis
    by (auto simp: write_failed_with_def close_client_def split: if_splits intro: handlers_inv_cong)
qed (use assms in \<open>auto simp: start_read_header_def close_client_def write_finished_def start_write_def split: if_splits
  intro: handlers_inv_cong\<close>)

lemma client_run_inv:
  assumes "client_run es c = Some c1" "ids_inv c" "queue_inv c"
  shows "ids_inv c1 \<and> queue_inv c1 \<and> length (issued c) \<le> length (issued c1) \<and>
    client_protocol_version c1 = client_protocol_version c \<and> client_max_frame_bytes c1 = client_max_frame_bytes c"
  using assms
proof (induction es arbitrary: c)
  case (Cons e es)
  then obtain c2 where c2: "client_handle e c = Some c2" "client_run es c2 = Some c1"
    by (auto split: option.splits)
  have inv: "ids_inv c2" "queue_inv c2"
    using c2(1) Cons.prems by (auto intro: client_handle_ids client_handle_queue)
  show ?case
    using Cons.IH [OF c2(2) inv] client_handle_issued [OF c2(1)] client_handle_config [OF c2(1)] by simp
qed simp

lemma client_run_handlers:
  assumes "client_run es c = Some c1" "ids_inv c" "queue_inv c" "handlers_inv c" "length (issued c1) < 2 ^ 64"
  shows "handlers_inv c1"
  using assms
proof (induction es arbitrary: c)
  case (Cons e es)
  then obtain c2 where c2: "client_handle e c = Some c2" "client_run es c2 = Some c1"
    by (auto split: option.splits)
  have inv: "ids_inv c2" "queue_inv c2"
    using c2(1) Cons.prems by (auto intro: client_handle_ids client_handle_queue)
  have "length (issued c2) < 2 ^ 64" using client_run_inv [OF c2(2) inv] Cons.prems(5) by simp
  then have "handlers_inv c2" using client_handle_handlers c2(1) Cons.prems(2,4) by blast
  then show ?case using Cons.IH [OF c2(2) inv] Cons.prems(5) by blast
qed simp

section \<open>Properties\<close>

text \<open>What the other side decodes from a frame of the client.\<close>

lemma decode_client_frame:
  assumes "ver \<in> {4, 5}" "32 + length pl \<le> unat mx"
  shows "\<exists>f. decode_frame (encode_frame ver ft cid pl 0) mx = Inr f \<and> payload f = pl \<and>
    frame_type_value (frame_type (header f)) = frame_type_value ft \<and> correlation_id (header f) = cid"
proof -
  let ?bs = "encode_frame ver ft cid pl 0"
  have len: "length pl < 2 ^ 32" using assms(2) unat_u32_less [of mx] by simp
  have "ok (decode_header ?bs mx)" using assms by (rule decode_header_encode_ok)
  moreover have "decoded_header (decode_header ?bs mx) = read_header_fields ?bs"
    by (simp add: decode_header_fields)
  ultimately show ?thesis
    using len by (simp add: decode_frame_def Let_def kFrameHeaderBytes_def)
qed

text \<open>
  C10: the client answers every request once. After any events on a client with fewer than \<open>2^64\<close>
  requests, every handler of a request was called exactly once or waits exactly once; a handler that was
  called with a response belongs to the request that carries the correlation id of the response; and the frames
  on the wire, followed by the queued ones, are those of the accepted requests in the order of the requests,
  with the correlation ids \<open>1, 2, 3, \<dots>\<close>, and a broker with a frame limit that is not below that of the client
  decodes each of them.
\<close>

theorem client_requests_answered_once:
  assumes "client_run es (new_client mx ver) = Some c" "length (issued c) < 2 ^ 64" "ver \<in> {4, 5}" "mx \<le> broker_mx"
  shows "distinct (map fst (calls c) @ map snd (pending c)) \<and>
    set (map fst (calls c) @ map snd (pending c)) = {..<length (issued c)} \<and>
    (\<forall>h f. (h, Answered f) \<in> set (calls c) \<longrightarrow> (correlation_id (header f), h) \<in> set (accepted c)) \<and>
    map fst (accepted c) = map of_nat [1..<Suc (length (accepted c))] \<and> sorted_wrt (<) (map snd (accepted c)) \<and>
    length (written c) + length (write_queue c) = length (accepted c) \<and>
    (\<forall>i < length (accepted c). \<exists>f. decode_frame ((written c @ write_queue c) ! i) broker_mx = Inr f \<and>
       correlation_id (header f) = fst (accepted c ! i) \<and>
       frame_type_value (frame_type (header f)) = frame_type_value (fst (issued c ! snd (accepted c ! i))) \<and>
       payload f = snd (issued c ! snd (accepted c ! i)))"
proof -
  have inv: "ids_inv c" "queue_inv c" and conf: "client_protocol_version c = ver" "client_max_frame_bytes c = mx"
    using client_run_inv [OF assms(1) new_client_inv(2,3)] by (simp_all add: new_client_def AsyncClient.make_def)
  have hs: "handlers_inv c" using client_run_handlers [OF assms(1) new_client_inv(2,3,1) assms(2)] .
  have frames: "written c @ write_queue c = map (frame_of_request c) (accepted c)"
    using inv(2) by (simp add: queue_inv_def)
  have dec: "\<exists>f. decode_frame ((written c @ write_queue c) ! i) broker_mx = Inr f \<and>
       correlation_id (header f) = fst (accepted c ! i) \<and>
       frame_type_value (frame_type (header f)) = frame_type_value (fst (issued c ! snd (accepted c ! i))) \<and>
       payload f = snd (issued c ! snd (accepted c ! i))" if "i < length (accepted c)" for i
  proof -
    have "(fst (accepted c ! i), snd (accepted c ! i)) \<in> set (accepted c)" using that by simp
    then have "32 + length (snd (issued c ! snd (accepted c ! i))) \<le> unat mx"
      using inv(2) conf unfolding queue_inv_def by blast
    also have "unat mx \<le> unat broker_mx" using assms(4) by (simp add: word_le_nat_alt)
    finally have fits: "32 + length (snd (issued c ! snd (accepted c ! i))) \<le> unat broker_mx" .
    have "(written c @ write_queue c) ! i = frame_of_request c (accepted c ! i)"
      unfolding frames using that by simp
    then show ?thesis using decode_client_frame [OF assms(3) fits] conf(1) by metis
  qed
  have "length (written c) + length (write_queue c) = length (accepted c)"
    using arg_cong [OF frames, of length] by simp
  then show ?thesis
    using hs inv(1) dec unfolding handlers_inv_def ids_inv_def by blast
qed

text \<open>Two requests in flight, of which the second is answered first.\<close>

definition answer_header :: "u64 \<Rightarrow> FrameHeader" where
  "answer_header cid = read_header_fields (encode_frame 5 HealthResponse cid [] 0)"

abbreviation crossing_answers :: "ClientEvent list" where
  "crossing_answers \<equiv> [Connected, RequestPosted HealthRequest [], RequestPosted ListTopicsRequest [], WriteDone,
     HeaderRead (encode_frame 5 HealthResponse 2 [] 0), PayloadRead [], WriteDone]"

lemma crossing_answers_run:
  "client_run crossing_answers (new_client 1024 5) = Some
     \<lparr>socket_open = True, client_max_frame_bytes = 1024, client_protocol_version = 5, next_correlation_id = 3,
      write_queue = [], pending = [(1, 0)], reader = HeaderWanted, writing = False,
      issued = [(HealthRequest, []), (ListTopicsRequest, [])], accepted = [(1, 0), (2, 1)],
      written = [encode_frame 5 HealthRequest 1 [] 0, encode_frame 5 ListTopicsRequest 2 [] 0],
      calls = [(1, Answered (Frame.make (answer_header 2) []))]\<rparr>"
proof -
  have "ok (decode_header (encode_frame 5 HealthResponse 2 [] 0) 1024)"
    by (rule decode_header_encode_ok) simp_all
  moreover have "decoded_header (decode_header (encode_frame 5 HealthResponse 2 [] 0) 1024) = answer_header 2"
    by (simp add: decode_header_fields answer_header_def)
  moreover have "payload_bytes (answer_header 2) = 0" "correlation_id (answer_header 2) = 2"
    by (simp_all add: answer_header_def)
  ultimately show ?thesis
    by (simp add: new_client_def AsyncClient.make_def async_request_def client_ops emplace_def Let_def
        kFrameHeaderBytes_def dispatch_response_def Frame.make_def)
qed

theorem client_requests_answered_once_witness:
  "\<exists>c. client_run crossing_answers (new_client 1024 5) = Some c \<and> accepted c = [(1, 0), (2, 1)] \<and>
     distinct (map fst (calls c) @ map snd (pending c)) \<and>
     (\<exists>f. decode_frame (written c ! 1) 2048 = Inr f \<and> correlation_id (header f) = 2 \<and>
       frame_type_value (frame_type (header f)) = frame_type_value ListTopicsRequest)"
proof -
  obtain c where c: "client_run crossing_answers (new_client 1024 5) = Some c" "accepted c = [(1, 0), (2, 1)]"
      "issued c = [(HealthRequest, []), (ListTopicsRequest, [])]" "length (written c) = 2" "write_queue c = []"
    using crossing_answers_run by simp
  have "distinct (map fst (calls c) @ map snd (pending c)) \<and>
      (\<forall>i < length (accepted c). \<exists>f. decode_frame ((written c @ write_queue c) ! i) 2048 = Inr f \<and>
       correlation_id (header f) = fst (accepted c ! i) \<and>
       frame_type_value (frame_type (header f)) = frame_type_value (fst (issued c ! snd (accepted c ! i))) \<and>
       payload f = snd (issued c ! snd (accepted c ! i)))"
    using client_requests_answered_once [OF c(1), of 2048] c(3) by simp
  then have "distinct (map fst (calls c) @ map snd (pending c))"
      "\<exists>f. decode_frame ((written c @ write_queue c) ! 1) 2048 = Inr f \<and> correlation_id (header f) = fst (accepted c ! 1) \<and>
       frame_type_value (frame_type (header f)) = frame_type_value (fst (issued c ! snd (accepted c ! 1)))"
    using c(2) by (simp, metis One_nat_def Suc_1 length_Cons lessI list.size(3))
  then show ?thesis using c by auto
qed

section \<open>Requests after the connection was lost\<close>

text \<open>
  A failed read fails the pending requests but leaves the socket open, and nothing reads from it any more.
\<close>

definition ends_silence :: "ClientEvent \<Rightarrow> bool" where
  "ends_silence e = (case e of Connected \<Rightarrow> True | WriteFailed _ \<Rightarrow> True | _ \<Rightarrow> False)"

lemma silent_step:
  assumes "client_handle e c = Some c1" "\<not> ends_silence e" "reader c = NotReading" "h < length (issued c)"
    "h \<notin> fst ` set (calls c)"
  shows "reader c1 = NotReading \<and> h < length (issued c1) \<and> h \<notin> fst ` set (calls c1)"
  using assms by (cases e) (auto simp: ends_silence_def async_request_def client_ops Let_def split: if_splits)

lemma silent_run:
  assumes "client_run es c = Some c1" "\<forall>e \<in> set es. \<not> ends_silence e" "reader c = NotReading"
    "h < length (issued c)" "h \<notin> fst ` set (calls c)"
  shows "h \<notin> fst ` set (calls c1)"
  using assms
proof (induction es arbitrary: c)
  case (Cons e es)
  then obtain c2 where "client_handle e c = Some c2" "client_run es c2 = Some c1"
    by (auto split: option.splits)
  with Cons silent_step [of e c c2 h] show ?case by simp
qed simp

text \<open>
  C33: a request made after the connection was lost is never answered. When a read has failed and the socket was
  not closed, a request that fits into a frame is accepted, and whatever happens then short of a failing write or a
  new connection, its handler is not called: neither with a response nor with an error.
\<close>

theorem request_after_lost_connection_hangs:
  assumes "client_run es (new_client mx ver) = Some c" "length (issued c) < 2 ^ 64"
    and "reader c = NotReading" "socket_open c" "32 + length pl \<le> unat mx"
    and "client_run later (async_request ft pl c) = Some c1" "\<forall>e \<in> set later. \<not> ends_silence e"
  shows "length (issued c) \<notin> fst ` set (calls c1)"
proof -
  have "client_max_frame_bytes c = mx"
    using client_run_inv [OF assms(1) new_client_inv(2,3)] by (simp add: new_client_def AsyncClient.make_def)
  then have c2: "reader (async_request ft pl c) = NotReading" "calls (async_request ft pl c) = calls c"
      "length (issued c) < length (issued (async_request ft pl c))"
    using assms(3-5)
    by (auto simp: async_request_def start_write_def Let_def kFrameHeaderBytes_def word_less_nat_alt unat_sub word_le_nat_alt)
  have "set (handlers c) = {..<length (issued c)}"
    using client_run_handlers [OF assms(1) new_client_inv(2,3,1) assms(2)] by (simp add: handlers_inv_def)
  then have "length (issued c) \<notin> fst ` set (calls c)" by auto
  with silent_run [OF assms(6,7)] c2 show ?thesis by simp
qed

theorem request_after_lost_connection_hangs_witness:
  "\<exists>c c1. client_run [Connected, ReadFailed (TransportError ''End of file'')] (new_client 1024 5) = Some c \<and>
     client_run [WriteDone] (async_request HealthRequest [] c) = Some c1 \<and> length (issued c) = 0 \<and>
     0 \<notin> fst ` set (calls c1) \<and> pending c1 = [(1, 0)] \<and> write_queue c1 = []"
proof -
  obtain c c1 where c: "client_run [Connected, ReadFailed (TransportError ''End of file'')] (new_client 1024 5) = Some c"
      "client_run [WriteDone] (async_request HealthRequest [] c) = Some c1" "issued c = []" "reader c = NotReading"
      "socket_open c" "pending c1 = [(1, 0)]" "write_queue c1 = []"
    by (simp add: new_client_def AsyncClient.make_def async_request_def client_ops emplace_def Let_def kFrameHeaderBytes_def)
  have "length (issued c) \<notin> fst ` set (calls c1)"
    by (rule request_after_lost_connection_hangs [OF c(1) _ c(4,5) _ c(2)]) (simp_all add: c(3) ends_silence_def)
  with c show ?thesis by auto
qed

section \<open>Requests after a failed write\<close>

text \<open>
  A failed write leaves its frame at the front of the queue and starts no other write; a later request finds the
  queue non-empty and starts none either, not even on a new connection.
\<close>

lemma stuck_step:
  assumes "client_handle e c = Some c1" "\<not> writing c" "write_queue c \<noteq> []"
  shows "\<not> writing c1 \<and> write_queue c1 \<noteq> [] \<and> written c1 = written c"
  using assms by (cases e) (auto simp: async_request_def client_ops Let_def split: if_splits Reader.splits)

lemma stuck_run:
  assumes "client_run es c = Some c1" "\<not> writing c" "write_queue c \<noteq> []"
  shows "written c1 = written c"
  using assms
proof (induction es arbitrary: c)
  case (Cons e es)
  then obtain c2 where "client_handle e c = Some c2" "client_run es c2 = Some c1"
    by (auto split: option.splits)
  with Cons stuck_step [of e c c2] show ?case by simp
qed simp

lemma nothing_written_after_failed_write:
  assumes "client_run es (new_client mx ver) = Some c" "client_handle (WriteFailed err) c = Some c1"
    "client_run later c1 = Some c2"
  shows "written c2 = written c"
proof -
  have "queue_inv c" using client_run_inv [OF assms(1) new_client_inv(2,3)] by simp
  then have "\<not> writing c1" "write_queue c1 \<noteq> []" "written c1 = written c"
    using assms(2) by (auto simp: queue_inv_def client_ops split: if_splits)
  with stuck_run [OF assms(3)] show ?thesis by simp
qed

end
