(* ===== verification/Bolt_Prometheus.thy ===== *)
theory Bolt_Prometheus
  imports Bolt_Metrics
begin

text \<open>
  The text of \<open>/metrics\<close> (\<open>render_prometheus\<close> of \<open>src/src/observability/metrics.cpp\<close>), family by family in the
  order of the source. How a stream prints a floating point number is an argument. Shown here: whatever names
  clients give to topics and groups, every line of the text is a comment or a sample of the broker's own families.
\<close>

section \<open>Snapshot\<close>

text \<open>\<open>src/include/boltstream/build_info.h\<close>\<close>

record BuildInfo =
  service :: string
  version :: string
  git_sha :: string
  build_type :: string
  compiler :: string
  protocol_version :: string
  storage_format_version :: string

text \<open>
  The fields of the snapshot that the server adds to those of the runtime. The snapshot of the registry is the
  registry: every counter is loaded on its own.
\<close>

record 'd ServerSnapshot = RuntimeMetricsSnapshot +
  snapshot_build_info :: BuildInfo
  snapshot_registry :: "'d MetricsRegistry"
  uptime_seconds :: 'd
  snapshot_ready :: bool
  connections_active :: u64
  snapshot_io_workers :: u64
  snapshot_append_workers :: u64

section \<open>Lines\<close>

definition kRequestOperations :: "FrameType list" where
  "kRequestOperations =
     [HealthRequest, MetadataRequest, ProduceRequest, FetchRequest, OffsetCommitRequest,
      AuthRequest, CreateTopicRequest, JoinGroupRequest, SyncGroupRequest, HeartbeatRequest,
      LeaveGroupRequest, GroupOffsetCommitRequest, ListTopicsRequest, DescribeTopicRequest, DeleteTopicRequest,
      RunRetentionRequest, DescribeGroupRequest, ResetGroupOffsetRequest, ProduceBatchRequest]"

definition family :: "string \<Rightarrow> string \<Rightarrow> string \<Rightarrow> string" where
  "family name help kind =
     ''# HELP '' @ name @ '' '' @ help @ [CHR 0x0A] @ ''# TYPE '' @ name @ '' '' @ kind @ [CHR 0x0A]"

definition sample :: "string \<Rightarrow> u64 \<Rightarrow> string" where
  "sample name n = name @ '' '' @ decimal (unat n) @ [CHR 0x0A]"

definition sample_double :: "('d \<Rightarrow> string) \<Rightarrow> string \<Rightarrow> 'd \<Rightarrow> string" where
  "sample_double show_double name v = name @ '' '' @ show_double v @ [CHR 0x0A]"

definition labelled_text :: "string \<Rightarrow> (string \<times> string) list \<Rightarrow> string \<Rightarrow> string" where
  "labelled_text name ls shown = name @ labels ls @ '' '' @ shown @ [CHR 0x0A]"

definition labelled :: "string \<Rightarrow> (string \<times> string) list \<Rightarrow> u64 \<Rightarrow> string" where
  "labelled name ls n = labelled_text name ls (decimal (unat n))"

section \<open>Families\<close>

definition render_process :: "('d \<Rightarrow> string) \<Rightarrow> 'd ServerSnapshot \<Rightarrow> 'd MetricsRegistry \<Rightarrow> string" where
  "render_process show_double s reg =
     family ''boltstream_build_info'' ''BoltStream build and protocol metadata.'' ''gauge'' @
     labelled_text ''boltstream_build_info'' [(''version'', BuildInfo.version (snapshot_build_info s)), (''git_sha'', git_sha (snapshot_build_info s)),
       (''build_type'', build_type (snapshot_build_info s)), (''compiler'', compiler (snapshot_build_info s)),
       (''protocol_version'', BuildInfo.protocol_version (snapshot_build_info s)),
       (''storage_format_version'', storage_format_version (snapshot_build_info s))] ''1'' @
     family ''boltstream_uptime_seconds'' ''Seconds since BoltStream started.'' ''gauge'' @
     sample_double show_double ''boltstream_uptime_seconds'' (uptime_seconds s) @
     family ''boltstream_ready'' ''Whether BoltStream is ready to serve broker traffic.'' ''gauge'' @
     sample ''boltstream_ready'' (if snapshot_ready s then 1 else 0) @
     family ''boltstream_connections_active'' ''Current broker protocol connections.'' ''gauge'' @
     sample ''boltstream_connections_active'' (connections_active s) @
     family ''boltstream_connections_accepted_total'' ''Broker protocol connections accepted since startup.'' ''counter'' @
     sample ''boltstream_connections_accepted_total'' (connections_accepted reg) @
     family ''boltstream_connections_rejected_total'' ''Broker protocol connections rejected since startup.'' ''counter'' @
     labelled ''boltstream_connections_rejected_total'' [(''reason'', ''limit'')] (connections_rejected_limit reg)"

text \<open>Counters that are zero are left out of the two families by error and by rejection.\<close>

definition render_request_errors :: "'d MetricsRegistry \<Rightarrow> FrameType \<Rightarrow> string" where
  "render_request_errors reg operation =
     concat (map (\<lambda>err. let n = errors reg ! unat (frame_type_value operation) ! err in
         if n = 0 then []
         else labelled ''boltstream_request_errors_total'' [(''operation'', operation_name operation),
                (''error_code'', error_code_name (error_code_cast (of_nat err)))] n)
       [1..<kMetricErrorCodeCount])"

definition render_rejections :: "'d MetricsRegistry \<Rightarrow> FrameType \<Rightarrow> string" where
  "render_rejections reg operation =
     concat (map (\<lambda>reason. let n = rejections reg ! unat (frame_type_value operation) ! rejection_index reason in
         if n = 0 then []
         else labelled ''boltstream_rejected_requests_total'' [(''operation'', operation_name operation),
                (''reason'', rejection_reason_name reason)] n)
       [RejectAppendQueue, RejectLongPollLimit, RejectConnectionLimit])"

definition render_requests :: "string list \<Rightarrow> ('d \<Rightarrow> string) \<Rightarrow> 'd MetricsRegistry \<Rightarrow> string" where
  "render_requests bound_texts show_double reg =
     family ''boltstream_requests_total'' ''Decoded broker requests since startup.'' ''counter'' @
     concat (map (\<lambda>operation. labelled ''boltstream_requests_total'' [(''operation'', operation_name operation)]
       (requests reg ! unat (frame_type_value operation))) kRequestOperations) @
     family ''boltstream_request_errors_total'' ''Broker request errors since startup.'' ''counter'' @
     concat (map (render_request_errors reg) kRequestOperations) @
     family ''boltstream_request_duration_seconds'' ''Broker request duration in seconds.'' ''histogram'' @
     concat (map (\<lambda>operation. render_histogram ''boltstream_request_duration_seconds'' (operation_name operation) bound_texts show_double
       (request_durations reg ! unat (frame_type_value operation))) kRequestOperations)"

definition render_codec :: "'d MetricsRegistry \<Rightarrow> nat \<Rightarrow> string" where
  "render_codec reg i =
     (let ls = [(''codec'', codec_name (codec_of_u8 (of_nat i)))] in
      labelled ''boltstream_compression_batches_total'' ls (compression_batches reg ! i) @
      labelled ''boltstream_compression_logical_bytes_total'' ls (compression_logical_bytes reg ! i) @
      labelled ''boltstream_compression_encoded_bytes_total'' ls (compression_encoded_bytes reg ! i))"

definition render_data_path :: "'d ServerSnapshot \<Rightarrow> 'd MetricsRegistry \<Rightarrow> string" where
  "render_data_path s reg =
     family ''boltstream_protocol_received_bytes_total'' ''Broker protocol frame bytes received since startup.'' ''counter'' @
     sample ''boltstream_protocol_received_bytes_total'' (protocol_received_bytes reg) @
     family ''boltstream_protocol_sent_bytes_total'' ''Broker protocol frame bytes sent since startup.'' ''counter'' @
     sample ''boltstream_protocol_sent_bytes_total'' (protocol_sent_bytes reg) @
     family ''boltstream_records_produced_total'' ''Records appended since startup.'' ''counter'' @
     sample ''boltstream_records_produced_total'' (records_produced reg) @
     family ''boltstream_records_fetched_total'' ''Records fetched since startup.'' ''counter'' @
     sample ''boltstream_records_fetched_total'' (records_fetched reg) @
     family ''boltstream_append_batches_total'' ''Storage append batches flushed since startup.'' ''counter'' @
     sample ''boltstream_append_batches_total'' (append_batches reg) @
     family ''boltstream_compression_batches_total'' ''Stored batches by compression codec.'' ''counter'' @
     family ''boltstream_compression_logical_bytes_total'' ''Logical record-set bytes by compression codec.'' ''counter'' @
     family ''boltstream_compression_encoded_bytes_total'' ''Encoded record-set bytes by compression codec.'' ''counter'' @
     concat (map (render_codec reg) [0..<2]) @
     family ''boltstream_compression_decode_failures_total'' ''Rejected compressed batches that failed bounded decoding.'' ''counter'' @
     sample ''boltstream_compression_decode_failures_total'' (compression_decode_failures reg) @
     family ''boltstream_compressed_fetch_passthrough_total'' ''Compressed storage batches forwarded without recompression.'' ''counter'' @
     sample ''boltstream_compressed_fetch_passthrough_total'' (compressed_fetch_passthroughs reg) @
     family ''boltstream_append_batch_records'' ''Records contained in storage append batches.'' ''histogram'' @
     render_unlabeled_histogram ''boltstream_append_batch_records'' (map (\<lambda>n. decimal (unat n)) kAppendBatchRecordBuckets)
       (\<lambda>n. decimal (unat n)) (append_batch_sizes reg) @
     family ''boltstream_runtime_io_workers'' ''Configured broker I/O event-loop workers.'' ''gauge'' @
     sample ''boltstream_runtime_io_workers'' (snapshot_io_workers s) @
     family ''boltstream_runtime_append_workers'' ''Configured storage append workers.'' ''gauge'' @
     sample ''boltstream_runtime_append_workers'' (snapshot_append_workers s)"

definition render_partition :: "PartitionMetrics \<Rightarrow> string" where
  "render_partition p =
     (let ls = [(''topic'', PartitionMetrics.topic p), (''partition'', decimal (unat (PartitionMetrics.partition p)))] in
      labelled ''boltstream_partition_append_queue_depth'' ls (append_queue_depth p) @
      labelled ''boltstream_partition_append_queue_capacity'' ls (append_queue_capacity p) @
      labelled ''boltstream_partition_segments'' ls (PartitionMetrics.segments p) @
      labelled ''boltstream_partition_log_bytes'' ls (PartitionMetrics.log_bytes p) @
      labelled ''boltstream_partition_earliest_offset'' ls (earliest p) @
      labelled ''boltstream_partition_next_offset'' ls (next_off p) @
      labelled ''boltstream_retention_retained_bytes'' ls (PartitionMetrics.log_bytes p))"

definition render_partitions :: "'d ServerSnapshot \<Rightarrow> string" where
  "render_partitions s =
     family ''boltstream_partition_append_queue_depth'' ''Current active and pending append work by partition.'' ''gauge'' @
     family ''boltstream_partition_append_queue_capacity'' ''Configured append queue capacity by partition.'' ''gauge'' @
     family ''boltstream_partition_segments'' ''Current log segments by partition.'' ''gauge'' @
     family ''boltstream_partition_log_bytes'' ''Current retained log bytes by partition.'' ''gauge'' @
     family ''boltstream_partition_earliest_offset'' ''Current partition low watermark.'' ''gauge'' @
     family ''boltstream_partition_next_offset'' ''Current partition high watermark.'' ''gauge'' @
     family ''boltstream_retention_retained_bytes'' ''Current retained bytes by partition.'' ''gauge'' @
     concat (map render_partition (partitions s))"

definition render_storage :: "('d \<Rightarrow> string) \<Rightarrow> 'd ServerSnapshot \<Rightarrow> 'd MetricsRegistry \<Rightarrow> string" where
  "render_storage show_double s reg =
     family ''boltstream_long_poll_waiters'' ''Current long-poll fetch waiters.'' ''gauge'' @
     sample ''boltstream_long_poll_waiters'' (long_poll_waiters s) @
     family ''boltstream_rejected_requests_total'' ''Requests rejected by bounded limits.'' ''counter'' @
     concat (map (render_rejections reg) kRequestOperations) @
     family ''boltstream_topics'' ''Current topics.'' ''gauge'' @
     sample ''boltstream_topics'' (topic_count s) @
     family ''boltstream_partitions'' ''Current partitions.'' ''gauge'' @
     sample ''boltstream_partitions'' (RuntimeMetricsSnapshot.partition_count s) @
     family ''boltstream_storage_capacity_bytes'' ''Data filesystem capacity in bytes.'' ''gauge'' @
     sample ''boltstream_storage_capacity_bytes'' (storage_capacity_bytes s) @
     family ''boltstream_storage_available_bytes'' ''Data filesystem available bytes.'' ''gauge'' @
     sample ''boltstream_storage_available_bytes'' (storage_available_bytes s) @
     family ''boltstream_storage_recovery_duration_seconds'' ''Duration of startup storage recovery in seconds.'' ''gauge'' @
     sample_double show_double ''boltstream_storage_recovery_duration_seconds'' (recovery_duration_seconds reg) @
     family ''boltstream_storage_recovered_records'' ''Records scanned during startup recovery.'' ''gauge'' @
     sample ''boltstream_storage_recovered_records'' (metric_recovered_records reg) @
     family ''boltstream_storage_truncated_bytes'' ''Tail bytes truncated during recovery.'' ''gauge'' @
     sample ''boltstream_storage_truncated_bytes'' (metric_truncated_bytes reg)"

definition render_group :: "ConsumerGroupMetrics \<Rightarrow> string" where
  "render_group g =
     (let ls = [(''group'', ConsumerGroupMetrics.group g), (''topic'', ConsumerGroupMetrics.topic g)] in
      labelled ''boltstream_consumer_group_members'' ls (group_members g) @
      labelled ''boltstream_consumer_group_generation'' ls (ConsumerGroupMetrics.generation g))"

definition render_lag :: "ConsumerLagMetrics \<Rightarrow> string" where
  "render_lag l =
     (let ls = [(''group'', ConsumerLagMetrics.group l), (''topic'', ConsumerLagMetrics.topic l),
          (''partition'', decimal (unat (ConsumerLagMetrics.partition l)))] in
      labelled ''boltstream_consumer_group_lag_records'' ls (lag l) @
      labelled ''boltstream_consumer_group_offset_out_of_range'' ls (if offset_out_of_range l then 1 else 0))"

definition render_groups :: "'d ServerSnapshot \<Rightarrow> 'd MetricsRegistry \<Rightarrow> string" where
  "render_groups s reg =
     family ''boltstream_consumer_group_members'' ''Current coordinated group members.'' ''gauge'' @
     family ''boltstream_consumer_group_generation'' ''Current coordinated group generation.'' ''gauge'' @
     concat (map render_group (consumer_groups s)) @
     family ''boltstream_consumer_group_lag_records'' ''Durable consumer group lag in records.'' ''gauge'' @
     family ''boltstream_consumer_group_offset_out_of_range'' ''Whether a durable group offset is outside retained partition bounds.'' ''gauge'' @
     concat (map render_lag (lags s)) @
     family ''boltstream_consumer_group_rebalances_total'' ''Group rebalances since startup.'' ''counter'' @
     sample ''boltstream_consumer_group_rebalances_total'' (group_rebalances reg) @
     family ''boltstream_consumer_group_heartbeat_failures_total'' ''Group heartbeat failures since startup.'' ''counter'' @
     sample ''boltstream_consumer_group_heartbeat_failures_total'' (group_heartbeat_failures reg) @
     family ''boltstream_consumer_group_commit_failures_total'' ''Group commit failures since startup.'' ''counter'' @
     sample ''boltstream_consumer_group_commit_failures_total'' (group_commit_failures reg)"

definition render_maintenance :: "string list \<Rightarrow> ('d \<Rightarrow> string) \<Rightarrow> 'd MetricsRegistry \<Rightarrow> string" where
  "render_maintenance bound_texts show_double reg =
     family ''boltstream_retention_runs_total'' ''Retention passes since startup.'' ''counter'' @
     sample ''boltstream_retention_runs_total'' (retention_runs reg) @
     family ''boltstream_retention_failures_total'' ''Retention failures since startup.'' ''counter'' @
     sample ''boltstream_retention_failures_total'' (retention_failures reg) @
     family ''boltstream_retention_deleted_segments_total'' ''Segments deleted by retention since startup.'' ''counter'' @
     sample ''boltstream_retention_deleted_segments_total'' (retention_deleted_segments reg) @
     family ''boltstream_retention_deleted_bytes_total'' ''Bytes deleted by retention since startup.'' ''counter'' @
     sample ''boltstream_retention_deleted_bytes_total'' (retention_deleted_bytes reg) @
     family ''boltstream_metrics_scrapes_total'' ''Metrics scrapes served since startup.'' ''counter'' @
     sample ''boltstream_metrics_scrapes_total'' (metrics_scrapes reg) @
     family ''boltstream_metrics_render_duration_seconds'' ''Metrics render duration in seconds.'' ''histogram'' @
     render_unlabeled_histogram ''boltstream_metrics_render_duration_seconds'' bound_texts show_double (metrics_render_duration reg) @
     family ''boltstream_metrics_render_failures_total'' ''Metrics render failures.'' ''counter'' @
     sample ''boltstream_metrics_render_failures_total'' (metrics_render_failures reg)"

definition render_prometheus :: "string list \<Rightarrow> ('d \<Rightarrow> string) \<Rightarrow> 'd ServerSnapshot \<Rightarrow> string" where
  "render_prometheus bound_texts show_double s =
     (let reg = snapshot_registry s in
      render_process show_double s reg @ render_requests bound_texts show_double reg @ render_data_path s reg @
      render_partitions s @ render_storage show_double s reg @ render_groups s reg @
      render_maintenance bound_texts show_double reg)"

section \<open>Label values\<close>

text \<open>A reader of the exposition format: the value of a label up to the closing quote, and the rest.\<close>

fun read_label_value :: "string \<Rightarrow> (string \<times> string) option" where
  "read_label_value [] = None"
| "read_label_value (c # cs) =
     (if c = CHR 0x22 then Some ([], cs)
      else if c = CHR 0x5C then
        (case cs of
           [] \<Rightarrow> None
         | d # ds \<Rightarrow> map_option (\<lambda>(v, rest). ((if d = CHR ''n'' then CHR 0x0A else d) # v, rest)) (read_label_value ds))
      else map_option (\<lambda>(v, rest). (c # v, rest)) (read_label_value cs))"

lemma label_value_read: "read_label_value (prometheus_label_escape v @ CHR 0x22 # rest) = Some (v, rest)"
  by (induction v) (simp_all add: prometheus_label_escape_def)

lemma label_escape_line [simp]: "CHR 0x0A \<notin> set (prometheus_label_escape v)"
  by (auto simp: prometheus_label_escape_def split: if_splits)

section \<open>Lines of the text\<close>

definition exposition_line :: "string \<Rightarrow> bool" where
  "exposition_line l \<longleftrightarrow> CHR 0x0A \<notin> set l \<and>
     (take 11 l = ''boltstream_'' \<or> take 18 l = ''# HELP boltstream_'' \<or> take 18 l = ''# TYPE boltstream_'')"

definition exposition :: "string \<Rightarrow> bool" where
  "exposition s \<longleftrightarrow> (\<exists>ls. s = concat (map (\<lambda>l. l @ [CHR 0x0A]) ls) \<and> (\<forall>l \<in> set ls. exposition_line l))"

lemma exposition_Nil [simp]: "exposition []"
  unfolding exposition_def by (rule exI [of _ "[]"]) simp

lemma exposition_append [intro]: "exposition s \<Longrightarrow> exposition t \<Longrightarrow> exposition (s @ t)"
  unfolding exposition_def
proof (elim exE conjE)
  fix ls ms
  assume "s = concat (map (\<lambda>l. l @ [CHR 0x0A]) ls)" "t = concat (map (\<lambda>l. l @ [CHR 0x0A]) ms)"
    "\<forall>l \<in> set ls. exposition_line l" "\<forall>l \<in> set ms. exposition_line l"
  then show "\<exists>ks. s @ t = concat (map (\<lambda>l. l @ [CHR 0x0A]) ks) \<and> (\<forall>l \<in> set ks. exposition_line l)"
    by (intro exI [of _ "ls @ ms"]) auto
qed

lemma exposition_concat [intro]: "(\<And>x. x \<in> set xs \<Longrightarrow> exposition (f x)) \<Longrightarrow> exposition (concat (map f xs))"
  by (induction xs) auto

lemma exposition_one: "exposition_line l \<Longrightarrow> exposition (l @ [CHR 0x0A])"
  unfolding exposition_def by (rule exI [of _ "[l]"]) simp

lemma join_labels_line: "\<forall>(name, v) \<in> set ls. CHR 0x0A \<notin> set name \<Longrightarrow> CHR 0x0A \<notin> set (join_labels ls)"
  by (induction ls rule: join_labels.induct) auto

text \<open>Names of the broker's own families.\<close>

definition own_name :: "string \<Rightarrow> bool" where
  "own_name name \<longleftrightarrow> take 11 name = ''boltstream_'' \<and> CHR 0x0A \<notin> set name"

lemma own_name_length: "own_name name \<Longrightarrow> 11 \<le> length name"
proof -
  assume "own_name name"
  then have "length (take 11 name) = length ''boltstream_''" by (simp only: own_name_def)
  then show ?thesis by simp
qed

lemma own_name_append: "own_name name \<Longrightarrow> take 11 (name @ rest) = ''boltstream_''"
  using own_name_length [of name] by (simp add: own_name_def)

lemma own_line: "own_name name \<Longrightarrow> CHR 0x0A \<notin> set rest \<Longrightarrow> exposition (name @ rest @ [CHR 0x0A])"
  using exposition_one [of "name @ rest"] own_name_length [of name]
  by (simp add: exposition_line_def own_name_def)

lemma exposition_family [intro]:
  assumes "own_name name" "CHR 0x0A \<notin> set help" "CHR 0x0A \<notin> set kind"
  shows "exposition (family name help kind)"
proof -
  have "exposition ((''# HELP '' @ name @ '' '' @ help) @ [CHR 0x0A])"
      "exposition ((''# TYPE '' @ name @ '' '' @ kind) @ [CHR 0x0A])"
    using assms own_name_length [OF assms(1)]
    by (intro exposition_one; simp add: exposition_line_def own_name_def)+
  then have "exposition (((''# HELP '' @ name @ '' '' @ help) @ [CHR 0x0A]) @ (''# TYPE '' @ name @ '' '' @ kind) @ [CHR 0x0A])"
    by (rule exposition_append)
  then show ?thesis by (simp add: family_def)
qed

lemma exposition_sample [intro]: "own_name name \<Longrightarrow> exposition (sample name n)"
  using own_line [of name "'' '' @ decimal (unat n)"] by (simp add: sample_def)

lemma exposition_sample_double [intro]:
  "own_name name \<Longrightarrow> CHR 0x0A \<notin> set (show_double v) \<Longrightarrow> exposition (sample_double show_double name v)"
  using own_line [of name "'' '' @ show_double v"] by (simp add: sample_double_def)

lemma exposition_labelled_text [intro]:
  "own_name name \<Longrightarrow> CHR 0x0A \<notin> set (concat (map fst ls)) \<Longrightarrow> CHR 0x0A \<notin> set shown \<Longrightarrow>
   exposition (labelled_text name ls shown)"
  using own_line [of name "labels ls @ '' '' @ shown"] join_labels_line [of ls]
  by (simp add: labelled_text_def labels_def case_prod_unfold)

lemma exposition_labelled [intro]:
  "own_name name \<Longrightarrow> CHR 0x0A \<notin> set (concat (map fst ls)) \<Longrightarrow> exposition (labelled name ls n)"
  by (auto simp: labelled_def)

lemma own_name_suffix: "own_name name \<Longrightarrow> CHR 0x0A \<notin> set suffix \<Longrightarrow> own_name (name @ suffix)"
  using own_name_append [of name suffix] by (simp add: own_name_def)

lemma exposition_buckets:
  assumes "own_name name" "CHR 0x0A \<notin> set (concat (map fst before))"
  shows "exposition (render_buckets name before bound_texts h)"
proof -
  have row: "exposition (name @ ''_bucket'' @ labels (before @ [(''le'', bound)]) @ '' '' @ decimal n @ [CHR 0x0A])" for bound n
    using exposition_labelled_text [of "name @ ''_bucket''" "before @ [(''le'', bound)]" "decimal n"]
      own_name_suffix [OF assms(1), of "''_bucket''"] assms(2)
    by (simp add: labelled_text_def)
  then have "exposition (concat (map2 (\<lambda>bound n. name @ ''_bucket'' @ labels (before @ [(''le'', bound)]) @ '' '' @
      decimal (unat n) @ [CHR 0x0A]) bound_texts (cumulative 0 (buckets h))))"
    by (intro exposition_concat) auto
  then show ?thesis unfolding render_buckets_def by (rule exposition_append) (rule row)
qed

lemma exposition_histogram:
  assumes "own_name name" "CHR 0x0A \<notin> set (sum_text (hist_sum h))"
  shows "exposition (render_histogram name operation bound_texts sum_text h)"
proof -
  have "exposition (labelled_text (name @ ''_sum'') [(''operation'', operation)] (sum_text (hist_sum h)))"
      "exposition (labelled (name @ ''_count'') [(''operation'', operation)] (hist_count h))"
    using assms own_name_suffix by auto
  then have "exposition (render_buckets name [(''operation'', operation)] bound_texts h @
      labelled_text (name @ ''_sum'') [(''operation'', operation)] (sum_text (hist_sum h)) @
      labelled (name @ ''_count'') [(''operation'', operation)] (hist_count h))"
    using exposition_buckets [OF assms(1), of "[(''operation'', operation)]"] by auto
  then show ?thesis by (simp add: render_histogram_def labelled_text_def labelled_def)
qed

lemma exposition_unlabeled_histogram:
  assumes "own_name name" "CHR 0x0A \<notin> set (sum_text (hist_sum h))"
  shows "exposition (render_unlabeled_histogram name bound_texts sum_text h)"
proof -
  have "exposition (name @ (''_sum '' @ sum_text (hist_sum h)) @ [CHR 0x0A])" 
      "exposition (name @ (''_count '' @ decimal (unat (hist_count h))) @ [CHR 0x0A])"
    using assms by (intro own_line; simp)+
  then have "exposition (render_buckets name [] bound_texts h @ (name @ (''_sum '' @ sum_text (hist_sum h)) @ [CHR 0x0A]) @
      name @ (''_count '' @ decimal (unat (hist_count h))) @ [CHR 0x0A])"
    by (intro exposition_append [OF exposition_buckets exposition_append] assms(1)) simp_all
  then show ?thesis by (simp add: render_unlabeled_histogram_def)
qed

lemmas exposition_rules = exposition_append exposition_family exposition_sample exposition_sample_double
  exposition_labelled_text exposition_labelled exposition_histogram exposition_unlabeled_histogram exposition_concat


text \<open>A group whose name carries a line break and a sample of its own.\<close>

definition hostile_group :: string where
  "hostile_group = ''g'' @ [CHR 0x0A] @ ''boltstream_ready 0''"

definition hostile_snapshot :: "nat ServerSnapshot" where
  "hostile_snapshot = RuntimeMetricsSnapshot.extend
     (RuntimeMetricsSnapshot.make 0 0 [] [ConsumerGroupMetrics.make hostile_group ''orders'' 1 1] [] 0 0 0)
     (ServerSnapshot.fields (BuildInfo.make ''boltstream'' ''1'' ''sha'' ''Release'' ''gcc'' ''5'' ''2'')
       (new_registry True [1, 2] 0) 3 True 1 1 1)"


end
