(* ===== verification/Bolt_Logger.thy ===== *)
theory Bolt_Logger
  imports Bolt_Startup
begin

text \<open>
  Structured logs (\<open>src/src/observability/logger.cpp\<close>): the level, the fields of an event and the JSON line that
  is written for it. Shown here: an event is one line or nothing, whatever text clients put into its fields, and a
  reader gets every text back.
\<close>

section \<open>Levels\<close>

datatype LogLevel = Level_Debug | Level_Info | Level_Warn | Level_Error

fun log_level_value :: "LogLevel \<Rightarrow> nat" where
  "log_level_value Level_Debug = 0"
| "log_level_value Level_Info = 1"
| "log_level_value Level_Warn = 2"
| "log_level_value Level_Error = 3"

definition level_from_text :: "string \<Rightarrow> string + LogLevel" where
  "level_from_text text =
     (if text = ''debug'' then Inr Level_Debug
      else if text = ''info'' then Inr Level_Info
      else if text = ''warn'' then Inr Level_Warn
      else if text = ''error'' then Inr Level_Error
      else Inl (''invalid log level: '' @ text))"

fun log_level_name :: "LogLevel \<Rightarrow> string" where
  "log_level_name Level_Debug = ''debug''"
| "log_level_name Level_Info = ''info''"
| "log_level_name Level_Warn = ''warn''"
| "log_level_name Level_Error = ''error''"

text \<open>The two static objects of the logger.\<close>

record Logger =
  configured_level :: LogLevel
  configured_git_sha :: string

definition initial_logger :: Logger where
  "initial_logger = Logger.make Level_Info ''unknown''"

definition configure_logging :: "LogLevel \<Rightarrow> string \<Rightarrow> Logger \<Rightarrow> Logger" where
  "configure_logging minimum_level sha lg = lg\<lparr>configured_level := minimum_level, configured_git_sha := sha\<rparr>"

definition log_enabled :: "Logger \<Rightarrow> LogLevel \<Rightarrow> bool" where
  "log_enabled lg lvl \<longleftrightarrow> log_level_value lvl \<ge> log_level_value (configured_level lg)"

section \<open>Lines\<close>

record StructuredLogFields =
  log_level :: string
  log_event :: string
  log_component :: string
  log_remote :: string
  log_frame_type :: string
  log_error_code :: string
  log_message :: string
  log_correlation_id :: "u64 option"
  log_payload_bytes :: "u32 option"
  log_retryable :: "bool option"
  log_append_queue_depth :: "u32 option"
  log_waiter_count :: "u32 option"
  log_request_duration_us :: "u64 option"
  log_string_fields :: "(string \<times> string) list"
  log_numeric_fields :: "(string \<times> u64) list"

definition log_fields :: "string \<Rightarrow> string \<Rightarrow> StructuredLogFields" where
  "log_fields lvl ev = StructuredLogFields.make lvl ev ''broker'' [] [] [] [] None None None None None None [] []"

text \<open>A member of the object after the first: its name, and a text or a number.\<close>

definition text_member :: "string \<Rightarrow> string \<Rightarrow> string" where
  "text_member name v = '','' @ quoted name @ '':'' @ quoted (json_escape v)"

definition raw_member :: "string \<Rightarrow> string \<Rightarrow> string" where
  "raw_member name v = '','' @ quoted name @ '':'' @ v"

definition text_member_if :: "string \<Rightarrow> string \<Rightarrow> string" where
  "text_member_if name v = (if v = [] then [] else text_member name v)"

definition number_member_if :: "string \<Rightarrow> nat option \<Rightarrow> string" where
  "number_member_if name v = (case v of None \<Rightarrow> [] | Some n \<Rightarrow> raw_member name (decimal n))"

text \<open>The text that is written to the error stream: nothing below the configured level.\<close>

definition write_structured_log :: "Logger \<Rightarrow> string \<Rightarrow> StructuredLogFields \<Rightarrow> string" where
  "write_structured_log lg now f =
     (let lvl = (case level_from_text (log_level f) of Inl _ \<Rightarrow> Level_Info | Inr l \<Rightarrow> l) in
      if \<not> log_enabled lg lvl then []
      else ''{'' @ quoted ''timestamp'' @ '':'' @ quoted now @
        text_member ''level'' (log_level f) @
        text_member ''event'' (log_event f) @
        text_member ''component'' (log_component f) @
        text_member ''git_sha'' (configured_git_sha lg) @
        text_member_if ''remote'' (log_remote f) @
        number_member_if ''correlation_id'' (map_option unat (log_correlation_id f)) @
        text_member_if ''frame_type'' (log_frame_type f) @
        number_member_if ''payload_bytes'' (map_option unat (log_payload_bytes f)) @
        text_member_if ''error_code'' (log_error_code f) @
        (case log_retryable f of
           None \<Rightarrow> [] | Some b \<Rightarrow> raw_member ''retryable'' (if b then ''true'' else ''false'')) @
        number_member_if ''append_queue_depth'' (map_option unat (log_append_queue_depth f)) @
        number_member_if ''waiter_count'' (map_option unat (log_waiter_count f)) @
        number_member_if ''request_duration_us'' (map_option unat (log_request_duration_us f)) @
        concat (map (\<lambda>(key, v). text_member (json_escape key) v) (log_string_fields f)) @
        concat (map (\<lambda>(key, v). raw_member (json_escape key) (decimal (unat v))) (log_numeric_fields f)) @
        text_member_if ''message'' (log_message f) @
        ''}'' @ end_line)"

section \<open>Reading a line back\<close>

lemma level_text_roundtrip: "level_from_text t = Inr l \<longleftrightarrow> t = log_level_name l"
  by (cases l) (auto simp: level_from_text_def)

text \<open>A JSON string up to its closing quote, and the rest.\<close>

fun read_json_text :: "string \<Rightarrow> (string \<times> string) option" where
  "read_json_text [] = None"
| "read_json_text (c # cs) =
     (if c = CHR 0x22 then Some ([], cs)
      else if c = CHR 0x5C then
        (case cs of
           [] \<Rightarrow> None
         | d # ds \<Rightarrow>
             map_option (\<lambda>(v, rest). ((if d = CHR ''n'' then CHR 0x0A else if d = CHR ''r'' then CHR 0x0D
                 else if d = CHR ''t'' then CHR 0x09 else d) # v, rest))
               (read_json_text ds))
      else map_option (\<lambda>(v, rest). (c # v, rest)) (read_json_text cs))"

lemma json_text_read: "read_json_text (json_escape v @ CHR 0x22 # rest) = Some (v, rest)"
  by (induction v) (simp_all add: json_escape_def json_escape_char_def)

lemma json_escape_line [simp]: "CHR 0x0A \<notin> set (json_escape v)"
  by (auto simp: json_escape_def json_escape_char_def split: if_splits)

text \<open>
  An event becomes one line, or nothing: whatever its fields carry, the text that is written has exactly one line
  break, at its end.
\<close>

theorem log_event_is_one_line:
  assumes "CHR 0x0A \<notin> set now"
  shows "write_structured_log lg now f = [] \<or>
    (\<exists>l. write_structured_log lg now f = l @ end_line \<and> CHR 0x0A \<notin> set l)"
proof (cases "write_structured_log lg now f = []")
  case False
  have m: "CHR 0x0A \<notin> set (text_member_if name v)" "CHR 0x0A \<notin> set (number_member_if name n)"
      "CHR 0x0A \<notin> set (text_member name v)" if "CHR 0x0A \<notin> set name" for name v n
    using that
    by (auto simp: text_member_if_def text_member_def number_member_if_def raw_member_def split: option.splits)
  let ?w = "write_structured_log lg now f"
  have "?w = butlast ?w @ end_line"
    using False by (auto simp: write_structured_log_def Let_def butlast_append split: if_splits)
  moreover have "CHR 0x0A \<notin> set (butlast ?w)"
    using False assms
    by (auto simp: write_structured_log_def Let_def butlast_append m raw_member_def text_member_def case_prod_unfold
        split: if_splits option.splits)
  ultimately show ?thesis by blast
qed simp

end
