(* ===== verification/Bolt_Server_Properties.thy ===== *)
theory Bolt_Server_Properties
  imports Bolt_Server
begin

text \<open>
  Properties of the server: what the endpoint accepts, the connection limit under every order of events, and the
  end of the accept loop after one failure.
\<close>

section \<open>Requests of the endpoint\<close>

definition has_crlf :: "string \<Rightarrow> bool" where
  "has_crlf l \<longleftrightarrow> (\<exists>a b. l = a @ crlf @ b)"

lemma has_crlf_Cons: "has_crlf (a # l) \<longleftrightarrow> (a = CHR 0x0D \<and> l \<noteq> [] \<and> hd l = CHR 0x0A) \<or> has_crlf l"
  unfolding has_crlf_def by (cases l) (auto simp: Cons_eq_append_conv)

lemma not_has_crlf_Nil [simp]: "\<not> has_crlf []"
  by (simp add: has_crlf_def)

lemma split_crlf_sound: "split_crlf r = Some (l, rest) \<Longrightarrow> r = l @ crlf @ rest \<and> \<not> has_crlf l"
proof (induction r arbitrary: l rule: split_crlf.induct)
  case (1 a b cs)
  then show ?case
    by (cases "a = CHR 0x0D \<and> b = CHR 0x0A") (auto simp: has_crlf_Cons Cons_eq_append_conv hd_append split: if_splits)
qed auto

lemma split_crlf_complete: "\<not> has_crlf l \<Longrightarrow> split_crlf (l @ crlf @ rest) = Some (l, rest)"
proof (induction l)
  case (Cons a l)
  then show ?case by (cases l) (auto simp: has_crlf_Cons)
qed simp

lemma split_crlf_Some: "split_crlf r = Some (l, rest) \<longleftrightarrow> r = l @ crlf @ rest \<and> \<not> has_crlf l"
  using split_crlf_sound split_crlf_complete by blast

text \<open>The request line of a path with an optional query.\<close>

definition request_line :: "string \<Rightarrow> string \<Rightarrow> string \<Rightarrow> string \<Rightarrow> string" where
  "request_line meth path query ver = meth @ '' '' @ path @ query @ '' '' @ ver"

definition query_ok :: "string \<Rightarrow> bool" where
  "query_ok query \<longleftrightarrow> query = [] \<or> hd query = CHR ''?''"

text \<open>
  C34: the endpoint accepts exactly the requests it should. A text is a valid request for a method and a path
  exactly when its first line is the method, the path with an optional query, and \<open>HTTP/1.0\<close> or \<open>HTTP/1.1\<close>,
  separated by single spaces, where the method is not empty and the path starts with a slash.
\<close>

theorem admin_request_exact:
  "parse_admin_request r = AdminRequest.make True meth path \<longleftrightarrow>
     (\<exists>query ver rest. r = request_line meth path query ver @ crlf @ rest \<and>
        \<not> has_crlf (request_line meth path query ver) \<and> ver \<in> {''HTTP/1.0'', ''HTTP/1.1''} \<and> query_ok query \<and>
        meth \<noteq> [] \<and> CHR '' '' \<notin> set meth \<and> path \<noteq> [] \<and> hd path = CHR ''/'' \<and> CHR '' '' \<notin> set (path @ query) \<and>
        CHR ''?'' \<notin> set path)" (is "?parsed \<longleftrightarrow> ?shape")
proof
  assume p: ?parsed
  then obtain line rest after dest ver where parts: "split_crlf r = Some (line, rest)"
      "split_at CHR '' '' line = Some (meth, after)" "split_at CHR '' '' after = Some (dest, ver)"
      "ver \<in> {''HTTP/1.0'', ''HTTP/1.1''}" "path = takeWhile (\<lambda>c. c \<noteq> CHR ''?'') dest"
      "meth \<noteq> []" "path \<noteq> []" "hd path = CHR ''/''"
    by (auto simp: parse_admin_request_def invalid_request_def AdminRequest.make_def Let_def
        split: option.splits prod.splits if_splits)
  define query where "query = dropWhile (\<lambda>c. c \<noteq> CHR ''?'') dest"
  have dest: "dest = path @ query" using parts(5) by (simp add: query_def)
  have "query_ok query" unfolding query_ok_def query_def using hd_dropWhile [of "\<lambda>c. c \<noteq> CHR ''?''" dest] by blast
  moreover have "CHR ''?'' \<notin> set path" using parts(5) set_takeWhileD by fastforce
  moreover have "line = request_line meth path query ver" "CHR '' '' \<notin> set meth" "CHR '' '' \<notin> set (path @ query)"
    using parts(2,3) by (auto simp: split_at_Some request_line_def dest)
  ultimately show ?shape using parts by (auto simp: split_crlf_Some)
next
  assume ?shape
  then obtain query ver rest where r: "r = request_line meth path query ver @ crlf @ rest"
      "\<not> has_crlf (request_line meth path query ver)" "ver \<in> {''HTTP/1.0'', ''HTTP/1.1''}" "query_ok query"
      "meth \<noteq> []" "CHR '' '' \<notin> set meth" "path \<noteq> []" "hd path = CHR ''/''" "CHR '' '' \<notin> set (path @ query)"
      "CHR ''?'' \<notin> set path"
    by blast
  have "split_crlf r = Some (request_line meth path query ver, rest)" unfolding r(1) using r(2) by (rule split_crlf_complete)
  moreover have "split_at CHR '' '' (request_line meth path query ver) = Some (meth, (path @ query) @ CHR '' '' # ver)"
    using r(6) by (simp add: request_line_def)
  moreover have "split_at CHR '' '' ((path @ query) @ CHR '' '' # ver) = Some (path @ query, ver)"
    using r(9) by (rule split_at_append)
  moreover have "takeWhile (\<lambda>c. c \<noteq> CHR ''?'') (path @ query) = path"
    using r(4,10) by (cases query) (auto simp: query_ok_def takeWhile_append)
  ultimately show ?parsed using r(3,5,7,8) by (auto simp: parse_admin_request_def)
qed

section \<open>Connections\<close>

definition sessions_inv :: "'d BrokerServer \<Rightarrow> bool" where
  "sessions_inv s \<longleftrightarrow>
     unat (active_broker_sessions s) = length (live_sessions s) \<and> distinct (live_sessions s) \<and>
     active_broker_sessions s \<le> max_broker_connections (server_options s) \<and>
     (admitting s \<longrightarrow> active_broker_sessions s < max_broker_connections (server_options s) \<and> \<not> broker_accept_pending s)"

lemmas server_ops = accept_broker_client_def accept_admin_client_def schedule_retention_def set_ready_detail_def
  not_ready_def stop_server_def close_acceptors_def rearm_broker_def

text \<open>The fields that the connections depend on, and who changes them.\<close>

abbreviation session_fields :: "'d BrokerServer \<Rightarrow> ServerOptions \<times> u32 \<times> bool \<times> bool \<times> nat list" where
  "session_fields s \<equiv>
     (server_options s, active_broker_sessions s, admitting s, broker_accept_pending s, live_sessions s)"

abbreviation health_fields :: "'d BrokerServer \<Rightarrow> bool \<times> string \<times> bool" where
  "health_fields s \<equiv> (server_ready s, server_ready_detail s, stopping s)"

lemma server_retention_fields:
  "session_fields (snd (server_retention ages faults s)) = session_fields s"
  "health_fields (snd (server_retention ages faults s)) = health_fields s"
  by (simp_all add: server_retention_def split: prod.split sum.split)

lemma retention_tick_fields:
  "session_fields (retention_tick ages faults s) = session_fields s"
  "health_fields (retention_tick ages faults s) = health_fields s"
  using server_retention_fields [of ages faults "s\<lparr>retention_timer_pending := False\<rparr>"]
  by (auto simp: retention_tick_def schedule_retention_def Let_def split: prod.splits sum.splits)

lemma handle_admin_client_fields:
  "session_fields (snd (handle_admin_client env r s)) = session_fields s"
  "health_fields (snd (handle_admin_client env r s)) = health_fields s"
  by (simp_all add: handle_admin_client_def scrape_def Let_def split: option.split)

lemma sessions_inv_cong: "session_fields s1 = session_fields s \<Longrightarrow> sessions_inv s \<Longrightarrow> sessions_inv s1"
  by (simp add: sessions_inv_def)

lemma start_session_inv:
  assumes "sessions_inv s" "admitting s" "sid \<notin> set (live_sessions s)"
  shows "sessions_inv (start_session sid s)"
proof -
  have "active_broker_sessions s < max_broker_connections (server_options s)"
    using assms by (simp add: sessions_inv_def)
  then have lt: "unat (active_broker_sessions s) < unat (max_broker_connections (server_options s))"
    by (simp add: word_less_nat_alt)
  then have one: "unat (active_broker_sessions s + 1) = Suc (unat (active_broker_sessions s))"
    using unat_u32_less [of "max_broker_connections (server_options s)"] by (simp add: unat_word_ariths)
  with lt have "active_broker_sessions s + 1 \<le> max_broker_connections (server_options s)"
    by (simp add: word_le_nat_alt)
  with one assms show ?thesis by (simp add: sessions_inv_def start_session_def server_ops)
qed

lemma on_close_inv:
  assumes "sessions_inv s" "sid \<in> set (live_sessions s)"
  shows "sessions_inv (on_close sid s)"
proof -
  have "0 < unat (active_broker_sessions s)"
    using assms by (cases "live_sessions s") (auto simp: sessions_inv_def)
  then have "unat (active_broker_sessions s - 1) = unat (active_broker_sessions s) - 1"
      "active_broker_sessions s - 1 < active_broker_sessions s"
    by (auto simp: unat_sub word_le_nat_alt word_less_nat_alt unat_minus_one)
  with assms show ?thesis
    by (auto simp: sessions_inv_def on_close_def length_remove1 distinct_remove1)
qed

lemma server_handle_sessions:
  assumes "server_handle e s = Some s1" "sessions_inv s"
  shows "sessions_inv s1"
proof (cases e)
  case (SessionStarted sid)
  with assms show ?thesis by (auto intro: start_session_inv split: if_splits)
next
  case (SessionClosed sid)
  with assms show ?thesis by (auto intro: on_close_inv split: if_splits)
next
  case BrokerAccepted
  with assms show ?thesis
    by (auto simp: handle_broker_client_def server_ops sessions_inv_def not_le split: if_splits)
next
  case (AdminAnswered env r)
  with assms show ?thesis by (auto intro: sessions_inv_cong [OF handle_admin_client_fields(1)] split: if_splits)
next
  case (RetentionTick ages faults)
  with assms show ?thesis by (auto intro: sessions_inv_cong [OF retention_tick_fields(1)] split: if_splits)
qed (use assms in \<open>auto simp: sessions_inv_def server_ops split: if_splits\<close>)

lemma server_run_sessions:
  assumes "server_run es s = Some s1" "sessions_inv s"
  shows "sessions_inv s1"
  using assms by (induction es arbitrary: s) (auto split: option.splits dest: server_handle_sessions)

section \<open>A started server\<close>

lemma prepare_data_directory_ok:
  assumes "prepare_data_directory env s = (Inr u, s1)"
  shows "session_fields s1 = session_fields s \<and> health_fields s1 = (True, ''ready'', stopping s)"
proof -
  have f: "session_fields s2 = session_fields s \<and> health_fields s2 = health_fields s"
    if "server_retention ages faults (s\<lparr>server_runtime := b\<rparr>) = (r, s2)" for ages faults b r s2
    using server_retention_fields [of ages faults "s\<lparr>server_runtime := b\<rparr>"] that by simp
  show ?thesis
    using assms
    by (auto simp: prepare_data_directory_def not_ready_def set_ready_detail_def dest!: f
        split: option.splits if_splits sum.splits prod.splits)
qed

lemma start_server_ok:
  assumes "start_server env s = (Inr u, s1)"
  shows "session_fields s1 =
      (server_options s, active_broker_sessions s, admitting s, True, live_sessions s) \<and>
    health_fields s1 = (True, ''ready'', False)"
proof -
  obtain s2 where s2: "prepare_data_directory env s = (Inr (), s2)"
      "s1 = schedule_retention (accept_admin_client (accept_broker_client
         (s2\<lparr>broker_acceptor_open := True, admin_acceptor_open := True, stopping := False\<rparr>)))"
    using assms by (auto simp: start_server_def split: prod.splits sum.splits)
  show ?thesis using prepare_data_directory_ok [OF s2(1)] by (simp add: s2(2) server_ops)
qed

text \<open>Only \<open>stop\<close> ends readiness.\<close>

lemma server_handle_health:
  assumes "server_handle e s = Some s1" "e \<noteq> StopCalled"
  shows "health_fields s1 = health_fields s"
proof (cases e)
  case (AdminAnswered env r)
  with assms handle_admin_client_fields(2) [of env r s] show ?thesis by (auto split: if_splits)
next
  case (RetentionTick ages faults)
  with assms retention_tick_fields(2) [of ages faults s] show ?thesis by (auto split: if_splits)
qed (use assms in \<open>auto simp: handle_broker_client_def start_session_def on_close_def server_ops split: if_splits\<close>)

lemma server_run_health:
  assumes "server_run es s = Some s1" "StopCalled \<notin> set es"
  shows "health_fields s1 = health_fields s"
  using assms
proof (induction es arbitrary: s)
  case (Cons e es)
  then obtain s2 where "server_handle e s = Some s2" "server_run es s2 = Some s1" by (auto split: option.splits)
  moreover have "e \<noteq> StopCalled" using Cons.prems(2) by auto
  ultimately show ?case using Cons server_handle_health [of e s s2] by simp
qed simp

lemma new_server_sessions: "sessions_inv (new_server bounds zero opts info t tok dir)"
  by (simp add: sessions_inv_def new_server_def BrokerServer.make_def)

lemma started_sessions:
  assumes "start_server env (new_server bounds zero opts info t tok dir) = (Inr u, s)"
  shows "sessions_inv s" "server_options s = opts"
  using start_server_ok [OF assms] by (simp_all add: sessions_inv_def new_server_def BrokerServer.make_def)

lemma server_handle_options:
  assumes "server_handle e s = Some s1"
  shows "server_options s1 = server_options s"
proof (cases e)
  case (AdminAnswered env r)
  with assms handle_admin_client_fields(1) [of env r s] show ?thesis by (auto split: if_splits)
next
  case (RetentionTick ages faults)
  with assms retention_tick_fields(1) [of ages faults s] show ?thesis by (auto split: if_splits)
qed (use assms in \<open>auto simp: handle_broker_client_def start_session_def on_close_def server_ops split: if_splits\<close>)

lemma server_run_options: "server_run es s = Some s1 \<Longrightarrow> server_options s1 = server_options s"
  by (induction es arbitrary: s) (auto split: option.splits dest: server_handle_options)

text \<open>
  C11: the limit on broker connections holds. Whatever happens on a started server, and however the ends of
  sessions interleave with the admission of new ones, the counter of active sessions is the number of session
  objects, and that number never exceeds the configured limit.
\<close>

theorem connection_limit_enforced:
  assumes "start_server env (new_server bounds zero opts info t tok dir) = (Inr u, s0)" "server_run es s0 = Some s"
  shows "unat (active_broker_sessions s) = length (live_sessions s) \<and> distinct (live_sessions s) \<and>
    length (live_sessions s) \<le> unat (max_broker_connections opts)"
proof -
  have "sessions_inv s" "server_options s = opts"
    using server_run_sessions [OF assms(2)] server_run_options [OF assms(2)] started_sessions [OF assms(1)] by simp_all
  then show ?thesis by (auto simp: sessions_inv_def word_le_nat_alt)
qed

text \<open>A server on an empty data directory that admits one connection.\<close>

definition plain_env :: "nat ServerEnv" where
  "plain_env = ServerEnv.make zstd_stored (StartupEnv.make ''data'' (\<lambda>_. True) (\<lambda>_. None) ''now'') None None
     True (\<lambda>_ _ _. 0) (\<lambda>_ _ _. None) 1 (\<lambda>_. None) (\<lambda>_ _. None)"

definition plain_server :: "nat BrokerServer" where
  "plain_server = new_server [1, 2] 0 (default_options\<lparr>max_broker_connections := 1\<rparr>)
     (BuildInfo.make ''boltstream'' ''1'' ''sha'' ''Release'' ''gcc'' ''5'' ''2'') ''now'' [] []"

lemma plain_start:
  "\<exists>s. start_server plain_env plain_server = (Inr (), s) \<and> broker_acceptor_open s \<and> broker_accept_pending s \<and>
     \<not> admitting s \<and> \<not> io_stopped s \<and> active_broker_sessions s = 0 \<and> live_sessions s = [] \<and>
     max_broker_connections (server_options s) = 1 \<and> \<not> stopping s"
  by (simp add: plain_env_def plain_server_def new_server_def BrokerServer.make_def ServerEnv.make_def new_runtime_def
      BrokerRuntime.make_def runtime_config_def BrokerConfig.make_def start_server_def prepare_data_directory_def
      load_existing_topics_def server_retention_def run_retention_def listen_on_def make_endpoint_def default_options_def
      ServerOptions.make_def Endpoint.make_def checked_def Let_def server_ops)

theorem connection_limit_enforced_witness:
  "\<exists>s0 s. start_server plain_env plain_server = (Inr (), s0) \<and>
     server_run [BrokerAccepted, SessionStarted 7, BrokerAccepted, SessionClosed 7, BrokerAccepted, SessionStarted 8] s0 = Some s \<and>
     live_sessions s = [8] \<and> unat (active_broker_sessions s) = length (live_sessions s)"
proof -
  obtain s0 where s0: "start_server plain_env plain_server = (Inr (), s0)" "broker_acceptor_open s0" "broker_accept_pending s0"
      "\<not> admitting s0" "\<not> io_stopped s0" "active_broker_sessions s0 = 0" "live_sessions s0 = []"
      "max_broker_connections (server_options s0) = 1"
    using plain_start by blast
  let ?es = "[BrokerAccepted, SessionStarted 7, BrokerAccepted, SessionClosed 7, BrokerAccepted, SessionStarted 8] :: nat ServerEvent list"
  obtain s where s: "server_run ?es s0 = Some s" "live_sessions s = [8]"
    using s0(2-8) by (simp add: handle_broker_client_def start_session_def on_close_def server_ops)
  have "unat (active_broker_sessions s) = length (live_sessions s)"
    using connection_limit_enforced [OF s0(1) [unfolded plain_server_def] s(1)] by simp
  with s0(1) s show ?thesis by blast
qed

section \<open>A failed accept\<close>

text \<open>The handler of a failed accept returns without another accept, whatever the error was.\<close>

lemma deaf_step:
  assumes "server_handle e s = Some s1" "\<not> broker_accept_pending s" "\<not> admitting s"
  shows "\<not> broker_accept_pending s1 \<and> \<not> admitting s1 \<and> set (live_sessions s1) \<subseteq> set (live_sessions s)"
proof (cases e)
  case (AdminAnswered env r)
  with assms handle_admin_client_fields(1) [of env r s] show ?thesis by (auto split: if_splits)
next
  case (RetentionTick ages faults)
  with assms retention_tick_fields(1) [of ages faults s] show ?thesis by (auto split: if_splits)
qed (use assms set_remove1_subset in \<open>fastforce simp: on_close_def server_ops split: if_splits\<close>)+

lemma deaf_run:
  assumes "server_run es s = Some s1" "\<not> broker_accept_pending s" "\<not> admitting s"
  shows "set (live_sessions s1) \<subseteq> set (live_sessions s)"
  using assms
proof (induction es arbitrary: s)
  case (Cons e es)
  then obtain s2 where "server_handle e s = Some s2" "server_run es s2 = Some s1" by (auto split: option.splits)
  with Cons deaf_step [of e s s2] show ?case by force
qed simp

definition ready_request :: string where
  "ready_request = ''GET /health/ready HTTP/1.1'' @ crlf @ crlf"

lemma ready_answer:
  "fst (handle_admin_client env (Some ready_request) s) =
     http_response (if server_ready s then ''200 OK'' else ''503 Service Unavailable'') ''application/json''
       (health_json (if server_ready s then ''ready'' else ''not_ready'') s) []"
proof -
  have "parse_admin_request ready_request = AdminRequest.make True ''GET'' ''/health/ready''"
    by (simp add: ready_request_def parse_admin_request_def)
  then show ?thesis by (simp add: handle_admin_client_def AdminRequest.make_def)
qed

text \<open>
  C32: one failed accept ends the service and the endpoint does not tell. After an accept of the broker socket
  failed, for whatever reason, no event lets a new connection in: the sessions that remain are among those that
  existed. Until \<open>stop\<close> is called the endpoint nevertheless answers that the server is ready.
\<close>

theorem failed_accept_ends_service:
  assumes "start_server env (new_server bounds zero opts info t tok dir) = (Inr u, s0)" "server_run es s0 = Some s"
    and "server_handle (BrokerAcceptFailed what) s = Some s1" "server_run later s1 = Some s2"
  shows "set (live_sessions s2) \<subseteq> set (live_sessions s) \<and>
    (StopCalled \<notin> set es \<union> set later \<longrightarrow>
      fst (handle_admin_client scrape_env (Some ready_request) s2) =
        http_response ''200 OK'' ''application/json'' (health_json ''ready'' s2) [])"
proof (intro conjI impI)
  have s1: "s1 = s\<lparr>broker_accept_pending := False\<rparr>" "broker_accept_pending s"
    using assms(3) by (auto split: if_splits)
  have "sessions_inv s" using server_run_sessions [OF assms(2)] started_sessions(1) [OF assms(1)] by simp
  then have "\<not> admitting s" using s1(2) by (auto simp: sessions_inv_def)
  then show "set (live_sessions s2) \<subseteq> set (live_sessions s)"
    using deaf_run [OF assms(4)] s1(1) by simp
  assume "StopCalled \<notin> set es \<union> set later"
  then have "health_fields s2 = health_fields s0"
    using server_run_health [OF assms(2)] server_run_health [OF assms(4)] s1(1) by simp
  then have "server_ready s2" using start_server_ok [OF assms(1)] by simp
  then show "fst (handle_admin_client scrape_env (Some ready_request) s2) =
      http_response ''200 OK'' ''application/json'' (health_json ''ready'' s2) []"
    by (simp add: ready_answer)
qed

theorem failed_accept_ends_service_witness:
  "\<exists>s0 s1. start_server plain_env plain_server = (Inr (), s0) \<and>
     server_handle (BrokerAcceptFailed ''Too many open files'') s0 = Some s1 \<and> server_run [SessionClosed 3] s1 = None \<and>
     server_run [BrokerAccepted] s1 = None \<and> live_sessions s1 = [] \<and>
     (\<forall>scrape_env. fst (handle_admin_client scrape_env (Some ready_request) s1) =
       http_response ''200 OK'' ''application/json'' (health_json ''ready'' s1) [])"
proof -
  obtain s0 where s0: "start_server plain_env plain_server = (Inr (), s0)" "broker_accept_pending s0" "\<not> io_stopped s0"
      "live_sessions s0 = []"
    using plain_start by blast
  obtain s1 where s1: "server_handle (BrokerAcceptFailed ''Too many open files'') s0 = Some s1" "live_sessions s1 = []"
      "\<not> broker_accept_pending s1"
    using s0 by simp
  have "fst (handle_admin_client scrape_env (Some ready_request) s1) =
      http_response ''200 OK'' ''application/json'' (health_json ''ready'' s1) []" for scrape_env
    using failed_accept_ends_service [OF s0(1) [unfolded plain_server_def], of "[]" s0 "''Too many open files''" s1 "[]" s1] s1(1)
    by simp
  with s0 s1 show ?thesis by auto
qed

end
