(* ===== verification/Bolt_Crash_Proof.thy ===== *)
theory Bolt_Crash_Proof
  imports Bolt_Batches
begin

text \<open>
  The crash drill of the repository (\<open>src/src/recovery/proof.cpp\<close>): it writes three records, leaves one of three
  kinds of damage on disk, reopens the partition and checks the outcome. Shown here: the drill succeeds in every
  scenario, whatever the clock shows and whatever bytes zstd produces.
\<close>

section \<open>Constants\<close>

datatype FaultScenario = TornRecord | PartialBatch | StaleIndex

record ProofResult =
  proof_scenario :: FaultScenario
  proof_records_recovered :: nat
  proof_next_offset :: u64
  proof_bytes_truncated :: nat
  proof_indexes_rebuilt :: nat
  log_bytes_before :: nat
  log_bytes_after :: nat
  index_bytes_after :: nat

fun scenario_name :: "FaultScenario \<Rightarrow> string" where
  "scenario_name TornRecord = ''torn-record''"
| "scenario_name PartialBatch = ''partial-batch''"
| "scenario_name StaleIndex = ''stale-index''"

definition scenarios :: "FaultScenario list" where
  "scenarios = [TornRecord, PartialBatch, StaleIndex]"

definition parse_scenario :: "string \<Rightarrow> string + FaultScenario" where
  "parse_scenario name =
     (case find (\<lambda>sc. scenario_name sc = name) scenarios of
        Some sc \<Rightarrow> Inr sc | None \<Rightarrow> Inl (''unknown crash scenario: '' @ name))"

definition kTopic :: string where "kTopic = ''phase13-recovery''"

definition kKeys :: "string list" where "kKeys = [''alpha'', ''beta'', ''gamma'']"

definition kValues :: "string list" where "kValues = [''committed-0'', ''committed-1'', ''committed-2'']"

definition proof_index_entry_bytes :: nat where "proof_index_entry_bytes = 20"

section \<open>Staging\<close>

definition proof_options :: PartitionLogOptions where
  "proof_options = PartitionLogOptions.make kTopic 0 (256 * 1024 * 1024) (60 * 60) (1024 * 1024)"

definition open_proof_log :: "zstd \<Rightarrow> files \<Rightarrow> string + PartitionLog" where
  "open_proof_log z fs = open_log z proof_options fs"

text \<open>The clock and the file system as each append of a run sees them.\<close>

type_synonym drill_env = "nat \<Rightarrow> AppendEnv"

fun append_pairs :: "drill_env \<Rightarrow> nat \<Rightarrow> (string \<times> string) list \<Rightarrow> PartitionLog \<Rightarrow> string + PartitionLog" where
  "append_pairs env i [] log = Inr log"
| "append_pairs env i ((k, v) # rest) log =
     (case append_record (env i) (bytes_of_string k) (bytes_of_string v) log of
        (Inl what, _) \<Rightarrow> Inl what
      | (Inr _, log1) \<Rightarrow> append_pairs env (Suc i) rest log1)"

definition append_seed :: "drill_env \<Rightarrow> PartitionLog \<Rightarrow> string + PartitionLog" where
  "append_seed env log = append_pairs env 0 (zip kKeys kValues) log"

text \<open>\<open>path::extension\<close> of a file name.\<close>

definition path_extension :: "string \<Rightarrow> string" where
  "path_extension name =
     (let suffix = takeWhile (\<lambda>c. c \<noteq> CHR ''.'') (rev name) in
      if length name \<le> Suc (length suffix) then [] else CHR ''.'' # rev suffix)"

definition only_file :: "string \<Rightarrow> files \<Rightarrow> string \<Rightarrow> string + string" where
  "only_file dir fs extension =
     (case filter (\<lambda>name. path_extension name = extension) (map fst fs) of
        [name] \<Rightarrow> Inr name
      | _ \<Rightarrow> Inl (''expected exactly one '' @ extension @ '' file in '' @ dir))"

definition lost_records :: "AppendRecord list" where
  "lost_records = [AppendRecord.make (bytes_of_string ''delta'') (bytes_of_string ''batch-must-not-survive-0''),
     AppendRecord.make (bytes_of_string ''epsilon'') (bytes_of_string ''batch-must-not-survive-1'')]"

text \<open>The append that the crash interrupts, made in full on a second log.\<close>

definition append_lost ::
  "zstd \<Rightarrow> AppendEnv \<Rightarrow> u64 \<Rightarrow> FaultScenario \<Rightarrow> PartitionLog \<Rightarrow> string + PartitionLog" where
  "append_lost z env ts sc donor =
     (if sc = TornRecord
      then (case append_record env (bytes_of_string ''delta'') (bytes_of_string ''must-not-survive'') donor of
              (Inl what, _) \<Rightarrow> Inl what | (Inr _, donor1) \<Rightarrow> Inr donor1)
      else let canonical = encode_record_set (batch_records lost_records) in
        (case compress z Codec_Zstd canonical 3 of
           Inl what \<Rightarrow> Inl what
         | Inr encoded \<Rightarrow>
            (case append_encoded_batch z ts None Codec_Zstd encoded (of_nat (length canonical)) lost_records donor of
               (Inl what, _) \<Rightarrow> Inl what | (Inr _, donor1) \<Rightarrow> Inr donor1)))"

definition donor_suffix :: "zstd \<Rightarrow> drill_env \<Rightarrow> u64 \<Rightarrow> FaultScenario \<Rightarrow> string + bytes" where
  "donor_suffix z env ts sc =
     (case open_proof_log z [] of
        Inl what \<Rightarrow> Inl what
      | Inr donor0 \<Rightarrow>
         (case append_seed env donor0 of
            Inl what \<Rightarrow> Inl what
          | Inr donor \<Rightarrow>
             (case segment_summaries donor of
                [summary] \<Rightarrow>
                  (case append_lost z (env 3) ts sc donor of
                     Inl what \<Rightarrow> Inl what
                   | Inr donor1 \<Rightarrow>
                      (case map_of (directory donor1) (SegmentSummary.log_path summary) of
                         None \<Rightarrow> Inl ''failed to read donor segment''
                       | Some content \<Rightarrow>
                           if length content \<le> SegmentSummary.log_bytes summary + 1
                           then Inl ''donor mutation was not appended''
                           else Inr (drop (SegmentSummary.log_bytes summary) content)))
              | _ \<Rightarrow> Inl ''donor unexpectedly rolled segments'')))"

text \<open>
  The partition directory that \<open>stage_crash_state\<close> leaves. \<open>create_fault\<close> is a failure to create the directory,
  \<open>write_fails\<close> a failure of the last write.
\<close>

definition stage_crash_state ::
  "zstd \<Rightarrow> drill_env \<Rightarrow> drill_env \<Rightarrow> u64 \<Rightarrow> string option \<Rightarrow> bool \<Rightarrow> string \<Rightarrow> FaultScenario \<Rightarrow> string + files" where
  "stage_crash_state z env donor_env ts create_fault write_fails dir sc =
     (case create_fault of
        Some what \<Rightarrow> Inl (''failed to create crash root: '' @ what)
      | None \<Rightarrow>
         (case open_proof_log z [] of
            Inl what \<Rightarrow> Inl what
          | Inr log0 \<Rightarrow>
             (case append_seed env log0 of
                Inl what \<Rightarrow> Inl what
              | Inr log \<Rightarrow>
                 (case only_file dir (directory log) ''.log'' of
                    Inl what \<Rightarrow> Inl what
                  | Inr log_file \<Rightarrow>
                     (case only_file dir (directory log) ''.index'' of
                        Inl what \<Rightarrow> Inl what
                      | Inr index_file \<Rightarrow>
                         if sc = StaleIndex
                         then (if write_fails then Inl ''failed to stage partial index append''
                               else Inr (append_file (directory log) index_file [0, 0, 0, 0, 0, 0, 3]))
                         else (case donor_suffix z donor_env ts sc of
                             Inl what \<Rightarrow> Inl what
                           | Inr suffix \<Rightarrow>
                               if write_fails then Inl ''failed to stage incomplete log append''
                               else Inr (append_file (directory log) log_file
                                 (take (max 4 (length suffix div 2)) suffix))))))))"

section \<open>Verification\<close>

definition committed_prefix :: "Record list \<Rightarrow> bool" where
  "committed_prefix recs \<longleftrightarrow>
     (\<forall>i < length recs. RecordMetadata.offset (Record.metadata (recs ! i)) = of_nat i \<and>
        string_of_bytes (Record.key (recs ! i)) = kKeys ! i \<and> string_of_bytes (Record.val (recs ! i)) = kValues ! i)"

definition verify_crash_recovery :: "zstd \<Rightarrow> string \<Rightarrow> files \<Rightarrow> FaultScenario \<Rightarrow> string + ProofResult" where
  "verify_crash_recovery z dir fs sc =
     (case only_file dir fs ''.log'' of
        Inl what \<Rightarrow> Inl what
      | Inr log_file \<Rightarrow>
         (case open_proof_log z fs of
            Inl what \<Rightarrow> Inl what
          | Inr recovered \<Rightarrow>
             (case read_from z 0 100 0 recovered of
                Inl what \<Rightarrow> Inl what
              | Inr recs \<Rightarrow>
                 (case only_file dir (directory recovered) ''.index'' of
                    Inl what \<Rightarrow> Inl what
                  | Inr index_file \<Rightarrow>
                     (let stats = recovery_stats' recovered;
                          r = ProofResult.make sc (length recs) (next_offset' recovered) (bytes_truncated stats)
                            (indexes_rebuilt stats) (file_size_or_zero fs log_file)
                            (file_size_or_zero (directory recovered) log_file)
                            (file_size_or_zero (directory recovered) index_file) in
                      if length recs \<noteq> length kKeys \<or> unat (proof_next_offset r) \<noteq> length kKeys \<or>
                         proof_indexes_rebuilt r \<noteq> 1 \<or> index_bytes_after r \<noteq> length kKeys * proof_index_entry_bytes
                      then Inl ''recovered storage shape does not match the committed prefix''
                      else if \<not> committed_prefix recs
                      then Inl ''recovered logical records do not match the committed prefix''
                      else if sc \<noteq> StaleIndex \<and> (proof_bytes_truncated r = 0 \<or> log_bytes_after r \<ge> log_bytes_before r)
                      then Inl ''incomplete log suffix was not truncated''
                      else if sc = StaleIndex \<and> proof_bytes_truncated r \<noteq> 0
                      then Inl ''index-only recovery unexpectedly truncated the log''
                      else Inr r)))))"

section \<open>Logs in one segment\<close>

text \<open>A log that satisfies its invariant and has all its data in the first segment.\<close>

definition one_segment :: "zstd \<Rightarrow> PartitionLog \<Rightarrow> bytes \<Rightarrow> bytes \<Rightarrow> bool" where
  "one_segment z log c x \<longleftrightarrow>
     log_inv z log \<and> options' log = proof_options \<and> directory log = [(segment_path 0, c), (index_path 0, x)] \<and>
     (\<forall>e \<in> set (index' log). segment e = segment_path 0)"

lemma one_segment_active: "one_segment z log c x \<Longrightarrow> active_segment_base (index' log) n = 0"
  by (auto simp: one_segment_def active_segment_base_def parse_base_offset_iff [THEN iffD2])

lemma proof_topic_valid: "is_valid_topic_name kTopic"
  by (simp add: kTopic_def is_valid_topic_name_def less_eq_char_def)

lemma proof_options_simps [simp]:
  "PartitionLogOptions.topic proof_options = kTopic" "max_segment_bytes proof_options = 268435456"
  "segment_max_age_seconds proof_options = 3600" "max_uncompressed_batch_bytes proof_options = 1048576"
  by (simp_all add: proof_options_def PartitionLogOptions.make_def)

lemma open_proof_empty: "\<exists>log. open_proof_log z [] = Inr log \<and> one_segment z log [] [] \<and> next_offset' log = 0 \<and>
  index' log = [] \<and> readable z log = []"
proof -
  let ?s = "PartitionLog.make proof_options [] [] (RecoveryStats.make 0 0 0 0 0) 0"
  obtain log where log: "open_log z proof_options [] = Inr log" "log = open_active_segment (recover z ?s)"
    using proof_topic_valid by (simp add: open_log_def)
  have "directory log = [(segment_path 0, []), (index_path 0, [])]" "index' log = []"
    by (simp_all add: log(2) recover_def open_active_segment_def PartitionLog.make_def active_segment_base_def write_item_def
        append_file_def file_content_def list_segments_def)
  then show ?thesis using log(1) open_empty_log [OF log(1)] by (simp add: open_proof_log_def one_segment_def)
qed

text \<open>Appends that see no failure and no old file stay in the segment.\<close>

definition calm :: "AppendEnv \<Rightarrow> bool" where
  "calm env \<longleftrightarrow> (\<forall>i. io_fault env i = None) \<and> (\<forall>i path. file_age_seconds env i path < 3600)"

lemma calm_append:
  assumes log: "one_segment z log c x" and "calm env" and room: "unat (next_offset' log) < 2 ^ 64 - 1"
    and small: "length c < 1048576" "length k + length v < 1024"
  shows "\<exists>m log1 e x1. append_record env k v log = (Inr m, log1) \<and> one_segment z log1 (c @ e) x1 \<and>
    encode_record (next_offset' log) (unix_time_ns env 0) k v = Inr e \<and>
    next_offset' log1 = next_offset' log + 1 \<and> length (index' log1) = Suc (length (index' log)) \<and>
    RecordMetadata.offset m = next_offset' log \<and> readable z log1 = readable z log @ [Record.make m k v]"
proof -
  define e where "e = write_u32 (of_nat (36 + length k + length v)) @
    sealed (record_body (next_offset' log) (unix_time_ns env 0) k v)"
  have enc: "encode_record (next_offset' log) (unix_time_ns env 0) k v = Inr e"
    using small(2) by (simp add: encode_record_iff e_def)
  have len: "length e = 40 + length k + length v"
    using small(2) by (simp add: e_def)
  have dir: "directory log = [(segment_path 0, c), (index_path 0, x)]" "options' log = proof_options"
    using log by (simp_all add: one_segment_def)
  have no_roll: "\<not> roll_due env proof_options 0 e st" if "current_size st = length c" for st
    using assms(2) small len that by (auto simp: roll_due_def calm_def not_le)
  let ?n = "of_nat (length e - 4) :: u32"
  define log1 where "log1 = log\<lparr>directory := write_item 0 e (index_entry_bytes (next_offset' log) (length c) ?n) (directory log),
      index' := index' log @ [IndexEntry.make (next_offset' log) (length c) ?n (segment_path 0) 0 1],
      next_offset' := next_offset' log + 1\<rparr>"
  let ?m = "RecordMetadata.make kTopic (partition_id proof_options) (next_offset' log) (unix_time_ns env 0) (of_nat (length e))"
  have run: "append_batch env [AppendRecord.make k v] log = (Inr [?m], log1)"
    using assms(2) no_roll
    by (simp add: append_batch_def one_segment_active [OF log] dir enc file_size_or_zero_def AppendRecord.make_def Let_def
        calm_def log1_def)
  have ok: "log_inv z log1 \<and> readable z log1 = readable z log @ [Record.make ?m k v]"
    using append_batch_ok [OF _ _ run, of z] log room by (simp add: one_segment_def AppendRecord.make_def)
  have "directory log1 = [(segment_path 0, c @ e), (index_path 0, x @ index_entry_bytes (next_offset' log) (length c) ?n)]"
    by (simp add: log1_def dir write_item_def append_file_def file_content_def)
  then have "one_segment z log1 (c @ e) (x @ index_entry_bytes (next_offset' log) (length c) ?n)"
    using log ok by (auto simp: one_segment_def log1_def IndexEntry.make_def)
  moreover have "append_record env k v log = (Inr ?m, log1)" using run by (simp add: append_record_def)
  ultimately show ?thesis using enc ok by (auto simp: log1_def RecordMetadata.make_def)
qed

lemma encoded_length: "encode_record off ts k v = Inr e \<Longrightarrow> length e = 40 + length k + length v"
  by (auto simp: encode_record_iff)

text \<open>The log that the seed leaves.\<close>

definition seeded :: "zstd \<Rightarrow> PartitionLog \<Rightarrow> bytes \<Rightarrow> bytes \<Rightarrow> bool" where
  "seeded z log c x \<longleftrightarrow> one_segment z log c x \<and> length c < 4096 \<and> next_offset' log = 3 \<and> length (index' log) = 3 \<and>
     length (readable z log) = 3 \<and> committed_prefix (readable z log)"

lemma append_seed_ok:
  assumes "one_segment z log [] []" "next_offset' log = 0" "index' log = []" "readable z log = []" "\<forall>i. calm (env i)"
  shows "\<exists>log3 c x. append_seed env log = Inr log3 \<and> seeded z log3 c x"
proof -
  let ?b = bytes_of_string
  have calm: "calm (env i)" for i using assms(5) by blast
  obtain m1 l1 e1 x1 where 1: "append_record (env 0) (?b ''alpha'') (?b ''committed-0'') log = (Inr m1, l1)"
      "one_segment z l1 ([] @ e1) x1" "encode_record (next_offset' log) (unix_time_ns (env 0) 0) (?b ''alpha'') (?b ''committed-0'') = Inr e1"
      "next_offset' l1 = next_offset' log + 1" "length (index' l1) = Suc (length (index' log))"
      "RecordMetadata.offset m1 = next_offset' log"
      "readable z l1 = readable z log @ [Record.make m1 (?b ''alpha'') (?b ''committed-0'')]"
    using calm_append [OF assms(1) calm [of 0], of "?b ''alpha''" "?b ''committed-0''"] assms(2) by force
  have len1: "length e1 = 56" using encoded_length [OF 1(3)] by simp
  obtain m2 l2 e2 x2 where 2: "append_record (env 1) (?b ''beta'') (?b ''committed-1'') l1 = (Inr m2, l2)"
      "one_segment z l2 (([] @ e1) @ e2) x2" "encode_record (next_offset' l1) (unix_time_ns (env 1) 0) (?b ''beta'') (?b ''committed-1'') = Inr e2"
      "next_offset' l2 = next_offset' l1 + 1" "length (index' l2) = Suc (length (index' l1))"
      "RecordMetadata.offset m2 = next_offset' l1"
      "readable z l2 = readable z l1 @ [Record.make m2 (?b ''beta'') (?b ''committed-1'')]"
    using calm_append [OF 1(2) calm [of 1], of "?b ''beta''" "?b ''committed-1''"] 1(4) assms(2) len1 by force
  have len2: "length e2 = 55" using encoded_length [OF 2(3)] by simp
  obtain m3 l3 e3 x3 where 3: "append_record (env 2) (?b ''gamma'') (?b ''committed-2'') l2 = (Inr m3, l3)"
      "one_segment z l3 ((([] @ e1) @ e2) @ e3) x3" "encode_record (next_offset' l2) (unix_time_ns (env 2) 0) (?b ''gamma'') (?b ''committed-2'') = Inr e3"
      "next_offset' l3 = next_offset' l2 + 1" "length (index' l3) = Suc (length (index' l2))"
      "RecordMetadata.offset m3 = next_offset' l2"
      "readable z l3 = readable z l2 @ [Record.make m3 (?b ''gamma'') (?b ''committed-2'')]"
    using calm_append [OF 2(2) calm [of 2], of "?b ''gamma''" "?b ''committed-2''"] 1(4) 2(4) assms(2) len1 len2 by force
  have len3: "length e3 = 56" using encoded_length [OF 3(3)] by simp
  note offs = 1(4) 2(4) 3(4) assms(2)
  have "append_seed env log = Inr l3"
    using 1(1) 2(1) 3(1) by (simp add: append_seed_def kKeys_def kValues_def numeral_2_eq_2)
  moreover have "committed_prefix (readable z l3)"
    using 1(6) 2(6) 3(6) offs
    by (auto simp: committed_prefix_def kKeys_def kValues_def Record.make_def less_Suc_eq 1(7) 2(7) 3(7) assms(4))
  moreover have "one_segment z l3 (e1 @ e2 @ e3) x3" using 3(2) by simp
  ultimately have "append_seed env log = Inr l3 \<and> seeded z l3 (e1 @ e2 @ e3) x3"
    by (simp add: seeded_def offs 1(5,7) 2(5,7) 3(5,7) assms(3,4) len1 len2 len3)
  then show ?thesis by blast
qed

text \<open>The files of such a log, and its summary.\<close>

lemma format_no_dot: "CHR ''.'' \<notin> set (format_base_offset b)"
  using parse_base_offset_iff [of "segment_path b" b]
  by (auto simp: parse_base_offset_def segment_path_def is_digit_def split: if_splits)

lemma extension_append:
  assumes "CHR ''.'' \<notin> set suffix" "name \<noteq> []"
  shows "path_extension (name @ CHR ''.'' # suffix) = CHR ''.'' # suffix"
  using assms by (cases name rule: rev_cases) (simp_all add: path_extension_def takeWhile_append Let_def)

lemma file_extensions: "path_extension (segment_path b) = ''.log''" "path_extension (index_path b) = ''.index''"
proof -
  have "format_base_offset b \<noteq> []" using length_format_base_offset [of b] by (metis list.size(3) zero_neq_numeral)
  then show "path_extension (segment_path b) = ''.log''" "path_extension (index_path b) = ''.index''"
    using extension_append [of "''log''" "format_base_offset b"] extension_append [of "''index''" "format_base_offset b"]
    by (simp_all add: segment_path_def index_path_def)
qed

lemma only_files:
  "only_file dir [(segment_path 0, c), (index_path 0, x)] ''.log'' = Inr (segment_path 0)"
  "only_file dir [(segment_path 0, c), (index_path 0, x)] ''.index'' = Inr (index_path 0)"
  by (simp_all add: only_file_def file_extensions)

lemma list_one_segment: "list_segments [(segment_path 0, c), (index_path 0, x)] = [(0, segment_path 0)]"
proof -
  let ?fs = "[(segment_path 0, c), (index_path 0, x)]"
  have "segment_bases ?fs = {0}" by (auto simp: segment_bases_def split: if_splits)
  then show ?thesis by (simp add: list_segments_eq)
qed

lemma summary_fold:
  assumes "\<forall>e \<in> set es. segment e = path"
    and "f = (\<lambda>m entry. case map_of m (segment entry) of
        None \<Rightarrow> g m entry
      | Some summary \<Rightarrow> AList.update (segment entry) (summary
          \<lparr>first_offset := min (first_offset summary) (IndexEntry.offset entry),
           last_offset := max (last_offset summary) (IndexEntry.offset entry)\<rparr>) m)"
  shows "\<exists>s'. foldl f [(path, s)] es = [(path, s')] \<and> SegmentSummary.log_bytes s' = SegmentSummary.log_bytes s \<and>
    SegmentSummary.log_path s' = SegmentSummary.log_path s"
  using assms(1)
proof (induction es arbitrary: s)
  case (Cons e es)
  then show ?case
    using Cons.IH [of "s\<lparr>first_offset := min (first_offset s) (IndexEntry.offset e),
      last_offset := max (last_offset s) (IndexEntry.offset e)\<rparr>"]
    by (simp add: assms(2))
qed simp

lemma one_segment_summary:
  assumes "one_segment z log c x"
  shows "\<exists>summary. segment_summaries log = [summary] \<and> SegmentSummary.log_bytes summary = length c \<and>
    SegmentSummary.log_path summary = segment_path 0"
proof -
  have log: "directory log = [(segment_path 0, c), (index_path 0, x)]" "\<forall>e \<in> set (index' log). segment e = segment_path 0"
    using assms by (auto simp: one_segment_def)
  have single: "\<exists>summary. sort_key base_offset (map snd (sort_key fst m)) = [summary] \<and> P summary"
    if "\<exists>s'. m = [(path, s')] \<and> P s'" for m :: "(string \<times> SegmentSummary) list" and path P
    using that by auto
  let ?first = "SegmentSummary.make 0 0 0 (length c) (0 = active_base log) (segment_path 0)"
  have size: "file_size_or_zero [(segment_path 0, c), (index_path 0, x)] (segment_path 0) = length c"
    by (simp add: file_size_or_zero_def)
  have fields: "length c = SegmentSummary.log_bytes ?first" "segment_path 0 = SegmentSummary.log_path ?first"
    by (simp_all add: SegmentSummary.make_def)
  show ?thesis
    unfolding segment_summaries_def log(1) list_one_segment Let_def list.map prod.case size
    apply (rule single)
    apply (subst (2) fields(1), subst (5) fields(2))
    apply (rule summary_fold [OF log(2) refl])
    done
qed

section \<open>The interrupted append\<close>

text \<open>An item that a segment holds: a length word and as many bytes.\<close>

definition whole_item :: "bytes \<Rightarrow> bool" where
  "whole_item e \<longleftrightarrow> (\<exists>n body. e = write_u32 n @ body \<and> length body = unat n \<and> 4 < unat n)"

lemma whole_item_half:
  assumes "whole_item e"
  shows "torn_item (take (max 4 (length e div 2)) e)" "take (max 4 (length e div 2)) e \<noteq> []" "4 < length e"
proof -
  obtain n body where e: "e = write_u32 n @ body" "length body = unat n" "4 < unat n"
    using assms by (auto simp: whole_item_def)
  have len: "length e = 4 + unat n" using e by simp
  then have "max 4 (length e div 2) < 4 + unat n" using e(3) by simp
  then show "torn_item (take (max 4 (length e div 2)) e)" unfolding torn_item_def e(1) using e(2) by blast
  show "4 < length e" using len e(3) by simp
  then show "take (max 4 (length e div 2)) e \<noteq> []" by auto
qed

definition lost_canonical :: bytes where
  "lost_canonical = encode_record_set (batch_records lost_records)"

lemma length_lost_canonical: "length lost_canonical = 80"
  by (simp add: lost_canonical_def lost_records_def encode_record_set_def write_batch_record_def write_bytes_def
      BatchRecord.make_def AppendRecord.make_def)

text \<open>What the drill needs of zstd: it packs the eighty bytes into less than a mebibyte and gives them back.\<close>

definition packs_lost :: "zstd \<Rightarrow> bool" where
  "packs_lost z \<longleftrightarrow> zstd_roundtrip z \<and> (\<exists>out. ZSTD_compress z lost_canonical 3 = Inr out \<and> length out < 1048576)"

lemma record_whole_item:
  assumes "encode_record off ts k v = Inr e" "length k + length v < 1024"
  shows "whole_item e"
proof -
  let ?n = "of_nat (36 + length k + length v) :: u32"
  have "unat ?n = 36 + length k + length v" using assms(2) by (intro unat_of_nat_u32) simp
  moreover have "e = write_u32 ?n @ sealed (record_body off ts k v)" using assms(1) by (simp add: encode_record_iff)
  ultimately show ?thesis unfolding whole_item_def
    by (intro exI [of _ ?n] exI [of _ "sealed (record_body off ts k v)"]) simp
qed

lemma batch_whole_item:
  assumes "length encoded < 1048576"
  shows "whole_item (encode_batch off ts c n u encoded)"
proof -
  let ?n = "of_nat (40 + length encoded) :: u32"
  have "unat ?n = 40 + length encoded" using assms by (intro unat_of_nat_u32) simp
  then show ?thesis unfolding whole_item_def encode_batch_sealed
    by (intro exI [of _ ?n] exI [of _ "sealed (batch_body (codec_wire c) off ts n u encoded)"]) simp
qed

lemma append_lost_ok:
  assumes log: "seeded z log c x" and "calm env" and sc: "sc = TornRecord \<or> sc = PartialBatch \<and> packs_lost z"
  shows "\<exists>donor1 e. append_lost z env ts sc log = Inr donor1 \<and>
    map_of (directory donor1) (segment_path 0) = Some (c @ e) \<and> whole_item e"
proof (cases "sc = TornRecord")
  case True
  have one: "one_segment z log c x" "length c < 4096" "next_offset' log = 3" using log by (simp_all add: seeded_def)
  obtain m log1 e x1 where 1: "append_record env (bytes_of_string ''delta'') (bytes_of_string ''must-not-survive'') log = (Inr m, log1)"
      "one_segment z log1 (c @ e) x1"
      "encode_record (next_offset' log) (unix_time_ns env 0) (bytes_of_string ''delta'') (bytes_of_string ''must-not-survive'') = Inr e"
    using calm_append [OF one(1) assms(2), of "bytes_of_string ''delta''" "bytes_of_string ''must-not-survive''"] one(2,3) by force
  have "whole_item e" by (rule record_whole_item [OF 1(3)]) simp
  moreover have "append_lost z env ts sc log = Inr log1" using True 1(1) by (simp add: append_lost_def)
  moreover have "map_of (directory log1) (segment_path 0) = Some (c @ e)" using 1(2) by (simp add: one_segment_def)
  ultimately show ?thesis by blast
next
  case False
  then have z: "zstd_roundtrip z" "\<exists>out. ZSTD_compress z lost_canonical 3 = Inr out \<and> length out < 1048576"
    using sc by (simp_all add: packs_lost_def)
  then obtain out where out: "compress z Codec_Zstd lost_canonical 3 = Inr out" "length out < 1048576"
    by (auto simp: compress_def)
  have one: "one_segment z log c x" "length c < 4096" using log by (simp_all add: seeded_def)
  have dir: "directory log = [(segment_path 0, c), (index_path 0, x)]" "options' log = proof_options"
    using one(1) by (simp_all add: one_segment_def)
  have unpack: "decompress z Codec_Zstd out 80 1048576 = Inr lost_canonical"
    using decompress_compress [OF z(1) out(1), of 1048576] by (simp add: length_lost_canonical)
  let ?e = "encode_batch (next_offset' log) ts Codec_Zstd 2 80 out"
  have len: "length ?e < 2097152" using out(2) by (simp add: encode_batch_sealed)
  have two: "length lost_records = 2" "lost_records \<noteq> []" by (simp_all add: lost_records_def)
  have fits: "\<not> 268435456 < length c + length ?e" using one(2) len by simp
  have size: "file_size_or_zero [(segment_path 0, c), (index_path 0, x)] (segment_path 0) = length c"
    by (simp add: file_size_or_zero_def)
  have canonical: "encode_record_set (batch_records lost_records) = lost_canonical" by (simp add: lost_canonical_def)
  define run where "run = append_encoded_batch z ts None Codec_Zstd out 80 lost_records log"
  have run1: "\<exists>m. fst run = Inr m"
    unfolding run_def append_encoded_batch_def Let_def canonical dir one_segment_active [OF one(1)] size
    by (simp add: two unpack length_lost_canonical)
  have run2: "map_of (directory (snd run)) (segment_path 0) = Some (c @ ?e)"
    unfolding run_def append_encoded_batch_def Let_def canonical dir one_segment_active [OF one(1)] size
    using fits by (simp add: two unpack length_lost_canonical write_item_def append_file_def file_content_def)
  obtain m donor1 where run: "append_encoded_batch z ts None Codec_Zstd out 80 lost_records log = (Inr m, donor1)"
      "map_of (directory donor1) (segment_path 0) = Some (c @ ?e)"
    using run1 run2 by (cases run) (auto simp: run_def)
  have "append_lost z env ts sc log = Inr donor1"
    using False out(1) run(1) by (simp add: append_lost_def Let_def length_lost_canonical flip: lost_canonical_def)
  then show ?thesis using run(2) batch_whole_item [OF out(2)] by blast
qed

section \<open>Reopening\<close>

lemma reopen_one_segment:
  assumes log: "seeded z log c x" and torn: "torn_item t"
  shows "\<exists>rec y. open_proof_log z [(segment_path 0, c @ t), (index_path 0, x1)] = Inr rec \<and>
    log_inv z rec \<and> readable z rec = readable z log \<and> next_offset' rec = 3 \<and>
    directory rec = [(segment_path 0, c), (index_path 0, y)] \<and> length y = 60 \<and>
    indexes_rebuilt (recovery_stats' rec) = 1 \<and> bytes_truncated (recovery_stats' rec) = length t"
proof -
  let ?fs = "[(segment_path 0, c @ t), (index_path 0, x1)]"
  have one: "one_segment z log c x" "next_offset' log = 3" "length (index' log) = 3" using log by (simp_all add: seeded_def)
  have inv: "log_inv z log" and dir: "directory log = [(segment_path 0, c), (index_path 0, x)]" "options' log = proof_options"
      "\<forall>e \<in> set (index' log). segment e = segment_path 0"
    using one(1) by (simp_all add: one_segment_def)
  have crash: "crash_dir (directory log) 0 t ?fs" by (auto simp: crash_dir_def dir file_content_def)
  have base: "active_base log \<le> 0" using one_segment_active [OF one(1)] by simp
  have opts: "is_valid_topic_name (PartitionLogOptions.topic (options' log))" "max_segment_bytes (options' log) \<noteq> 0"
    using proof_topic_valid by (simp_all add: dir)
  obtain rec where rec: "open_log z proof_options ?fs = Inr rec" "log_inv z rec" "readable z rec = readable z log" "next_offset' rec = 3"
    using reopen_crashed [OF inv base crash torn opts] one(2) dir(2) by auto
  have index: "index' rec = index' log"
    using recover_crash [OF inv [unfolded log_inv_def] base crash torn opts] rec(1) dir(2) by auto
  have "clean_segment z proof_options c"
    using clean_content [OF inv [unfolded log_inv_def], of 0] by (simp add: dir file_content_def)
  then obtain items where scan: "scan_segment z proof_options (c @ t) 0 = (items, if t = [] then fst (snd (scan_segment z proof_options c 0)) else length c, t \<noteq> [])"
    using scan_torn_item [OF _ torn, of z proof_options c]
    by (cases "t = []"; cases "scan_segment z proof_options c 0") (auto simp: clean_segment_def)
  let ?entries = "item_entries (segment_path 0) items"
  let ?y = "concat (map (\<lambda>e. index_entry_bytes (IndexEntry.offset e) (file_position e) (IndexEntry.record_bytes e)) ?entries)"
  have rec_def: "rec = open_active_segment (recover z (PartitionLog.make proof_options ?fs [] (RecoveryStats.make 0 0 0 0 0) 0))"
    using rec(1) by (simp add: open_log_def proof_topic_valid)
  have parts: "index' rec = sort_key IndexEntry.offset ?entries \<and> indexes_rebuilt (recovery_stats' rec) = 1 \<and>
      bytes_truncated (recovery_stats' rec) = length t \<and>
      directory rec = write_item (active_base rec) [] [] [(segment_path 0, c), (index_path 0, ?y)]"
    by (simp add: rec_def open_active_segment_def recover_def PartitionLog.make_def RecoveryStats.make_def list_one_segment
        recover_segment_def Let_def file_content_def scan overwrite_file_def resize_file_def file_size_or_zero_def)
  have "active_base rec = 0" using one_segment_active [OF one(1)] index by simp
  then have "directory rec = [(segment_path 0, c), (index_path 0, ?y)]"
    using parts by (simp add: write_item_def append_file_def file_content_def)
  moreover have "length ?entries = 3"
    using arg_cong [of _ _ length, OF conjunct1 [OF parts]] one(3) index by simp
  then have "length ?y = 60"
    by (simp add: length_concat comp_def index_entry_bytes_def sum_list_triv)
  ultimately show ?thesis using rec parts by (auto simp: open_proof_log_def)
qed

text \<open>Reading the reopened log from the start returns everything it holds.\<close>

lemma read_all:
  assumes "log_inv z rec" "length (readable z rec) \<le> limit"
  shows "read_from z 0 limit 0 rec = Inr (readable z rec)"
  using read_from_prefix [OF assms(1) refl, of 0 limit 0] assms(2) by auto

lemma verify_ok:
  assumes log: "seeded z log c x" and torn: "torn_item t" and t: "t = [] \<longleftrightarrow> sc = StaleIndex"
  shows "verify_crash_recovery z dir [(segment_path 0, c @ t), (index_path 0, x1)] sc =
    Inr (ProofResult.make sc 3 3 (length t) 1 (length c + length t) (length c) 60)"
proof -
  obtain rec y where rec: "open_proof_log z [(segment_path 0, c @ t), (index_path 0, x1)] = Inr rec"
      "log_inv z rec" "readable z rec = readable z log" "next_offset' rec = 3"
      "directory rec = [(segment_path 0, c), (index_path 0, y)]" "length y = 60"
      "indexes_rebuilt (recovery_stats' rec) = 1" "bytes_truncated (recovery_stats' rec) = length t"
    using reopen_one_segment [OF log torn] by blast
  have recs: "length (readable z log) = 3" "committed_prefix (readable z log)" using log by (simp_all add: seeded_def)
  have "read_from z 0 100 0 rec = Inr (readable z log)" using read_all [OF rec(2), of 100] rec(3) recs(1) by simp
  then show ?thesis
    using rec recs t
    by (simp add: verify_crash_recovery_def only_files Let_def kKeys_def proof_index_entry_bytes_def file_size_or_zero_def
        ProofResult.make_def)
qed

section \<open>Properties\<close>

lemma donor_suffix_ok:
  assumes "\<forall>i. calm (env i)" "sc = TornRecord \<or> sc = PartialBatch \<and> packs_lost z"
  shows "\<exists>e. donor_suffix z env ts sc = Inr e \<and> whole_item e"
proof -
  obtain log0 where log0: "open_proof_log z [] = Inr log0" "one_segment z log0 [] []" "next_offset' log0 = 0"
      "index' log0 = []" "readable z log0 = []"
    using open_proof_empty by blast
  obtain log c x where log: "append_seed env log0 = Inr log" "seeded z log c x"
    using append_seed_ok [OF log0(2-5) assms(1)] by blast
  obtain summary where summary: "segment_summaries log = [summary]" "SegmentSummary.log_bytes summary = length c"
      "SegmentSummary.log_path summary = segment_path 0"
    using one_segment_summary [of z log c x] log(2) by (auto simp: seeded_def)
  obtain donor1 e where lost: "append_lost z (env 3) ts sc log = Inr donor1"
      "map_of (directory donor1) (segment_path 0) = Some (c @ e)" "whole_item e"
    using append_lost_ok [OF log(2) _ assms(2)] assms(1) by blast
  have "donor_suffix z env ts sc = Inr e"
    using whole_item_half(3) [OF lost(3)]
    by (simp add: donor_suffix_def log0(1) log(1) summary lost(1,2))
  with lost(3) show ?thesis by blast
qed

text \<open>
  C14: the crash drill of the repository succeeds. For every scenario, when no write of the drill fails and its
  files are younger than the segment age, and, for the batch, zstd packs the records and gives them back, staging
  the crash succeeds, and verification on the staged directory accepts it: three records at the offsets 0 to 2 with
  their keys and values, the index rebuilt to sixty bytes, and exactly the torn bytes cut off the log.
\<close>

theorem crash_drill_succeeds:
  assumes "\<forall>i. calm (env i)" "\<forall>i. calm (donor_env i)" "sc = PartialBatch \<longrightarrow> packs_lost z"
  shows "\<exists>fs n t. stage_crash_state z env donor_env ts None False dir sc = Inr fs \<and>
    verify_crash_recovery z dir fs sc = Inr (ProofResult.make sc 3 3 t 1 (n + t) n 60) \<and>
    (t = 0 \<longleftrightarrow> sc = StaleIndex)"
proof -
  obtain log0 where log0: "open_proof_log z [] = Inr log0" "one_segment z log0 [] []" "next_offset' log0 = 0"
      "index' log0 = []" "readable z log0 = []"
    using open_proof_empty by blast
  obtain log c x where log: "append_seed env log0 = Inr log" "seeded z log c x"
    using append_seed_ok [OF log0(2-5) assms(1)] by blast
  have dir: "directory log = [(segment_path 0, c), (index_path 0, x)]" using log(2) by (simp add: seeded_def one_segment_def)
  obtain t x1 where staged: "stage_crash_state z env donor_env ts None False dir sc =
        Inr [(segment_path 0, c @ t), (index_path 0, x1)]" "torn_item t" "t = [] \<longleftrightarrow> sc = StaleIndex"
  proof (cases "sc = StaleIndex")
    case True
    have "torn_item []" unfolding torn_item_def by (rule exI [of _ 0], rule exI [of _ "[]"], rule exI [of _ 0]) simp
    then show thesis
      using True that [of "[]" "x @ [0, 0, 0, 0, 0, 0, 3]"]
      by (simp add: stage_crash_state_def log0(1) log(1) dir only_files append_file_def file_content_def)
  next
    case False
    then have "sc = TornRecord \<or> sc = PartialBatch \<and> packs_lost z" using assms(3) by (cases sc) auto
    then obtain e where e: "donor_suffix z donor_env ts sc = Inr e" "whole_item e"
      using donor_suffix_ok [OF assms(2)] by blast
    show thesis
      using False that [of "take (max 4 (length e div 2)) e" x] whole_item_half [OF e(2)]
      by (simp add: stage_crash_state_def log0(1) log(1) dir only_files e(1) append_file_def file_content_def)
  qed
  show ?thesis
    using staged(1) verify_ok [OF log(2) staged(2,3), of dir x1] staged(3)
    by (intro exI [of _ "[(segment_path 0, c @ t), (index_path 0, x1)]"] exI [of _ "length c"] exI [of _ "length t"]) simp
qed

theorem crash_drill_succeeds_witness:
  "\<exists>fs n t. stage_crash_state zstd_stored (\<lambda>_. quiet_env) (\<lambda>_. quiet_env) 7 None False ''crash'' PartialBatch = Inr fs \<and>
     verify_crash_recovery zstd_stored ''crash'' fs PartialBatch = Inr (ProofResult.make PartialBatch 3 3 t 1 (n + t) n 60) \<and>
     t \<noteq> 0"
proof -
  have "calm quiet_env" by (simp add: calm_def quiet_env_def)
  moreover have "packs_lost zstd_stored"
    using zstd_stored_roundtrip by (simp add: packs_lost_def zstd_stored_def length_lost_canonical)
  ultimately show ?thesis
    using crash_drill_succeeds [of "\<lambda>_. quiet_env" "\<lambda>_. quiet_env" PartialBatch zstd_stored 7 "''crash''"] by auto
qed

end
