(* ===== verification/Spec2Isabelle.thy ===== *)
theory Spec2Isabelle
  imports Bolt_Admin_Messages Bolt_Log_Properties Bolt_Group_Properties Bolt_Offset_Properties
    Bolt_Queue_Properties Bolt_End_To_End Bolt_Replication_Properties Bolt_Startup_Properties
    Bolt_Options_Properties Bolt_Metrics_Properties Bolt_Client Bolt_Server_Properties
    Bolt_Crash_Proof
begin

text \<open>
  BoltStream is a log-structured message broker in C++. Clients speak a binary protocol of framed requests
  over TCP; the broker keeps each partition of a topic in a segmented append-only log, committed consumer
  offsets in text logs, and the membership of consumer groups in memory. This development models the broker
  from the bytes of a frame down to the bytes of the files and proves what the parts promise to each other.

  \<^bold>\<open>Parts and theories.\<close>
  \<^item> \<open>Bolt_Prelude\<close>, \<open>Bolt_Map\<close>, \<open>Bolt_Text\<close>: the types (bytes as 8-bit words, \<open>u16\<close>, \<open>u32\<close>, \<open>u64\<close>), lemmas on
    lists, words and runs of steps, \<open>std::map\<close> as a sorted association list, decimal text and \<open>std::from_chars\<close>.
  \<^item> \<open>Bolt_Wire\<close>, \<open>Bolt_Frame\<close>, \<open>Bolt_Messages\<close>, \<open>Bolt_Admin_Messages\<close> (\<open>src/src/protocol/protocol.cpp\<close>): payload
    readers and writers, CRC-32, frames, and every request and response payload.
  \<^item> \<open>Bolt_Compression\<close> (\<open>src/src/compression/compression.cpp\<close>): codec checks around zstd.
  \<^item> \<open>Bolt_Records\<close>, \<open>Bolt_Segments\<close>, \<open>Bolt_Log\<close> (\<open>src/src/storage/partition_log.cpp\<close>): the record and batch
    formats, segment and index files, and \<open>PartitionLog\<close> with append, read, recovery and retention.
    \<open>Bolt_Log_Correct\<close>, \<open>Bolt_Recovery\<close>, \<open>Bolt_Batches\<close>, \<open>Bolt_Retention\<close>, \<open>Bolt_Log_Properties\<close>: their proofs.
  \<^item> \<open>Bolt_Groups\<close> (\<open>src/src/broker/group_coordinator.cpp\<close>), with \<open>Bolt_Group_Invariant\<close> and
    \<open>Bolt_Group_Properties\<close>: membership, generations and assignments of consumer groups.
  \<^item> \<open>Bolt_Offsets\<close> (\<open>src/src/storage/offset_store.cpp\<close>), with \<open>Bolt_Offset_Properties\<close>: the store of offsets.
  \<^item> \<open>Bolt_Queues\<close>, with \<open>Bolt_Queue_Properties\<close>: the append queues and the registry of long-poll waiters of
    \<open>src/src/broker/server.cpp\<close>, as step relations whose steps are the critical sections of the code.
  \<^item> \<open>Bolt_Broker\<close> (\<open>BrokerRuntime\<close> of \<open>src/src/broker/server.cpp\<close>): every request on topics, partitions, offsets
    and groups; \<open>Bolt_Fetch_Properties\<close>, \<open>Bolt_Commit_Properties\<close>, \<open>Bolt_Broker_Invariant\<close>.
  \<^item> \<open>Bolt_Startup\<close>, with \<open>Bolt_Startup_Properties\<close>: topic manifests and the loading of the data directory.
  \<^item> \<open>Bolt_Session\<close> (\<open>BrokerProtocolSession\<close>), with \<open>Bolt_Session_Properties\<close>: one handler per request, and the
    connection as a state machine. \<open>Bolt_End_To_End\<close> composes session, broker and log.
  \<^item> \<open>Bolt_Replication\<close> (\<open>src/src/replication/simulation.cpp\<close>), with \<open>Bolt_Replication_Properties\<close>: a leader and
    a follower log, acknowledgement modes, catching up.
  \<^item> \<open>Bolt_Config\<close> (\<open>src/src/config/config.cpp\<close>) and \<open>Bolt_Options\<close> (\<open>src/src/broker/options.cpp\<close>), with
    \<open>Bolt_Options_Properties\<close>: the configuration file and the command line.
  \<^item> \<open>Bolt_Metrics\<close> (\<open>src/src/observability/metrics.cpp\<close> and the snapshot of the runtime), with
    \<open>Bolt_Metrics_Properties\<close>: counters, histograms and consumer lags. \<open>Bolt_Prometheus\<close>: the text of the metrics.
    \<open>Bolt_Logger\<close> (\<open>src/src/observability/logger.cpp\<close>): structured log lines.
  \<^item> \<open>Bolt_Server\<close> (\<open>BrokerServer\<close> of \<open>src/src/broker/server.cpp\<close>, \<open>src/src/common/build_info.cpp\<close>), with
    \<open>Bolt_Server_Properties\<close>: start, accept loops, connection limit, retention timer, HTTP endpoint, stop.
  \<^item> \<open>Bolt_Client\<close> (\<open>src/src/client/async_client.cpp\<close>): the asynchronous client with requests in flight.
  \<^item> \<open>Bolt_Crash_Proof\<close> (\<open>src/src/recovery/proof.cpp\<close>): the crash drill that the repository ships.

  \<^bold>\<open>How the code is translated.\<close> A struct is a record and an enumeration a datatype, whose open values (a cast
  from an integer) are a constructor of their own. Integers keep their width where the code's do; sizes in
  memory are natural numbers. A member function is a function on the record of its object; exceptions and
  early returns are \<open>Inl\<close> of a sum, beside the state that the code leaves behind. Files are byte lists in
  association lists. What the code observes of its environment is an argument: the clock, the ages of files,
  the entries of directories, the answer of a queue, and where a write fails and how much of it reached the
  file. zstd and the YAML library are arguments as well; the hypotheses on zstd are that decompression undoes
  compression and respects its limit, and the witnesses instantiate it with stored blocks. Locks make an
  operation one step; where two critical sections of one operation can interleave with other threads
  (the append path, waiters, connections) they are separate steps of a relation. The server and the client run
  their callbacks on strands: their states change by events, one for each completion that the library can
  deliver, and a run is any list of events that are possible one after the other.

  \<^bold>\<open>Loops.\<close> Loops are structural recursion or have a measure, so no fuel is used. The two loops of the
  replication that wait for the world, catching up and waiting for the follower, are partial functions, and
  the theorems about them show that they return: catching up after at most as many copies as the lag, the
  wait once the clock passes the deadline.

  \<^bold>\<open>Interfaces.\<close> The codecs of fields and payloads are interpretations of the locales \<open>codec\<close>, \<open>message_roundtrip\<close>
  and \<open>message\<close> (a decoder accepts exactly the encodings of valid values), which prove repetition and
  injectivity once. The log is an interpretation of \<open>journal\<close> (a step appends what it acknowledges), the
  coordinator of \<open>epoch\<close> (what is owned changes only with the generation) and the offset store of
  \<open>durable_map\<close> (an acknowledged update survives a crash). The clients' theorems rest on these facts.

  \<^bold>\<open>What is shown.\<close>
  \<^item> Log: a successful append stores exactly the batch, a failed one changes nothing readable, wherever the
    failure was; reads return a prefix of what is stored within the limits; acknowledged records survive a
    crash in the middle of a write; retention keeps a suffix with the newest record; a compressed batch is
    stored whole or not at all; corrupted bytes are rejected.
  \<^item> Groups and offsets: one owner per partition and one committer per generation over all interleavings;
    expiry removes exactly the members that timed out; commits are accepted from the owner inside the log only;
    committed offsets survive crashes; topic removal is exact.
  \<^item> Broker and sessions: topics and logs stay consistent under all requests and append workers; appends of a
    partition keep their order; every request is answered once, in order, under its id; nothing happens before
    authentication; a produced and acknowledged record is fetched byte for byte; a restart on the data
    directory of a crashed broker brings every topic back with its records.
  \<^item> Replication: the follower is a prefix of the leader in every history; an acknowledgement by all means the
    batch is on both.
  \<^item> Configuration and metrics: accepted options are in range, flags and file entries agree on every text, the
    counts of histograms and the lags of groups are exact, and no name that a client chooses adds a line to the
    metrics or to the log.
  \<^item> Server and client: the limit on connections holds under every order of events; the endpoint accepts exactly
    the well-formed request lines; every request of the client is answered once, by the response with its id, and
    leaves in order in a form that the broker decodes. The crash drill succeeds in all of its scenarios.
  \<^item> Flaws: a failed commit that is followed by a successful one loses it, topic removal has a window in which
    a crash loses offsets, a manifest truncated by a crash keeps the broker from starting, one failed accept ends
    the service while the endpoint reports it ready, and a request on a lost connection is never answered.

  \<^bold>\<open>Hypotheses worth knowing.\<close> Offsets do not run out (\<open>offsets_room\<close>); the ages that retention sees follow the order
  of the segments (\<open>older_first\<close>); a crash leaves at most one torn item at the end of a segment (\<open>crash_dir\<close>,
  \<open>torn_item\<close>) and anything in the index files; retention meets no failing removal in the broker's steps.

  \<^bold>\<open>Not modelled.\<close> The command line tools are process entry points around the same protocol and the same log:
  argument parsing, sockets and printing; the wait for a signal, the token in the environment and the usage text
  belong to them. The statistics of the benchmark are floating point summaries, whose rounding has no counterpart
  here. The Python client, containers and scripts are not C++. Which log lines the broker writes is not part of its
  state and is left out of the operations.
\<close>

end
